(* ===== verification/Rmd_Prelude.thy ===== *)
theory Rmd_Prelude
  imports Complex_Main "HOL-Library.Word" "HOL-Library.Char_ord" "HOL-Library.Code_Target_Nat"
begin

text \<open>
  Shared vocabulary of the development: the machine integers and byte strings of
  the Rust sources, the part of the Rust standard library that several
  components call (little-endian integer layouts, splitting and trimming of
  strings, saturating arithmetic), an exact stand-in for \<open>f64\<close>, and the generic
  lemmas on lists and maps that the component theories rest on.

  A Rust \<open>String\<close> is an Isabelle \<open>string\<close> whose characters are the UTF-8 bytes of
  the text, so that \<open>length\<close> is Rust's \<open>len()\<close>.  A \<open>Vec<u8>\<close> is a list of 8-bit
  words.
\<close>

unbundle bit_operations_syntax

lemma unat_u8: "unat (b :: 8 word) < 256"
  using unsigned_less [of b] by simp

section \<open>Machine types\<close>

type_synonym u8 = "8 word"
type_synonym u16 = "16 word"
type_synonym u32 = "32 word"
type_synonym u64 = "64 word"
type_synonym bytes = "u8 list"

named_theorems wire_simps "unfolding rules for wire layouts and message constructors"
named_theorems inv_intros "introduction rules for the components' invariants"
named_theorems str_simps "equations of the string functions of the standard library"

definition str_bytes :: "string \<Rightarrow> bytes" where
  "str_bytes s = map (\<lambda>c. word_of_nat (of_char c)) s"

definition bytes_str :: "bytes \<Rightarrow> string" where
  "bytes_str bs = map (\<lambda>b. char_of (unat b)) bs"

lemma length_str_bytes [simp]: "length (str_bytes s) = length s"
  by (simp add: str_bytes_def)

lemma length_bytes_str [simp]: "length (bytes_str s) = length s"
  by (simp add: bytes_str_def)

lemma str_bytes_Nil [simp]: "str_bytes [] = []"
  by (simp add: str_bytes_def)

lemma str_bytes_append [simp]: "str_bytes (a @ b) = str_bytes a @ str_bytes b"
  by (simp add: str_bytes_def)

lemma of_char_lt_256 [simp]: "(of_char c :: nat) < 256"
  by (rule nat_of_char_less_256)

lemma bytes_str_str_bytes [simp]: "bytes_str (str_bytes s) = s"
proof -
  have "unat (word_of_nat (of_char c) :: u8) = of_char c" for c
    using of_char_lt_256 [of c] by (simp add: unat_of_nat take_bit_nat_eq_self)
  then show ?thesis by (simp add: bytes_str_def str_bytes_def comp_def)
qed

lemma str_bytes_bytes_str [simp]: "str_bytes (bytes_str bs) = bs"
proof (induction bs)
  case (Cons b bs)
  have "unat b < 256" by (rule unat_u8)
  then have "word_of_nat (of_char (char_of (unat b) :: char)) = b"
    by (simp add: of_char_of)
  then show ?case using Cons by (simp add: bytes_str_def str_bytes_def)
qed (simp add: bytes_str_def str_bytes_def)

lemma str_bytes_inject [simp]: "str_bytes a = str_bytes b \<longleftrightarrow> a = b"
  by (metis bytes_str_str_bytes)

section \<open>Little-endian integers\<close>

text \<open>\<open>to_le_bytes\<close> and \<open>from_le_bytes\<close>, at any number of bytes; \<open>be_bytes\<close> is the
  big-endian layout.\<close>

fun le_bytes :: "nat \<Rightarrow> nat \<Rightarrow> bytes" where
  "le_bytes 0 v = []"
| "le_bytes (Suc n) v = word_of_nat (v mod 256) # le_bytes n (v div 256)"

fun le_value :: "bytes \<Rightarrow> nat" where
  "le_value [] = 0"
| "le_value (b # bs) = unat b + 256 * le_value bs"

definition be_bytes :: "nat \<Rightarrow> nat \<Rightarrow> bytes" where
  "be_bytes n v = rev (le_bytes n v)"

lemma length_le_bytes [simp]: "length (le_bytes n v) = n"
  by (induction n arbitrary: v) auto

lemma length_be_bytes [simp]: "length (be_bytes n v) = n"
  by (simp add: be_bytes_def)

lemma le_value_le_bytes: "le_value (le_bytes n v) = v mod 256 ^ n"
proof (induction n arbitrary: v)
  case (Suc n)
  have "unat (word_of_nat (v mod 256) :: u8) = v mod 256"
    by (simp add: unat_of_nat)
  then show ?case using Suc by (simp add: mod_mult2_eq)
qed simp

lemma le_bytes_le_value: "length bs = n \<Longrightarrow> le_bytes n (le_value bs) = bs"
proof (induction n arbitrary: bs)
  case (Suc n)
  then obtain b bs' where bs: "bs = b # bs'" "length bs' = n" by (cases bs) auto
  have "unat b < 256" by (rule unat_u8)
  then show ?case using Suc.IH [OF bs(2)] bs by simp
qed simp

lemma le_value_bound: "le_value bs < 256 ^ length bs"
proof (induction bs)
  case (Cons b bs)
  have "unat b < 256" by (rule unat_u8)
  then show ?case using Cons by simp
qed simp

lemma le_bytes_eq_iff:
  assumes "a < 256 ^ n" "b < 256 ^ n"
  shows "le_bytes n a = le_bytes n b \<longleftrightarrow> a = b"
  by (metis assms le_value_le_bytes mod_less)

lemma be_bytes_eq_iff:
  "a < 256 ^ n \<Longrightarrow> b < 256 ^ n \<Longrightarrow> be_bytes n a = be_bytes n b \<longleftrightarrow> a = b"
  by (simp add: be_bytes_def le_bytes_eq_iff)

section \<open>Saturating arithmetic\<close>

definition sat_add :: "'a::len word \<Rightarrow> 'a word \<Rightarrow> 'a word" where
  "sat_add a b = (if unat a + unat b < 2 ^ LENGTH('a) then a + b else - 1)"

definition sat_sub :: "'a::len word \<Rightarrow> 'a word \<Rightarrow> 'a word" where
  "sat_sub a b = (if b \<le> a then a - b else 0)"

lemma unat_sat_add:
  "unat (sat_add (a :: 'a::len word) b) = min (unat a + unat b) (2 ^ LENGTH('a) - 1)"
  by (auto simp: sat_add_def unat_word_ariths unsigned_minus_1_eq_mask mask_eq_exp_minus_1 min_def)

lemma unat_sat_sub: "unat (sat_sub a b) = unat a - unat b"
  by (auto simp: sat_sub_def unat_sub word_le_nat_alt)

section \<open>Strings\<close>

text \<open>\<open>str::rsplit(..).next()\<close>: the segment after the last separator.\<close>

definition last_segment :: "(char \<Rightarrow> bool) \<Rightarrow> string \<Rightarrow> string" where
  "last_segment sep s = rev (takeWhile (\<lambda>c. \<not> sep c) (rev s))"

text \<open>\<open>str::trim_matches\<close>: drop matching characters at both ends.\<close>

definition trim_matches :: "(char \<Rightarrow> bool) \<Rightarrow> string \<Rightarrow> string" where
  "trim_matches p s = rev (dropWhile p (rev (dropWhile p s)))"

text \<open>\<open>str::split(c)\<close>: all the segments, empty ones included.\<close>

fun split_on :: "char \<Rightarrow> string \<Rightarrow> string list" where
  "split_on c [] = [[]]"
| "split_on c (x # xs) =
    (if x = c then [] # split_on c xs
     else (case split_on c xs of [] \<Rightarrow> [[x]] | s # ss \<Rightarrow> (x # s) # ss))"

text \<open>\<open>str::split_once(c)\<close>.\<close>

fun split_once :: "char \<Rightarrow> string \<Rightarrow> (string \<times> string) option" where
  "split_once c [] = None"
| "split_once c (x # xs) =
    (if x = c then Some ([], xs)
     else (case split_once c xs of None \<Rightarrow> None | Some (a, b) \<Rightarrow> Some (x # a, b)))"

definition strip_prefix :: "string \<Rightarrow> string \<Rightarrow> string option" where
  "strip_prefix p s = (if take (length p) s = p then Some (drop (length p) s) else None)"

definition starts_with :: "string \<Rightarrow> string \<Rightarrow> bool" where
  "starts_with p s = (take (length p) s = p)"

definition ends_with :: "string \<Rightarrow> string \<Rightarrow> bool" where
  "ends_with p s = (length p \<le> length s \<and> drop (length s - length p) s = p)"

text \<open>\<open>str::trim\<close>: drop the characters with the Unicode \<open>White_Space\<close> property, as their
  UTF-8 encodings, at both ends.\<close>

definition ws_seqs :: "string list" where
  "ws_seqs = map (map char_of)
    [[9 :: nat], [10], [11], [12], [13], [32], [0xC2, 0x85], [0xC2, 0xA0], [0xE1, 0x9A, 0x80],
     [0xE2, 0x80, 0x80], [0xE2, 0x80, 0x81], [0xE2, 0x80, 0x82], [0xE2, 0x80, 0x83],
     [0xE2, 0x80, 0x84], [0xE2, 0x80, 0x85], [0xE2, 0x80, 0x86], [0xE2, 0x80, 0x87],
     [0xE2, 0x80, 0x88], [0xE2, 0x80, 0x89], [0xE2, 0x80, 0x8A], [0xE2, 0x80, 0xA8],
     [0xE2, 0x80, 0xA9], [0xE2, 0x80, 0xAF], [0xE2, 0x81, 0x9F], [0xE3, 0x80, 0x80]]"

function strip_heads :: "string list \<Rightarrow> string \<Rightarrow> string" where
  "strip_heads ps s =
    (case find (\<lambda>p. p \<noteq> [] \<and> p = take (length p) s) ps of
       None \<Rightarrow> s
     | Some p \<Rightarrow> strip_heads ps (drop (length p) s))"
  by pat_completeness auto
termination
  by (relation "measure (\<lambda>(ps, s). length s)")
     (auto simp: find_Some_iff, metis drop_eq_Nil2 length_greater_0_conv less_le_not_le
        diff_less length_drop take_eq_Nil)

declare strip_heads.simps [simp del]

definition trim_start :: "string \<Rightarrow> string" where
  "trim_start s = strip_heads ws_seqs s"

definition trim_end :: "string \<Rightarrow> string" where
  "trim_end s = rev (strip_heads (map rev ws_seqs) (rev s))"

definition trim :: "string \<Rightarrow> string" where
  "trim s = trim_end (trim_start s)"

text \<open>Characters that are never whitespace nor part of its encoding.\<close>

definition graph_char :: "char \<Rightarrow> bool" where
  "graph_char c = (33 \<le> (of_char c :: nat) \<and> (of_char c :: nat) \<le> 126)"

definition ascii_lower :: "char \<Rightarrow> char" where
  "ascii_lower c =
    (if of_char c \<ge> (65 :: nat) \<and> of_char c \<le> (90 :: nat) then char_of (of_char c + 32 :: nat) else c)"

definition digit_char :: "nat \<Rightarrow> char" where
  "digit_char d = char_of (48 + d)"

definition is_digit :: "char \<Rightarrow> bool" where
  "is_digit c = (48 \<le> (of_char c :: nat) \<and> (of_char c :: nat) \<le> 57)"

text \<open>Decimal rendering of a natural number, the \<open>{}\<close> of \<open>format!\<close>.\<close>

fun show_nat :: "nat \<Rightarrow> string" where
  "show_nat n = (if n < 10 then [digit_char n] else show_nat (n div 10) @ [digit_char (n mod 10)])"

declare show_nat.simps [simp del]

definition digits_value :: "string \<Rightarrow> nat" where
  "digits_value s = foldl (\<lambda>a c. 10 * a + (of_char c - 48)) 0 s"

text \<open>\<open>str::parse\<close> for an unsigned integer of \<open>w\<close> bits: an optional plus sign, then
  digits only, of a value that fits.\<close>

definition parse_uint :: "nat \<Rightarrow> string \<Rightarrow> nat option" where
  "parse_uint w s =
    (let d = (case s of [] \<Rightarrow> [] | c # r \<Rightarrow> if c = CHR ''+'' then r else s)
     in if d \<noteq> [] \<and> list_all is_digit d \<and> digits_value d < 2 ^ w then Some (digits_value d) else None)"

lemma last_segment_no_sep: "c \<in> set (last_segment sep s) \<Longrightarrow> \<not> sep c"
  by (auto simp: last_segment_def dest: set_takeWhileD)

lemma set_dropWhileD: "x \<in> set (dropWhile p xs) \<Longrightarrow> x \<in> set xs"
  by (induction xs) (auto split: if_splits)

lemma set_trim_matches: "c \<in> set (trim_matches p s) \<Longrightarrow> c \<in> set s"
  by (auto simp: trim_matches_def dest!: set_dropWhileD)

lemma trim_matches_hd:
  assumes "trim_matches p s \<noteq> []"
  shows "\<not> p (hd (trim_matches p s))"
proof -
  define d where "d = dropWhile p s"
  have t: "trim_matches p s = rev (dropWhile p (rev d))" by (simp add: trim_matches_def d_def)
  obtain pre where pre: "d = trim_matches p s @ pre"
    using t by (metis rev_append rev_rev_ident takeWhile_dropWhile_id)
  then have "d \<noteq> []" and "hd d = hd (trim_matches p s)" using assms by auto
  then show ?thesis using hd_dropWhile [of p s] d_def by simp
qed

lemma trim_matches_last:
  assumes "trim_matches p s \<noteq> []"
  shows "\<not> p (last (trim_matches p s))"
  using assms by (simp add: trim_matches_def last_rev hd_dropWhile)

lemma split_on_not_Nil [simp]: "split_on c s \<noteq> []"
  by (induction s) (auto split: list.splits)

lemma digits_value_snoc:
  "digits_value (s @ [c]) = 10 * digits_value s + (of_char c - 48)"
  by (simp add: digits_value_def)

lemma of_char_digit_char [simp]: "d < 10 \<Longrightarrow> of_char (digit_char d) = 48 + d"
  by (simp add: digit_char_def of_char_of)

lemma is_digit_digit_char [simp]: "d < 10 \<Longrightarrow> is_digit (digit_char d)"
  by (simp add: is_digit_def)

lemma show_nat_digits: "list_all is_digit (show_nat n)"
proof (induction n rule: show_nat.induct)
  case (1 n)
  then show ?case by (subst show_nat.simps) auto
qed

lemma show_nat_value: "digits_value (show_nat n) = n"
proof (induction n rule: show_nat.induct)
  case (1 n)
  show ?case
  proof (cases "n < 10")
    case True
    then show ?thesis by (subst show_nat.simps) (simp add: digits_value_def)
  next
    case False
    then show ?thesis using 1 by (subst show_nat.simps) (simp add: digits_value_snoc)
  qed
qed

lemma show_nat_inject [simp]: "show_nat a = show_nat b \<longleftrightarrow> a = b"
  by (metis show_nat_value)

lemma show_nat_not_Nil [simp]: "show_nat n \<noteq> []"
  by (subst show_nat.simps) auto

text \<open>A string that ends its digits at a separator determines the number and the rest.\<close>

lemma digits_sep_eq:
  assumes "list_all is_digit a" "list_all is_digit b" "\<not> is_digit c"
    and "a @ c # x = b @ c # y"
  shows "a = b \<and> x = y"
  using assms
proof (induction a arbitrary: b)
  case Nil
  then show ?case by (cases b) auto
next
  case (Cons d a)
  then show ?case by (cases b) auto
qed

lemma ws_seqs_ends: "list_all (\<lambda>p. p \<noteq> [] \<and> \<not> graph_char (hd p) \<and> \<not> graph_char (last p)) ws_seqs"
  by code_simp

lemma strip_heads_id:
  assumes "\<And>p. p \<in> set ps \<Longrightarrow> p \<noteq> [] \<and> \<not> graph_char (hd p)" "s = [] \<or> graph_char (hd s)"
  shows "strip_heads ps s = s"
proof -
  have "find (\<lambda>p. p \<noteq> [] \<and> p = take (length p) s) ps = None"
  proof (rule ccontr)
    assume "find (\<lambda>p. p \<noteq> [] \<and> p = take (length p) s) ps \<noteq> None"
    then obtain p where p: "p \<in> set ps" "p \<noteq> []" "p = take (length p) s"
      by (auto simp: find_None_iff)
    then have "s \<noteq> []" "hd p = hd s" by (auto, metis hd_take length_greater_0_conv)
    moreover have "\<not> graph_char (hd p)" using assms(1) [OF p(1)] by simp
    ultimately show False using assms(2) by simp
  qed
  then show ?thesis by (subst strip_heads.simps) simp
qed

lemma trim_id:
  assumes "s = [] \<or> graph_char (hd s)" "s = [] \<or> graph_char (last s)"
  shows "trim s = s"
proof -
  have "trim_start s = s"
    unfolding trim_start_def using ws_seqs_ends assms(1)
    by (intro strip_heads_id) (auto simp: list_all_iff)
  moreover have "strip_heads (map rev ws_seqs) (rev s) = rev s"
    using ws_seqs_ends assms(2) by (intro strip_heads_id) (auto simp: list_all_iff hd_rev)
  ultimately show ?thesis by (simp add: trim_def trim_end_def)
qed

text \<open>\<open>str::lines\<close>: split at newlines, the last empty piece dropped, one trailing carriage
  return of each line dropped.\<close>

definition strip_cr :: "string \<Rightarrow> string" where
  "strip_cr s = (if s \<noteq> [] \<and> last s = char_of (13 :: nat) then butlast s else s)"

definition lines :: "string \<Rightarrow> string list" where
  "lines s =
    (let ps = split_on (char_of (10 :: nat)) s
     in map strip_cr (if last ps = [] then butlast ps else ps))"

section \<open>UTF-8\<close>

text \<open>Length of the well-formed scalar at the head of a byte string.\<close>

definition cont :: "nat \<Rightarrow> nat \<Rightarrow> bytes \<Rightarrow> nat \<Rightarrow> bool" where
  "cont lo hi bs i = (i < length bs \<and> lo \<le> unat (bs ! i) \<and> unat (bs ! i) \<le> hi)"

definition utf8_head :: "bytes \<Rightarrow> nat option" where
  "utf8_head bs =
    (case bs of [] \<Rightarrow> None | b # _ \<Rightarrow>
       let n = unat b in
       if n < 0x80 then Some 1
       else if 0xC2 \<le> n \<and> n \<le> 0xDF \<and> cont 0x80 0xBF bs 1 then Some 2
       else if n = 0xE0 \<and> cont 0xA0 0xBF bs 1 \<and> cont 0x80 0xBF bs 2 then Some 3
       else if n = 0xED \<and> cont 0x80 0x9F bs 1 \<and> cont 0x80 0xBF bs 2 then Some 3
       else if 0xE1 \<le> n \<and> n \<le> 0xEF \<and> n \<noteq> 0xED \<and> cont 0x80 0xBF bs 1 \<and> cont 0x80 0xBF bs 2 then Some 3
       else if n = 0xF0 \<and> cont 0x90 0xBF bs 1 \<and> cont 0x80 0xBF bs 2 \<and> cont 0x80 0xBF bs 3 then Some 4
       else if 0xF1 \<le> n \<and> n \<le> 0xF3 \<and> cont 0x80 0xBF bs 1 \<and> cont 0x80 0xBF bs 2 \<and> cont 0x80 0xBF bs 3 then Some 4
       else if n = 0xF4 \<and> cont 0x80 0x8F bs 1 \<and> cont 0x80 0xBF bs 2 \<and> cont 0x80 0xBF bs 3 then Some 4
       else None)"

fun utf8_fuel :: "nat \<Rightarrow> bytes \<Rightarrow> bool" where
  "utf8_fuel n [] = True"
| "utf8_fuel 0 (b # bs) = False"
| "utf8_fuel (Suc n) (b # bs) =
    (case utf8_head (b # bs) of None \<Rightarrow> False | Some k \<Rightarrow> utf8_fuel n (drop k (b # bs)))"

definition utf8_valid :: "bytes \<Rightarrow> bool" where
  "utf8_valid bs = utf8_fuel (length bs) bs"

definition from_utf8 :: "bytes \<Rightarrow> string option" where
  "from_utf8 bs = (if utf8_valid bs then Some (bytes_str bs) else None)"

lemma utf8_ascii_aux: "\<forall>b\<in>set bs. unat b < 0x80 \<Longrightarrow> length bs \<le> n \<Longrightarrow> utf8_fuel n bs"
proof (induction n arbitrary: bs)
  case (Suc n)
  then show ?case by (cases bs) (auto simp: utf8_head_def)
qed simp

lemma utf8_ascii: "\<forall>b\<in>set bs. unat b < 0x80 \<Longrightarrow> utf8_valid bs"
  by (simp add: utf8_valid_def utf8_ascii_aux)

lemma utf8_ascii_str:
  assumes "\<forall>c\<in>set s. (of_char c :: nat) < 0x80" shows "utf8_valid (str_bytes s)"
proof (rule utf8_ascii, rule ballI)
  fix b assume "b \<in> set (str_bytes s)"
  then obtain c where c: "c \<in> set s" "b = word_of_nat (of_char c)" by (auto simp: str_bytes_def)
  then have "unat b = of_char c" by (simp add: unat_of_nat take_bit_nat_eq_self)
  then show "unat b < 0x80" using assms c by simp
qed

section \<open>Floating point\<close>

text \<open>
  An \<open>f64\<close> as an exact number: a rational, one of the infinities, or NaN.  The
  special values follow IEEE 754 as Rust exposes it; rounding of a finite result,
  overflow to infinity and the sign of zero are not modelled.
\<close>

datatype f64 = NaN | PInf | NInf | Fin rat

fun f_lt :: "f64 \<Rightarrow> f64 \<Rightarrow> bool" where
  "f_lt (Fin a) (Fin b) = (a < b)"
| "f_lt (Fin a) PInf = True"
| "f_lt NInf (Fin b) = True"
| "f_lt NInf PInf = True"
| "f_lt _ _ = False"

fun f_eq :: "f64 \<Rightarrow> f64 \<Rightarrow> bool" where
  "f_eq (Fin a) (Fin b) = (a = b)"
| "f_eq PInf PInf = True"
| "f_eq NInf NInf = True"
| "f_eq _ _ = False"

definition f_le :: "f64 \<Rightarrow> f64 \<Rightarrow> bool" where
  "f_le a b = (f_lt a b \<or> f_eq a b)"

text \<open>\<open>f64::max\<close> and \<open>f64::min\<close> return the other operand when one is NaN;
  \<open>f64::clamp\<close> returns NaN for NaN.\<close>

definition f_max :: "f64 \<Rightarrow> f64 \<Rightarrow> f64" where
  "f_max a b = (if a = NaN then b else if b = NaN then a else if f_lt a b then b else a)"

definition f_min :: "f64 \<Rightarrow> f64 \<Rightarrow> f64" where
  "f_min a b = (if a = NaN then b else if b = NaN then a else if f_lt b a then b else a)"

definition f_clamp :: "f64 \<Rightarrow> f64 \<Rightarrow> f64 \<Rightarrow> f64" where
  "f_clamp x lo hi = (if f_lt x lo then lo else if f_lt hi x then hi else x)"

fun f_add :: "f64 \<Rightarrow> f64 \<Rightarrow> f64" where
  "f_add (Fin a) (Fin b) = Fin (a + b)"
| "f_add NaN b = NaN"
| "f_add a NaN = NaN"
| "f_add PInf NInf = NaN"
| "f_add NInf PInf = NaN"
| "f_add PInf b = PInf"
| "f_add NInf b = NInf"
| "f_add a PInf = PInf"
| "f_add a NInf = NInf"

fun f_neg :: "f64 \<Rightarrow> f64" where
  "f_neg (Fin a) = Fin (- a)"
| "f_neg PInf = NInf"
| "f_neg NInf = PInf"
| "f_neg NaN = NaN"

definition f_sub :: "f64 \<Rightarrow> f64 \<Rightarrow> f64" where
  "f_sub a b = f_add a (f_neg b)"

fun f_mul :: "f64 \<Rightarrow> f64 \<Rightarrow> f64" where
  "f_mul (Fin a) (Fin b) = Fin (a * b)"
| "f_mul NaN b = NaN"
| "f_mul a NaN = NaN"
| "f_mul (Fin a) i = (if a = 0 then NaN else if a > 0 then i else f_neg i)"
| "f_mul i (Fin a) = (if a = 0 then NaN else if a > 0 then i else f_neg i)"
| "f_mul PInf i = i"
| "f_mul NInf i = f_neg i"

text \<open>\<open>as i64\<close>/\<open>as u32\<close>-style casts: truncate toward zero, saturate, NaN to zero.\<close>

definition rat_trunc :: "rat \<Rightarrow> int" where
  "rat_trunc r = (if r < 0 then - \<lfloor>- r\<rfloor> else \<lfloor>r\<rfloor>)"

fun f_to_int :: "int \<Rightarrow> int \<Rightarrow> f64 \<Rightarrow> int" where
  "f_to_int lo hi NaN = 0"
| "f_to_int lo hi PInf = hi"
| "f_to_int lo hi NInf = lo"
| "f_to_int lo hi (Fin r) = max lo (min hi (rat_trunc r))"

text \<open>\<open>f64::round\<close>: half away from zero.\<close>

fun f_round :: "f64 \<Rightarrow> f64" where
  "f_round (Fin r) = Fin (of_int (if r < 0 then - \<lfloor>- r + 1/2\<rfloor> else \<lfloor>r + 1/2\<rfloor>))"
| "f_round x = x"

lemma f_to_int_bounds: "lo \<le> 0 \<Longrightarrow> 0 \<le> hi \<Longrightarrow> lo \<le> f_to_int lo hi x \<and> f_to_int lo hi x \<le> hi"
  by (cases x) auto

lemma f_clamp_Fin:
  "lo \<le> hi \<Longrightarrow> x \<noteq> NaN \<Longrightarrow> \<exists>r. f_clamp x (Fin lo) (Fin hi) = Fin r \<and> lo \<le> r \<and> r \<le> hi"
  by (cases x) (auto simp: f_clamp_def)

lemma f_clamp_NaN [simp]: "f_clamp NaN lo hi = NaN"
  by (simp add: f_clamp_def)

section \<open>Lists and maps\<close>

lemma map_upd_other [simp]: "k \<noteq> k' \<Longrightarrow> (m(k := v)) k' = m k'"
  by simp

lemma filter_length_le1:
  "distinct xs \<Longrightarrow> length (filter (\<lambda>x. x = a) xs) \<le> 1"
  by (induction xs) (auto simp: filter_empty_conv)

lemma take_append_drop_eq: "take n xs = ys \<Longrightarrow> length ys = n \<Longrightarrow> xs = ys @ drop n xs"
  by (metis append_take_drop_id)

lemma list_all2_refl_eq: "list_all2 (=) xs ys \<longleftrightarrow> xs = ys"
  by (simp add: list.rel_eq)

section \<open>Concatenation of UTF-8\<close>

lemma cont_append: "cont lo hi bs i \<Longrightarrow> cont lo hi (bs @ cs) i"
  by (auto simp: cont_def nth_append)

lemma utf8_head_append:
  assumes "utf8_head bs = Some k" shows "utf8_head (bs @ cs) = Some k"
proof (cases bs)
  case (Cons b r)
  have c: "cont lo hi (b # r) i \<Longrightarrow> cont lo hi (b # r @ cs) i" for lo hi i
    using cont_append [of lo hi "b # r" i cs] by simp
  show ?thesis using assms c unfolding Cons utf8_head_def by (auto simp: Let_def split: if_splits)
qed (use assms in \<open>simp add: utf8_head_def\<close>)

lemma utf8_head_le: "utf8_head bs = Some k \<Longrightarrow> 0 < k \<and> k \<le> length bs"
  by (cases bs) (auto simp: utf8_head_def Let_def cont_def Suc_le_eq split: if_splits)

lemma utf8_fuel_append:
  "utf8_fuel n bs \<Longrightarrow> utf8_fuel m cs \<Longrightarrow> utf8_fuel (n + m) (bs @ cs)"
proof (induction n bs rule: utf8_fuel.induct)
  case (1 n)
  have "utf8_fuel m cs \<Longrightarrow> utf8_fuel (n + m) cs" for n
  proof (induction m cs arbitrary: n rule: utf8_fuel.induct)
    case (3 m b bs)
    then show ?case by (auto split: option.splits)
  qed simp_all
  then show ?case using 1 by simp
next
  case (3 n b bs)
  then obtain k where k: "utf8_head (b # bs) = Some k" "utf8_fuel n (drop k (b # bs))"
    by (auto split: option.splits)
  have "utf8_head ((b # bs) @ cs) = Some k" by (rule utf8_head_append [OF k(1)])
  moreover have "drop k ((b # bs) @ cs) = drop k (b # bs) @ cs"
    unfolding drop_append using utf8_head_le [OF k(1)] by simp
  ultimately show ?case using 3 k by simp
qed simp

lemma utf8_append: "utf8_valid a \<Longrightarrow> utf8_valid b \<Longrightarrow> utf8_valid (a @ b)"
  by (simp add: utf8_valid_def utf8_fuel_append)

section \<open>Lines\<close>

lemma split_on_append: "split_on c (a @ c # b) = split_on c a @ split_on c b"
proof (induction a)
  case (Cons x a)
  then show ?case by (cases "split_on c a") auto
qed simp

lemma split_on_id: "c \<notin> set s \<Longrightarrow> split_on c s = [s]"
  by (induction s) auto

lemma lines_append_line:
  assumes "s = [] \<or> last s = char_of (10 :: nat)" "char_of (10 :: nat) \<notin> set l"
  shows "lines (s @ l @ [char_of (10 :: nat)]) = lines s @ [strip_cr l]"
proof (cases "s = []")
  case True
  have "split_on (char_of (10 :: nat)) (l @ char_of (10 :: nat) # []) = [l, []]"
    unfolding split_on_append using assms(2) by (simp add: split_on_id)
  then show ?thesis using True by (simp add: lines_def Let_def)
next
  case False
  then obtain s' where s: "s = s' @ [char_of (10 :: nat)]"
    using assms(1) by (metis append_butlast_last_id)
  have "split_on (char_of (10 :: nat)) s = split_on (char_of (10 :: nat)) s' @ [[]]"
    using split_on_append [of "char_of (10 :: nat)" s' "[]"] by (simp add: s)
  moreover have "split_on (char_of (10 :: nat)) (s @ l @ [char_of (10 :: nat)])
      = split_on (char_of (10 :: nat)) s' @ [l, []]"
    using split_on_append [of "char_of (10 :: nat)" s' "l @ [char_of (10 :: nat)]"]
      split_on_append [of "char_of (10 :: nat)" l "[]"] assms(2)
    by (simp add: s split_on_id)
  ultimately show ?thesis by (simp add: lines_def Let_def butlast_append)
qed

lemma split_once_append: "c \<notin> set a \<Longrightarrow> split_once c (a @ c # b) = Some (a, b)"
  by (induction a) auto

lemma trim_graph: "(\<And>c. c \<in> set s \<Longrightarrow> graph_char c) \<Longrightarrow> trim s = s"
  by (cases "s = []") (auto intro!: trim_id)

end
