(* ===== verification/Crypto.thy ===== *)
theory Crypto
  imports Rmd_Prelude
begin

text \<open>
  The cryptographic crates the sources call (\<open>sha2\<close>, \<open>hkdf\<close>, \<open>ed25519-dalek\<close>,
  \<open>argon2\<close>, \<open>chacha20poly1305\<close>, \<open>hex\<close>) are not part of the repository: they are the
  fields of a record that the definitions take as an argument, and \<open>crypto_ok\<close> is the
  documented behaviour the theorems may assume.  The constant-time comparisons the
  sources write themselves share one interface, the locale \<open>ct_equality\<close>.
\<close>

record crypto =
  cx_sha256 :: "bytes \<Rightarrow> bytes"
  cx_hkdf :: "bytes option \<Rightarrow> bytes \<Rightarrow> bytes \<Rightarrow> nat \<Rightarrow> bytes"
  cx_valid_key :: "bytes \<Rightarrow> bool"
  cx_public :: "bytes \<Rightarrow> bytes"
  cx_sign :: "bytes \<Rightarrow> bytes \<Rightarrow> bytes"
  cx_verify :: "bytes \<Rightarrow> bytes \<Rightarrow> bytes \<Rightarrow> bool"
  cx_argon2 :: "bytes \<Rightarrow> bytes \<Rightarrow> bytes option"
  cx_seal :: "bytes \<Rightarrow> bytes \<Rightarrow> bytes \<Rightarrow> bytes option"
  cx_open :: "bytes \<Rightarrow> bytes \<Rightarrow> bytes \<Rightarrow> bytes option"
  cx_hex :: "bytes \<Rightarrow> string"
  cx_unhex :: "string \<Rightarrow> bytes option"

text \<open>Documented behaviour: digest and signature sizes, signatures of a key verify under its
  public half, sealing is undone by opening with the same key and nonce, and hexadecimal
  is reversible and made of hexadecimal digits.\<close>

definition hex_char :: "char \<Rightarrow> bool" where
  "hex_char c \<longleftrightarrow> is_digit c \<or> (97 \<le> (of_char c :: nat) \<and> (of_char c :: nat) \<le> 102)"

definition crypto_ok :: "crypto \<Rightarrow> bool" where
  "crypto_ok cx \<longleftrightarrow>
     (\<forall>b. length (cx_sha256 cx b) = 32)
   \<and> (\<forall>s. length s = 32 \<longrightarrow> length (cx_public cx s) = 32 \<and> cx_valid_key cx (cx_public cx s))
   \<and> (\<forall>s m. length (cx_sign cx s m) = 64)
   \<and> (\<forall>s m. length s = 32 \<longrightarrow> cx_verify cx (cx_public cx s) m (cx_sign cx s m))
   \<and> (\<forall>k n p c. cx_seal cx k n p = Some c \<longrightarrow> cx_open cx k n c = Some p \<and> length c = length p + 16)
   \<and> (\<forall>b. cx_unhex cx (cx_hex cx b) = Some b \<and> length (cx_hex cx b) = 2 * length b
        \<and> (\<forall>c\<in>set (cx_hex cx b). hex_char c))"

lemma crypto_okD:
  assumes "crypto_ok cx"
  shows "length (cx_sha256 cx b) = 32"
    and "length s = 32 \<Longrightarrow> length (cx_public cx s) = 32"
    and "length s = 32 \<Longrightarrow> cx_valid_key cx (cx_public cx s)"
    and "length (cx_sign cx s m) = 64"
    and "length s = 32 \<Longrightarrow> cx_verify cx (cx_public cx s) m (cx_sign cx s m)"
    and "cx_seal cx k n p = Some c \<Longrightarrow> cx_open cx k n c = Some p"
    and "cx_seal cx k n p = Some c \<Longrightarrow> length c = length p + 16"
    and "cx_unhex cx (cx_hex cx b) = Some b"
    and "length (cx_hex cx b) = 2 * length b"
    and "c' \<in> set (cx_hex cx b) \<Longrightarrow> hex_char c'"
  using assms unfolding crypto_ok_def by blast+

text \<open>A concrete instance, for the examples.\<close>

definition fit :: "nat \<Rightarrow> bytes \<Rightarrow> bytes" where
  "fit n bs = take n (bs @ replicate n 0)"

definition demo_nibble :: "nat \<Rightarrow> char" where
  "demo_nibble n = (if n < 10 then char_of (48 + n) else char_of (87 + n))"

definition demo_unnibble :: "char \<Rightarrow> nat" where
  "demo_unnibble c = (if (of_char c :: nat) < 58 then of_char c - 48 else of_char c - 87)"

fun demo_unhex :: "string \<Rightarrow> bytes option" where
  "demo_unhex [] = Some []"
| "demo_unhex [c] = None"
| "demo_unhex (a # b # s) =
    map_option (\<lambda>r. of_nat (16 * demo_unnibble a + demo_unnibble b) # r) (demo_unhex s)"

definition demo_hex :: "bytes \<Rightarrow> string" where
  "demo_hex bs = concat (map (\<lambda>b. [demo_nibble (unat b div 16), demo_nibble (unat b mod 16)]) bs)"

definition demo_crypto :: crypto where
  "demo_crypto = \<lparr>
     cx_sha256 = fit 32,
     cx_hkdf = (\<lambda>salt ikm info n. fit n (info @ ikm)),
     cx_valid_key = (\<lambda>k. True),
     cx_public = (\<lambda>s. s),
     cx_sign = (\<lambda>s m. fit 64 (s @ m)),
     cx_verify = (\<lambda>k m sig. sig = fit 64 (k @ m)),
     cx_argon2 = (\<lambda>p salt. Some (fit 32 (p @ salt))),
     cx_seal = (\<lambda>k n p. Some (p @ fit 16 k)),
     cx_open = (\<lambda>k n c. if 16 \<le> length c \<and> drop (length c - 16) c = fit 16 k
                        then Some (take (length c - 16) c) else None),
     cx_hex = demo_hex,
     cx_unhex = demo_unhex \<rparr>"

lemma length_fit [simp]: "length (fit n b) = n"
  by (simp add: fit_def)

lemma of_char_nibble: "n < 16 \<Longrightarrow> of_char (demo_nibble n) = (if n < 10 then 48 + n else 87 + n)"
  by (simp add: demo_nibble_def of_char_of)

lemma unnibble: "n < 16 \<Longrightarrow> demo_unnibble (demo_nibble n) = n"
  by (simp add: demo_unnibble_def of_char_nibble)

lemma demo_unhex_hex: "demo_unhex (demo_hex bs) = Some bs"
proof (induction bs)
  case (Cons b bs)
  have "16 * (unat b div 16) + unat b mod 16 = unat b" by simp
  then show ?case using Cons unat_u8 [of b] by (simp add: demo_hex_def unnibble)
qed (simp add: demo_hex_def)

lemma demo_hex_chars: "c \<in> set (demo_hex bs) \<Longrightarrow> hex_char c"
proof (induction bs)
  case (Cons b bs)
  have n: "hex_char (demo_nibble n)" if "n < 16" for n
    using that by (simp add: hex_char_def is_digit_def of_char_nibble)
  show ?case using Cons n unat_u8 [of b] by (auto simp: demo_hex_def)
qed (simp add: demo_hex_def)

lemma length_demo_hex: "length (demo_hex bs) = 2 * length bs"
  by (induction bs) (simp_all add: demo_hex_def)

lemma demo_crypto_ok: "crypto_ok demo_crypto"
  by (auto simp: crypto_ok_def demo_crypto_def demo_unhex_hex length_demo_hex dest: demo_hex_chars)

section \<open>Constant-time comparison\<close>

text \<open>\<open>diff |= x ^ y\<close> over the zipped slices.\<close>

definition diff_bits :: "bytes \<Rightarrow> bytes \<Rightarrow> u8" where
  "diff_bits a b = foldl (\<lambda>d (x, y). d OR (x XOR y)) 0 (zip a b)"

lemma or_eq_0_word: "(a :: 'a::len word) OR b = 0 \<longleftrightarrow> a = 0 \<and> b = 0"
  by (rule or_eq_0_iff)

lemma xor_eq_0_word: "(a :: 'a::len word) XOR b = 0 \<longleftrightarrow> a = b"
  by (metis xor.assoc xor.right_neutral xor_self_eq xor.left_neutral)

lemma diff_fold_zero:
  "foldl (\<lambda>d (x, y). d OR (x XOR y)) d0 ps = (0 :: u8) \<longleftrightarrow> d0 = 0 \<and> list_all (\<lambda>(x, y). x = y) ps"
proof (induction ps arbitrary: d0)
  case (Cons p ps)
  obtain x y where p: "p = (x, y)" by (cases p)
  have "foldl (\<lambda>d (x, y). d OR (x XOR y)) d0 (p # ps)
      = foldl (\<lambda>d (x, y). d OR (x XOR y)) (d0 OR (x XOR y)) ps" by (simp add: p)
  also have "\<dots> = 0 \<longleftrightarrow> d0 OR (x XOR y) = 0 \<and> list_all (\<lambda>(x, y). x = y) ps" by (rule Cons.IH)
  also have "d0 OR (x XOR y) = 0 \<longleftrightarrow> d0 = 0 \<and> x = y"
    by (simp only: or_eq_0_word xor_eq_0_word)
  finally show ?case by (simp add: p conj_assoc)
qed simp

lemma diff_bits_zero: "length a = length b \<Longrightarrow> diff_bits a b = 0 \<longleftrightarrow> a = b"
  unfolding diff_bits_def diff_fold_zero
  by (induction a b rule: list_induct2) auto

text \<open>What a client of a comparison relies on: it answers equality.\<close>

locale ct_equality =
  fixes eq :: "bytes \<Rightarrow> bytes \<Rightarrow> bool"
  assumes eq_iff: "eq a b \<longleftrightarrow> a = b"
begin

lemma refl [simp]: "eq a a"
  by (simp add: eq_iff)

lemma sym: "eq a b = eq b a"
  by (auto simp: eq_iff)

lemma str_iff [simp]: "eq (str_bytes s) (str_bytes t) \<longleftrightarrow> s = t"
  by (simp add: eq_iff)

end

end
