(* ===== verification/RelayAuth.thy ===== *)
theory RelayAuth
  imports Crypto "HOL-Library.Multiset"
begin

text \<open>
  What guards the rendezvous server's doors (\<open>apps/rendezvous/src/auth.rs\<close>,
  \<open>throttle.rs\<close>, \<open>resolver.rs\<close>): bearer tokens and their stored hash, one-time WebSocket
  tickets, and the login throttle.  Time is in milliseconds; the random bytes of a token are
  an argument.  Argon2 is a field of the server's environment (\<open>RelayApi\<close>).
\<close>

section \<open>Tokens\<close>

definition generate_token :: "crypto \<Rightarrow> bytes \<Rightarrow> string" where
  "generate_token cx random = cx_hex cx random"

definition hash_token :: "crypto \<Rightarrow> string \<Rightarrow> string" where
  "hash_token cx token = cx_hex cx (cx_sha256 cx (str_bytes token))"

section \<open>Tickets\<close>

record credential =
  cr_user :: int
  cr_signaling :: string

text \<open>The lifetime of a ticket in seconds, from \<open>RMD_WS_TICKET_TTL\<close>.\<close>

definition ticket_ttl :: "string option \<Rightarrow> nat" where
  "ticket_ttl env =
    (case Option.bind (map_option trim env) (parse_uint 64) of
       Some s \<Rightarrow> max 5 (min s 3600)
     | None \<Rightarrow> 120)"

type_synonym tickets = "string \<rightharpoonup> credential \<times> nat"

definition issue :: "crypto \<Rightarrow> nat \<Rightarrow> bytes \<Rightarrow> credential \<Rightarrow> nat \<Rightarrow> tickets \<Rightarrow> string \<times> tickets" where
  "issue cx ttl random cred now m =
    (let ticket = generate_token cx random;
         live = (\<lambda>t. case m t of Some (c, e) \<Rightarrow> if now < e then Some (c, e) else None | None \<Rightarrow> None)
     in (ticket, live(ticket \<mapsto> (cred, now + ttl * 1000))))"

definition redeem :: "string \<Rightarrow> nat \<Rightarrow> tickets \<Rightarrow> credential option \<times> tickets" where
  "redeem ticket now m =
    ((case m ticket of Some (c, e) \<Rightarrow> if now < e then Some c else None | None \<Rightarrow> None), m(ticket := None))"

text \<open>A history of the store: what was asked of it and when; the result lists the
  redemptions that succeeded with their times.\<close>

datatype ticket_op = Issue bytes credential nat | Redeem string nat

fun ticket_run :: "crypto \<Rightarrow> nat \<Rightarrow> ticket_op list \<Rightarrow> tickets \<Rightarrow> (string \<times> credential \<times> nat) list" where
  "ticket_run cx ttl [] m = []"
| "ticket_run cx ttl (Issue r c now # ops) m = ticket_run cx ttl ops (snd (issue cx ttl r c now m))"
| "ticket_run cx ttl (Redeem t now # ops) m =
     (case redeem t now m of
        (Some c, m1) \<Rightarrow> (t, c, now) # ticket_run cx ttl ops m1
      | (None, m1) \<Rightarrow> ticket_run cx ttl ops m1)"

fun issued :: "crypto \<Rightarrow> ticket_op list \<Rightarrow> (string \<times> credential) list" where
  "issued cx [] = []"
| "issued cx (Issue r c now # ops) = (generate_token cx r, c) # issued cx ops"
| "issued cx (Redeem t now # ops) = issued cx ops"

text \<open>The pairs a store can still redeem, and how often: once.\<close>

definition stored :: "tickets \<Rightarrow> string \<times> credential \<Rightarrow> nat" where
  "stored m p = (case m (fst p) of Some (c, e) \<Rightarrow> if c = snd p then 1 else 0 | None \<Rightarrow> 0)"

lemma stored_issue: "stored (snd (issue cx ttl r c now m)) p \<le> stored m p + (if p = (generate_token cx r, c) then 1 else 0)"
  by (cases p) (auto simp: stored_def issue_def Let_def split: option.splits)

lemma stored_redeem:
  "redeem t now m = (r, m1) \<Longrightarrow> stored m1 p + (case r of Some c \<Rightarrow> if p = (t, c) then 1 else 0 | None \<Rightarrow> 0) \<le> stored m p"
  by (cases p) (auto simp: stored_def redeem_def split: option.splits if_splits)

lemma redeemed_count:
  "count (mset (map (\<lambda>(t, c, now). (t, c)) (ticket_run cx ttl ops m))) p \<le> stored m p + count (mset (issued cx ops)) p"
proof (induction cx ttl ops m rule: ticket_run.induct)
  case (2 cx ttl r c now ops m)
  then show ?case using stored_issue [of cx ttl r c now m p] by auto
next
  case (3 cx ttl t now ops m)
  obtain r m1 where r: "redeem t now m = (r, m1)" by fastforce
  show ?case using 3 stored_redeem [OF r, of p] by (cases r) (auto simp: r)
qed simp

lemma redeemed_from:
  "(t, c, now) \<in> set (ticket_run cx ttl ops m) \<Longrightarrow>
    (\<exists>e. m t = Some (c, e) \<and> now < e) \<or> (\<exists>r t0. Issue r c t0 \<in> set ops \<and> t = generate_token cx r \<and> now < t0 + ttl * 1000)"
proof (induction cx ttl ops m rule: ticket_run.induct)
  case (2 cx ttl r c1 t0 ops m)
  then show ?case by (fastforce simp: issue_def Let_def split: option.splits if_splits)
next
  case (3 cx ttl t1 t0 ops m)
  then show ?case by (fastforce simp: redeem_def split: option.splits if_splits)
qed simp

text \<open>C24: A WebSocket ticket is good for one connection: in any history of the store every
  redemption is of a ticket issued to that very account and address, within its lifetime,
  and no ticket is redeemed more often than it was issued.\<close>

theorem tickets_single_use:
  "mset (map (\<lambda>(t, c, now). (t, c)) (ticket_run cx ttl ops Map.empty)) \<subseteq># mset (issued cx ops)
   \<and> (\<forall>t c now. (t, c, now) \<in> set (ticket_run cx ttl ops Map.empty) \<longrightarrow>
        (\<exists>r t0. Issue r c t0 \<in> set ops \<and> t = generate_token cx r \<and> now < t0 + ttl * 1000))"
  using redeemed_count [of cx ttl ops Map.empty] redeemed_from [of _ _ _ cx ttl ops Map.empty]
  by (auto simp: subseteq_mset_def stored_def)

lemma tickets_single_use_witness:
  "(''00'', \<lparr> cr_user = 1, cr_signaling = ''dev'' \<rparr>, 7) \<in> set (ticket_run demo_crypto 120
      [Issue [0] \<lparr> cr_user = 1, cr_signaling = ''dev'' \<rparr> 5, Redeem ''00'' 7, Redeem ''00'' 8] Map.empty)
   \<and> length (ticket_run demo_crypto 120
      [Issue [0] \<lparr> cr_user = 1, cr_signaling = ''dev'' \<rparr> 5, Redeem ''00'' 7, Redeem ''00'' 8] Map.empty) \<le> 1"
proof -
  let ?ops = "[Issue [0] \<lparr> cr_user = 1, cr_signaling = ''dev'' \<rparr> 5, Redeem ''00'' 7, Redeem ''00'' 8]"
  have "mset (map (\<lambda>(t, c, now). (t, c)) (ticket_run demo_crypto 120 ?ops Map.empty)) \<subseteq># mset (issued demo_crypto ?ops)"
    using tickets_single_use [of demo_crypto 120 ?ops] by blast
  from size_mset_mono [OF this] have "length (ticket_run demo_crypto 120 ?ops Map.empty) \<le> 1" by simp
  moreover have "(''00'', \<lparr> cr_user = 1, cr_signaling = ''dev'' \<rparr>, 7) \<in> set (ticket_run demo_crypto 120 ?ops Map.empty)"
    by code_simp
  ultimately show ?thesis by blast
qed

section \<open>The login throttle\<close>

definition FREE_ATTEMPTS :: nat where "FREE_ATTEMPTS = 5"
definition MAX_BACKOFF :: nat where "MAX_BACKOFF = 3600"
definition IDLE_TTL :: nat where "IDLE_TTL = 6 * 3600"

record attempt =
  at_fails :: nat
  at_locked_until :: "nat option"
  at_last :: "nat option"

type_synonym login_throttle = "string \<rightharpoonup> attempt"

text \<open>The seconds to wait, if the name is locked out.\<close>

definition check :: "string \<Rightarrow> nat \<Rightarrow> login_throttle \<Rightarrow> nat option" where
  "check user now m =
    (case m user of
       None \<Rightarrow> None
     | Some a \<Rightarrow>
         (case at_locked_until a of
            None \<Rightarrow> None
          | Some until \<Rightarrow> if now < until then Some ((until - now) div 1000 + 1) else None))"

definition record_failure :: "string \<Rightarrow> nat \<Rightarrow> login_throttle \<Rightarrow> login_throttle" where
  "record_failure user now m =
    (let a = (case m user of None \<Rightarrow> \<lparr> at_fails = 0, at_locked_until = None, at_last = None \<rparr> | Some a \<Rightarrow> a);
         n = at_fails a + 1;
         a1 = a\<lparr>at_fails := n, at_last := Some now\<rparr>;
         a2 = (if n > FREE_ATTEMPTS
               then a1\<lparr>at_locked_until := Some (now + min (2 ^ (n - FREE_ATTEMPTS)) MAX_BACKOFF * 1000)\<rparr>
               else a1);
         m1 = m(user \<mapsto> a2)
     in (\<lambda>u. case m1 u of
               None \<Rightarrow> None
             | Some v \<Rightarrow> (case at_last v of
                            None \<Rightarrow> None
                          | Some t \<Rightarrow> if now - t < IDLE_TTL * 1000 then Some v else None)))"

definition record_success :: "string \<Rightarrow> login_throttle \<Rightarrow> login_throttle" where
  "record_success user m = m(user := None)"

text \<open>Every armed lock-out is younger than the time after which an entry is forgotten, so
  housekeeping never lets anyone in early.\<close>

definition throttle_inv :: "nat \<Rightarrow> login_throttle \<Rightarrow> bool" where
  "throttle_inv now m \<longleftrightarrow> (\<forall>u a. m u = Some a \<longrightarrow>
     (\<exists>t. at_last a = Some t \<and> t \<le> now \<and>
        (\<forall>l. at_locked_until a = Some l \<longrightarrow> l \<le> t + MAX_BACKOFF * 1000)))"

lemma throttle_inv_failure:
  assumes "throttle_inv t m" "t \<le> now"
  shows "throttle_inv now (record_failure user now m)"
proof -
  have "min (2 ^ k) MAX_BACKOFF * 1000 \<le> MAX_BACKOFF * 1000" for k :: nat by simp
  then show ?thesis
    using assms unfolding throttle_inv_def record_failure_def Let_def
    by (fastforce split: option.splits if_splits)
qed

text \<open>A failure of somebody else never unlocks a name.\<close>

lemma other_failure_keeps_lock:
  assumes "throttle_inv t m" "t \<le> f" "f \<le> now" "user \<noteq> other"
  shows "check user now (record_failure other f m) = check user now m"
proof (cases "m user")
  case (Some a)
  then obtain l where l: "at_last a = Some l" "l \<le> t" "\<And>x. at_locked_until a = Some x \<Longrightarrow> x \<le> l + MAX_BACKOFF * 1000"
    using assms(1) unfolding throttle_inv_def by blast
  show ?thesis
  proof (cases "f - l < IDLE_TTL * 1000")
    case False
    then have "at_locked_until a = Some x \<Longrightarrow> \<not> now < x" for x
      using l(3) [of x] assms(2,3) by (fastforce simp: IDLE_TTL_def MAX_BACKOFF_def)
    then show ?thesis
      using False Some l(1) assms(3,4) by (auto simp: check_def record_failure_def Let_def split: option.splits)
  qed (use Some l(1) assms(4) in \<open>simp add: check_def record_failure_def Let_def\<close>)
qed (use assms(4) in \<open>simp add: check_def record_failure_def Let_def\<close>)

text \<open>What other people do with their names.\<close>

datatype login_op = Failed string nat | Succeeded string

fun login_step :: "login_op \<Rightarrow> login_throttle \<Rightarrow> login_throttle" where
  "login_step (Failed u now) m = record_failure u now m"
| "login_step (Succeeded u) m = record_success u m"

fun op_user :: "login_op \<Rightarrow> string" where
  "op_user (Failed u now) = u"
| "op_user (Succeeded u) = u"

fun op_times :: "login_op list \<Rightarrow> nat list" where
  "op_times [] = []"
| "op_times (Failed u now # ops) = now # op_times ops"
| "op_times (Succeeded u # ops) = op_times ops"

lemma throttle_inv_success: "throttle_inv t m \<Longrightarrow> throttle_inv t (record_success u m)"
  by (simp add: throttle_inv_def record_success_def)

lemma others_keep_lock:
  assumes "throttle_inv t m" "sorted (t # op_times ops @ [now])" "user \<notin> op_user ` set ops"
  shows "check user now (fold login_step ops m) = check user now m"
  using assms
proof (induction ops arbitrary: t m)
  case (Cons op ops)
  show ?case
  proof (cases op)
    case (Failed u f)
    have i: "throttle_inv f (record_failure u f m)" using Cons.prems Failed by (intro throttle_inv_failure) auto
    have "check user now (record_failure u f m) = check user now m"
      using Cons.prems Failed by (intro other_failure_keeps_lock) auto
    then show ?thesis using Cons.IH [OF i] Cons.prems Failed by simp
  next
    case (Succeeded u)
    have "check user now (record_success u m) = check user now m"
      using Cons.prems Succeeded by (simp add: check_def record_success_def)
    then show ?thesis using Cons.IH [OF throttle_inv_success [OF Cons.prems(1)]] Cons.prems Succeeded by simp
  qed
qed simp

text \<open>A lock-out holds: after the sixth and every further failure in a row, the name is
  refused until the backoff - two seconds, doubled each time, up to an hour - is over and not
  a moment longer, whatever happens to other names in the meantime.\<close>

theorem lockout_holds:
  assumes "throttle_inv t m" "m user = Some a" "FREE_ATTEMPTS \<le> at_fails a"
    and "sorted (t # f # op_times ops @ [now])" "user \<notin> op_user ` set ops"
  shows "check user now (fold login_step ops (record_failure user f m)) \<noteq> None
    \<longleftrightarrow> now < f + min (2 ^ (at_fails a + 1 - FREE_ATTEMPTS)) 3600 * 1000"
proof -
  have "throttle_inv f (record_failure user f m)" using assms by (intro throttle_inv_failure) auto
  then have "check user now (fold login_step ops (record_failure user f m)) = check user now (record_failure user f m)"
    using assms(4,5) by (intro others_keep_lock) auto
  moreover have "check user now (record_failure user f m) \<noteq> None
      \<longleftrightarrow> now < f + min (2 ^ (at_fails a + 1 - FREE_ATTEMPTS)) 3600 * 1000"
    using assms(2,3) by (simp add: check_def record_failure_def Let_def MAX_BACKOFF_def IDLE_TTL_def)
  ultimately show ?thesis by simp
qed

lemma lockout_holds_witness:
  "check ''bob'' 1900 (fold login_step [Failed ''eve'' 500, Succeeded ''amy'']
     (record_failure ''bob'' 5 (fold login_step (replicate 5 (Failed ''bob'' 4)) Map.empty))) \<noteq> None"
proof -
  let ?m = "fold login_step (replicate 5 (Failed ''bob'' 4)) Map.empty"
  have n: "replicate 5 x = [x, x, x, x, x]" for x :: login_op by (simp add: numeral_eq_Suc)
  have "throttle_inv 4 Map.empty" by (simp add: throttle_inv_def)
  then have i: "throttle_inv 4 ?m" unfolding n by (auto intro!: throttle_inv_failure)
  have m: "?m ''bob'' = Some \<lparr> at_fails = 5, at_locked_until = None, at_last = Some 4 \<rparr>" by code_simp
  show ?thesis
    using lockout_holds [OF i m, of 5 "[Failed ''eve'' 500, Succeeded ''amy'']" 1900] by (simp add: FREE_ATTEMPTS_def)
qed

end
