(* ===== verification/Disk.thy ===== *)
theory Disk
  imports Rmd_Prelude
begin

text \<open>
  The part of \<open>std::fs\<close> the sources call: a store of inodes, a directory of names,
  and handles that keep an inode open whatever happens to its name.  Every
  fallible call consumes one tick, and \<open>dk_fault\<close> says which ticks fail, so the
  code's error branches are reachable.  \<open>dk_limit\<close> bounds how many bytes one
  \<open>read\<close> moves (short reads), and how much of a failing \<open>write_all\<close> got out.
  A file offset is an \<open>i64\<close> to the kernel: a file never grows past
  \<open>MAX_OFF\<close>, and the sources' \<open>u64\<close> cursors never wrap.
\<close>

record disk =
  dk_names :: "string \<Rightarrow> nat option"
  dk_data :: "nat \<Rightarrow> bytes"
  dk_next :: nat
  dk_tick :: nat
  dk_fault :: "nat \<Rightarrow> bool"
  dk_limit :: "nat \<Rightarrow> nat"

definition MAX_OFF :: nat where "MAX_OFF = 2 ^ 63 - 1"

definition tick :: "disk \<Rightarrow> disk" where
  "tick d = d\<lparr>dk_tick := Suc (dk_tick d)\<rparr>"

definition failing :: "disk \<Rightarrow> bool" where
  "failing d = dk_fault d (dk_tick d)"

definition d_create_dir :: "disk \<Rightarrow> bool \<times> disk" where
  "d_create_dir d = (\<not> failing d, tick d)"

definition d_len :: "string \<Rightarrow> disk \<Rightarrow> nat option \<times> disk" where
  "d_len p d =
    (if failing d then None else map_option (\<lambda>i. length (dk_data d i)) (dk_names d p), tick d)"

definition d_open :: "string \<Rightarrow> disk \<Rightarrow> nat option \<times> disk" where
  "d_open p d = (if failing d then None else dk_names d p, tick d)"

definition d_open_create :: "string \<Rightarrow> disk \<Rightarrow> nat option \<times> disk" where
  "d_open_create p d =
    (if failing d then (None, tick d)
     else case dk_names d p of
       Some i \<Rightarrow> (Some i, tick d)
     | None \<Rightarrow> (Some (dk_next d),
         tick (d\<lparr>dk_names := (dk_names d)(p \<mapsto> dk_next d),
                dk_data := (dk_data d)(dk_next d := []),
                dk_next := Suc (dk_next d)\<rparr>)))"

definition d_read :: "nat \<Rightarrow> nat \<Rightarrow> nat \<Rightarrow> disk \<Rightarrow> bytes option \<times> disk" where
  "d_read i pos want d =
    (if failing d then None
     else Some (take (min want (Suc (dk_limit d (dk_tick d)))) (drop pos (dk_data d i))), tick d)"

definition pad_to :: "nat \<Rightarrow> bytes \<Rightarrow> bytes" where
  "pad_to n bs = take n bs @ replicate (n - length bs) 0"

definition put_at :: "nat \<Rightarrow> bytes \<Rightarrow> bytes \<Rightarrow> bytes" where
  "put_at pos bs old = pad_to pos old @ bs @ drop (pos + length bs) old"

text \<open>\<open>write_all\<close> at a handle's cursor: the result, and the cursor afterwards.\<close>

definition d_write_all :: "nat \<Rightarrow> nat \<Rightarrow> bytes \<Rightarrow> disk \<Rightarrow> bool \<times> nat \<times> disk" where
  "d_write_all i pos bs d =
    (let ok = (\<not> failing d \<and> pos + length bs \<le> MAX_OFF);
         w = (if ok then bs else take (min (dk_limit d (dk_tick d)) (MAX_OFF - pos)) bs)
     in (ok, pos + length w,
         tick (if w = [] then d else d\<lparr>dk_data := (dk_data d)(i := put_at pos w (dk_data d i))\<rparr>)))"

definition d_set_len :: "nat \<Rightarrow> nat \<Rightarrow> disk \<Rightarrow> bool \<times> disk" where
  "d_set_len i n d =
    (if failing d \<or> n > MAX_OFF then (False, tick d)
     else (True, tick (d\<lparr>dk_data := (dk_data d)(i := pad_to n (dk_data d i))\<rparr>)))"

definition d_seek :: "nat \<Rightarrow> disk \<Rightarrow> bool \<times> disk" where
  "d_seek n d = (\<not> failing d \<and> n \<le> MAX_OFF, tick d)"

definition d_rename :: "string \<Rightarrow> string \<Rightarrow> disk \<Rightarrow> bool \<times> disk" where
  "d_rename a b d =
    (if failing d then (False, tick d)
     else case dk_names d a of
       None \<Rightarrow> (False, tick d)
     | Some i \<Rightarrow> (True, tick (d\<lparr>dk_names := ((dk_names d)(a := None))(b \<mapsto> i)\<rparr>)))"

definition d_remove :: "string \<Rightarrow> disk \<Rightarrow> bool \<times> disk" where
  "d_remove a d =
    (if failing d \<or> dk_names d a = None then (False, tick d)
     else (True, tick (d\<lparr>dk_names := (dk_names d)(a := None)\<rparr>)))"

section \<open>Well-formed disks\<close>

text \<open>Named inodes have been allocated, distinct names have distinct inodes (the sources
  make no hard links), and no file is larger than an offset can say.\<close>

definition disk_ok :: "disk \<Rightarrow> bool" where
  "disk_ok d \<longleftrightarrow> (\<forall>p i. dk_names d p = Some i \<longrightarrow> i < dk_next d)
     \<and> (\<forall>p q i. dk_names d p = Some i \<longrightarrow> dk_names d q = Some i \<longrightarrow> p = q)
     \<and> (\<forall>i. length (dk_data d i) \<le> MAX_OFF)"

definition no_faults :: "disk \<Rightarrow> bool" where
  "no_faults d \<longleftrightarrow> dk_fault d = (\<lambda>_. False)"

lemma tick_simps [simp]:
  "dk_names (tick d) = dk_names d" "dk_data (tick d) = dk_data d" "dk_next (tick d) = dk_next d"
  "dk_fault (tick d) = dk_fault d" "dk_limit (tick d) = dk_limit d"
  by (simp_all add: tick_def)

lemma not_failing [simp]: "no_faults d \<Longrightarrow> \<not> failing d"
  by (simp add: no_faults_def failing_def)

lemma no_faults_tick [simp]: "no_faults (tick d) = no_faults d"
  by (simp add: no_faults_def)

lemma no_faults_upd [simp]:
  "no_faults (d\<lparr>dk_names := a\<rparr>) = no_faults d" "no_faults (d\<lparr>dk_data := b\<rparr>) = no_faults d"
  "no_faults (d\<lparr>dk_next := c\<rparr>) = no_faults d"
  by (simp_all add: no_faults_def)

lemma disk_ok_tick [simp]: "disk_ok (tick d) = disk_ok d"
  by (simp add: disk_ok_def)

lemma length_pad_to [simp]: "length (pad_to n bs) = n"
  by (simp add: pad_to_def)

lemma pad_to_self [simp]: "pad_to (length bs) bs = bs"
  by (simp add: pad_to_def)

lemma pad_to_le: "n \<le> length bs \<Longrightarrow> pad_to n bs = take n bs"
  by (simp add: pad_to_def)

lemma put_at_end [simp]: "put_at (length old) bs old = old @ bs"
  by (simp add: put_at_def)

lemma length_put_at: "length (put_at pos bs old) = max (pos + length bs) (length old)"
  by (auto simp: put_at_def)

lemma d_read_bounds:
  assumes "d_read i pos want d = (Some bs, d')"
  shows "length bs \<le> want" "pos + length bs \<le> max pos (length (dk_data d i))"
    "bs = take (length bs) (drop pos (dk_data d i))" "d' = tick d"
    "want > 0 \<Longrightarrow> pos < length (dk_data d i) \<Longrightarrow> bs \<noteq> []"
  using assms by (auto simp: d_read_def min_def split: if_splits)

lemma d_read_progress:
  assumes r: "d_read i pos want d = (Some bs, d')" and ne: "bs \<noteq> []"
  shows "length (dk_data d' i) - (pos + length bs) < length (dk_data d i) - pos"
proof -
  have d': "d' = tick d" and bs: "bs = take (length bs) (drop pos (dk_data d i))"
    using d_read_bounds [OF r] by auto
  have "drop pos (dk_data d i) \<noteq> []" using bs ne by auto
  then have "pos < length (dk_data d i)" by simp
  moreover have "0 < length bs" using ne by simp
  ultimately show ?thesis using d' by (simp add: diff_less_mono2)
qed

lemma disk_ok_set_len:
  assumes "disk_ok d" shows "disk_ok (snd (d_set_len i n d))"
  using assms by (auto simp: d_set_len_def disk_ok_def split: if_splits)

lemma disk_ok_open_create:
  assumes "disk_ok d" shows "disk_ok (snd (d_open_create p d))"
  using assms by (fastforce simp: d_open_create_def disk_ok_def split: option.splits)

lemma disk_ok_write_all:
  assumes "disk_ok d" shows "disk_ok (snd (snd (d_write_all i pos bs d)))"
  using assms by (auto simp: d_write_all_def disk_ok_def Let_def length_put_at)

lemma disk_ok_rename:
  assumes "disk_ok d" shows "disk_ok (snd (d_rename a b d))"
proof (cases "failing d \<or> dk_names d a = None")
  case True
  then show ?thesis using assms by (auto simp: d_rename_def)
next
  case False
  then obtain i where i: "dk_names d a = Some i" and "\<not> failing d" by auto
  then have r: "snd (d_rename a b d) = tick (d\<lparr>dk_names := ((dk_names d)(a := None))(b \<mapsto> i)\<rparr>)"
    by (simp add: d_rename_def)
  show ?thesis unfolding r disk_ok_tick using assms i
    by (auto simp: disk_ok_def split: if_splits)
qed

lemma disk_ok_remove:
  assumes "disk_ok d" shows "disk_ok (snd (d_remove a d))"
  using assms by (auto simp: d_remove_def disk_ok_def)

section \<open>Whole-file operations and path helpers\<close>

datatype io_error = NotFound | OtherIo

definition d_slurp :: "string \<Rightarrow> disk \<Rightarrow> (io_error + bytes) \<times> disk" where
  "d_slurp p d =
    (if failing d then Inl OtherIo
     else case dk_names d p of None \<Rightarrow> Inl NotFound | Some i \<Rightarrow> Inr (dk_data d i), tick d)"

definition d_exists :: "string \<Rightarrow> disk \<Rightarrow> bool" where
  "d_exists p d = (dk_names d p \<noteq> None)"

definition d_create_new :: "string \<Rightarrow> disk \<Rightarrow> nat option \<times> disk" where
  "d_create_new p d =
    (if dk_names d p \<noteq> None then (None, tick d) else d_open_create p d)"

text \<open>\<open>Path::parent\<close> and \<open>Path::with_extension\<close> for paths that end in a file name.\<close>

definition path_parent :: "string \<Rightarrow> string" where
  "path_parent p = rev (tl (dropWhile (\<lambda>c. c \<noteq> CHR ''/'') (rev p)))"

definition base_name :: "string \<Rightarrow> string" where
  "base_name p = last_segment (\<lambda>c. c = CHR ''/'') p"

definition file_stem :: "string \<Rightarrow> string" where
  "file_stem n =
    (let r = dropWhile (\<lambda>c. c \<noteq> CHR ''.'') (rev n)
     in if tl r = [] then n else rev (tl r))"

definition with_extension :: "string \<Rightarrow> string \<Rightarrow> string" where
  "with_extension p ext =
    take (length p - length (base_name p)) p @ file_stem (base_name p) @ ''.'' @ ext"

lemma d_slurp_disk [simp]: "snd (d_slurp p d) = tick d"
  by (simp add: d_slurp_def)

lemma d_slurp_ok: "no_faults d \<Longrightarrow> dk_names d p = Some i \<Longrightarrow> fst (d_slurp p d) = Inr (dk_data d i)"
  by (simp add: d_slurp_def)

end
