(* ===== verification/Identity.thy ===== *)
theory Identity
  imports Crypto Disk
begin

text \<open>
  The device identity (\<open>crates/session/src/identity.rs\<close>): proofs of key possession and
  their verification, device ids, the DTLS fingerprint of an SDP, the passphrase-wrapped
  key file with its passphrase sources, and the trust-on-first-use store.
  \<open>atomic_write_secret\<close> returns every intermediate disk, so that a crash between two
  system calls is one of them.
\<close>

section \<open>Proof messages\<close>

definition AUTH_PROOF_TAG :: bytes where "AUTH_PROOF_TAG = str_bytes ''rmd-access-proof-v2''"
definition TOKEN_REFRESH_TAG :: bytes where "TOKEN_REFRESH_TAG = str_bytes ''rmd-token-refresh-v1''"

definition access_proof_message :: "bytes \<Rightarrow> bytes \<Rightarrow> bytes" where
  "access_proof_message public_key binding = AUTH_PROOF_TAG @ public_key @ [0] @ binding"

definition token_refresh_message :: "bytes \<Rightarrow> 64 word \<Rightarrow> bytes" where
  "token_refresh_message public_key timestamp =
    TOKEN_REFRESH_TAG @ public_key @ be_bytes 8 (unat timestamp)"

definition device_id_from_public_key :: "crypto \<Rightarrow> bytes \<Rightarrow> string" where
  "device_id_from_public_key cx public_key = take 32 (cx_hex cx (cx_sha256 cx public_key))"

datatype proof_error = BadKeyLength | BadKey | BadSignatureLength | BadSignature

definition verify_access_proof :: "crypto \<Rightarrow> bytes \<Rightarrow> bytes \<Rightarrow> bytes \<Rightarrow> proof_error + string" where
  "verify_access_proof cx public_key signature binding =
    (if length public_key \<noteq> 32 then Inl BadKeyLength
     else if \<not> cx_valid_key cx public_key then Inl BadKey
     else if length signature \<noteq> 64 then Inl BadSignatureLength
     else if \<not> cx_verify cx public_key (access_proof_message public_key binding) signature
       then Inl BadSignature
     else Inr (device_id_from_public_key cx public_key))"

definition ascii_upper :: "char \<Rightarrow> char" where
  "ascii_upper c =
    (if 97 \<le> (of_char c :: nat) \<and> (of_char c :: nat) \<le> 122 then char_of (of_char c - 32 :: nat) else c)"

fun first_fingerprint :: "string list \<Rightarrow> string option" where
  "first_fingerprint [] = None"
| "first_fingerprint (l # ls) =
    (case strip_prefix ''a=fingerprint:'' (trim l) of
       Some rest \<Rightarrow> Some (map ascii_upper (trim rest))
     | None \<Rightarrow> first_fingerprint ls)"

definition dtls_fingerprint_from_sdp :: "string \<Rightarrow> string option" where
  "dtls_fingerprint_from_sdp sdp = first_fingerprint (lines sdp)"

section \<open>The identity\<close>

text \<open>\<open>DeviceIdentity\<close>: the ed25519 seed.\<close>

record identity = id_seed :: bytes

definition public_key_bytes :: "crypto \<Rightarrow> identity \<Rightarrow> bytes" where
  "public_key_bytes cx i = cx_public cx (id_seed i)"

definition public_key_hex :: "crypto \<Rightarrow> identity \<Rightarrow> string" where
  "public_key_hex cx i = cx_hex cx (public_key_bytes cx i)"

definition id_sign :: "crypto \<Rightarrow> identity \<Rightarrow> bytes \<Rightarrow> bytes" where
  "id_sign cx i msg = cx_sign cx (id_seed i) msg"

definition derive_subkey :: "crypto \<Rightarrow> identity \<Rightarrow> bytes \<Rightarrow> bytes" where
  "derive_subkey cx i info = cx_hkdf cx None (id_seed i) info 32"

definition access_proof :: "crypto \<Rightarrow> identity \<Rightarrow> bytes \<Rightarrow> bytes" where
  "access_proof cx i binding = id_sign cx i (access_proof_message (public_key_bytes cx i) binding)"

definition fingerprint :: "crypto \<Rightarrow> identity \<Rightarrow> string" where
  "fingerprint cx i = cx_hex cx (cx_sha256 cx (public_key_bytes cx i))"

definition device_id :: "crypto \<Rightarrow> identity \<Rightarrow> string" where
  "device_id cx i = take 32 (fingerprint cx i)"

text \<open>Rust's order on strings and byte arrays.\<close>

fun lex_le :: "nat list \<Rightarrow> nat list \<Rightarrow> bool" where
  "lex_le [] _ = True"
| "lex_le (_ # _) [] = False"
| "lex_le (a # as) (b # bs) = (a < b \<or> a = b \<and> lex_le as bs)"

definition str_le :: "string \<Rightarrow> string \<Rightarrow> bool" where
  "str_le a b = lex_le (map of_char a) (map of_char b)"

definition bytes_le :: "bytes \<Rightarrow> bytes \<Rightarrow> bool" where
  "bytes_le a b = lex_le (map unat a) (map unat b)"

text \<open>\<open>{:06}\<close>.\<close>

definition show_pad6 :: "nat \<Rightarrow> string" where
  "show_pad6 n = (let s = show_nat n in replicate (6 - length s) (CHR ''0'') @ s)"

definition sas :: "crypto \<Rightarrow> identity \<Rightarrow> string \<Rightarrow> string" where
  "sas cx i peer_public_key_hex =
    (let ours = public_key_hex cx i;
         (k0, k1) = (if str_le ours peer_public_key_hex then (ours, peer_public_key_hex)
                     else (peer_public_key_hex, ours));
         digest = cx_sha256 cx (str_bytes k0 @ str_bytes k1);
         n = unat (digest ! 0) * 65536 + unat (digest ! 1) * 256 + unat (digest ! 2)
     in show_pad6 (n mod 1000000))"

section \<open>Passphrase sources\<close>

text \<open>The operating system's keyring: reachable or not, its entry, whether it accepts a write
  and whether it keeps one.\<close>

record keyring =
  kr_available :: bool
  kr_entry :: "string option"
  kr_accepts :: bool
  kr_keeps :: bool

record id_env =
  ie_pass_env :: "string option"
  ie_keyring :: keyring
  ie_rand :: "nat \<Rightarrow> nat \<Rightarrow> bytes option"
  ie_draws :: nat
  ie_pid :: nat
  ie_ctr :: nat
  ie_disk :: disk

datatype id_error =
    NoPassphrase | KeyringUnavailable | KeyringNotPersisted | RandomFailed | KdfFailed
  | SealFailed | NotWrapped | WrongPassphrase | BadSeedLength | BadPlaintext | Io

definition KEY_PASSPHRASE_ENV :: string where "KEY_PASSPHRASE_ENV = ''RMD_KEY_PASSPHRASE''"

definition getrandom :: "nat \<Rightarrow> id_env \<Rightarrow> bytes option \<times> id_env" where
  "getrandom n e = (ie_rand e (ie_draws e) n, e\<lparr>ie_draws := Suc (ie_draws e)\<rparr>)"

definition parse_key_env_line :: "string \<Rightarrow> string option" where
  "parse_key_env_line line0 =
    (let line1 = trim line0
     in if line1 = [] \<or> starts_with ''#'' line1 then None
        else
          let line2 = (case strip_prefix ''export '' line1 of Some r \<Rightarrow> trim_start r | None \<Rightarrow> line1)
          in case strip_prefix KEY_PASSPHRASE_ENV line2 of
               None \<Rightarrow> None
             | Some rest \<Rightarrow>
                 (case strip_prefix ''='' rest of
                    None \<Rightarrow> None
                  | Some val0 \<Rightarrow>
                      let quoted = (\<lambda>q. starts_with [q] val0 \<and> ends_with [q] val0 \<and> length val0 \<ge> 2);
                          val1 = (if quoted (CHR 0x22) \<or> quoted (CHR 0x27)
                                  then butlast (tl val0) else trim val0)
                      in if val1 = [] then None else Some val1))"

fun find_map :: "('a \<Rightarrow> 'b option) \<Rightarrow> 'a list \<Rightarrow> 'b option" where
  "find_map f [] = None"
| "find_map f (x # xs) = (case f x of Some y \<Rightarrow> Some y | None \<Rightarrow> find_map f xs)"

definition key_env_path :: "string \<Rightarrow> string" where
  "key_env_path path = (if CHR ''/'' \<in> set path then path_parent path @ ''/key.env'' else ''key.env'')"

definition explicit_passphrase :: "string \<Rightarrow> id_env \<Rightarrow> string option \<times> id_env" where
  "explicit_passphrase path e =
    (case ie_pass_env e of
       Some v \<Rightarrow>
         if v \<noteq> [] then (Some v, e)
         else (case d_slurp (key_env_path path) (ie_disk e) of
                 (Inr bs, d) \<Rightarrow> (case from_utf8 bs of
                                  Some txt \<Rightarrow> (find_map parse_key_env_line (lines txt), e\<lparr>ie_disk := d\<rparr>)
                                | None \<Rightarrow> (None, e\<lparr>ie_disk := d\<rparr>))
               | (Inl _, d) \<Rightarrow> (None, e\<lparr>ie_disk := d\<rparr>))
     | None \<Rightarrow>
         (case d_slurp (key_env_path path) (ie_disk e) of
            (Inr bs, d) \<Rightarrow> (case from_utf8 bs of
                             Some txt \<Rightarrow> (find_map parse_key_env_line (lines txt), e\<lparr>ie_disk := d\<rparr>)
                           | None \<Rightarrow> (None, e\<lparr>ie_disk := d\<rparr>))
          | (Inl _, d) \<Rightarrow> (None, e\<lparr>ie_disk := d\<rparr>)))"

text \<open>\<open>os_keyring::get\<close> and \<open>get_or_create\<close>.\<close>

definition keyring_read :: "keyring \<Rightarrow> id_error + string option" where
  "keyring_read k =
    (if \<not> kr_available k then Inl KeyringUnavailable
     else case kr_entry k of
            Some p \<Rightarrow> Inr (if p = [] then None else Some p)
          | None \<Rightarrow> Inr None)"

definition keyring_set :: "string \<Rightarrow> keyring \<Rightarrow> bool \<times> keyring" where
  "keyring_set p k =
    (if \<not> kr_available k \<or> \<not> kr_accepts k then (False, k)
     else (True, if kr_keeps k then k\<lparr>kr_entry := Some p\<rparr> else k))"

definition keyring_get_or_create :: "crypto \<Rightarrow> id_env \<Rightarrow> (id_error + string) \<times> id_env" where
  "keyring_get_or_create cx e =
    (case keyring_read (ie_keyring e) of
       Inl err \<Rightarrow> (Inl err, e)
     | Inr (Some p) \<Rightarrow> (Inr p, e)
     | Inr None \<Rightarrow>
         (case getrandom 32 e of
            (None, e1) \<Rightarrow> (Inl RandomFailed, e1)
          | (Some raw, e1) \<Rightarrow>
              (case keyring_set (cx_hex cx raw) (ie_keyring e1) of
                 (False, k) \<Rightarrow> (Inl KeyringUnavailable, e1\<lparr>ie_keyring := k\<rparr>)
               | (True, k) \<Rightarrow>
                   (case keyring_read k of
                      Inl err \<Rightarrow> (Inl err, e1\<lparr>ie_keyring := k\<rparr>)
                    | Inr (Some p) \<Rightarrow> (Inr p, e1\<lparr>ie_keyring := k\<rparr>)
                    | Inr None \<Rightarrow> (Inl KeyringNotPersisted, e1\<lparr>ie_keyring := k\<rparr>)))))"

definition resolve_wrap_passphrase :: "crypto \<Rightarrow> string \<Rightarrow> id_env \<Rightarrow> (id_error + string) \<times> id_env" where
  "resolve_wrap_passphrase cx path e =
    (case explicit_passphrase path e of
       (Some p, e1) \<Rightarrow> (Inr p, e1)
     | (None, e1) \<Rightarrow> keyring_get_or_create cx e1)"

definition resolve_unwrap_passphrase :: "string \<Rightarrow> id_env \<Rightarrow> (id_error + string) \<times> id_env" where
  "resolve_unwrap_passphrase path e =
    (case explicit_passphrase path e of
       (Some p, e1) \<Rightarrow> (Inr p, e1)
     | (None, e1) \<Rightarrow>
         (case keyring_read (ie_keyring e1) of
            Inr (Some p) \<Rightarrow> (Inr p, e1)
          | Inr None \<Rightarrow> (Inl NoPassphrase, e1)
          | Inl err \<Rightarrow> (Inl err, e1)))"

section \<open>Wrapping the key\<close>

definition WRAP_MAGIC :: bytes where "WRAP_MAGIC = str_bytes ''ORK1''"
definition WRAP_SALT_LEN :: nat where "WRAP_SALT_LEN = 16"
definition WRAP_NONCE_LEN :: nat where "WRAP_NONCE_LEN = 24"

definition wrap_seed :: "crypto \<Rightarrow> bytes \<Rightarrow> bytes \<Rightarrow> id_env \<Rightarrow> (id_error + bytes) \<times> id_env" where
  "wrap_seed cx seed passphrase e =
    (case getrandom WRAP_SALT_LEN e of
       (None, e1) \<Rightarrow> (Inl RandomFailed, e1)
     | (Some salt, e1) \<Rightarrow>
         (case getrandom WRAP_NONCE_LEN e1 of
            (None, e2) \<Rightarrow> (Inl RandomFailed, e2)
          | (Some nonce, e2) \<Rightarrow>
              (case cx_argon2 cx passphrase salt of
                 None \<Rightarrow> (Inl KdfFailed, e2)
               | Some key \<Rightarrow>
                   (case cx_seal cx key nonce seed of
                      None \<Rightarrow> (Inl SealFailed, e2)
                    | Some ct \<Rightarrow> (Inr (WRAP_MAGIC @ salt @ nonce @ ct), e2)))))"

definition unwrap_seed :: "crypto \<Rightarrow> bytes \<Rightarrow> bytes \<Rightarrow> id_error + bytes" where
  "unwrap_seed cx blob passphrase =
    (let header = 4 + WRAP_SALT_LEN + WRAP_NONCE_LEN
     in if \<not> (length blob > header \<and> take 4 blob = WRAP_MAGIC) then Inl NotWrapped
        else
          let salt = take WRAP_SALT_LEN (drop 4 blob);
              nonce = take WRAP_NONCE_LEN (drop (4 + WRAP_SALT_LEN) blob);
              ct = drop header blob
          in case cx_argon2 cx passphrase salt of
               None \<Rightarrow> Inl KdfFailed
             | Some key \<Rightarrow>
                 (case cx_open cx key nonce ct of
                    None \<Rightarrow> Inl WrongPassphrase
                  | Some pt \<Rightarrow> if length pt = 32 then Inr pt else Inl BadSeedLength))"

section \<open>Writing a secret file\<close>

definition tmp_path :: "string \<Rightarrow> nat \<Rightarrow> nat \<Rightarrow> string" where
  "tmp_path path pid n = with_extension path (''tmp.'' @ show_nat pid @ ''.'' @ show_nat n)"

definition d_sync :: "disk \<Rightarrow> bool \<times> disk" where
  "d_sync d = (\<not> failing d, tick d)"

text \<open>The result, and the disk after each system call, the last one first.\<close>

definition atomic_write_secret :: "string \<Rightarrow> bytes \<Rightarrow> nat \<Rightarrow> nat \<Rightarrow> disk \<Rightarrow> bool \<times> disk list" where
  "atomic_write_secret path bs pid n d =
    (let tmp = tmp_path path pid n;
         (mk, d1) = d_create_dir d
     in if \<not> mk then (False, [d1])
        else
          let (r, d2) = d_create_new tmp d1
          in case r of
               None \<Rightarrow> (False, [snd (d_remove tmp d2), d2, d1])
             | Some i \<Rightarrow>
                 let (ok, _, d3) = d_write_all i 0 bs d2
                 in if \<not> ok then (False, [snd (d_remove tmp d3), d3, d2, d1])
                    else
                      let (sy, d4) = d_sync d3
                      in if \<not> sy then (False, [snd (d_remove tmp d4), d4, d3, d2, d1])
                         else
                           let (pm, d5) = d_sync d4
                           in if \<not> pm then (False, [d5, d4, d3, d2, d1])
                              else
                                let (rn, d6) = d_rename tmp path d5
                                in if \<not> rn
                                   then (False, [snd (d_remove tmp d6), d6, d5, d4, d3, d2, d1])
                                   else (True, [tick d6, d6, d5, d4, d3, d2, d1]))"

definition write_secret :: "string \<Rightarrow> bytes \<Rightarrow> id_env \<Rightarrow> bool \<times> id_env" where
  "write_secret path bs e =
    (case atomic_write_secret path bs (ie_pid e) (ie_ctr e) (ie_disk e) of
       (ok, ds) \<Rightarrow> (ok, e\<lparr>ie_disk := hd ds, ie_ctr := Suc (ie_ctr e)\<rparr>))"

section \<open>Loading and saving the identity\<close>

definition generate :: "id_env \<Rightarrow> (id_error + identity) \<times> id_env" where
  "generate e =
    (case getrandom 32 e of
       (None, e1) \<Rightarrow> (Inl RandomFailed, e1)
     | (Some seed, e1) \<Rightarrow> (Inr \<lparr> id_seed = seed \<rparr>, e1))"

definition save_with :: "crypto \<Rightarrow> identity \<Rightarrow> string \<Rightarrow> string option \<Rightarrow> id_env \<Rightarrow> (id_error + unit) \<times> id_env" where
  "save_with cx i path passphrase e =
    (case passphrase of
       Some pass \<Rightarrow>
         (case wrap_seed cx (id_seed i) (str_bytes pass) e of
            (Inl err, e1) \<Rightarrow> (Inl err, e1)
          | (Inr bs, e1) \<Rightarrow>
              (case write_secret path bs e1 of
                 (ok, e2) \<Rightarrow> (if ok then Inr () else Inl Io, e2)))
     | None \<Rightarrow>
         (case write_secret path (str_bytes (cx_hex cx (id_seed i))) e of
            (ok, e1) \<Rightarrow> (if ok then Inr () else Inl Io, e1)))"

definition save :: "crypto \<Rightarrow> identity \<Rightarrow> string \<Rightarrow> id_env \<Rightarrow> (id_error + unit) \<times> id_env" where
  "save cx i path e =
    (case resolve_wrap_passphrase cx path e of
       (Inr pass, e1) \<Rightarrow> save_with cx i path (Some pass) e1
     | (Inl _, e1) \<Rightarrow> save_with cx i path None e1)"

text \<open>The advisory lock: creating the sibling lock file is all it does to the disk.\<close>

definition take_lock :: "string \<Rightarrow> id_env \<Rightarrow> id_env" where
  "take_lock path e = e\<lparr>ie_disk := snd (d_open_create (with_extension path ''lock'') (ie_disk e))\<rparr>"

definition load_or_create :: "crypto \<Rightarrow> string \<Rightarrow> id_env \<Rightarrow> (id_error + identity) \<times> id_env" where
  "load_or_create cx path e0 =
    (let e = take_lock path e0
     in if \<not> d_exists path (ie_disk e) then
          (case generate e of
             (Inl err, e1) \<Rightarrow> (Inl err, e1)
           | (Inr i, e1) \<Rightarrow>
               (case save cx i path e1 of
                  (Inl err, e2) \<Rightarrow> (Inl err, e2)
                | (Inr _, e2) \<Rightarrow> (Inr i, e2)))
        else
          (case d_slurp path (ie_disk e) of
             (Inl _, d) \<Rightarrow> (Inl Io, e\<lparr>ie_disk := d\<rparr>)
           | (Inr data, d) \<Rightarrow>
               let e1 = e\<lparr>ie_disk := d\<rparr>
               in if take 4 data = WRAP_MAGIC then
                    (case resolve_unwrap_passphrase path e1 of
                       (Inl err, e2) \<Rightarrow> (Inl err, e2)
                     | (Inr pass, e2) \<Rightarrow>
                         (case unwrap_seed cx data (str_bytes pass) of
                            Inl err \<Rightarrow> (Inl err, e2)
                          | Inr seed \<Rightarrow> (Inr \<lparr> id_seed = seed \<rparr>, e2)))
                  else
                    (case (case from_utf8 data of None \<Rightarrow> None | Some txt \<Rightarrow> cx_unhex cx (trim txt)) of
                       None \<Rightarrow> (Inl BadPlaintext, e1)
                     | Some seed \<Rightarrow>
                         if length seed \<noteq> 32 then (Inl BadSeedLength, e1)
                         else
                           let i = \<lparr> id_seed = seed \<rparr>
                           in case resolve_wrap_passphrase cx path e1 of
                                (Inr pass, e2) \<Rightarrow>
                                  (case save_with cx i path (Some pass) e2 of
                                     (Inl err, e3) \<Rightarrow> (Inl err, e3)
                                   | (Inr _, e3) \<Rightarrow> (Inr i, e3))
                              | (Inl _, e2) \<Rightarrow> (Inr i, e2))))"

section \<open>Known peers\<close>

fun kp_find :: "string \<Rightarrow> string list \<Rightarrow> string option" where
  "kp_find dev [] = None"
| "kp_find dev (l # ls) =
    (case split_once (CHR '' '') l of
       Some (i, key) \<Rightarrow> if i = dev then Some (trim key) else kp_find dev ls
     | None \<Rightarrow> kp_find dev ls)"

text \<open>\<open>read_to_string(path).ok()?\<close>: a missing, unreadable or non-UTF-8 file is an empty store.\<close>

definition kp_get :: "string \<Rightarrow> string \<Rightarrow> disk \<Rightarrow> string option \<times> disk" where
  "kp_get path dev d =
    (case d_slurp path d of
       (Inl _, d1) \<Rightarrow> (None, d1)
     | (Inr bs, d1) \<Rightarrow>
         (case from_utf8 bs of None \<Rightarrow> (None, d1) | Some c \<Rightarrow> (kp_find dev (lines c), d1)))"

definition kp_add :: "string \<Rightarrow> string \<Rightarrow> string \<Rightarrow> disk \<Rightarrow> bool option \<times> disk" where
  "kp_add path dev key d =
    (case kp_get path dev d of
       (Some _, d1) \<Rightarrow> (Some False, d1)
     | (None, d1) \<Rightarrow>
         let (mk, d2) = d_create_dir d1
         in if \<not> mk then (None, d2)
            else
              (case d_open_create path d2 of
                 (None, d3) \<Rightarrow> (None, d3)
               | (Some i, d3) \<Rightarrow>
                   let (ok, _, d4) = d_write_all i (length (dk_data d3 i))
                         (str_bytes (dev @ '' '' @ key @ [char_of (10 :: nat)])) d3
                   in (if ok then Some True else None, d4)))"

datatype tofu = TofuNew | TofuKnown | TofuMismatch | TofuIo

definition trust_on_first_use :: "string \<Rightarrow> string \<Rightarrow> string \<Rightarrow> disk \<Rightarrow> tofu \<times> disk" where
  "trust_on_first_use path dev key d =
    (case kp_get path dev d of
       (Some known, d1) \<Rightarrow> (if known = key then TofuKnown else TofuMismatch, d1)
     | (None, d1) \<Rightarrow>
         (case kp_add path dev key d1 of
            (None, d2) \<Rightarrow> (TofuIo, d2)
          | (Some True, d2) \<Rightarrow> (TofuNew, d2)
          | (Some False, d2) \<Rightarrow> (TofuKnown, d2)))"

section \<open>Proof messages and proofs\<close>

lemma tags_differ: "take 5 AUTH_PROOF_TAG \<noteq> take 5 TOKEN_REFRESH_TAG"
  by code_simp

lemma access_token_differ: "access_proof_message pk b \<noteq> token_refresh_message pk' ts"
proof
  assume "access_proof_message pk b = token_refresh_message pk' ts"
  then have "take 5 (access_proof_message pk b) = take 5 (token_refresh_message pk' ts)" by simp
  moreover have "5 \<le> length AUTH_PROOF_TAG" "5 \<le> length TOKEN_REFRESH_TAG"
    by (simp_all add: AUTH_PROOF_TAG_def TOKEN_REFRESH_TAG_def)
  ultimately show False
    using tags_differ by (simp add: access_proof_message_def token_refresh_message_def)
qed

text \<open>No message but the signed one verifies with this signature: the unforgeability of the
  scheme, for the one proof at hand.\<close>

definition sole_message :: "crypto \<Rightarrow> bytes \<Rightarrow> bytes \<Rightarrow> bytes \<Rightarrow> bool" where
  "sole_message cx pk sig m \<longleftrightarrow> (\<forall>m'. cx_verify cx pk m' sig \<longrightarrow> m' = m)"

lemma access_message_inject:
  assumes "length pk = length pk'"
  shows "access_proof_message pk b = access_proof_message pk' b' \<longleftrightarrow> pk = pk' \<and> b = b'"
  using assms by (auto simp: access_proof_message_def)

lemma verify_own_proof:
  assumes "crypto_ok cx" "length (id_seed i) = 32"
  shows "verify_access_proof cx (public_key_bytes cx i) (access_proof cx i b) b = Inr (device_id cx i)"
  using crypto_okD [OF assms(1)] assms(2)
  by (simp add: verify_access_proof_def public_key_bytes_def access_proof_def id_sign_def
      device_id_from_public_key_def device_id_def fingerprint_def)

lemma foreign_binding_rejected:
  assumes "crypto_ok cx" "length (id_seed i) = 32"
    and sole: "sole_message cx (public_key_bytes cx i) (access_proof cx i b)
      (access_proof_message (public_key_bytes cx i) b)"
    and "b' \<noteq> b"
  shows "verify_access_proof cx (public_key_bytes cx i) (access_proof cx i b) b' = Inl BadSignature"
proof -
  note ok = crypto_okD [OF assms(1)]
  have "\<not> cx_verify cx (public_key_bytes cx i)
      (access_proof_message (public_key_bytes cx i) b') (access_proof cx i b)"
    using sole \<open>b' \<noteq> b\<close> access_message_inject unfolding sole_message_def by blast
  then show ?thesis using ok(2,3,4) assms(2)
    by (simp add: verify_access_proof_def public_key_bytes_def access_proof_def id_sign_def)
qed

text \<open>C10: The access proof binds the session: a device's own proof is accepted for its
  \<open>device_id\<close> under the channel binding it was made for, and the same signature is
  rejected under every other binding, so a relay cannot replay it into another DTLS
  session; nor does it verify as a token-refresh proof.\<close>

theorem access_proof_binds_session:
  assumes "crypto_ok cx" "length (id_seed i) = 32"
    and sole: "sole_message cx (public_key_bytes cx i) (access_proof cx i b)
      (access_proof_message (public_key_bytes cx i) b)"
  shows "verify_access_proof cx (public_key_bytes cx i) (access_proof cx i b) b = Inr (device_id cx i)
    \<and> (\<forall>b'. b' \<noteq> b \<longrightarrow>
      verify_access_proof cx (public_key_bytes cx i) (access_proof cx i b) b' = Inl BadSignature)
    \<and> \<not> cx_verify cx (public_key_bytes cx i) (token_refresh_message pk ts) (access_proof cx i b)"
proof -
  have "\<not> cx_verify cx (public_key_bytes cx i) (token_refresh_message pk ts) (access_proof cx i b)"
    using sole access_token_differ unfolding sole_message_def by metis
  then show ?thesis using verify_own_proof [OF assms(1,2)] foreign_binding_rejected [OF assms] by blast
qed

text \<open>An instance whose signature of one message verifies for that message alone.\<close>

definition one_message :: "bytes \<Rightarrow> crypto" where
  "one_message m0 = demo_crypto\<lparr>cx_verify := (\<lambda>k m sig. sig = replicate 64 (if m = m0 then 1 else 0)),
     cx_sign := (\<lambda>s m. replicate 64 (if m = m0 then 1 else 0))\<rparr>"

lemma one_message_ok: "crypto_ok (one_message m0)"
  using demo_crypto_ok by (simp add: crypto_ok_def one_message_def)

lemma access_proof_binds_session_witness:
  "verify_access_proof (one_message (access_proof_message (replicate 32 5) [1])) (replicate 32 5)
     (replicate 64 1) [2] = Inl BadSignature"
proof -
  let ?cx = "one_message (access_proof_message (replicate 32 5) [1])"
  let ?i = "\<lparr> id_seed = replicate 32 5 \<rparr>"
  have pk: "public_key_bytes ?cx ?i = replicate 32 5"
    by (simp add: public_key_bytes_def one_message_def demo_crypto_def)
  have pr: "access_proof ?cx ?i [1] = replicate 64 1"
    unfolding access_proof_def pk by (simp add: id_sign_def one_message_def)
  have "sole_message ?cx (public_key_bytes ?cx ?i) (access_proof ?cx ?i [1])
      (access_proof_message (public_key_bytes ?cx ?i) [1])"
    unfolding pk pr by (auto simp: sole_message_def one_message_def)
  from access_proof_binds_session [OF one_message_ok _ this, of "[]" 0]
  have "verify_access_proof ?cx (public_key_bytes ?cx ?i) (access_proof ?cx ?i [1]) [2] = Inl BadSignature"
    by simp
  then show ?thesis unfolding pk pr .
qed

section \<open>Wrapping\<close>

definition rand_ok :: "id_env \<Rightarrow> bool" where
  "rand_ok e \<longleftrightarrow> (\<forall>k n. \<exists>b. ie_rand e k n = Some b \<and> length b = n)"

definition seals :: "crypto \<Rightarrow> bool" where
  "seals cx \<longleftrightarrow> (\<forall>p s. cx_argon2 cx p s \<noteq> None) \<and> (\<forall>k n p. cx_seal cx k n p \<noteq> None)"

lemma getrandom_ok:
  assumes "rand_ok e"
  obtains b where "getrandom n e = (Some b, e\<lparr>ie_draws := Suc (ie_draws e)\<rparr>)" "length b = n"
  using assms by (auto simp: rand_ok_def getrandom_def)

lemma rand_ok_upd [simp]:
  "rand_ok (e\<lparr>ie_draws := a\<rparr>) = rand_ok e" "rand_ok (e\<lparr>ie_disk := b\<rparr>) = rand_ok e"
  "rand_ok (e\<lparr>ie_keyring := c\<rparr>) = rand_ok e" "rand_ok (e\<lparr>ie_ctr := f\<rparr>) = rand_ok e"
  by (simp_all add: rand_ok_def)

lemma wrap_layout:
  assumes "length salt = 16" "length nonce = 24"
  shows "take 4 (WRAP_MAGIC @ salt @ nonce @ ct) = WRAP_MAGIC"
    "take WRAP_SALT_LEN (drop 4 (WRAP_MAGIC @ salt @ nonce @ ct)) = salt"
    "take WRAP_NONCE_LEN (drop (4 + WRAP_SALT_LEN) (WRAP_MAGIC @ salt @ nonce @ ct)) = nonce"
    "drop (4 + WRAP_SALT_LEN + WRAP_NONCE_LEN) (WRAP_MAGIC @ salt @ nonce @ ct) = ct"
    "length (WRAP_MAGIC @ salt @ nonce @ ct) = 44 + length ct"
proof -
  have m: "length WRAP_MAGIC = 4" by (simp add: WRAP_MAGIC_def)
  show "take 4 (WRAP_MAGIC @ salt @ nonce @ ct) = WRAP_MAGIC"
    "take WRAP_SALT_LEN (drop 4 (WRAP_MAGIC @ salt @ nonce @ ct)) = salt"
    "take WRAP_NONCE_LEN (drop (4 + WRAP_SALT_LEN) (WRAP_MAGIC @ salt @ nonce @ ct)) = nonce"
    "drop (4 + WRAP_SALT_LEN + WRAP_NONCE_LEN) (WRAP_MAGIC @ salt @ nonce @ ct) = ct"
    "length (WRAP_MAGIC @ salt @ nonce @ ct) = 44 + length ct"
    using assms m by (simp_all add: WRAP_SALT_LEN_def WRAP_NONCE_LEN_def)
qed

lemma wrap_unwrap:
  assumes "crypto_ok cx" "seals cx" "rand_ok e" "length seed = 32"
  shows "\<exists>blob. wrap_seed cx seed pass e = (Inr blob, e\<lparr>ie_draws := ie_draws e + 2\<rparr>)
    \<and> take 4 blob = WRAP_MAGIC \<and> unwrap_seed cx blob pass = Inr seed \<and> length blob = 92"
proof -
  obtain salt where s: "getrandom WRAP_SALT_LEN e = (Some salt, e\<lparr>ie_draws := Suc (ie_draws e)\<rparr>)"
      "length salt = 16"
    using getrandom_ok [OF assms(3), of WRAP_SALT_LEN] by (metis WRAP_SALT_LEN_def)
  obtain nonce where n: "getrandom WRAP_NONCE_LEN (e\<lparr>ie_draws := Suc (ie_draws e)\<rparr>)
      = (Some nonce, e\<lparr>ie_draws := ie_draws e + 2\<rparr>)" "length nonce = 24"
    using getrandom_ok [of "e\<lparr>ie_draws := Suc (ie_draws e)\<rparr>" WRAP_NONCE_LEN] assms(3)
    by (auto simp: WRAP_NONCE_LEN_def)
  obtain key ct where k: "cx_argon2 cx pass salt = Some key" "cx_seal cx key nonce seed = Some ct"
    using assms(2) by (fastforce simp: seals_def)
  have o: "cx_open cx key nonce ct = Some seed" "length ct = 48"
    using crypto_okD(6,7) [OF assms(1) k(2)] assms(4) by auto
  note l = wrap_layout [OF s(2) n(2), of ct]
  have "unwrap_seed cx (WRAP_MAGIC @ salt @ nonce @ ct) pass = Inr seed"
    unfolding unwrap_seed_def Let_def l using k o assms(4)
    by (simp add: WRAP_SALT_LEN_def WRAP_NONCE_LEN_def)
  then show ?thesis using s n k l(1,5) o(2) by (simp add: wrap_seed_def)
qed

section \<open>Atomic writes\<close>

definition dview :: "disk \<Rightarrow> string \<Rightarrow> bytes option" where
  "dview d q = map_option (dk_data d) (dk_names d q)"

lemma dview_tick [simp]: "dview (tick d) q = dview d q"
  by (simp add: dview_def)

lemma d_create_dir_view [simp]: "dview (snd (d_create_dir d)) q = dview d q"
  by (simp add: d_create_dir_def)

lemma d_sync_view [simp]: "dview (snd (d_sync d)) q = dview d q"
  by (simp add: d_sync_def)

lemma d_remove_view: "q \<noteq> p \<Longrightarrow> dview (snd (d_remove p d)) q = dview d q"
  by (simp add: d_remove_def dview_def)

lemma d_create_new_view:
  assumes "disk_ok d" "q \<noteq> p"
  shows "dview (snd (d_create_new p d)) q = dview d q"
proof -
  have "dk_names d q = Some i \<Longrightarrow> i \<noteq> dk_next d" for i using assms(1) by (auto simp: disk_ok_def)
  then show ?thesis using assms(2)
    by (cases "dk_names d q") (auto simp: d_create_new_def d_open_create_def dview_def)
qed

lemma d_create_new_some:
  assumes "disk_ok d" "d_create_new p d = (Some i, d')"
  shows "dk_names d' p = Some i" "dk_data d' i = []" "disk_ok d'"
    "\<And>q. q \<noteq> p \<Longrightarrow> dk_names d' q \<noteq> Some i"
proof -
  have n: "dk_names d p = None" and o: "d_open_create p d = (Some i, d')"
    using assms(2) by (auto simp: d_create_new_def split: if_splits)
  then show "dk_names d' p = Some i" "dk_data d' i = []"
    by (auto simp: d_open_create_def split: if_splits)
  show ok: "disk_ok d'" using disk_ok_open_create [OF assms(1), of p] o by simp
  show "dk_names d' q \<noteq> Some i" if "q \<noteq> p" for q
    using ok \<open>dk_names d' p = Some i\<close> that unfolding disk_ok_def by blast
qed

lemma d_write_other:
  assumes "dk_names d q \<noteq> Some i"
  shows "dview (snd (snd (d_write_all i pos bs d))) q = dview d q"
  using assms by (cases "dk_names d q") (auto simp: d_write_all_def Let_def dview_def)

lemma d_write_names [simp]: "dk_names (snd (snd (d_write_all i pos bs d))) = dk_names d"
  by (simp add: d_write_all_def Let_def)

lemma d_write_new:
  assumes "d_write_all i 0 bs d = (True, pos, d')" "dk_data d i = []"
  shows "dk_data d' i = bs"
  using assms by (auto simp: d_write_all_def Let_def put_at_def pad_to_def split: if_splits)

lemma d_rename_ok:
  assumes "d_rename a b d = (True, d')"
  shows "dview d' b = dview d a" "\<And>q. q \<noteq> a \<Longrightarrow> q \<noteq> b \<Longrightarrow> dview d' q = dview d q"
  using assms by (auto simp: d_rename_def dview_def split: if_splits option.splits)

lemma d_rename_fail: "d_rename a b d = (False, d') \<Longrightarrow> dview d' q = dview d q"
  by (auto simp: d_rename_def split: if_splits option.splits)

lemma disk_ok_sync [simp]: "disk_ok (snd (d_sync d)) = disk_ok d"
  by (simp add: d_sync_def)

lemma disk_ok_create_dir [simp]: "disk_ok (snd (d_create_dir d)) = disk_ok d"
  by (simp add: d_create_dir_def)

text \<open>C31: Replacing a secret file is atomic: whichever system calls fail, and if the process
  dies between any two of them, the file's path always shows either the complete old
  contents or the complete new ones; it shows the new ones exactly when success is
  reported.  No file other than the target and the temporary one changes.\<close>

theorem atomic_write_all_or_nothing:
  assumes ok: "disk_ok d" and ne: "tmp_path path pid n \<noteq> path"
    and w: "atomic_write_secret path bs pid n d = (res, ds)"
  shows "(\<forall>d'\<in>set ds. dview d' path = dview d path \<or> dview d' path = Some bs)
    \<and> dview (hd ds) path = (if res then Some bs else dview d path)
    \<and> (\<forall>d'\<in>set ds. \<forall>q. q \<noteq> path \<longrightarrow> q \<noteq> tmp_path path pid n \<longrightarrow> dview d' q = dview d q)"
proof -
  define tmp where "tmp = tmp_path path pid n"
  obtain mk d1 where e1: "d_create_dir d = (mk, d1)" by fastforce
  obtain r d2 where e2: "d_create_new tmp d1 = (r, d2)" by fastforce
  have v1: "dview d1 q = dview d q" for q using d_create_dir_view [of d q] e1 by simp
  have ok1: "disk_ok d1" using ok disk_ok_create_dir [of d] e1 by simp
  have v2: "q \<noteq> tmp \<Longrightarrow> dview d2 q = dview d q" for q
    using d_create_new_view [OF ok1, of q tmp] e2 v1 by simp
  have np: "path \<noteq> tmp" using ne by (simp add: tmp_def)
  have rem: "q \<noteq> tmp \<Longrightarrow> dview (snd (d_remove tmp x)) q = dview x q" for q x
    by (rule d_remove_view)
  show ?thesis
  proof (cases "mk \<and> r \<noteq> None")
    case False
    then have "(res, ds) = (False, [d1]) \<or> (res, ds) = (False, [snd (d_remove tmp d2), d2, d1])"
      using w e1 e2 False
      by (cases mk; cases r) (simp_all add: atomic_write_secret_def Let_def tmp_def)
    then show ?thesis using v1 v2 np rem by (auto simp: tmp_def [symmetric])
  next
    case True
    then obtain i where r: "r = Some i" and mk by auto
    note c = d_create_new_some [OF ok1 e2 [unfolded r]]
    obtain okw p3 d3 where e3: "d_write_all i 0 bs d2 = (okw, p3, d3)" by (metis prod_cases3)
    have v3: "q \<noteq> tmp \<Longrightarrow> dview d3 q = dview d q" for q
      using d_write_other [of d2 q i 0 bs] c(4) v2 e3 by simp
    have n3: "dk_names d3 tmp = Some i" using d_write_names [of i 0 bs d2] e3 c(1) by simp
    obtain sy d4 where e4: "d_sync d3 = (sy, d4)" by fastforce
    obtain pm d5 where e5: "d_sync d4 = (pm, d5)" by fastforce
    obtain rn d6 where e6: "d_rename tmp path d5 = (rn, d6)" by fastforce
    have v4: "dview d4 q = dview d3 q" "dview d5 q = dview d3 q" for q
      using d_sync_view [of d3 q] d_sync_view [of d4 q] e4 e5 by auto
    have "atomic_write_secret path bs pid n d =
       (if \<not> okw then (False, [snd (d_remove tmp d3), d3, d2, d1])
        else if \<not> sy then (False, [snd (d_remove tmp d4), d4, d3, d2, d1])
        else if \<not> pm then (False, [d5, d4, d3, d2, d1])
        else if \<not> rn then (False, [snd (d_remove tmp d6), d6, d5, d4, d3, d2, d1])
        else (True, [tick d6, d6, d5, d4, d3, d2, d1]))"
      by (simp add: atomic_write_secret_def Let_def tmp_def [symmetric] e1 e2 r \<open>mk\<close> e3 e4 e5 e6)
    note ds = trans [OF w [symmetric] this]
    show ?thesis
    proof (cases "okw \<and> sy \<and> pm \<and> rn")
      case False
      define old where "old x \<longleftrightarrow> (\<forall>q. q \<noteq> tmp \<longrightarrow> dview x q = dview d q)" for x
      have v6: "rn = False \<Longrightarrow> dview d6 q = dview d3 q" for q
        using d_rename_fail [of tmp path d5 d6 q] e6 v4 by simp
      have o: "old d1" "old d2" "old d3" "old d4" "old d5" "\<not> rn \<Longrightarrow> old d6"
        using v1 v2 v3 v4 v6 by (simp_all add: old_def)
      have orem: "old x \<Longrightarrow> old (snd (d_remove tmp x))" for x using rem by (simp add: old_def)
      have "\<not> res \<and> ds \<noteq> [] \<and> (\<forall>x\<in>set ds. old x)"
        using ds False o orem by (cases okw; cases sy; cases pm; cases rn) simp_all
      then show ?thesis using np by (auto simp: old_def tmp_def [symmetric])
    next
      case True
      have "dk_data d3 i = bs" using d_write_new [of i bs d2 p3 d3] e3 True c(2) by simp
      then have t3: "dview d3 tmp = Some bs" using n3 by (simp add: dview_def)
      have v6: "dview d6 path = Some bs" "q \<noteq> tmp \<Longrightarrow> q \<noteq> path \<Longrightarrow> dview d6 q = dview d q" for q
        using d_rename_ok [of tmp path d5 d6] e6 True v4 t3 v3 by auto
      show ?thesis using ds True v1 v2 v3 v4 v6 np by (auto simp: tmp_def [symmetric])
    qed
  qed
qed

definition empty_disk :: disk where
  "empty_disk = \<lparr> dk_names = (\<lambda>_. None), dk_data = (\<lambda>_. []), dk_next = 0,
     dk_tick = 0, dk_fault = (\<lambda>_. False), dk_limit = (\<lambda>_. 1000) \<rparr>"

lemma empty_disk_ok: "disk_ok empty_disk" "no_faults empty_disk"
  by (simp_all add: empty_disk_def disk_ok_def no_faults_def)

lemma atomic_write_all_or_nothing_witness:
  "dview (hd (snd (atomic_write_secret ''/c/s.enc'' [1] 7 0 empty_disk))) ''/c/s.enc'' = Some [1]"
proof -
  obtain r ds where w: "atomic_write_secret ''/c/s.enc'' [1] 7 0 empty_disk = (r, ds)" by fastforce
  have r: "r = fst (atomic_write_secret ''/c/s.enc'' [1] 7 0 empty_disk)" using w by simp
  have t: "fst (atomic_write_secret ''/c/s.enc'' [1] 7 0 empty_disk)" by code_simp
  have n: "tmp_path ''/c/s.enc'' 7 0 \<noteq> ''/c/s.enc''" by code_simp
  have "dview (hd ds) ''/c/s.enc'' = (if r then Some [1] else dview empty_disk ''/c/s.enc'')"
    using atomic_write_all_or_nothing [OF empty_disk_ok(1) n w] by blast
  moreover have "r" unfolding r by (rule t)
  ultimately show ?thesis by (simp only: w snd_conv if_True)
qed

section \<open>The identity survives\<close>

definition paths_ok :: "string \<Rightarrow> bool" where
  "paths_ok path \<longleftrightarrow>
     (\<forall>pid n. tmp_path path pid n \<notin> {path, key_env_path path, with_extension path ''lock''})
     \<and> with_extension path ''lock'' \<noteq> path \<and> with_extension path ''lock'' \<noteq> key_env_path path
     \<and> path \<noteq> key_env_path path"

definition env_ok :: "string \<Rightarrow> id_env \<Rightarrow> bool" where
  "env_ok path e \<longleftrightarrow> disk_ok (ie_disk e) \<and> no_faults (ie_disk e) \<and> rand_ok e
     \<and> (\<forall>pid n. dk_names (ie_disk e) (tmp_path path pid n) = None)"

text \<open>Two environments in which reading a wrapped key finds the same passphrase.\<close>

definition same_secrets :: "string \<Rightarrow> id_env \<Rightarrow> id_env \<Rightarrow> bool" where
  "same_secrets path e e' \<longleftrightarrow> ie_pass_env e' = ie_pass_env e \<and> ie_keyring e' = ie_keyring e
     \<and> dview (ie_disk e') (key_env_path path) = dview (ie_disk e) (key_env_path path)"

definition key_file_passphrase :: "bytes option \<Rightarrow> string option" where
  "key_file_passphrase content =
    (case content of None \<Rightarrow> None | Some bs \<Rightarrow>
       (case from_utf8 bs of None \<Rightarrow> None | Some txt \<Rightarrow> find_map parse_key_env_line (lines txt)))"

lemma d_slurp_view:
  "no_faults d \<Longrightarrow> d_slurp p d = (case dview d p of None \<Rightarrow> Inl NotFound | Some bs \<Rightarrow> Inr bs, tick d)"
  by (cases "dk_names d p") (simp_all add: d_slurp_def dview_def)

lemma explicit_value:
  assumes "no_faults (ie_disk e)"
  shows "fst (explicit_passphrase path e) =
      (case ie_pass_env e of Some v \<Rightarrow> if v \<noteq> [] then Some v
         else key_file_passphrase (dview (ie_disk e) (key_env_path path))
       | None \<Rightarrow> key_file_passphrase (dview (ie_disk e) (key_env_path path)))"
    and "snd (explicit_passphrase path e) = e \<or> snd (explicit_passphrase path e) = e\<lparr>ie_disk := tick (ie_disk e)\<rparr>"
  using d_slurp_view [OF assms, of "key_env_path path"]
  by (auto simp: explicit_passphrase_def key_file_passphrase_def split: option.splits)

lemma same_secrets_refl [simp]: "same_secrets path e e"
  by (simp add: same_secrets_def)

lemma same_secrets_trans: "same_secrets path a b \<Longrightarrow> same_secrets path b c \<Longrightarrow> same_secrets path a c"
  by (simp add: same_secrets_def)

lemma env_ok_tick: "env_ok path e \<Longrightarrow> env_ok path (e\<lparr>ie_disk := tick (ie_disk e)\<rparr>)"
  by (simp add: env_ok_def)

lemma explicit_keeps:
  assumes "env_ok path e"
  shows "env_ok path (snd (explicit_passphrase path e))"
    "same_secrets path e (snd (explicit_passphrase path e))"
    "dview (ie_disk (snd (explicit_passphrase path e))) q = dview (ie_disk e) q"
  using explicit_value(2) [of e path] env_ok_tick [OF assms] assms
  by (auto simp: env_ok_def same_secrets_def)

lemma explicit_same:
  assumes "no_faults (ie_disk e)" "no_faults (ie_disk e')" "same_secrets path e e'"
  shows "fst (explicit_passphrase path e') = fst (explicit_passphrase path e)"
  using assms by (auto simp: explicit_value(1) same_secrets_def split: option.split)

lemma unwrap_passphrase_eq:
  "resolve_unwrap_passphrase path e =
    (case fst (explicit_passphrase path e) of
       Some p \<Rightarrow> Inr p
     | None \<Rightarrow> (case keyring_read (ie_keyring (snd (explicit_passphrase path e))) of
          Inr (Some p) \<Rightarrow> Inr p | Inr None \<Rightarrow> Inl NoPassphrase | Inl err \<Rightarrow> Inl err),
     snd (explicit_passphrase path e))"
  by (cases "explicit_passphrase path e")
     (auto simp: resolve_unwrap_passphrase_def split: option.splits sum.splits)

lemma keyring_create_persists:
  assumes "keyring_get_or_create cx e = (Inr p, e')" "env_ok path e"
  shows "keyring_read (ie_keyring e') = Inr (Some p)" "env_ok path e'" "ie_disk e' = ie_disk e"
    "ie_pass_env e' = ie_pass_env e"
  using assms
  by (auto simp: keyring_get_or_create_def getrandom_def env_ok_def rand_ok_def keyring_set_def
      keyring_read_def split: sum.splits option.splits prod.splits if_splits)

lemma keyring_fail_env:
  assumes "keyring_get_or_create cx e = (Inl err, e')" "env_ok path e"
  shows "env_ok path e'" "ie_disk e' = ie_disk e"
  using assms
  by (auto simp: keyring_get_or_create_def getrandom_def env_ok_def rand_ok_def keyring_set_def
      split: sum.splits option.splits prod.splits if_splits)

text \<open>A passphrase resolved for writing is the one that will be resolved for reading.\<close>

lemma wrap_then_unwrap_passphrase:
  assumes w: "resolve_wrap_passphrase cx path e = (Inr p, e')" and ok: "env_ok path e"
    and same: "same_secrets path e' e''" "no_faults (ie_disk e'')"
  shows "fst (resolve_unwrap_passphrase path e'') = Inr p"
proof -
  let ?x = "explicit_passphrase path e"
  have nf: "no_faults (ie_disk e)" "no_faults (ie_disk (snd ?x))"
    using ok explicit_keeps(1) [OF ok] by (auto simp: env_ok_def)
  show ?thesis
  proof (cases "fst ?x")
    case (Some q)
    then have e': "q = p" "e' = snd ?x"
      using w by (auto simp: resolve_wrap_passphrase_def split: prod.splits)
    have "fst (explicit_passphrase path e'') = Some q"
      using explicit_same [OF nf(1) same(2) same_secrets_trans [OF explicit_keeps(2) [OF ok]]]
        same(1) e' Some by simp
    then show ?thesis using e' by (simp add: unwrap_passphrase_eq)
  next
    case None
    then have k: "keyring_get_or_create cx (snd ?x) = (Inr p, e')"
      using w by (auto simp: resolve_wrap_passphrase_def split: prod.splits)
    note kp = keyring_create_persists [OF k explicit_keeps(1) [OF ok]]
    have "fst (explicit_passphrase path e'') = fst ?x"
      using kp(3,4) same explicit_keeps(2,3) [OF ok] nf
      by (auto simp: explicit_value(1) same_secrets_def split: option.split)
    moreover have "ie_keyring (snd (explicit_passphrase path e'')) = ie_keyring e''"
      using explicit_value(2) [OF same(2), of path] by auto
    ultimately show ?thesis using None kp(1) same(1)
      by (simp add: unwrap_passphrase_eq same_secrets_def)
  qed
qed

lemma resolve_wrap_keeps:
  assumes "resolve_wrap_passphrase cx path e = (r, e')" "env_ok path e"
  shows "env_ok path e'" "dview (ie_disk e') q = dview (ie_disk e) q"
proof -
  let ?x = "explicit_passphrase path e"
  note k = explicit_keeps [OF assms(2)]
  show "env_ok path e'"
    using assms(1) k keyring_create_persists(2) keyring_fail_env(1)
    by (cases ?x; cases "fst ?x"; cases r) (fastforce simp: resolve_wrap_passphrase_def)+
  have "ie_disk e' = ie_disk (snd ?x)"
    using assms(1) keyring_create_persists(3) [OF _ k(1)] keyring_fail_env(2) [OF _ k(1)]
    by (cases ?x; cases "fst ?x"; cases r) (fastforce simp: resolve_wrap_passphrase_def)+
  then show "dview (ie_disk e') q = dview (ie_disk e) q" using k(3) by simp
qed

text \<open>What the key file says about an identity, in an environment.\<close>

definition holds_identity :: "crypto \<Rightarrow> string \<Rightarrow> identity \<Rightarrow> id_env \<Rightarrow> bool" where
  "holds_identity cx path i e \<longleftrightarrow> length (id_seed i) = 32 \<and>
     (\<exists>bs. dview (ie_disk e) path = Some bs \<and>
       (bs = str_bytes (cx_hex cx (id_seed i)) \<or>
        take 4 bs = WRAP_MAGIC \<and>
          (\<exists>p. fst (resolve_unwrap_passphrase path e) = Inr p
             \<and> unwrap_seed cx bs (str_bytes p) = Inr (id_seed i))))"

lemma write_secret_ok:
  assumes "env_ok path e" "paths_ok path" "length bs \<le> MAX_OFF"
  shows "\<exists>d. write_secret path bs e = (True, e\<lparr>ie_disk := d, ie_ctr := Suc (ie_ctr e)\<rparr>)
    \<and> env_ok path (e\<lparr>ie_disk := d, ie_ctr := Suc (ie_ctr e)\<rparr>) \<and> dview d path = Some bs
    \<and> dview d (key_env_path path) = dview (ie_disk e) (key_env_path path)"
proof -
  let ?d = "ie_disk e"
  let ?tmp = "tmp_path path (ie_pid e) (ie_ctr e)"
  have ok: "disk_ok ?d" "no_faults ?d" "\<And>pid n. dk_names ?d (tmp_path path pid n) = None"
    using assms(1) by (auto simp: env_ok_def)
  have ne: "?tmp \<noteq> path" "?tmp \<noteq> key_env_path path" "path \<noteq> key_env_path path"
    "\<And>pid n. tmp_path path pid n \<noteq> path"
    using assms(2) by (auto simp: paths_ok_def)
  let ?i = "dk_next ?d"
  let ?d2 = "?d\<lparr>dk_names := (dk_names ?d)(?tmp \<mapsto> ?i), dk_data := (dk_data ?d)(?i := []), dk_next := Suc ?i\<rparr>"
  let ?d3 = "?d\<lparr>dk_names := (dk_names ?d)(?tmp \<mapsto> ?i), dk_data := (dk_data ?d)(?i := bs), dk_next := Suc ?i\<rparr>"
  have c1: "d_create_dir ?d = (True, tick ?d)" using ok by (simp add: d_create_dir_def)
  have c2: "d_create_new ?tmp (tick ?d) = (Some ?i, tick (tick (?d\<lparr>dk_names := (dk_names ?d)(?tmp \<mapsto> ?i),
      dk_data := (dk_data ?d)(?i := []), dk_next := Suc ?i\<rparr>)))"
  proof -
    have "\<not> failing (tick ?d)" using ok by simp
    then show ?thesis using ok(3) by (simp add: d_create_new_def d_open_create_def) (simp add: tick_def)
  qed
  obtain d3 where w: "d_write_all ?i 0 bs (tick (tick ?d2)) = (True, length bs, d3)"
    and d3: "dk_names d3 = dk_names ?d3" "dk_data d3 = dk_data ?d3" "dk_next d3 = dk_next ?d3" "no_faults d3"
    using ok assms(3) by (auto simp: d_write_all_def Let_def put_at_def pad_to_def fun_upd_idem)
  have s: "d_sync d3 = (True, tick d3)" "d_sync (tick d3) = (True, tick (tick d3))"
    using d3(4) by (simp_all add: d_sync_def)
  let ?d6 = "tick (tick (tick (d3\<lparr>dk_names := ((dk_names d3)(?tmp := None))(path \<mapsto> ?i)\<rparr>)))"
  have r: "d_rename ?tmp path (tick (tick d3)) = (True, ?d6)"
  proof -
    have "\<not> failing (tick (tick d3))" using d3 by simp
    then show ?thesis using d3(1) by (simp add: d_rename_def) (simp add: tick_def)
  qed
  have res: "\<exists>ds. atomic_write_secret path bs (ie_pid e) (ie_ctr e) ?d = (True, tick ?d6 # ds)"
    using c1 c2 w s r by (simp add: atomic_write_secret_def Let_def)
  then have wr: "write_secret path bs e = (True, e\<lparr>ie_disk := tick ?d6, ie_ctr := Suc (ie_ctr e)\<rparr>)"
    by (auto simp: write_secret_def)
  have fresh: "dk_names ?d q \<noteq> Some ?i" for q using ok(1) by (auto simp: disk_ok_def)
  have "disk_ok (tick ?d6)"
    using ok(1) d3(1-3) fresh assms(3) ne(1)
    by (auto simp: disk_ok_def less_Suc_eq split: if_splits)
  moreover have "dk_names (tick ?d6) (tmp_path path pid n) = None" for pid n
    using ok(3) d3(1) ne(4) by simp
  moreover have "dview (tick ?d6) path = Some bs" using d3 by (simp add: dview_def)
  moreover have "dview (tick ?d6) (key_env_path path) = dview ?d (key_env_path path)"
    using d3 ne(2,3) fresh by (cases "dk_names ?d (key_env_path path)") (auto simp: dview_def)
  ultimately show ?thesis using wr d3(4) assms(1)
    by (intro exI [of _ "tick ?d6"]) (simp add: env_ok_def)
qed

lemma hex_seed_file:
  assumes "crypto_ok cx" "length seed = 32"
  shows "take 4 (str_bytes (cx_hex cx seed)) \<noteq> WRAP_MAGIC"
    and "from_utf8 (str_bytes (cx_hex cx seed)) = Some (cx_hex cx seed)"
    and "cx_unhex cx (trim (cx_hex cx seed)) = Some seed"
    and "length (str_bytes (cx_hex cx seed)) = 64"
proof -
  let ?h = "cx_hex cx seed"
  note ok = crypto_okD [OF assms(1)]
  have len: "length ?h = 64" using ok(9) assms(2) by simp
  then have ne: "?h \<noteq> []" by auto
  have hc: "c \<in> set ?h \<Longrightarrow> graph_char c \<and> (of_char c :: nat) < 0x80" for c
    using ok(10) by (fastforce simp: hex_char_def is_digit_def graph_char_def)
  have "trim ?h = ?h" using hc ne by (intro trim_id) auto
  then show "cx_unhex cx (trim ?h) = Some seed" using ok(8) by simp
  have "utf8_valid (str_bytes ?h)" using hc by (intro utf8_ascii_str) auto
  then show "from_utf8 (str_bytes ?h) = Some ?h" by (simp add: from_utf8_def)
  show "length (str_bytes ?h) = 64" using len by simp
  show "take 4 (str_bytes ?h) \<noteq> WRAP_MAGIC"
  proof
    assume "take 4 (str_bytes ?h) = WRAP_MAGIC"
    then have "str_bytes (take 4 ?h) = str_bytes ''ORK1''"
      by (simp add: WRAP_MAGIC_def str_bytes_def take_map)
    then have "take 4 ?h = ''ORK1''" by simp
    then have "CHR ''O'' \<in> set ?h" by (metis in_set_takeD list.set_intros(1))
    then have "hex_char (CHR ''O'')" using ok(10) by blast
    then show False by (simp add: hex_char_def is_digit_def)
  qed
qed

lemma save_with_holds:
  assumes "crypto_ok cx" "seals cx" "env_ok path e" "paths_ok path" "length (id_seed i) = 32"
  shows "\<exists>e'. save_with cx i path pass e = (Inr (), e') \<and> env_ok path e' \<and> same_secrets path e e'
    \<and> (case pass of
         None \<Rightarrow> dview (ie_disk e') path = Some (str_bytes (cx_hex cx (id_seed i)))
       | Some p \<Rightarrow> \<exists>bs. dview (ie_disk e') path = Some bs \<and> take 4 bs = WRAP_MAGIC
           \<and> unwrap_seed cx bs (str_bytes p) = Inr (id_seed i))"
proof (cases pass)
  case None
  have "length (str_bytes (cx_hex cx (id_seed i))) \<le> MAX_OFF"
    using hex_seed_file(4) [OF assms(1,5)] by (simp add: MAX_OFF_def)
  from write_secret_ok [OF assms(3,4) this] show ?thesis using None
    by (auto simp: save_with_def same_secrets_def)
next
  case (Some p)
  let ?e1 = "e\<lparr>ie_draws := ie_draws e + 2\<rparr>"
  obtain blob where b: "wrap_seed cx (id_seed i) (str_bytes p) e = (Inr blob, ?e1)"
      "take 4 blob = WRAP_MAGIC" "unwrap_seed cx blob (str_bytes p) = Inr (id_seed i)"
      "length blob = 92"
    using wrap_unwrap [OF assms(1,2) _ assms(5), of e "str_bytes p"] assms(3) by (auto simp: env_ok_def)
  have e1: "env_ok path ?e1" using assms(3) by (simp add: env_ok_def)
  have "length blob = 92" by (rule b(4))
  then have "length blob \<le> MAX_OFF" by (simp add: MAX_OFF_def)
  from write_secret_ok [OF e1 assms(4) this] show ?thesis using Some b
    by (auto simp: save_with_def same_secrets_def)
qed

lemma take_lock_ok:
  assumes "env_ok path e" "paths_ok path"
  shows "env_ok path (take_lock path e)"
    "q \<noteq> with_extension path ''lock'' \<Longrightarrow> dview (ie_disk (take_lock path e)) q = dview (ie_disk e) q"
    "same_secrets path e (take_lock path e)"
proof -
  let ?lk = "with_extension path ''lock''"
  have ok: "disk_ok (ie_disk e)" "no_faults (ie_disk e)" using assms(1) by (auto simp: env_ok_def)
  have fresh: "dk_names (ie_disk e) q \<noteq> Some (dk_next (ie_disk e))" for q
    using ok(1) by (auto simp: disk_ok_def)
  have v: "dview (snd (d_open_create ?lk (ie_disk e))) q = dview (ie_disk e) q" if "q \<noteq> ?lk" for q
    using that fresh by (cases "dk_names (ie_disk e) q")
      (auto simp: d_open_create_def dview_def split: option.splits)
  then show "q \<noteq> ?lk \<Longrightarrow> dview (ie_disk (take_lock path e)) q = dview (ie_disk e) q"
    by (simp add: take_lock_def)
  have "dk_names (snd (d_open_create ?lk (ie_disk e))) (tmp_path path pid n) = None" for pid n
    using assms by (auto simp: d_open_create_def env_ok_def paths_ok_def split: option.splits)
  moreover have "no_faults (snd (d_open_create ?lk (ie_disk e)))"
    using ok(2) by (auto simp: d_open_create_def split: option.splits)
  ultimately show "env_ok path (take_lock path e)"
    using assms(1) disk_ok_open_create [OF ok(1)] by (simp add: env_ok_def take_lock_def)
  show "same_secrets path e (take_lock path e)"
    using v [of "key_env_path path"] assms(2) by (auto simp: same_secrets_def take_lock_def paths_ok_def)
qed

lemma holds_wrapped:
  assumes "length (id_seed i) = 32" "dview (ie_disk e) path = Some bs" "take 4 bs = WRAP_MAGIC"
    "unwrap_seed cx bs (str_bytes p) = Inr (id_seed i)" "fst (resolve_unwrap_passphrase path e) = Inr p"
  shows "holds_identity cx path i e"
  using assms by (auto simp: holds_identity_def)

lemma slurp_exists:
  assumes "no_faults d" "dview d path = Some bs"
  shows "d_exists path d" "d_slurp path d = (Inr bs, tick d)"
  using assms by (auto simp: d_exists_def d_slurp_view dview_def)

text \<open>Saving establishes what loading relies on.\<close>

lemma save_holds:
  assumes "crypto_ok cx" "seals cx" "env_ok path e" "paths_ok path" "length (id_seed i) = 32"
  shows "\<exists>e'. save cx i path e = (Inr (), e') \<and> env_ok path e' \<and> holds_identity cx path i e'"
proof -
  obtain r e1 where w: "resolve_wrap_passphrase cx path e = (r, e1)" by fastforce
  have e1: "env_ok path e1" by (rule resolve_wrap_keeps(1) [OF w assms(3)])
  show ?thesis
  proof (cases r)
    case (Inl err)
    from save_with_holds [OF assms(1,2) e1 assms(4,5), of None]
    show ?thesis using Inl w assms(5) by (auto simp: save_def holds_identity_def)
  next
    case (Inr p)
    obtain e' where s: "save_with cx i path (Some p) e1 = (Inr (), e')" and ok: "env_ok path e'"
      and same: "same_secrets path e1 e'"
      and f: "\<exists>bs. dview (ie_disk e') path = Some bs \<and> take 4 bs = WRAP_MAGIC
         \<and> unwrap_seed cx bs (str_bytes p) = Inr (id_seed i)"
      using save_with_holds [OF assms(1,2) e1 assms(4,5), of "Some p"] by auto
    have "fst (resolve_unwrap_passphrase path e') = Inr p"
      using wrap_then_unwrap_passphrase [OF w [unfolded Inr] assms(3) same] ok by (simp add: env_ok_def)
    then have "holds_identity cx path i e'" using f holds_wrapped assms(5) by blast
    then show ?thesis using Inr w s ok by (simp add: save_def)
  qed
qed

lemma load_holding:
  assumes "crypto_ok cx" "seals cx" "env_ok path e" "paths_ok path" "holds_identity cx path i e"
  shows "\<exists>e'. load_or_create cx path e = (Inr i, e') \<and> env_ok path e' \<and> holds_identity cx path i e'"
proof -
  let ?e = "take_lock path e"
  note lk = take_lock_ok [OF assms(3,4)]
  have nf: "no_faults (ie_disk ?e)" using lk(1) by (simp add: env_ok_def)
  obtain bs where bs: "dview (ie_disk e) path = Some bs" and len: "length (id_seed i) = 32"
    and alt: "bs = str_bytes (cx_hex cx (id_seed i)) \<or> take 4 bs = WRAP_MAGIC \<and>
          (\<exists>p. fst (resolve_unwrap_passphrase path e) = Inr p \<and> unwrap_seed cx bs (str_bytes p) = Inr (id_seed i))"
    using assms(5) by (auto simp: holds_identity_def)
  have v: "dview (ie_disk ?e) path = Some bs" using lk(2) [of path] bs assms(4) by (auto simp: paths_ok_def)
  let ?e1 = "?e\<lparr>ie_disk := tick (ie_disk ?e)\<rparr>"
  note sl = slurp_exists [OF nf v]
  have e1: "env_ok path ?e1" by (rule env_ok_tick [OF lk(1)])
  have ii: "\<lparr> id_seed = id_seed i \<rparr> = i" by simp
  from alt show ?thesis
  proof
    assume hx: "bs = str_bytes (cx_hex cx (id_seed i))"
    note h = hex_seed_file [OF assms(1) len, folded hx]
    obtain r e2 where w: "resolve_wrap_passphrase cx path ?e1 = (r, e2)" by fastforce
    have e2: "env_ok path e2" by (rule resolve_wrap_keeps(1) [OF w e1])
    show ?thesis
    proof (cases r)
      case (Inl err)
      have "dview (ie_disk e2) path = Some bs" using resolve_wrap_keeps(2) [OF w e1, of path] v by simp
      then have "holds_identity cx path i e2" using hx len by (simp add: holds_identity_def)
      then show ?thesis using sl h(1-3) w Inl e2 len
        by (simp add: load_or_create_def Let_def ii)
    next
      case (Inr p)
      obtain e' where s: "save_with cx i path (Some p) e2 = (Inr (), e')" and ok: "env_ok path e'"
        and same: "same_secrets path e2 e'"
        and f: "\<exists>bs. dview (ie_disk e') path = Some bs \<and> take 4 bs = WRAP_MAGIC
           \<and> unwrap_seed cx bs (str_bytes p) = Inr (id_seed i)"
        using save_with_holds [OF assms(1,2) e2 assms(4) len, of "Some p"] by auto
      have "fst (resolve_unwrap_passphrase path e') = Inr p"
        using wrap_then_unwrap_passphrase [OF w [unfolded Inr] e1 same] ok by (simp add: env_ok_def)
      then have "holds_identity cx path i e'" using f holds_wrapped len by blast
      then show ?thesis using sl h(1-3) w Inr s ok len
        by (simp add: load_or_create_def Let_def ii)
    qed
  next
    assume "take 4 bs = WRAP_MAGIC \<and>
          (\<exists>p. fst (resolve_unwrap_passphrase path e) = Inr p \<and> unwrap_seed cx bs (str_bytes p) = Inr (id_seed i))"
    then obtain p where m: "take 4 bs = WRAP_MAGIC" and p: "fst (resolve_unwrap_passphrase path e) = Inr p"
      and u: "unwrap_seed cx bs (str_bytes p) = Inr (id_seed i)" by auto
    have same1: "same_secrets path e ?e1" using lk(3) by (simp add: same_secrets_def)
    let ?x = "explicit_passphrase path ?e1"
    let ?e2 = "snd ?x"
    have e2: "env_ok path ?e2" and same2: "same_secrets path ?e1 ?e2"
      and v2: "dview (ie_disk ?e2) path = Some bs"
      using explicit_keeps [OF e1] v by auto
    have same_read: "fst (resolve_unwrap_passphrase path x) = Inr p"
      if "same_secrets path e x" "no_faults (ie_disk x)" for x
    proof -
      have "fst (explicit_passphrase path x) = fst (explicit_passphrase path e)"
        using explicit_same [OF _ that(2,1)] assms(3) by (simp add: env_ok_def)
      moreover have "ie_keyring (snd (explicit_passphrase path x)) = ie_keyring (snd (explicit_passphrase path e))"
        using explicit_value(2) [OF that(2), of path] explicit_value(2) [of e path] assms(3) that(1)
        by (auto simp: env_ok_def same_secrets_def)
      ultimately show ?thesis using p unfolding unwrap_passphrase_eq fst_conv by metis
    qed
    have r1: "resolve_unwrap_passphrase path ?e1 = (Inr p, ?e2)"
      using same_read [OF same1] e1 by (simp add: env_ok_def prod_eq_iff unwrap_passphrase_eq)
    have "fst (resolve_unwrap_passphrase path ?e2) = Inr p"
      using same_read [OF same_secrets_trans [OF same1 same2]] e2 by (simp add: env_ok_def)
    then have "holds_identity cx path i ?e2" using v2 m u len holds_wrapped by blast
    then show ?thesis using sl m r1 u e2 by (simp add: load_or_create_def Let_def ii)
  qed
qed

text \<open>C30: A device keeps its identity: once \<open>load_or_create\<close> has created one, every later
  start loads the same key, whichever source the passphrase comes from (the environment,
  \<open>key.env\<close>, an OS keyring that keeps or drops what is written to it, or none at all), and
  including the start that upgrades a plaintext file.\<close>

theorem identity_survives_restarts:
  assumes "crypto_ok cx" "seals cx" "env_ok path e" "paths_ok path"
    and fresh: "dk_names (ie_disk e) path = None"
  shows "\<exists>i e'. load_or_create cx path e = (Inr i, e')
    \<and> (\<forall>n. fst (load_or_create cx path (((\<lambda>x. snd (load_or_create cx path x)) ^^ n) e')) = Inr i)"
proof -
  let ?e = "take_lock path e"
  note lk = take_lock_ok [OF assms(3,4)]
  have nx: "\<not> d_exists path (ie_disk ?e)"
    using lk(2) [of path] fresh assms(4) by (auto simp: d_exists_def dview_def paths_ok_def)
  obtain seed where g: "getrandom 32 ?e = (Some seed, ?e\<lparr>ie_draws := Suc (ie_draws ?e)\<rparr>)" "length seed = 32"
    using getrandom_ok [of ?e 32] lk(1) by (auto simp: env_ok_def)
  let ?i = "\<lparr> id_seed = seed \<rparr>"
  have e1: "env_ok path (?e\<lparr>ie_draws := Suc (ie_draws ?e)\<rparr>)" using lk(1) by (simp add: env_ok_def)
  obtain e' where s: "save cx ?i path (?e\<lparr>ie_draws := Suc (ie_draws ?e)\<rparr>) = (Inr (), e')"
      "env_ok path e'" "holds_identity cx path ?i e'"
    using save_holds [OF assms(1,2) e1 assms(4), of ?i] g(2) by auto
  have l: "load_or_create cx path e = (Inr ?i, e')"
    using nx g(1) s(1) by (simp add: load_or_create_def Let_def generate_def)
  have "env_ok path (((\<lambda>x. snd (load_or_create cx path x)) ^^ n) e')
      \<and> holds_identity cx path ?i (((\<lambda>x. snd (load_or_create cx path x)) ^^ n) e')" for n
  proof (induction n)
    case (Suc n)
    then show ?case using load_holding [OF assms(1,2) _ assms(4)] by fastforce
  qed (use s in simp)
  then have "fst (load_or_create cx path (((\<lambda>x. snd (load_or_create cx path x)) ^^ n) e')) = Inr ?i" for n
    using load_holding [OF assms(1,2) _ assms(4), of _ ?i] by (metis fst_conv)
  then show ?thesis using l by blast
qed

definition demo_env :: id_env where
  "demo_env = \<lparr> ie_pass_env = None,
     ie_keyring = \<lparr> kr_available = True, kr_entry = None, kr_accepts = True, kr_keeps = False \<rparr>,
     ie_rand = (\<lambda>k n. Some (replicate n 7)), ie_draws = 0, ie_pid = 3, ie_ctr = 0, ie_disk = empty_disk \<rparr>"

lemma demo_tmp: "tmp_path ''/c/identity.key'' pid n = ''/c/identity.tmp.'' @ show_nat pid @ ''.'' @ show_nat n"
  by (simp add: tmp_path_def with_extension_def base_name_def last_segment_def file_stem_def Let_def)

lemma demo_lock: "with_extension ''/c/identity.key'' ''lock'' = ''/c/identity.lock''"
  by (simp add: with_extension_def base_name_def last_segment_def file_stem_def Let_def)

lemma demo_key_env: "key_env_path ''/c/identity.key'' = ''/c/key.env''"
  by (simp add: key_env_path_def path_parent_def)

lemma demo_paths: "paths_ok ''/c/identity.key''"
  by (simp add: paths_ok_def demo_tmp demo_lock demo_key_env)

lemma demo_env_ok: "env_ok ''/c/identity.key'' demo_env"
  using empty_disk_ok by (simp add: env_ok_def demo_env_def rand_ok_def empty_disk_def)

lemma demo_seals: "seals demo_crypto"
  by (simp add: seals_def demo_crypto_def)

lemma identity_survives_restarts_witness:
  "\<exists>i e'. load_or_create demo_crypto ''/c/identity.key'' demo_env = (Inr i, e')
    \<and> fst (load_or_create demo_crypto ''/c/identity.key'' e') = Inr i"
proof -
  have "dk_names (ie_disk demo_env) ''/c/identity.key'' = None"
    by (simp add: demo_env_def empty_disk_def)
  from identity_survives_restarts [OF demo_crypto_ok demo_seals demo_env_ok demo_paths this]
  show ?thesis by (metis funpow_0)
qed

section \<open>Trust on first use\<close>

text \<open>A well-formed store: UTF-8 text that ends with its last newline.\<close>

definition kp_wf :: "string \<Rightarrow> disk \<Rightarrow> bool" where
  "kp_wf path d \<longleftrightarrow> (case dview d path of None \<Rightarrow> True | Some bs \<Rightarrow>
     utf8_valid bs \<and> (bs = [] \<or> last (bytes_str bs) = char_of (10 :: nat)))"

definition token_ok :: "string \<Rightarrow> bool" where
  "token_ok s \<longleftrightarrow> s \<noteq> [] \<and> (\<forall>c\<in>set s. graph_char c)"

definition kp_text :: "string \<Rightarrow> disk \<Rightarrow> string" where
  "kp_text path d = (case dview d path of None \<Rightarrow> [] | Some bs \<Rightarrow> bytes_str bs)"

lemma kp_get_text:
  assumes "no_faults d" "kp_wf path d"
  shows "kp_get path dev d = (kp_find dev (lines (kp_text path d)), tick d)"
  using assms by (auto simp: kp_get_def d_slurp_view kp_wf_def kp_text_def from_utf8_def lines_def
      split: option.splits)

lemma kp_find_snoc:
  "kp_find dev (ls @ [l]) = (case kp_find dev ls of Some k \<Rightarrow> Some k | None \<Rightarrow> kp_find dev [l])"
  by (induction ls) (auto split: option.splits)

lemma token_line:
  assumes "token_ok dev" "token_ok key"
  shows "kp_find dev' [strip_cr (dev @ '' '' @ key)] = (if dev' = dev then Some key else None)"
    and "char_of (10 :: nat) \<notin> set (dev @ '' '' @ key)"
    and "utf8_valid (str_bytes (dev @ '' '' @ key @ [char_of (10 :: nat)]))"
proof -
  have g: "c \<in> set dev \<union> set key \<Longrightarrow> graph_char c" for c using assms by (auto simp: token_ok_def)
  have "last key \<in> set key" using assms(2) by (simp add: token_ok_def)
  then have "last key \<noteq> char_of (13 :: nat)" using g [of "last key"] by (auto simp: graph_char_def)
  then have cr: "strip_cr (dev @ '' '' @ key) = dev @ CHR '' '' # key"
    using assms(2) by (simp add: strip_cr_def token_ok_def)
  have "\<not> graph_char (CHR '' '')" by (simp add: graph_char_def)
  then have "CHR '' '' \<notin> set dev" using g [of "CHR '' ''"] by blast
  moreover have "trim key = key" using assms(2) by (intro trim_id) (auto simp: token_ok_def)
  ultimately show "kp_find dev' [strip_cr (dev @ '' '' @ key)] = (if dev' = dev then Some key else None)"
    unfolding cr by (simp add: split_once_append)
  show "char_of (10 :: nat) \<notin> set (dev @ '' '' @ key)"
  proof -
    have "\<not> graph_char (char_of (10 :: nat))" "char_of (10 :: nat) \<noteq> CHR '' ''" by (simp_all add: graph_char_def char_of_def)
    then show ?thesis using g [of "char_of (10 :: nat)"] by auto
  qed
  have "(of_char c :: nat) < 0x80" if "c \<in> set (dev @ '' '' @ key @ [char_of (10 :: nat)])" for c
    using that g [of c] by (auto simp: graph_char_def)
  then show "utf8_valid (str_bytes (dev @ '' '' @ key @ [char_of (10 :: nat)]))"
    by (intro utf8_ascii_str) blast
qed

lemma open_create_name': "d_open_create p d = (Some i, d') \<Longrightarrow> dk_names d' p = Some i"
  by (auto simp: d_open_create_def split: option.splits if_splits)

lemma kp_add_text:
  assumes nf: "no_faults d" and ok: "disk_ok d" and wf: "kp_wf path d"
    and t: "token_ok dev" "token_ok key" and new: "kp_find dev (lines (kp_text path d)) = None"
    and a: "kp_add path dev key d = (Some True, d')"
  shows "kp_text path d' = kp_text path d @ dev @ '' '' @ key @ [char_of (10 :: nat)]"
    "kp_wf path d'" "no_faults d'"
proof -
  let ?l = "str_bytes (dev @ '' '' @ key @ [char_of (10 :: nat)])"
  obtain i d3 where o: "d_open_create path (tick (tick d)) = (Some i, d3)"
    and w: "d_write_all i (length (dk_data d3 i)) ?l d3 = (True, length (dk_data d3 i) + length ?l, d')"
    using a nf new kp_get_text [OF nf wf, of dev]
    by (auto simp: kp_add_def d_create_dir_def Let_def d_write_all_def split: option.splits prod.splits if_splits)
  have n3: "dk_names d3 path = Some i" by (rule open_create_name' [OF o])
  have v3: "dk_data d3 i = (case dview d path of None \<Rightarrow> [] | Some bs \<Rightarrow> bs)" "no_faults d3"
    using o nf ok by (auto simp: d_open_create_def dview_def split: option.splits if_splits)
  have "dk_names d' = dk_names d3" using w d_write_names [of i "length (dk_data d3 i)" ?l d3] by simp
  moreover have "dk_data d' i = dk_data d3 i @ ?l"
    using w by (auto simp: d_write_all_def Let_def split: if_splits)
  ultimately have v': "dview d' path = Some ((case dview d path of None \<Rightarrow> [] | Some bs \<Rightarrow> bs) @ ?l)"
    using n3 v3 by (simp add: dview_def)
  have bl: "bytes_str (bs @ ?l) = bytes_str bs @ dev @ '' '' @ key @ [char_of (10 :: nat)]" for bs
    using bytes_str_str_bytes [of "dev @ '' '' @ key @ [char_of (10 :: nat)]"]
    by (simp add: bytes_str_def)
  show "kp_text path d' = kp_text path d @ dev @ '' '' @ key @ [char_of (10 :: nat)]"
    using v' bl bl [of "[]"] by (auto simp: kp_text_def bytes_str_def split: option.splits)
  show "no_faults d'" using w v3(2) by (auto simp: d_write_all_def Let_def split: if_splits)
  have u: "utf8_valid ((case dview d path of None \<Rightarrow> [] | Some bs \<Rightarrow> bs) @ ?l)"
    using wf token_line(3) [OF t] by (auto simp: kp_wf_def utf8_append split: option.splits)
  have "last (bytes_str ((case dview d path of None \<Rightarrow> [] | Some bs \<Rightarrow> bs) @ ?l)) = char_of (10 :: nat)"
    unfolding bl by simp
  then show "kp_wf path d'" unfolding kp_wf_def v' using u by simp
qed

text \<open>C32: Trust on first use pins the key: after a new device has been remembered, the same key
  is recognised and any other key for that device is refused as a possible
  man-in-the-middle, for good; and remembering it changes no other device's entry.\<close>

theorem tofu_pins_key:
  assumes "no_faults d" "disk_ok d" "kp_wf path d" "token_ok dev" "token_ok key"
    and new: "trust_on_first_use path dev key d = (TofuNew, d')"
  shows "(\<forall>key'. fst (trust_on_first_use path dev key' d') = (if key' = key then TofuKnown else TofuMismatch))
    \<and> (\<forall>dev'. dev' \<noteq> dev \<longrightarrow> fst (kp_get path dev' d') = fst (kp_get path dev' d))
    \<and> kp_wf path d'"
proof -
  note g = kp_get_text [OF assms(1,3)]
  have none: "kp_find dev (lines (kp_text path d)) = None"
    and a: "kp_add path dev key (tick d) = (Some True, d')"
    using new by (auto simp: trust_on_first_use_def g split: option.splits prod.splits bool.splits if_splits)
  have t: "no_faults (tick d)" "disk_ok (tick d)" "kp_wf path (tick d)" "kp_text path (tick d) = kp_text path d"
    using assms(1-3) by (simp_all add: kp_wf_def kp_text_def)
  note r = kp_add_text [OF t(1-3) assms(4,5) _ a, unfolded t(4), OF none]
  have ends: "kp_text path d = [] \<or> last (kp_text path d) = char_of (10 :: nat)"
    using assms(3) by (auto simp: kp_wf_def kp_text_def bytes_str_def split: option.splits)
  have ls: "lines (kp_text path d') = lines (kp_text path d) @ [strip_cr (dev @ '' '' @ key)]"
    using lines_append_line [OF ends token_line(2) [OF assms(4,5)]] r(1) by simp
  have get: "fst (kp_get path dev' d') = (if dev' = dev then Some key else fst (kp_get path dev' d))" for dev'
    using none unfolding kp_get_text [OF r(3,2)] g fst_conv ls kp_find_snoc token_line(1) [OF assms(4,5)]
    by (auto split: option.splits)
  have "fst (trust_on_first_use path dev key' d') = (if key' = key then TofuKnown else TofuMismatch)" for key'
    using get [of dev] by (auto simp: trust_on_first_use_def split: prod.splits)
  then show ?thesis using get r(2) by simp
qed

lemma tofu_pins_key_witness:
  "fst (trust_on_first_use ''/k'' ''d1'' ''bb'' (snd (trust_on_first_use ''/k'' ''d1'' ''aa'' empty_disk))) = TofuMismatch"
proof -
  obtain r d' where n: "trust_on_first_use ''/k'' ''d1'' ''aa'' empty_disk = (r, d')" by fastforce
  have "fst (trust_on_first_use ''/k'' ''d1'' ''aa'' empty_disk) = TofuNew" by code_simp
  then have t: "trust_on_first_use ''/k'' ''d1'' ''aa'' empty_disk = (TofuNew, d')" using n by simp
  have w: "kp_wf ''/k'' empty_disk" by (simp add: kp_wf_def dview_def empty_disk_def)
  have "token_ok ''d1''" "token_ok ''aa''" by (simp_all add: token_ok_def graph_char_def)
  from tofu_pins_key [OF empty_disk_ok(2,1) w this t] show ?thesis using t by simp
qed

end
