(* ===== verification/RelayApi.thy ===== *)
theory RelayApi
  imports RelayAuth Identity "HOL-Library.Signed_Division"
begin

text \<open>
  The rendezvous server's HTTP API (\<open>apps/rendezvous/src/api.rs\<close>, \<open>db.rs\<close>,
  \<open>error.rs\<close>, \<open>resolver.rs\<close>, \<open>config.rs\<close>, \<open>crates/entitlement\<close>).  The database is a
  record of its tables as lists of rows, with the constraints the schema declares (UNIQUE,
  ON DELETE CASCADE) and rowids as SQLite gives them; one statement is one step.  Argon2,
  HMAC, base64 and the relay-entitlement policy are fields of \<open>api_env\<close>; the random bytes of
  the tokens are a stream in the state.  A handler is a function to its response and the new
  state.  The clock gives unix seconds and, for the throttle and tickets, milliseconds.  A
  failing SQLite other than by a constraint is not modelled.
\<close>

section \<open>Configuration\<close>

record turn_config =
  tc_secret :: string
  tc_host :: string
  tc_port :: nat
  tc_ttl :: nat

record rz_config =
  rc_database_url :: string
  rc_open :: bool
  rc_admin :: "string option"
  rc_bootstrap :: "string option"
  rc_proxy_header :: "string option"
  rc_token_ttl :: "nat option"
  rc_turn :: "turn_config option"

definition env_flag :: "string option \<Rightarrow> bool" where
  "env_flag v = (v = Some ''true'' \<or> v = Some ''1'')"

definition nonempty :: "string option \<Rightarrow> string option" where
  "nonempty v = (case v of Some s \<Rightarrow> if s \<noteq> [] then Some s else None | None \<Rightarrow> None)"

definition env_num :: "nat \<Rightarrow> string option \<Rightarrow> nat \<Rightarrow> nat" where
  "env_num w v d = (case Option.bind v (parse_uint w) of Some n \<Rightarrow> n | None \<Rightarrow> d)"

definition config_from_env :: "(string \<Rightarrow> string option) \<Rightarrow> rz_config" where
  "config_from_env env = \<lparr>
     rc_database_url = (case env ''DATABASE_URL'' of Some u \<Rightarrow> u | None \<Rightarrow> ''sqlite:rmd.db?mode=rwc''),
     rc_open = env_flag (env ''RMD_RZ_OPEN_REGISTRATION''),
     rc_admin = nonempty (env ''RMD_RZ_ADMIN_TOKEN''),
     rc_bootstrap = nonempty (env ''RMD_RZ_BOOTSTRAP_TOKEN''),
     rc_proxy_header = nonempty (map_option (\<lambda>s. map ascii_lower (trim s)) (env ''RMD_TRUSTED_PROXY_HEADER'')),
     rc_token_ttl = (case Option.bind (env ''RMD_RZ_TOKEN_TTL'') (parse_uint 64) of
                       Some n \<Rightarrow> if n = 0 then None else Some n
                     | None \<Rightarrow> Some (90 * 24 * 3600)),
     rc_turn =
       (if env_flag (env ''RMD_TURN_ENABLED'') then
          (case (nonempty (env ''RMD_TURN_SECRET''), nonempty (env ''RMD_TURN_HOST'')) of
             (Some secret, Some host) \<Rightarrow> Some \<lparr> tc_secret = secret, tc_host = host,
               tc_port = env_num 16 (env ''RMD_TURN_PORT'') 3478, tc_ttl = env_num 64 (env ''RMD_TURN_TTL'') 600 \<rparr>
           | _ \<Rightarrow> None)
        else None) \<rparr>"

section \<open>Errors and decisions\<close>

datatype app_error =
    BadRequest string
  | Unauthorized
  | NotFound
  | Conflict string
  | RegistrationClosed
  | TooManyRequests nat
  | DbError

fun status_code :: "app_error \<Rightarrow> nat" where
  "status_code (BadRequest m) = 400"
| "status_code Unauthorized = 401"
| "status_code NotFound = 404"
| "status_code (Conflict m) = 409"
| "status_code RegistrationClosed = 403"
| "status_code (TooManyRequests s) = 429"
| "status_code DbError = 500"

datatype relay_decision = RdAllow | RdNoSubscription | RdFairUse | RdConcurrencyLimit

definition rd_allowed :: "relay_decision \<Rightarrow> bool" where
  "rd_allowed d \<longleftrightarrow> d = RdAllow"

fun rd_reason :: "relay_decision \<Rightarrow> string option" where
  "rd_reason RdAllow = None"
| "rd_reason RdNoSubscription = Some ''no_subscription''"
| "rd_reason RdFairUse = Some ''fair_use_exceeded''"
| "rd_reason RdConcurrencyLimit = Some ''concurrency_limit''"

section \<open>The database\<close>

record user_row =
  u_id :: int
  u_name :: string
  u_hash :: string
  u_created :: int

record device_row =
  dv_pk :: int
  dv_user :: int
  dv_id :: string
  dv_name :: string
  dv_key :: string
  dv_role :: string
  dv_created :: int
  dv_seen :: "int option"

record token_row =
  tk_device :: int
  tk_hash :: string
  tk_created :: int
  tk_expires :: "int option"

record session_row =
  se_user :: int
  se_hash :: string
  se_created :: int
  se_expires :: int

record db =
  db_users :: "user_row list"
  db_devices :: "device_row list"
  db_tokens :: "token_row list"
  db_sessions :: "session_row list"
  db_settings :: "string \<rightharpoonup> string"

definition SETTING_OPEN_REGISTRATION :: string where "SETTING_OPEN_REGISTRATION = ''open_registration''"

definition next_rowid :: "int list \<Rightarrow> int" where
  "next_rowid ids = fold max ids 0 + 1"

definition get_setting :: "string \<Rightarrow> db \<Rightarrow> string option" where
  "get_setting key d = db_settings d key"

definition set_setting :: "string \<Rightarrow> string \<Rightarrow> db \<Rightarrow> db" where
  "set_setting key v d = d\<lparr>db_settings := (db_settings d)(key \<mapsto> v)\<rparr>"

definition bool_str :: "bool \<Rightarrow> string" where "bool_str b = (if b then ''true'' else ''false'')"
definition parse_bool :: "string \<Rightarrow> bool" where "parse_bool s \<longleftrightarrow> s = ''true'' \<or> s = ''1''"

definition seed_settings :: "rz_config \<Rightarrow> db \<Rightarrow> db" where
  "seed_settings c d =
    (if get_setting SETTING_OPEN_REGISTRATION d = None
     then set_setting SETTING_OPEN_REGISTRATION (bool_str (rc_open c)) d else d)"

text \<open>The rows inserted, or None for a name that is taken.\<close>

definition create_user_if_allowed :: "string \<Rightarrow> string \<Rightarrow> bool \<Rightarrow> bool \<Rightarrow> int \<Rightarrow> db \<Rightarrow> nat option \<times> db" where
  "create_user_if_allowed name hash open_reg allow_bootstrap now d =
    (if (db_users d = [] \<and> allow_bootstrap) \<or> open_reg then
       if name \<in> u_name ` set (db_users d) then (None, d)
       else (Some 1, d\<lparr>db_users := db_users d @ [\<lparr> u_id = next_rowid (map u_id (db_users d)), u_name = name,
              u_hash = hash, u_created = now \<rparr>]\<rparr>)
     else (Some 0, d))"

section \<open>Server state\<close>

record api_env =
  ae_crypto :: crypto
  ae_hash :: "string \<Rightarrow> bytes \<Rightarrow> string"
  ae_verify :: "string \<Rightarrow> string \<Rightarrow> bool"
  ae_dummy :: string
  ae_hmac :: "string \<Rightarrow> string \<Rightarrow> string"
  ae_b64 :: "string \<Rightarrow> bytes option"
  ae_allow_relay :: "int \<Rightarrow> relay_decision"
  ae_config :: rz_config
  ae_ticket_ttl :: nat

record app =
  ap_db :: db
  ap_throttle :: login_throttle
  ap_tickets :: tickets
  ap_ice_cache :: "int \<rightharpoonup> string \<times> string \<times> int"
  ap_rand :: "nat \<Rightarrow> bytes"
  ap_draws :: nat

record clock =
  ck_unix :: int
  ck_ms :: nat

definition draw :: "app \<Rightarrow> bytes \<times> app" where
  "draw s = (ap_rand s (ap_draws s), s\<lparr>ap_draws := Suc (ap_draws s)\<rparr>)"

section \<open>Credentials of a request\<close>

text \<open>The \<open>Authorization\<close> header, if it is there and ASCII.\<close>

definition bearer_token :: "string option \<Rightarrow> string option" where
  "bearer_token hdr = nonempty (map_option trim (Option.bind hdr (strip_prefix ''Bearer '')))"

definition request_token :: "string option \<Rightarrow> string option \<Rightarrow> string option" where
  "request_token hdr q = (case bearer_token hdr of Some t \<Rightarrow> Some t | None \<Rightarrow> q)"

definition api_ct_eq :: "bytes \<Rightarrow> bytes \<Rightarrow> bool" where
  "api_ct_eq a b = (if length a \<noteq> length b then False else diff_bits a b = 0)"

interpretation api_eq: ct_equality api_ct_eq
  by unfold_locales (auto simp: api_ct_eq_def diff_bits_zero)

definition basic_auth :: "api_env \<Rightarrow> string option \<Rightarrow> app_error + string \<times> string" where
  "basic_auth ae hdr =
    (case Option.bind (Option.bind (Option.bind hdr (strip_prefix ''Basic '')) (ae_b64 ae)) from_utf8 of
       None \<Rightarrow> Inl Unauthorized
     | Some text \<Rightarrow> (case split_once CHR '':'' text of None \<Rightarrow> Inl Unauthorized | Some up \<Rightarrow> Inr up))"

definition require_admin :: "api_env \<Rightarrow> string option \<Rightarrow> bool" where
  "require_admin ae hdr =
    (case (rc_admin (ae_config ae), Option.bind hdr (strip_prefix ''Bearer '')) of
       (Some expected, Some presented) \<Rightarrow> api_ct_eq (str_bytes presented) (str_bytes expected)
     | _ \<Rightarrow> False)"

text \<open>The rows with a name or device id: at most one, by the constraints.\<close>

definition find_user :: "string \<Rightarrow> db \<Rightarrow> user_row option" where
  "find_user name d = find (\<lambda>u. u_name u = name) (db_users d)"

definition find_device :: "string \<Rightarrow> db \<Rightarrow> device_row option" where
  "find_device dev d = find (\<lambda>r. dv_id r = dev) (db_devices d)"

definition authenticate_user :: "api_env \<Rightarrow> clock \<Rightarrow> string \<Rightarrow> string \<Rightarrow> app \<Rightarrow> (app_error + int) \<times> app" where
  "authenticate_user ae ck name pw s =
    (case check name (ck_ms ck) (ap_throttle s) of
       Some retry \<Rightarrow> (Inl (TooManyRequests retry), s)
     | None \<Rightarrow>
         (case find_user name (ap_db s) of
            Some u \<Rightarrow>
              if ae_verify ae pw (u_hash u) then (Inr (u_id u), s\<lparr>ap_throttle := record_success name (ap_throttle s)\<rparr>)
              else (Inl Unauthorized, s\<lparr>ap_throttle := record_failure name (ck_ms ck) (ap_throttle s)\<rparr>)
          | None \<Rightarrow> (Inl Unauthorized, s\<lparr>ap_throttle := record_failure name (ck_ms ck) (ap_throttle s)\<rparr>)))"

definition SESSION_TTL_SECS :: int where "SESSION_TTL_SECS = 30 * 24 * 3600"

definition mint_user_session :: "api_env \<Rightarrow> clock \<Rightarrow> int \<Rightarrow> app \<Rightarrow> (app_error + string) \<times> app" where
  "mint_user_session ae ck user s =
    (case draw s of
       (r, s1) \<Rightarrow>
         let token = generate_token (ae_crypto ae) r; h = hash_token (ae_crypto ae) token
         in if h \<in> se_hash ` set (db_sessions (ap_db s1)) then (Inl DbError, s1)
            else (Inr token, s1\<lparr>ap_db := (ap_db s1)\<lparr>db_sessions := db_sessions (ap_db s1) @
              [\<lparr> se_user = user, se_hash = h, se_created = ck_unix ck, se_expires = ck_unix ck + SESSION_TTL_SECS \<rparr>]\<rparr>\<rparr>))"

definition user_id_for_session :: "api_env \<Rightarrow> clock \<Rightarrow> string \<Rightarrow> db \<Rightarrow> int option" where
  "user_id_for_session ae ck token d =
    map_option se_user (find (\<lambda>r. se_hash r = hash_token (ae_crypto ae) token \<and> ck_unix ck < se_expires r) (db_sessions d))"

definition revoke_user_session :: "api_env \<Rightarrow> string \<Rightarrow> db \<Rightarrow> db" where
  "revoke_user_session ae token d =
    d\<lparr>db_sessions := filter (\<lambda>r. se_hash r \<noteq> hash_token (ae_crypto ae) token) (db_sessions d)\<rparr>"

definition session_user :: "api_env \<Rightarrow> clock \<Rightarrow> string option \<Rightarrow> db \<Rightarrow> int option" where
  "session_user ae ck hdr d = Option.bind (bearer_token hdr) (\<lambda>t. user_id_for_session ae ck t d)"

definition authed_user :: "api_env \<Rightarrow> clock \<Rightarrow> string option \<Rightarrow> app \<Rightarrow> (app_error + int) \<times> app" where
  "authed_user ae ck hdr s =
    (case bearer_token hdr of
       Some t \<Rightarrow> ((case user_id_for_session ae ck t (ap_db s) of Some u \<Rightarrow> Inr u | None \<Rightarrow> Inl Unauthorized), s)
     | None \<Rightarrow> (case basic_auth ae hdr of
                  Inl e \<Rightarrow> (Inl e, s)
                | Inr (name, pw) \<Rightarrow> authenticate_user ae ck name pw s))"

text \<open>Join of the token with its device.\<close>

definition find_token :: "api_env \<Rightarrow> clock \<Rightarrow> string \<Rightarrow> db \<Rightarrow> device_row option" where
  "find_token ae ck token d =
    Option.bind (find (\<lambda>t. tk_hash t = hash_token (ae_crypto ae) token
        \<and> (case tk_expires t of None \<Rightarrow> True | Some e \<Rightarrow> ck_unix ck < e)) (db_tokens d))
      (\<lambda>t. find (\<lambda>r. dv_pk r = tk_device t) (db_devices d))"

definition touch :: "int \<Rightarrow> (device_row \<Rightarrow> bool) \<Rightarrow> db \<Rightarrow> db" where
  "touch now sel d = d\<lparr>db_devices := map (\<lambda>r. if sel r then r\<lparr>dv_seen := Some now\<rparr> else r) (db_devices d)\<rparr>"

definition touch_last_seen :: "clock \<Rightarrow> string \<Rightarrow> db \<Rightarrow> db" where
  "touch_last_seen ck dev = touch (ck_unix ck) (\<lambda>r. dv_id r = dev)"

definition resolve_device_token :: "api_env \<Rightarrow> clock \<Rightarrow> string \<Rightarrow> app \<Rightarrow> (int \<times> string) option \<times> app" where
  "resolve_device_token ae ck token s =
    (case find_token ae ck token (ap_db s) of
       None \<Rightarrow> (None, s)
     | Some r \<Rightarrow> (Some (dv_user r, dv_id r), s\<lparr>ap_db := touch (ck_unix ck) (\<lambda>x. dv_pk x = dv_pk r) (ap_db s)\<rparr>))"

definition user_id_for_token :: "api_env \<Rightarrow> clock \<Rightarrow> string \<Rightarrow> app \<Rightarrow> int option \<times> app" where
  "user_id_for_token ae ck token s = map_prod (map_option fst) id (resolve_device_token ae ck token s)"

definition device_id_for_token :: "api_env \<Rightarrow> clock \<Rightarrow> string \<Rightarrow> app \<Rightarrow> string option \<times> app" where
  "device_id_for_token ae ck token s = map_prod (map_option snd) id (resolve_device_token ae ck token s)"

type_synonym resolver = "clock \<Rightarrow> string \<Rightarrow> app \<Rightarrow> credential option \<times> app"

definition device_token_resolver :: "api_env \<Rightarrow> resolver" where
  "device_token_resolver ae ck token s =
    map_prod (map_option (\<lambda>(u, d). \<lparr> cr_user = u, cr_signaling = d \<rparr>)) id (resolve_device_token ae ck token s)"

section \<open>Accounts\<close>

definition registration_open :: "api_env \<Rightarrow> app \<Rightarrow> bool" where
  "registration_open ae s =
    (case get_setting SETTING_OPEN_REGISTRATION (ap_db s) of
       Some v \<Rightarrow> parse_bool v
     | None \<Rightarrow> rc_open (ae_config ae))"

definition register_user :: "api_env \<Rightarrow> clock \<Rightarrow> string \<Rightarrow> string \<Rightarrow> string option \<Rightarrow> app \<Rightarrow> (app_error + unit) \<times> app" where
  "register_user ae ck name pw bootstrap s =
    (if trim name = [] \<or> length pw < 8 then
       (Inl (BadRequest ''username required; password must be at least 8 chars''), s)
     else
       let open_reg = registration_open ae s;
           (effective_open, allow_bootstrap) =
             (case rc_bootstrap (ae_config ae) of
                Some expected \<Rightarrow>
                  let ok = (case bootstrap of Some t \<Rightarrow> api_ct_eq (str_bytes t) (str_bytes expected) | None \<Rightarrow> False)
                  in (open_reg \<or> ok, ok)
              | None \<Rightarrow> (open_reg, True))
       in if \<not> effective_open \<and> \<not> allow_bootstrap then (Inl RegistrationClosed, s)
          else
            (case draw s of
               (salt, s1) \<Rightarrow>
                 (case create_user_if_allowed name (ae_hash ae pw salt) effective_open allow_bootstrap (ck_unix ck) (ap_db s1) of
                    (None, d) \<Rightarrow> (Inl (Conflict ''username already taken''), s1\<lparr>ap_db := d\<rparr>)
                  | (Some n, d) \<Rightarrow> ((if n = 0 then Inl RegistrationClosed else Inr ()), s1\<lparr>ap_db := d\<rparr>))))"

definition login :: "api_env \<Rightarrow> clock \<Rightarrow> string \<Rightarrow> string \<Rightarrow> app \<Rightarrow> (app_error + string) \<times> app" where
  "login ae ck name pw s =
    (case authenticate_user ae ck name pw s of
       (Inl e, s1) \<Rightarrow> (Inl e, s1)
     | (Inr u, s1) \<Rightarrow> mint_user_session ae ck u s1)"

definition get_registration :: "api_env \<Rightarrow> app \<Rightarrow> bool" where
  "get_registration = registration_open"

definition set_registration :: "api_env \<Rightarrow> string option \<Rightarrow> bool \<Rightarrow> app \<Rightarrow> (app_error + bool) \<times> app" where
  "set_registration ae hdr enabled s =
    (if require_admin ae hdr
     then (Inr enabled, s\<lparr>ap_db := set_setting SETTING_OPEN_REGISTRATION (bool_str enabled) (ap_db s)\<rparr>)
     else (Inl Unauthorized, s))"

section \<open>Devices\<close>

definition issue_device_token :: "api_env \<Rightarrow> clock \<Rightarrow> int \<Rightarrow> app \<Rightarrow> (app_error + string) \<times> app" where
  "issue_device_token ae ck pk s =
    (let s1 = s\<lparr>ap_db := (ap_db s)\<lparr>db_tokens := filter (\<lambda>t. tk_device t \<noteq> pk) (db_tokens (ap_db s))\<rparr>\<rparr>
     in case draw s1 of
          (r, s2) \<Rightarrow>
            let token = generate_token (ae_crypto ae) r;
                h = hash_token (ae_crypto ae) token;
                expires = map_option (\<lambda>ttl. ck_unix ck + int ttl) (rc_token_ttl (ae_config ae))
            in if h \<in> tk_hash ` set (db_tokens (ap_db s2)) then (Inl DbError, s2)
               else (Inr token, s2\<lparr>ap_db := (ap_db s2)\<lparr>db_tokens := db_tokens (ap_db s2) @
                 [\<lparr> tk_device = pk, tk_hash = h, tk_created = ck_unix ck, tk_expires = expires \<rparr>]\<rparr>\<rparr>))"

record register_device_body =
  rb_username :: "string option"
  rb_password :: "string option"
  rb_device_id :: string
  rb_name :: string
  rb_key :: string
  rb_role :: string

definition default_role :: string where "default_role = ''both''"

definition register_caller ::
  "api_env \<Rightarrow> clock \<Rightarrow> string option \<Rightarrow> register_device_body \<Rightarrow> app \<Rightarrow> (app_error + int) \<times> app" where
  "register_caller ae ck hdr b s =
    (if hdr \<noteq> None then authed_user ae ck hdr s
     else (case (rb_username b, rb_password b) of
             (Some u, Some p) \<Rightarrow> authenticate_user ae ck u p s
           | _ \<Rightarrow> (Inl Unauthorized, s)))"

text \<open>Find or create the device of an account: its rowid, or the conflict.\<close>

definition upsert_device :: "clock \<Rightarrow> int \<Rightarrow> register_device_body \<Rightarrow> db \<Rightarrow> (app_error + int) \<times> db" where
  "upsert_device ck user b d =
    (case find_device (rb_device_id b) d of
       Some r \<Rightarrow>
         if dv_user r \<noteq> user then (Inl (Conflict ''device already registered to another account''), d)
         else (Inr (dv_pk r), d\<lparr>db_devices := map (\<lambda>x. if dv_pk x = dv_pk r
                 then x\<lparr>dv_name := rb_name b, dv_key := rb_key b, dv_role := rb_role b\<rparr> else x) (db_devices d)\<rparr>)
     | None \<Rightarrow>
         let pk = next_rowid (map dv_pk (db_devices d))
         in (Inr pk, d\<lparr>db_devices := db_devices d @ [\<lparr> dv_pk = pk, dv_user = user, dv_id = rb_device_id b,
               dv_name = rb_name b, dv_key = rb_key b, dv_role = rb_role b, dv_created = ck_unix ck, dv_seen = None \<rparr>]\<rparr>))"

definition register_device ::
  "api_env \<Rightarrow> clock \<Rightarrow> string option \<Rightarrow> register_device_body \<Rightarrow> app \<Rightarrow> (app_error + string \<times> string) \<times> app" where
  "register_device ae ck hdr b s =
    (case register_caller ae ck hdr b s of
       (Inl e, s1) \<Rightarrow> (Inl e, s1)
     | (Inr user, s1) \<Rightarrow>
         (case upsert_device ck user b (ap_db s1) of
            (Inl e, d) \<Rightarrow> (Inl e, s1\<lparr>ap_db := d\<rparr>)
          | (Inr pk, d) \<Rightarrow>
              (case issue_device_token ae ck pk (s1\<lparr>ap_db := d\<rparr>) of
                 (Inl e, s2) \<Rightarrow> (Inl e, s2)
               | (Inr token, s2) \<Rightarrow> (Inr (token, rb_device_id b), s2))))"

definition list_devices :: "api_env \<Rightarrow> clock \<Rightarrow> string option \<Rightarrow> app \<Rightarrow> (app_error + device_row list) \<times> app" where
  "list_devices ae ck hdr s =
    (case authed_user ae ck hdr s of
       (Inl e, s1) \<Rightarrow> (Inl e, s1)
     | (Inr u, s1) \<Rightarrow> (Inr (sort_key dv_created (filter (\<lambda>r. dv_user r = u) (db_devices (ap_db s1)))), s1))"

text \<open>DELETE cascades to the device's tokens.\<close>

definition delete_device :: "api_env \<Rightarrow> clock \<Rightarrow> string option \<Rightarrow> string \<Rightarrow> app \<Rightarrow> (app_error + unit) \<times> app" where
  "delete_device ae ck hdr dev s =
    (case authed_user ae ck hdr s of
       (Inl e, s1) \<Rightarrow> (Inl e, s1)
     | (Inr u, s1) \<Rightarrow>
         let d = ap_db s1; gone = filter (\<lambda>r. dv_user r = u \<and> dv_id r = dev) (db_devices d)
         in if gone = [] then (Inl NotFound, s1)
            else (Inr (), s1\<lparr>ap_db := d\<lparr>db_devices := filter (\<lambda>r. \<not> (dv_user r = u \<and> dv_id r = dev)) (db_devices d),
                   db_tokens := filter (\<lambda>t. tk_device t \<notin> dv_pk ` set gone) (db_tokens d)\<rparr>\<rparr>))"

definition rename_device :: "api_env \<Rightarrow> clock \<Rightarrow> string option \<Rightarrow> string \<Rightarrow> string \<Rightarrow> app \<Rightarrow> (app_error + unit) \<times> app" where
  "rename_device ae ck hdr dev name s =
    (case authed_user ae ck hdr s of
       (Inl e, s1) \<Rightarrow> (Inl e, s1)
     | (Inr u, s1) \<Rightarrow>
         if trim name = [] then (Inl (BadRequest ''name required''), s1)
         else if \<exists>r\<in>set (db_devices (ap_db s1)). dv_user r = u \<and> dv_id r = dev
         then (Inr (), s1\<lparr>ap_db := (ap_db s1)\<lparr>db_devices :=
                map (\<lambda>r. if dv_user r = u \<and> dv_id r = dev then r\<lparr>dv_name := trim name\<rparr> else r) (db_devices (ap_db s1))\<rparr>\<rparr>)
         else (Inl NotFound, s1))"

section \<open>Token refresh\<close>

definition TOKEN_REFRESH_SKEW_SECS :: int where "TOKEN_REFRESH_SKEW_SECS = 120"

text \<open>\<open>(now - timestamp).abs()\<close> in 64 bits, as the release profile computes it: wrapping.\<close>

definition wrapping_abs :: "u64 \<Rightarrow> u64" where
  "wrapping_abs x = (if sint x < 0 then - x else x)"

definition stale :: "clock \<Rightarrow> u64 \<Rightarrow> bool" where
  "stale ck ts \<longleftrightarrow> sint (wrapping_abs (word_of_int (ck_unix ck) - ts)) > TOKEN_REFRESH_SKEW_SECS"

definition api_device_id_from_public_key :: "crypto \<Rightarrow> bytes \<Rightarrow> string" where
  "api_device_id_from_public_key cx pk = take 32 (cx_hex cx (cx_sha256 cx pk))"

definition refresh_signature_valid :: "crypto \<Rightarrow> bytes \<Rightarrow> u64 \<Rightarrow> bytes \<Rightarrow> bool" where
  "refresh_signature_valid cx pk ts sig \<longleftrightarrow>
     cx_valid_key cx pk \<and> cx_verify cx pk (str_bytes ''rmd-token-refresh-v1'' @ pk @ be_bytes 8 (unat ts)) sig"

definition unhex_n :: "crypto \<Rightarrow> nat \<Rightarrow> string \<Rightarrow> bytes option" where
  "unhex_n cx n h = (case cx_unhex cx h of Some b \<Rightarrow> if length b = n then Some b else None | None \<Rightarrow> None)"

record refresh_body =
  fb_device_id :: string
  fb_key :: string
  fb_timestamp :: u64
  fb_signature :: string

definition refresh_token :: "api_env \<Rightarrow> clock \<Rightarrow> refresh_body \<Rightarrow> app \<Rightarrow> (app_error + string \<times> string) \<times> app" where
  "refresh_token ae ck b s =
    (let cx = ae_crypto ae in
     case unhex_n cx 32 (fb_key b) of
       None \<Rightarrow> (Inl Unauthorized, s)
     | Some pk \<Rightarrow>
         if api_device_id_from_public_key cx pk \<noteq> fb_device_id b then (Inl Unauthorized, s)
         else if stale ck (fb_timestamp b) then (Inl Unauthorized, s)
         else
           (case unhex_n cx 64 (fb_signature b) of
              None \<Rightarrow> (Inl Unauthorized, s)
            | Some sig \<Rightarrow>
                if \<not> refresh_signature_valid cx pk (fb_timestamp b) sig then (Inl Unauthorized, s)
                else
                  (case find_device (fb_device_id b) (ap_db s) of
                     None \<Rightarrow> (Inl Unauthorized, s)
                   | Some r \<Rightarrow>
                       (case issue_device_token ae ck (dv_pk r) s of
                          (Inl e, s1) \<Rightarrow> (Inl e, s1)
                        | (Inr token, s1) \<Rightarrow> (Inr (token, fb_device_id b), s1)))))"

section \<open>ICE servers and WebSocket tickets\<close>

record ice_entry =
  ie_urls :: "string list"
  ie_creds :: "(string \<times> string) option"

definition show_int :: "int \<Rightarrow> string" where
  "show_int i = (if i < 0 then CHR ''-'' # show_nat (nat (- i)) else show_nat (nat i))"

definition mint_turn_credential :: "api_env \<Rightarrow> string \<Rightarrow> string \<Rightarrow> string" where
  "mint_turn_credential ae secret name = ae_hmac ae secret name"

definition turn_creds_for :: "api_env \<Rightarrow> clock \<Rightarrow> int \<Rightarrow> turn_config \<Rightarrow> app \<Rightarrow> (string \<times> string) \<times> app" where
  "turn_creds_for ae ck user turn s =
    (let now = ck_unix ck;
         expiry = now + int (tc_ttl turn);
         name = show_int expiry @ '':'' @ show_int user;
         cred = mint_turn_credential ae (tc_secret turn) name;
         live = (\<lambda>u. case ap_ice_cache s u of Some (n, c, e) \<Rightarrow> if now < e then Some (n, c, e) else None | None \<Rightarrow> None);
         fresh = ((name, cred), s\<lparr>ap_ice_cache := live(user \<mapsto> (name, cred, expiry))\<rparr>)
     in case ap_ice_cache s user of
          Some (n, c, e) \<Rightarrow> if now + 60 < e then ((n, c), s) else fresh
        | None \<Rightarrow> fresh)"

text \<open>The account a request for ICE servers or a ticket acts for; a session gives no signaling
  address of its own.\<close>

definition ice_servers ::
  "api_env \<Rightarrow> resolver \<Rightarrow> clock \<Rightarrow> string option \<Rightarrow> string option \<Rightarrow> app \<Rightarrow> (app_error + ice_entry list \<times> string option) \<times> app" where
  "ice_servers ae resolve ck hdr q s =
    (case (case session_user ae ck hdr (ap_db s) of
             Some u \<Rightarrow> (Some u, s)
           | None \<Rightarrow> (case request_token hdr q of
                        None \<Rightarrow> (None, s)
                      | Some t \<Rightarrow> map_prod (map_option cr_user) id (resolve ck t s))) of
       (None, s1) \<Rightarrow> (Inl Unauthorized, s1)
     | (Some user, s1) \<Rightarrow>
         let decision = ae_allow_relay ae user in
         (case rc_turn (ae_config ae) of
            None \<Rightarrow> (Inr ([\<lparr> ie_urls = [''stun:stun.l.google.com:19302''], ie_creds = None \<rparr>], None), s1)
          | Some turn \<Rightarrow>
              let at_host = tc_host turn @ '':'' @ show_nat (tc_port turn);
                  stun = \<lparr> ie_urls = [''stun:'' @ at_host], ie_creds = None \<rparr>
              in if rd_allowed decision then
                   (case turn_creds_for ae ck user turn s1 of
                      (creds, s2) \<Rightarrow>
                        (Inr ([stun, \<lparr> ie_urls = [''turn:'' @ at_host @ ''?transport=udp'', ''turn:'' @ at_host @ ''?transport=tcp''],
                            ie_creds = Some creds \<rparr>], None), s2))
                 else (Inr ([stun], rd_reason decision), s1)))"

definition ws_ticket ::
  "api_env \<Rightarrow> resolver \<Rightarrow> clock \<Rightarrow> string option \<Rightarrow> string option \<Rightarrow> app \<Rightarrow> (app_error + string) \<times> app" where
  "ws_ticket ae resolve ck hdr q s =
    (case session_user ae ck hdr (ap_db s) of
       Some user \<Rightarrow>
         (case draw s of
            (r, s1) \<Rightarrow>
              let cred = \<lparr> cr_user = user, cr_signaling = ''v:'' @ show_int user @ '':'' @ take 16 (generate_token (ae_crypto ae) r) \<rparr>
              in (case draw s1 of
                    (r', s2) \<Rightarrow> (case issue (ae_crypto ae) (ae_ticket_ttl ae) r' cred (ck_ms ck) (ap_tickets s2) of
                                   (t, m) \<Rightarrow> (Inr t, s2\<lparr>ap_tickets := m\<rparr>))))
     | None \<Rightarrow>
         (case request_token hdr q of
            None \<Rightarrow> (Inl Unauthorized, s)
          | Some tok \<Rightarrow>
              (case resolve ck tok s of
                 (None, s1) \<Rightarrow> (Inl Unauthorized, s1)
               | (Some cred, s1) \<Rightarrow>
                   (case draw s1 of
                      (r', s2) \<Rightarrow> (case issue (ae_crypto ae) (ae_ticket_ttl ae) r' cred (ck_ms ck) (ap_tickets s2) of
                                     (t, m) \<Rightarrow> (Inr t, s2\<lparr>ap_tickets := m\<rparr>))))))"

section \<open>The client address\<close>

definition client_ip :: "(string \<Rightarrow> string option) \<Rightarrow> string option \<Rightarrow> string option \<Rightarrow> string" where
  "client_ip headers peer trusted =
    (case Option.bind trusted (\<lambda>name. nonempty (map_option (\<lambda>v. trim (hd (split_on CHR '','' v))) (headers name))) of
       Some ip \<Rightarrow> ip
     | None \<Rightarrow> (case peer of Some p \<Rightarrow> p | None \<Rightarrow> ''-''))"

end
