(* ===== verification/RelayRules.thy ===== *)
theory RelayRules
  imports RelayApi
begin

text \<open>
  What the rendezvous API guarantees: the constraints of its tables hold throughout, accounts
  appear by policy only, devices are their owners' to manage, a device has one live token,
  and the refresh endpoint mints one for the holder of the device's key.
\<close>

section \<open>Requests\<close>

datatype api_request =
    Register string string "string option"
  | Login string string
  | SetRegistration "string option" bool
  | RegisterDevice "string option" register_device_body
  | ListDevices "string option"
  | DeleteDevice "string option" string
  | RenameDevice "string option" string string
  | Refresh refresh_body
  | IceServers "string option" "string option"
  | WsTicket "string option" "string option"
  | SignOut string
  | Heartbeat string
  | ResolveToken string

fun api_step :: "api_env \<Rightarrow> clock \<Rightarrow> api_request \<Rightarrow> app \<Rightarrow> app" where
  "api_step ae ck (Register name pw boot) s = snd (register_user ae ck name pw boot s)"
| "api_step ae ck (Login name pw) s = snd (login ae ck name pw s)"
| "api_step ae ck (SetRegistration hdr b) s = snd (set_registration ae hdr b s)"
| "api_step ae ck (RegisterDevice hdr b) s = snd (register_device ae ck hdr b s)"
| "api_step ae ck (ListDevices hdr) s = snd (list_devices ae ck hdr s)"
| "api_step ae ck (DeleteDevice hdr dev) s = snd (delete_device ae ck hdr dev s)"
| "api_step ae ck (RenameDevice hdr dev name) s = snd (rename_device ae ck hdr dev name s)"
| "api_step ae ck (Refresh b) s = snd (refresh_token ae ck b s)"
| "api_step ae ck (IceServers hdr q) s = snd (ice_servers ae (device_token_resolver ae) ck hdr q s)"
| "api_step ae ck (WsTicket hdr q) s = snd (ws_ticket ae (device_token_resolver ae) ck hdr q s)"
| "api_step ae ck (SignOut token) s = s\<lparr>ap_db := revoke_user_session ae token (ap_db s)\<rparr>"
| "api_step ae ck (Heartbeat dev) s = s\<lparr>ap_db := touch_last_seen ck dev (ap_db s)\<rparr>"
| "api_step ae ck (ResolveToken token) s = snd (resolve_device_token ae ck token s)"

section \<open>What the helpers leave alone\<close>

lemma draw_db [simp]: "ap_db (snd (draw s)) = ap_db s"
  by (simp add: draw_def)

lemma authenticate_db [simp]: "ap_db (snd (authenticate_user ae ck name pw s)) = ap_db s"
  by (simp add: authenticate_user_def split: option.split)

lemma authed_db [simp]: "ap_db (snd (authed_user ae ck hdr s)) = ap_db s"
  by (auto simp: authed_user_def split: option.split sum.split)

lemma caller_db [simp]: "ap_db (snd (register_caller ae ck hdr b s)) = ap_db s"
  by (auto simp: register_caller_def split: option.split)

lemma mint_session_db:
  "db_users (ap_db (snd (mint_user_session ae ck u s))) = db_users (ap_db s)
   \<and> db_devices (ap_db (snd (mint_user_session ae ck u s))) = db_devices (ap_db s)
   \<and> db_tokens (ap_db (snd (mint_user_session ae ck u s))) = db_tokens (ap_db s)"
  by (simp add: mint_user_session_def draw_def Let_def)

lemma issue_token_devices:
  "db_devices (ap_db (snd (issue_device_token ae ck pk s))) = db_devices (ap_db s)
   \<and> db_users (ap_db (snd (issue_device_token ae ck pk s))) = db_users (ap_db s)"
  by (simp add: issue_device_token_def draw_def Let_def)

lemma touch_simps [simp]:
  "db_users (touch now sel d) = db_users d" "db_tokens (touch now sel d) = db_tokens d"
  "db_sessions (touch now sel d) = db_sessions d"
  "map dv_id (db_devices (touch now sel d)) = map dv_id (db_devices d)"
  "map dv_pk (db_devices (touch now sel d)) = map dv_pk (db_devices d)"
  by (auto simp: touch_def)

lemma resolve_db:
  "ap_db (snd (resolve_device_token ae ck token s)) = ap_db s
   \<or> (\<exists>sel. ap_db (snd (resolve_device_token ae ck token s)) = touch (ck_unix ck) sel (ap_db s))"
  by (auto simp: resolve_device_token_def split: option.split)

lemma resolver_db:
  "ap_db (snd (device_token_resolver ae ck token s)) = ap_db (snd (resolve_device_token ae ck token s))"
  by (simp add: device_token_resolver_def)

lemma turn_creds_db [simp]: "ap_db (snd (turn_creds_for ae ck user turn s)) = ap_db s"
  by (simp add: turn_creds_for_def Let_def split: option.split)

lemma ice_db:
  "ap_db (snd (ice_servers ae (device_token_resolver ae) ck hdr q s)) = ap_db s
   \<or> (\<exists>sel. ap_db (snd (ice_servers ae (device_token_resolver ae) ck hdr q s)) = touch (ck_unix ck) sel (ap_db s))"
proof -
  define r where "r = (case session_user ae ck hdr (ap_db s) of
             Some u \<Rightarrow> (Some u, s)
           | None \<Rightarrow> (case request_token hdr q of
                        None \<Rightarrow> (None, s)
                      | Some t \<Rightarrow> map_prod (map_option cr_user) id (device_token_resolver ae ck t s)))"
  have 1: "ap_db (snd r) = ap_db s \<or> (\<exists>sel. ap_db (snd r) = touch (ck_unix ck) sel (ap_db s))"
    using resolve_db [of ae ck _ s] by (auto simp: r_def resolver_db split: option.split)
  have "ap_db (snd (ice_servers ae (device_token_resolver ae) ck hdr q s)) = ap_db (snd r)"
  proof (cases r)
    case (Pair u s1)
    have "ap_db s2 = ap_db s1" if "turn_creds_for ae ck x turn s1 = ((a, b), s2)" for x turn a b s2
      using turn_creds_db [of ae ck x turn s1] that by simp
    then show ?thesis
      unfolding ice_servers_def r_def [symmetric] Pair Let_def by (auto split: option.split prod.split)
  qed
  with 1 show ?thesis by simp
qed

lemma ticket_db:
  "ap_db (snd (ws_ticket ae (device_token_resolver ae) ck hdr q s)) = ap_db s
   \<or> (\<exists>sel. ap_db (snd (ws_ticket ae (device_token_resolver ae) ck hdr q s)) = touch (ck_unix ck) sel (ap_db s))"
proof (cases "session_user ae ck hdr (ap_db s)")
  case (Some u)
  then show ?thesis by (simp add: ws_ticket_def draw_def Let_def split: prod.split)
next
  case None
  show ?thesis
  proof (cases "request_token hdr q")
    case (Some t)
    obtain c s1 where r: "device_token_resolver ae ck t s = (c, s1)" by fastforce
    have "ap_db s1 = ap_db (snd (resolve_device_token ae ck t s))" using resolver_db [of ae ck t s] r by simp
    moreover have "ap_db (snd (ws_ticket ae (device_token_resolver ae) ck hdr q s)) = ap_db s1"
      using None Some r by (simp add: ws_ticket_def draw_def split: prod.split option.split)
    ultimately show ?thesis using resolve_db [of ae ck t s] by simp
  qed (use None in \<open>simp add: ws_ticket_def\<close>)
qed

section \<open>The tables\<close>

definition db_ok :: "db \<Rightarrow> bool" where
  "db_ok d \<longleftrightarrow> distinct (map dv_id (db_devices d)) \<and> distinct (map dv_pk (db_devices d))
     \<and> distinct (map u_name (db_users d)) \<and> distinct (map tk_hash (db_tokens d))
     \<and> distinct (map tk_device (db_tokens d)) \<and> tk_device ` set (db_tokens d) \<subseteq> dv_pk ` set (db_devices d)"

lemma fold_max_start: "a \<le> fold max xs (a :: int)"
proof (induction xs arbitrary: a)
  case (Cons y ys)
  have "max y a \<le> fold max ys (max y a)" by (rule Cons.IH)
  then show ?case by simp
qed simp

lemma fold_max_ge: "x \<in> set xs \<Longrightarrow> x \<le> fold max xs (a :: int)"
proof (induction xs arbitrary: a)
  case (Cons y ys)
  show ?case
  proof (cases "x = y")
    case True
    then show ?thesis using fold_max_start [of "max y a" ys] by simp
  next
    case False
    then show ?thesis using Cons by simp
  qed
qed simp

lemma next_rowid_fresh: "next_rowid ids \<notin> set ids"
  using fold_max_ge [of "next_rowid ids" ids 0] by (auto simp: next_rowid_def)

lemma db_ok_same:
  "db_ok d \<Longrightarrow> map dv_id (db_devices d') = map dv_id (db_devices d) \<Longrightarrow> map dv_pk (db_devices d') = map dv_pk (db_devices d)
   \<Longrightarrow> db_users d' = db_users d \<Longrightarrow> db_tokens d' = db_tokens d \<Longrightarrow> db_ok d'"
proof -
  assume a: "db_ok d" "map dv_id (db_devices d') = map dv_id (db_devices d)" "map dv_pk (db_devices d') = map dv_pk (db_devices d)"
    "db_users d' = db_users d" "db_tokens d' = db_tokens d"
  have "dv_pk ` set (db_devices d') = dv_pk ` set (db_devices d)" using a(3) by (metis set_map)
  then show ?thesis using a by (simp add: db_ok_def)
qed

lemma db_ok_touch [simp]: "db_ok (touch now sel d) = db_ok d"
proof
  assume "db_ok (touch now sel d)"
  then show "db_ok d" by (rule db_ok_same) simp_all
next
  assume "db_ok d"
  then show "db_ok (touch now sel d)" by (rule db_ok_same) simp_all
qed

lemma issue_token_ok:
  assumes "db_ok (ap_db s)" "pk \<in> dv_pk ` set (db_devices (ap_db s))"
  shows "db_ok (ap_db (snd (issue_device_token ae ck pk s)))"
  using assms by (auto simp: issue_device_token_def draw_def Let_def db_ok_def distinct_map_filter)

lemma upsert_ok:
  assumes "db_ok d" "upsert_device ck user b d = (r, d')"
  shows "db_ok d' \<and> (\<forall>pk. r = Inr pk \<longrightarrow> pk \<in> dv_pk ` set (db_devices d') \<and> db_tokens d' = db_tokens d
    \<and> (\<exists>x\<in>set (db_devices d'). dv_pk x = pk \<and> dv_user x = user \<and> dv_id x = rb_device_id b))"
proof (cases "find_device (rb_device_id b) d")
  case None
  let ?pk = "next_rowid (map dv_pk (db_devices d))"
  have "?pk \<notin> dv_pk ` set (db_devices d)" using next_rowid_fresh [of "map dv_pk (db_devices d)"] by simp
  moreover have "rb_device_id b \<notin> dv_id ` set (db_devices d)"
    using None by (auto simp: find_device_def find_None_iff)
  moreover have "tk_device ` set (db_tokens d) \<subseteq> insert ?pk (dv_pk ` set (db_devices d))"
    using assms(1) by (auto simp: db_ok_def)
  ultimately show ?thesis
    using assms None by (auto simp: upsert_device_def db_ok_def Let_def dest: subsetD [OF _ imageI])
next
  case (Some x)
  then have x: "x \<in> set (db_devices d)" "dv_id x = rb_device_id b"
    by (auto simp: find_device_def find_Some_iff)
  show ?thesis
  proof (cases "dv_user x = user")
    case False
    then show ?thesis using assms Some by (auto simp: upsert_device_def)
  next
    case True
    let ?f = "\<lambda>y. if dv_pk y = dv_pk x then y\<lparr>dv_name := rb_name b, dv_key := rb_key b, dv_role := rb_role b\<rparr> else y"
    have d': "d' = d\<lparr>db_devices := map ?f (db_devices d)\<rparr>" "r = Inr (dv_pk x)"
      using assms(2) Some True by (auto simp: upsert_device_def)
    have m: "map dv_id (db_devices d') = map dv_id (db_devices d)" "map dv_pk (db_devices d') = map dv_pk (db_devices d)"
      by (auto simp: d')
    have "db_ok d'" using assms(1) m by (rule db_ok_same) (simp_all add: d')
    moreover have "\<exists>y\<in>set (db_devices d'). dv_pk y = dv_pk x \<and> dv_user y = user \<and> dv_id y = rb_device_id b"
    proof
      show "?f x \<in> set (db_devices d')" using x(1) unfolding d' by simp
    qed (simp add: True x(2))
    moreover have "dv_pk x \<in> dv_pk ` set (db_devices d')" using x(1) m(2) by (metis imageI set_map)
    moreover have "db_tokens d' = db_tokens d" by (simp add: d')
    ultimately show ?thesis using d'(2) by simp
  qed
qed

lemma register_device_ok:
  assumes "db_ok (ap_db s)"
  shows "db_ok (ap_db (snd (register_device ae ck hdr b s)))"
proof -
  obtain c s1 where c: "register_caller ae ck hdr b s = (c, s1)" by fastforce
  have s1: "ap_db s1 = ap_db s" using caller_db [of ae ck hdr b s] c by simp
  show ?thesis
  proof (cases c)
    case (Inr user)
    obtain r d where u: "upsert_device ck user b (ap_db s1) = (r, d)" by fastforce
    have ok: "db_ok d" using upsert_ok [OF _ u] assms s1 by simp
    show ?thesis
    proof (cases r)
      case (Inr pk)
      then have "db_ok (ap_db (snd (issue_device_token ae ck pk (s1\<lparr>ap_db := d\<rparr>))))"
        using upsert_ok [OF _ u] assms s1 ok by (intro issue_token_ok) auto
      then show ?thesis
        using c \<open>c = Inr user\<close> u Inr by (auto simp: register_device_def split: prod.split sum.split)
    qed (use c Inr u ok in \<open>simp add: register_device_def\<close>)
  qed (use c s1 assms in \<open>simp add: register_device_def\<close>)
qed

lemma create_user_ok: "db_ok d \<Longrightarrow> db_ok (snd (create_user_if_allowed name h o1 a1 now d))"
  by (auto simp: create_user_if_allowed_def db_ok_def)

lemma refresh_ok:
  assumes "db_ok (ap_db s)"
  shows "db_ok (ap_db (snd (refresh_token ae ck b s)))"
proof -
  have "db_ok (ap_db (snd (issue_device_token ae ck (dv_pk r) s)))" if "find_device (fb_device_id b) (ap_db s) = Some r" for r
    using that assms by (intro issue_token_ok) (auto simp: find_device_def find_Some_iff)
  then show ?thesis
    using assms unfolding refresh_token_def Let_def by (auto split: option.split prod.split sum.split)
qed

lemma delete_ok:
  assumes "db_ok (ap_db s)"
  shows "db_ok (ap_db (snd (delete_device ae ck hdr dev s)))"
proof -
  obtain c s1 where c: "authed_user ae ck hdr s = (c, s1)" by fastforce
  have s1: "ap_db s1 = ap_db s" using authed_db [of ae ck hdr s] c by simp
  show ?thesis
    using assms c s1 unfolding delete_device_def Let_def db_ok_def
    by (auto simp: distinct_map_filter split: sum.split)
qed

lemma rename_ok:
  assumes "db_ok (ap_db s)"
  shows "db_ok (ap_db (snd (rename_device ae ck hdr dev name s)))"
proof -
  obtain c s1 where c: "authed_user ae ck hdr s = (c, s1)" by fastforce
  have s1: "ap_db s1 = ap_db s" using authed_db [of ae ck hdr s] c by simp
  have m: "map dv_id (map (\<lambda>r. if P r then r\<lparr>dv_name := n\<rparr> else r) ds) = map dv_id ds"
      "map dv_pk (map (\<lambda>r. if P r then r\<lparr>dv_name := n\<rparr> else r) ds) = map dv_pk ds" for P n ds
    by auto
  show ?thesis
    using assms c s1 unfolding rename_device_def by (auto split: sum.split intro!: db_ok_same [OF assms])
qed

lemma register_user_ok:
  assumes "db_ok (ap_db s)"
  shows "db_ok (ap_db (snd (register_user ae ck name pw boot s)))"
proof -
  have "db_ok d" if "create_user_if_allowed name h o1 a1 now (ap_db s) = (r, d)" for h o1 a1 now r d
    using create_user_ok [OF assms, of name h o1 a1 now] that by simp
  then show ?thesis
    using assms unfolding register_user_def draw_def Let_def by (auto split: prod.split option.split)
qed

lemma mint_session_ok: "db_ok (ap_db s) \<Longrightarrow> db_ok (ap_db (snd (mint_user_session ae ck u s)))"
  by (simp add: mint_user_session_def draw_def Let_def db_ok_def)

lemma login_ok:
  assumes "db_ok (ap_db s)"
  shows "db_ok (ap_db (snd (login ae ck name pw s)))"
proof -
  obtain c s1 where c: "authenticate_user ae ck name pw s = (c, s1)" by fastforce
  have "ap_db s1 = ap_db s" using authenticate_db [of ae ck name pw s] c by simp
  then show ?thesis using assms c mint_session_ok [of s1] by (simp add: login_def split: sum.split)
qed

lemma list_db [simp]: "ap_db (snd (list_devices ae ck hdr s)) = ap_db s"
proof -
  obtain c s1 where c: "authed_user ae ck hdr s = (c, s1)" by fastforce
  then show ?thesis using authed_db [of ae ck hdr s] by (simp add: list_devices_def split: sum.split)
qed

lemma resolve_ok: "db_ok (ap_db (snd (resolve_device_token ae ck token s))) = db_ok (ap_db s)"
  using resolve_db [of ae ck token s] by auto

lemma step_ok:
  assumes "db_ok (ap_db s)"
  shows "db_ok (ap_db (api_step ae ck req s))"
proof (cases req)
  case (IceServers hdr q)
  then show ?thesis using assms ice_db [of ae ck hdr q s] by auto
next
  case (WsTicket hdr q)
  then show ?thesis using assms ticket_db [of ae ck hdr q s] by auto
next
  case (SetRegistration hdr b)
  then show ?thesis using assms by (simp add: set_registration_def set_setting_def db_ok_def)
next
  case (SignOut token)
  then show ?thesis using assms by (simp add: revoke_user_session_def db_ok_def)
qed (use assms in \<open>simp_all add: register_user_ok login_ok register_device_ok delete_ok rename_ok refresh_ok
      resolve_ok touch_last_seen_def\<close>)

text \<open>C33: Whatever requests the rendezvous API serves, in whatever order, its tables stay consistent:
  user names, device ids, device rowids and token hashes stay unique, no device has more than one
  token, and every token belongs to a device that is still there.\<close>

theorem tables_stay_consistent:
  assumes "db_ok (ap_db s)"
  shows "db_ok (ap_db (fold (\<lambda>(ck, req). api_step ae ck req) reqs s))"
  using assms
proof (induction reqs arbitrary: s)
  case (Cons r reqs)
  obtain ck req where "r = (ck, req)" by fastforce
  then show ?case using Cons step_ok by simp
qed simp

section \<open>Ownership of devices\<close>

text \<open>The account a request to manage devices authenticates as.\<close>

fun acting :: "api_env \<Rightarrow> clock \<Rightarrow> api_request \<Rightarrow> app \<Rightarrow> int option" where
  "acting ae ck (RegisterDevice hdr b) s = (case fst (register_caller ae ck hdr b s) of Inr u \<Rightarrow> Some u | Inl e \<Rightarrow> None)"
| "acting ae ck (DeleteDevice hdr dev) s = (case fst (authed_user ae ck hdr s) of Inr u \<Rightarrow> Some u | Inl e \<Rightarrow> None)"
| "acting ae ck (RenameDevice hdr dev name) s = (case fst (authed_user ae ck hdr s) of Inr u \<Rightarrow> Some u | Inl e \<Rightarrow> None)"
| "acting ae ck req s = None"

definition same_device :: "device_row \<Rightarrow> device_row \<Rightarrow> bool" where
  "same_device x y \<longleftrightarrow> dv_pk y = dv_pk x \<and> dv_id y = dv_id x \<and> dv_user y = dv_user x"

definition same_card :: "device_row \<Rightarrow> device_row \<Rightarrow> bool" where
  "same_card x y \<longleftrightarrow> dv_name y = dv_name x \<and> dv_key y = dv_key x \<and> dv_role y = dv_role x"

definition kept :: "device_row \<Rightarrow> bool \<Rightarrow> db \<Rightarrow> bool" where
  "kept x edited d \<longleftrightarrow> (\<exists>y\<in>set (db_devices d). same_device x y \<and> (edited \<or> same_card x y))"

lemma kept_same: "x \<in> set (db_devices d) \<Longrightarrow> kept x b d"
  by (auto simp: kept_def same_device_def same_card_def)

lemma kept_mapped:
  assumes "x \<in> set (db_devices d)" "same_device x (f x)" "b \<or> same_card x (f x)"
  shows "kept x b (d\<lparr>db_devices := map f (db_devices d)\<rparr>)"
proof -
  have "f x \<in> set (map f (db_devices d))" using assms(1) by simp
  then show ?thesis using assms(2,3) unfolding kept_def by (intro bexI [of _ "f x"]) simp_all
qed

lemma kept_touch: "x \<in> set (db_devices d) \<Longrightarrow> kept x b (touch now sel d)"
  unfolding touch_def by (rule kept_mapped) (auto simp: same_device_def same_card_def)

lemma kept_devices: "db_devices d' = db_devices d \<Longrightarrow> kept x b d' = kept x b d"
  by (simp add: kept_def)

lemma kept_upsert:
  assumes "db_ok d" "x \<in> set (db_devices d)" "upsert_device ck user b d = (r, d')"
  shows "kept x (dv_user x = user) d'"
proof (cases "find_device (rb_device_id b) d")
  case None
  then have "set (db_devices d) \<subseteq> set (db_devices d')" using assms(3) by (auto simp: upsert_device_def Let_def)
  then show ?thesis using assms(2) by (auto simp: kept_def same_device_def same_card_def)
next
  case (Some z)
  show ?thesis
  proof (cases "dv_user z = user")
    case True
    have z: "z \<in> set (db_devices d)" using Some by (auto simp: find_device_def find_Some_iff)
    have "x = z" if "dv_pk x = dv_pk z"
      using assms(1,2) z that by (auto simp: db_ok_def distinct_map inj_on_def)
    moreover have "d' = d\<lparr>db_devices := map (\<lambda>x. if dv_pk x = dv_pk z
                 then x\<lparr>dv_name := rb_name b, dv_key := rb_key b, dv_role := rb_role b\<rparr> else x) (db_devices d)\<rparr>"
      using assms(3) Some True by (simp add: upsert_device_def)
    ultimately show ?thesis
      using assms(2) True by (cases "dv_pk x = dv_pk z") (auto simp: same_device_def same_card_def intro!: kept_mapped)
  qed (use assms Some in \<open>auto simp: upsert_device_def kept_same\<close>)
qed

lemma kept_register:
  assumes "db_ok (ap_db s)" "x \<in> set (db_devices (ap_db s))"
  shows "kept x (acting ae ck (RegisterDevice hdr b) s = Some (dv_user x)) (ap_db (snd (register_device ae ck hdr b s)))"
proof -
  obtain c s1 where c: "register_caller ae ck hdr b s = (c, s1)" by fastforce
  have s1: "ap_db s1 = ap_db s" using caller_db [of ae ck hdr b s] c by simp
  show ?thesis
  proof (cases c)
    case (Inr user)
    obtain r d where u: "upsert_device ck user b (ap_db s1) = (r, d)" by fastforce
    have k: "kept x (dv_user x = user) d" using kept_upsert [OF _ _ u] assms s1 by simp
    have e: "db_devices (ap_db s2) = db_devices d" if "issue_device_token ae ck pk (s1\<lparr>ap_db := d\<rparr>) = (a, s2)" for pk a s2
      using issue_token_devices [of ae ck pk "s1\<lparr>ap_db := d\<rparr>"] that by simp
    have "db_devices (ap_db (snd (register_device ae ck hdr b s))) = db_devices d"
      using c Inr u e by (auto simp: register_device_def split: sum.split prod.split)
    from kept_devices [OF this] k
    have "kept x (dv_user x = user) (ap_db (snd (register_device ae ck hdr b s)))" by blast
    moreover have "(acting ae ck (RegisterDevice hdr b) s = Some (dv_user x)) = (dv_user x = user)" using c Inr by auto
    ultimately show ?thesis by simp
  qed (use c s1 assms kept_same in \<open>simp add: register_device_def\<close>)
qed

lemma refresh_devices: "db_devices (ap_db (snd (refresh_token ae ck b s))) = db_devices (ap_db s)"
proof -
  have "db_devices (ap_db s1) = db_devices (ap_db s)" if "issue_device_token ae ck pk s = (a, s1)" for pk a s1
    using issue_token_devices [of ae ck pk s] that by simp
  then show ?thesis unfolding refresh_token_def Let_def by (auto split: option.split prod.split sum.split)
qed

lemma login_devices: "db_devices (ap_db (snd (login ae ck name pw s))) = db_devices (ap_db s)"
proof -
  obtain c s1 where c: "authenticate_user ae ck name pw s = (c, s1)" by fastforce
  have "ap_db s1 = ap_db s" using authenticate_db [of ae ck name pw s] c by simp
  then show ?thesis using c mint_session_db [of ae ck _ s1] by (simp add: login_def split: sum.split)
qed

lemma create_user_devices: "db_devices (snd (create_user_if_allowed name h o1 a1 now d)) = db_devices d"
  by (simp add: create_user_if_allowed_def)

lemma register_user_devices: "db_devices (ap_db (snd (register_user ae ck name pw boot s))) = db_devices (ap_db s)"
proof -
  have "db_devices d = db_devices (ap_db s)" if "create_user_if_allowed name h o1 a1 now (ap_db s) = (r, d)" for h o1 a1 now r d
    using create_user_devices [of name h o1 a1 now "ap_db s"] that by simp
  then show ?thesis unfolding register_user_def draw_def Let_def by (auto split: prod.split option.split)
qed

lemma kept_rename:
  assumes "x \<in> set (db_devices (ap_db s))"
  shows "kept x (acting ae ck (RenameDevice hdr dev name) s = Some (dv_user x)) (ap_db (snd (rename_device ae ck hdr dev name s)))"
proof -
  obtain c s1 where c: "authed_user ae ck hdr s = (c, s1)" by fastforce
  have s1: "ap_db s1 = ap_db s" using authed_db [of ae ck hdr s] c by simp
  show ?thesis
  proof (cases c)
    case (Inr user)
    let ?f = "\<lambda>r. if dv_user r = user \<and> dv_id r = dev then r\<lparr>dv_name := trim name\<rparr> else r"
    have "kept x (Some user = Some (dv_user x)) ((ap_db s)\<lparr>db_devices := map ?f (db_devices (ap_db s))\<rparr>)"
      using assms by (rule kept_mapped) (auto simp: same_device_def same_card_def)
    moreover have "kept x (Some user = Some (dv_user x)) (ap_db s)" using assms by (rule kept_same)
    moreover have "acting ae ck (RenameDevice hdr dev name) s = Some user" using c Inr by simp
    ultimately show ?thesis using c Inr s1 by (auto simp: rename_device_def)
  qed (use c s1 assms kept_same in \<open>simp add: rename_device_def\<close>)
qed

lemma kept_delete:
  assumes "x \<in> set (db_devices (ap_db s))"
  shows "kept x False (ap_db (snd (delete_device ae ck hdr dev s)))
    \<or> dev = dv_id x \<and> acting ae ck (DeleteDevice hdr dev) s = Some (dv_user x)"
proof -
  obtain c s1 where c: "authed_user ae ck hdr s = (c, s1)" by fastforce
  have s1: "ap_db s1 = ap_db s" using authed_db [of ae ck hdr s] c by simp
  show ?thesis
  proof (cases c)
    case (Inr user)
    have "kept x False ((ap_db s)\<lparr>db_devices := filter (\<lambda>r. \<not> (dv_user r = user \<and> dv_id r = dev)) (db_devices (ap_db s)),
        db_tokens := ts\<rparr>)" if "\<not> (dv_user x = user \<and> dv_id x = dev)" for ts
      using assms that by (intro kept_same) simp
    moreover have "kept x False (ap_db s)" using assms by (rule kept_same)
    moreover have "acting ae ck (DeleteDevice hdr dev) s = Some user" using c Inr by simp
    ultimately show ?thesis using c Inr s1 unfolding delete_device_def Let_def by auto
  qed (use c s1 assms kept_same in \<open>simp add: delete_device_def\<close>)
qed

lemma kept_weaken: "kept x False d \<Longrightarrow> kept x b d"
  by (auto simp: kept_def)

lemma kept_quiet:
  assumes "x \<in> set (db_devices (ap_db s))" "\<nexists>hdr b. req = RegisterDevice hdr b" "\<nexists>hdr dev name. req = RenameDevice hdr dev name"
    "\<nexists>hdr dev. req = DeleteDevice hdr dev"
  shows "kept x False (ap_db (api_step ae ck req s))"
proof -
  have same: "kept x False d" if "db_devices d = db_devices (ap_db s)" for d
    using kept_same [of x d False] assms(1) that by simp
  have seen: "kept x False d" if "d = ap_db s \<or> (\<exists>sel. d = touch (ck_unix ck) sel (ap_db s))" for d
    using assms(1) kept_touch kept_same that by blast
  show ?thesis
  proof (cases req)
    case (IceServers hdr q)
    show ?thesis using seen [OF ice_db] IceServers by simp
  next
    case (WsTicket hdr q)
    show ?thesis using seen [OF ticket_db] WsTicket by simp
  next
    case (ResolveToken t)
    show ?thesis using seen [OF resolve_db] ResolveToken by simp
  next
    case (Heartbeat dev)
    show ?thesis using kept_touch [OF assms(1)] Heartbeat by (simp add: touch_last_seen_def)
  next
    case (SetRegistration hdr b)
    show ?thesis using SetRegistration assms(1) by (auto simp: set_registration_def set_setting_def kept_same)
  qed (use assms(2-4) in \<open>simp_all add: same register_user_devices login_devices refresh_devices revoke_user_session_def\<close>)
qed

text \<open>C12: A device belongs to the account that registered it.  No request to the API moves it to
  another account or changes its id; its name, key and role change only by a request
  authenticated as its owner, and only such a request - to delete this very device - removes it.\<close>

theorem devices_stay_with_owner:
  assumes "db_ok (ap_db s)" "x \<in> set (db_devices (ap_db s))"
  shows "kept x (acting ae ck req s = Some (dv_user x)) (ap_db (api_step ae ck req s))
    \<or> (\<exists>hdr. req = DeleteDevice hdr (dv_id x)) \<and> acting ae ck req s = Some (dv_user x)"
proof (cases req)
  case (RegisterDevice hdr b)
  then show ?thesis using kept_register [OF assms] by simp
next
  case (RenameDevice hdr dev name)
  then show ?thesis using kept_rename [OF assms(2)] by simp
next
  case (DeleteDevice hdr dev)
  then show ?thesis using kept_delete [OF assms(2), of ae ck hdr dev] by (auto intro: kept_weaken)
qed (use kept_quiet [OF assms(2), of req ae ck] in simp_all)

section \<open>Tokens\<close>

definition in_time :: "api_env \<Rightarrow> clock \<Rightarrow> clock \<Rightarrow> bool" where
  "in_time ae ck ck' = (case rc_token_ttl (ae_config ae) of None \<Rightarrow> True | Some ttl \<Rightarrow> ck_unix ck' < ck_unix ck + int ttl)"

text \<open>A token minted at a time is what its device's signaling and ICE requests are known by, while
  it lasts, and no token of another hash is.\<close>

definition sole_token :: "api_env \<Rightarrow> clock \<Rightarrow> string \<Rightarrow> int \<times> string \<Rightarrow> app \<Rightarrow> bool" where
  "sole_token ae ck token who s \<longleftrightarrow>
     (\<forall>ck'. in_time ae ck ck' \<longrightarrow> fst (resolve_device_token ae ck' token s) = Some who)
   \<and> (\<forall>ck' old u. hash_token (ae_crypto ae) old \<noteq> hash_token (ae_crypto ae) token
        \<longrightarrow> fst (resolve_device_token ae ck' old s) \<noteq> Some (u, snd who))"

lemma fst_resolve:
  "fst (resolve_device_token ae ck token s) = map_option (\<lambda>r. (dv_user r, dv_id r)) (find_token ae ck token (ap_db s))"
  by (auto simp: resolve_device_token_def split: option.split)

lemma find_append_fresh: "(\<And>x. x \<in> set xs \<Longrightarrow> \<not> P x) \<Longrightarrow> find P (xs @ [y]) = (if P y then Some y else None)"
  by (induction xs) auto

lemma find_by_key:
  assumes "distinct (map f xs)" "x \<in> set xs"
  shows "find (\<lambda>y. f y = f x) xs = Some x"
  using assms by (induction xs) (auto simp: image_iff)

lemma find_token_rows:
  assumes "find_token ae ck token d = Some r"
  shows "\<exists>t\<in>set (db_tokens d). tk_hash t = hash_token (ae_crypto ae) token \<and> r \<in> set (db_devices d) \<and> dv_pk r = tk_device t"
proof -
  let ?P = "\<lambda>t. tk_hash t = hash_token (ae_crypto ae) token \<and> (case tk_expires t of None \<Rightarrow> True | Some e \<Rightarrow> ck_unix ck < e)"
  obtain t where t: "find ?P (db_tokens d) = Some t" "find (\<lambda>r. dv_pk r = tk_device t) (db_devices d) = Some r"
    using assms unfolding find_token_def by (auto simp: bind_eq_Some_conv)
  have "t \<in> set (db_tokens d) \<and> ?P t" using t(1) by (auto simp: find_Some_iff)
  moreover have "r \<in> set (db_devices d) \<and> dv_pk r = tk_device t" using t(2) by (auto simp: find_Some_iff)
  ultimately show ?thesis by blast
qed

lemma issued_token_sole:
  assumes "db_ok (ap_db s)" "x \<in> set (db_devices (ap_db s))"
    "issue_device_token ae ck (dv_pk x) s = (Inr token, s')"
  shows "sole_token ae ck token (dv_user x, dv_id x) s'"
proof -
  let ?h = "hash_token (ae_crypto ae)"
  let ?old = "filter (\<lambda>t. tk_device t \<noteq> dv_pk x) (db_tokens (ap_db s))"
  define n where "n = \<lparr> tk_device = dv_pk x, tk_hash = ?h token, tk_created = ck_unix ck,
    tk_expires = map_option (\<lambda>ttl. ck_unix ck + int ttl) (rc_token_ttl (ae_config ae)) \<rparr>"
  have d: "db_devices (ap_db s') = db_devices (ap_db s)" "db_tokens (ap_db s') = ?old @ [n]"
    and fresh: "?h token \<notin> tk_hash ` set ?old"
    using assms(3) by (auto simp: issue_device_token_def draw_def Let_def n_def split: if_splits)
  have fresh': "tk_hash t \<noteq> ?h token" if "t \<in> set ?old" for t using fresh that by (metis imageI)
  have row: "find (\<lambda>r. dv_pk r = dv_pk x) (db_devices (ap_db s)) = Some x"
    using assms(1,2) by (intro find_by_key) (simp_all add: db_ok_def)
  have "find_token ae ck' token (ap_db s') = Some x" if "in_time ae ck ck'" for ck'
  proof -
    let ?P = "\<lambda>t. tk_hash t = ?h token \<and> (case tk_expires t of None \<Rightarrow> True | Some e \<Rightarrow> ck_unix ck' < e)"
    have "find ?P (?old @ [n]) = (if ?P n then Some n else None)" by (rule find_append_fresh) (use fresh' in blast)
    moreover have "?P n" using that by (simp add: n_def in_time_def split: option.splits)
    ultimately have "find ?P (?old @ [n]) = Some n" by simp
    then show ?thesis unfolding find_token_def d by (simp add: row n_def)
  qed
  moreover have "dv_id r \<noteq> dv_id x"
    if ne: "?h old \<noteq> ?h token" and f: "find_token ae ck' old (ap_db s') = Some r" for old ck' r
  proof -
    from find_token_rows [OF f] obtain t where "t \<in> set (?old @ [n])" "tk_hash t = ?h old"
      and r: "r \<in> set (db_devices (ap_db s))" "dv_pk r = tk_device t" unfolding d by blast
    then have "dv_pk r \<noteq> dv_pk x" using ne r(2) by (auto simp: n_def)
    then show ?thesis using assms(1,2) r(1) by (auto simp: db_ok_def distinct_map inj_on_def)
  qed
  ultimately show ?thesis unfolding sole_token_def fst_resolve by auto
qed

lemma sole_same_db: "ap_db s' = ap_db s \<Longrightarrow> sole_token ae ck token who s' = sole_token ae ck token who s"
  by (simp add: sole_token_def fst_resolve)

text \<open>A device that registers holds the only token it is known by: the token in the response
  resolves to the account that registered it and to its id until it expires, and no other token
  resolves to that device any more.\<close>

theorem registration_gives_sole_token:
  assumes "db_ok (ap_db s)" "register_device ae ck hdr b s = (Inr (token, dev), s')"
  shows "dev = rb_device_id b
    \<and> (\<exists>u. acting ae ck (RegisterDevice hdr b) s = Some u \<and> sole_token ae ck token (u, dev) s')"
proof -
  obtain c s1 where c: "register_caller ae ck hdr b s = (c, s1)" by fastforce
  have s1: "ap_db s1 = ap_db s" using caller_db [of ae ck hdr b s] c by simp
  obtain user where user: "c = Inr user" using assms(2) c by (cases c) (simp_all add: register_device_def)
  obtain r d where u: "upsert_device ck user b (ap_db s1) = (r, d)" by fastforce
  obtain pk where pk: "r = Inr pk" using assms(2) c user u by (cases r) (simp_all add: register_device_def)
  obtain x where x: "x \<in> set (db_devices d)" "dv_pk x = pk" "dv_user x = user" "dv_id x = rb_device_id b"
    and d: "db_ok d" using upsert_ok [OF _ u] assms(1) s1 pk by auto
  have i: "dev = rb_device_id b" "issue_device_token ae ck (dv_pk x) (s1\<lparr>ap_db := d\<rparr>) = (Inr token, s')"
    using assms(2) c user u pk x(2) by (auto simp: register_device_def split: prod.splits sum.splits)
  have "sole_token ae ck token (dv_user x, dv_id x) s'" using d x(1) i(2) by (intro issued_token_sole) simp_all
  then show ?thesis using i(1) x c user by simp
qed

text \<open>The freshness test is a window of 120 seconds around the clock, but for one timestamp: that
  whose distance has no absolute value in 64 bits.\<close>

lemma stale_window:
  assumes "word_of_int (ck_unix ck) - ts \<noteq> (2 ^ 63 :: u64)"
  shows "stale ck ts \<longleftrightarrow> 120 < \<bar>sint (word_of_int (ck_unix ck) - ts :: u64)\<bar>"
proof -
  define w where "w = (word_of_int (ck_unix ck) - ts :: u64)"
  have "sint (- w) = - sint w"
  proof -
    have "sint w \<noteq> - (2 ^ 63)"
    proof
      assume "sint w = - (2 ^ 63)"
      then have "word_of_int (sint w) = (word_of_int (- (2 ^ 63)) :: u64)" by simp
      then have "w = 2 ^ 63" by simp
      then show False using assms by (simp add: w_def)
    qed
    moreover have "- (2 ^ 63) \<le> sint w" "sint w < 2 ^ 63" using sint_greater_eq [of w] sint_less [of w] by simp_all
    ultimately have "signed_take_bit 63 (- sint w) = - sint w" by (intro signed_take_bit_int_eq_self) simp_all
    then show ?thesis by (simp add: sint_word_ariths)
  qed
  then show ?thesis by (auto simp: stale_def wrapping_abs_def TOKEN_REFRESH_SKEW_SECS_def w_def [symmetric])
qed

lemma sint_in_range: "- (2 ^ 63) \<le> x \<Longrightarrow> x < 2 ^ 63 \<Longrightarrow> sint (word_of_int x :: u64) = x"
  by (simp add: sint_sbintrunc' signed_take_bit_int_eq_self)

lemma fresh_window:
  assumes f: "\<not> stale ck ts" and c: "0 \<le> ck_unix ck" "ck_unix ck < 2 ^ 62"
  shows "\<bar>ck_unix ck - sint ts\<bar> \<le> 120 \<or> sint ts = ck_unix ck - 2 ^ 63"
proof -
  define w where "w = (word_of_int (ck_unix ck) - ts :: u64)"
  have t: "ts = word_of_int (ck_unix ck - sint w)" by (simp add: w_def)
  have s: "sint ts = ck_unix ck - sint w" if "- (2 ^ 63) \<le> ck_unix ck - sint w" "ck_unix ck - sint w < 2 ^ 63"
    unfolding t by (rule sint_in_range [OF that])
  show ?thesis
  proof (cases "w = 2 ^ 63")
    case True
    then have "ts = word_of_int (ck_unix ck - 2 ^ 63)" by (simp add: w_def algebra_simps)
    moreover have "sint (word_of_int (ck_unix ck - 2 ^ 63) :: u64) = ck_unix ck - 2 ^ 63" by (rule sint_in_range) (use c in simp_all)
    ultimately have "sint ts = ck_unix ck - 2 ^ 63" by (simp only:)
    then show ?thesis by blast
  next
    case False
    then have "\<bar>sint w\<bar> \<le> 120" using f stale_window [of ck ts] by (simp add: w_def)
    then have "sint ts = ck_unix ck - sint w" using s c by simp
    then show ?thesis using \<open>\<bar>sint w\<bar> \<le> 120\<close> by simp
  qed
qed

text \<open>C14: The refresh endpoint gives a token to the holder of the device's key only: the response
  is a token only if the signature in the request verifies, under the key whose digest is the
  device id, over that key and a timestamp no more than 120 seconds from the server's clock - or
  the one timestamp that lies exactly two to the power of 63 seconds back, whose distance
  overflows - and then it is the one token of the account's device with this id, until it expires.\<close>

theorem refresh_for_key_holder:
  assumes "db_ok (ap_db s)" "refresh_token ae ck b s = (Inr (token, dev), s')" "0 \<le> ck_unix ck" "ck_unix ck < 2 ^ 62"
  shows "\<exists>pk sig x. unhex_n (ae_crypto ae) 32 (fb_key b) = Some pk
    \<and> unhex_n (ae_crypto ae) 64 (fb_signature b) = Some sig
    \<and> cx_verify (ae_crypto ae) pk (token_refresh_message pk (fb_timestamp b)) sig
    \<and> dev = device_id_from_public_key (ae_crypto ae) pk
    \<and> (\<bar>ck_unix ck - sint (fb_timestamp b)\<bar> \<le> 120 \<or> sint (fb_timestamp b) = ck_unix ck - 2 ^ 63)
    \<and> x \<in> set (db_devices (ap_db s)) \<and> dv_id x = dev \<and> sole_token ae ck token (dv_user x, dev) s'"
proof -
  let ?cx = "ae_crypto ae"
  note h = assms(2) [unfolded refresh_token_def Let_def]
  obtain pk where pk: "unhex_n ?cx 32 (fb_key b) = Some pk"
    using h by (cases "unhex_n ?cx 32 (fb_key b)") simp_all
  have g: "api_device_id_from_public_key ?cx pk = fb_device_id b" "\<not> stale ck (fb_timestamp b)"
    using h pk by (simp_all split: if_splits)
  obtain sig where sig: "unhex_n ?cx 64 (fb_signature b) = Some sig"
    using h pk g by (cases "unhex_n ?cx 64 (fb_signature b)") simp_all
  have v: "refresh_signature_valid ?cx pk (fb_timestamp b) sig" using h pk g sig by (simp split: if_splits)
  obtain x where x1: "find_device (fb_device_id b) (ap_db s) = Some x"
    using h pk g sig v by (cases "find_device (fb_device_id b) (ap_db s)") simp_all
  obtain a s1 where i: "issue_device_token ae ck (dv_pk x) s = (a, s1)" by fastforce
  have "a = Inr token \<and> s1 = s' \<and> dev = fb_device_id b" using h pk g sig v x1 i by (cases a) simp_all
  with x1 i have x: "find_device (fb_device_id b) (ap_db s) = Some x"
      "issue_device_token ae ck (dv_pk x) s = (Inr token, s')" "dev = fb_device_id b" by simp_all
  have r: "x \<in> set (db_devices (ap_db s))" "dv_id x = dev"
    using x by (auto simp: find_device_def find_Some_iff)
  have "sole_token ae ck token (dv_user x, dv_id x) s'" using assms(1) r(1) x(2) by (rule issued_token_sole)
  then show ?thesis
    using pk sig v g fresh_window [OF g(2) assms(3,4)] x(3) r
    by (auto simp: refresh_signature_valid_def token_refresh_message_def TOKEN_REFRESH_TAG_def
        api_device_id_from_public_key_def device_id_from_public_key_def)
qed

text \<open>The distance that has no absolute value in 64 bits passes.\<close>

lemma far_timestamp_fresh:
  "word_of_int (ck_unix ck) - ts = (2 ^ 63 :: u64) \<Longrightarrow> \<not> stale ck ts"
  by (simp add: stale_def wrapping_abs_def TOKEN_REFRESH_SKEW_SECS_def)

section \<open>Accounts\<close>

text \<open>What lets a new account in: registration open by the stored setting or, before one is
  stored, by configuration; the bootstrap token, where one is configured; or else an empty table.\<close>

definition may_register :: "api_env \<Rightarrow> string option \<Rightarrow> app \<Rightarrow> bool" where
  "may_register ae boot s \<longleftrightarrow>
     registration_open ae s \<or> (case rc_bootstrap (ae_config ae) of
                                 Some secret \<Rightarrow> boot = Some secret
                               | None \<Rightarrow> db_users (ap_db s) = [])"

lemma register_user_users:
  assumes "db_users (ap_db (snd (register_user ae ck name pw boot s))) \<noteq> db_users (ap_db s)"
  shows "may_register ae boot s \<and> name \<notin> u_name ` set (db_users (ap_db s)) \<and> 8 \<le> length pw
    \<and> (\<exists>salt. db_users (ap_db (snd (register_user ae ck name pw boot s))) = db_users (ap_db s) @
        [\<lparr> u_id = next_rowid (map u_id (db_users (ap_db s))), u_name = name, u_hash = ae_hash ae pw salt, u_created = ck_unix ck \<rparr>])"
proof -
  have eq: "api_ct_eq (str_bytes a) (str_bytes b) \<longleftrightarrow> a = b" for a b
    using api_eq.eq_iff by simp
  show ?thesis
    using assms unfolding register_user_def draw_def Let_def create_user_if_allowed_def may_register_def
    by (auto simp: eq split: option.splits if_splits prod.splits)
qed

lemma register_device_users: "db_users (ap_db (snd (register_device ae ck hdr b s))) = db_users (ap_db s)"
proof -
  obtain c s1 where c: "register_caller ae ck hdr b s = (c, s1)" by fastforce
  have s1: "ap_db s1 = ap_db s" using caller_db [of ae ck hdr b s] c by simp
  show ?thesis
  proof (cases c)
    case (Inr user)
    obtain r d where u: "upsert_device ck user b (ap_db s1) = (r, d)" by fastforce
    have d: "db_users d = db_users (ap_db s)" using u s1 by (auto simp: upsert_device_def Let_def split: option.splits if_splits)
    have "db_users (ap_db s2) = db_users d" if "issue_device_token ae ck pk (s1\<lparr>ap_db := d\<rparr>) = (a, s2)" for pk a s2
      using issue_token_devices [of ae ck pk "s1\<lparr>ap_db := d\<rparr>"] that by simp
    then show ?thesis using c Inr u d by (auto simp: register_device_def split: sum.split prod.split)
  qed (use c s1 in \<open>simp add: register_device_def\<close>)
qed

lemma users_quiet:
  assumes "\<nexists>name pw boot. req = Register name pw boot"
  shows "db_users (ap_db (api_step ae ck req s)) = db_users (ap_db s)"
proof -
  have authed: "db_users (ap_db s1) = db_users (ap_db s)" if "authed_user ae ck hdr s = (c, s1)" for hdr c s1
    using authed_db [of ae ck hdr s] that by simp
  have issued: "db_users (ap_db s1) = db_users (ap_db s)" if "issue_device_token ae ck pk s = (a, s1)" for pk a s1
    using issue_token_devices [of ae ck pk s] that by simp
  have seen: "db_users d = db_users (ap_db s)" if "d = ap_db s \<or> (\<exists>sel. d = touch (ck_unix ck) sel (ap_db s))" for d
    using that by auto
  show ?thesis
  proof (cases req)
    case (Login name pw)
    obtain c s1 where c: "authenticate_user ae ck name pw s = (c, s1)" by fastforce
    have "ap_db s1 = ap_db s" using authenticate_db [of ae ck name pw s] c by simp
    then show ?thesis using Login c mint_session_db [of ae ck _ s1] by (simp add: login_def split: sum.split)
  next
    case (DeleteDevice hdr dev)
    obtain c s1 where c: "authed_user ae ck hdr s = (c, s1)" by fastforce
    then show ?thesis using authed [OF c] DeleteDevice by (simp add: delete_device_def Let_def split: sum.split)
  next
    case (RenameDevice hdr dev name)
    obtain c s1 where c: "authed_user ae ck hdr s = (c, s1)" by fastforce
    then show ?thesis using authed [OF c] RenameDevice by (simp add: rename_device_def split: sum.split)
  next
    case (Refresh b)
    have "db_users (ap_db (snd (refresh_token ae ck b s))) = db_users (ap_db s)"
      unfolding refresh_token_def Let_def using issued by (auto split: option.split prod.split sum.split)
    then show ?thesis using Refresh by simp
  next
    case (IceServers hdr q)
    show ?thesis using seen [OF ice_db] IceServers by simp
  next
    case (WsTicket hdr q)
    show ?thesis using seen [OF ticket_db] WsTicket by simp
  next
    case (ResolveToken t)
    show ?thesis using seen [OF resolve_db] ResolveToken by simp
  qed (use assms in \<open>simp_all add: register_device_users set_registration_def set_setting_def touch_last_seen_def
        revoke_user_session_def\<close>)
qed

section \<open>A concrete server\<close>

text \<open>An instance with one account, one device and its token, for the examples.\<close>

definition demo_api :: api_env where
  "demo_api = \<lparr> ae_crypto = demo_crypto, ae_hash = (\<lambda>pw salt. pw), ae_verify = (\<lambda>pw h. pw = h), ae_dummy = [],
     ae_hmac = (\<lambda>k m. m), ae_b64 = (\<lambda>t. Some (str_bytes t)), ae_allow_relay = (\<lambda>u. RdAllow),
     ae_config = config_from_env (\<lambda>k. None), ae_ticket_ttl = 30 \<rparr>"

definition demo_app :: app where
  "demo_app = \<lparr> ap_db = \<lparr>
       db_users = [\<lparr> u_id = 1, u_name = ''ann'', u_hash = ''password'', u_created = 0 \<rparr>],
       db_devices = [\<lparr> dv_pk = 1, dv_user = 1, dv_id = ''07070707070707070707070707070707'', dv_name = ''desk'',
         dv_key = ''key'', dv_role = ''both'', dv_created = 0, dv_seen = None \<rparr>],
       db_tokens = [\<lparr> tk_device = 1, tk_hash = ''h'', tk_created = 0, tk_expires = None \<rparr>],
       db_sessions = [], db_settings = Map.empty \<rparr>,
     ap_throttle = Map.empty, ap_tickets = Map.empty, ap_ice_cache = Map.empty, ap_rand = (\<lambda>n. [of_nat n]), ap_draws = 0 \<rparr>"

definition demo_clock :: clock where "demo_clock = \<lparr> ck_unix = 1000, ck_ms = 0 \<rparr>"

lemma demo_db_ok: "db_ok (ap_db demo_app)"
  by (simp add: db_ok_def demo_app_def)

definition demo_refresh :: refresh_body where
  "demo_refresh = \<lparr> fb_device_id = ''07070707070707070707070707070707'',
     fb_key = ''0707070707070707070707070707070707070707070707070707070707070707'',
     fb_timestamp = 990,
     fb_signature = ''0707070707070707070707070707070707070707070707070707070707070707'' @
       ''726d642d746f6b656e2d726566726573682d7631070707070707070707070707'' \<rparr>"

definition demo_register :: register_device_body where
  "demo_register = \<lparr> rb_username = Some ''ann'', rb_password = Some ''password'', rb_device_id = ''tab'', rb_name = ''tab'',
     rb_key = ''00'', rb_role = ''viewer'' \<rparr>"

lemma tables_stay_consistent_witness:
  "db_ok (ap_db (fold (\<lambda>(ck, req). api_step demo_api ck req)
     [(demo_clock, RegisterDevice None demo_register), (demo_clock, Refresh demo_refresh)] demo_app))"
  by (rule tables_stay_consistent [OF demo_db_ok])

lemma demo_registers:
  "\<not> isl (fst (register_device demo_api demo_clock None demo_register demo_app))"
  by code_simp

lemma demo_refreshes:
  "\<not> isl (fst (refresh_token demo_api demo_clock demo_refresh demo_app))"
  by code_simp

lemma answered:
  assumes "\<not> isl (fst r)"
  shows "\<exists>token dev s'. r = (Inr (token, dev), s')"
  using assms by (cases r; cases "fst r") auto

lemma registration_gives_sole_token_witness:
  "\<exists>token u s'. register_device demo_api demo_clock None demo_register demo_app = (Inr (token, ''tab''), s')
    \<and> sole_token demo_api demo_clock token (u, ''tab'') s'"
proof -
  obtain token dev s' where r: "register_device demo_api demo_clock None demo_register demo_app = (Inr (token, dev), s')"
    using answered [OF demo_registers] by blast
  have "dev = ''tab''" using registration_gives_sole_token [OF demo_db_ok r] by (simp add: demo_register_def)
  then show ?thesis using registration_gives_sole_token [OF demo_db_ok r] r by blast
qed

lemma refresh_for_key_holder_witness:
  "\<exists>token dev s' u. refresh_token demo_api demo_clock demo_refresh demo_app = (Inr (token, dev), s')
    \<and> sole_token demo_api demo_clock token (u, dev) s'"
proof -
  obtain token dev s' where r: "refresh_token demo_api demo_clock demo_refresh demo_app = (Inr (token, dev), s')"
    using answered [OF demo_refreshes] by blast
  show ?thesis using refresh_for_key_holder [OF demo_db_ok r] r by (auto simp: demo_clock_def)
qed

lemma devices_stay_with_owner_witness:
  "\<exists>x\<in>set (db_devices (ap_db demo_app)). kept x False (ap_db (api_step demo_api demo_clock (Refresh demo_refresh) demo_app))"
proof -
  obtain x where x: "x \<in> set (db_devices (ap_db demo_app))" by (simp add: demo_app_def)
  have "kept x False (ap_db (api_step demo_api demo_clock (Refresh demo_refresh) demo_app))"
    using devices_stay_with_owner [OF demo_db_ok x, of demo_api demo_clock "Refresh demo_refresh"] by simp
  then show ?thesis using x by blast
qed

text \<open>Accounts appear by the registration policy only: a request that changes the users table is
  a registration that the policy lets in - open registration, the configured bootstrap token, or
  the first account of an instance without one - with a password of at least 8 bytes and a name
  that is not taken, and it adds one row, holding the password's hash.\<close>

theorem accounts_by_policy:
  assumes "db_users (ap_db (api_step ae ck req s)) \<noteq> db_users (ap_db s)"
  shows "\<exists>name pw boot salt. req = Register name pw boot \<and> may_register ae boot s
    \<and> name \<notin> u_name ` set (db_users (ap_db s)) \<and> 8 \<le> length pw
    \<and> db_users (ap_db (api_step ae ck req s)) = db_users (ap_db s) @
        [\<lparr> u_id = next_rowid (map u_id (db_users (ap_db s))), u_name = name, u_hash = ae_hash ae pw salt, u_created = ck_unix ck \<rparr>]"
proof (cases "\<exists>name pw boot. req = Register name pw boot")
  case True
  then obtain name pw boot where r: "req = Register name pw boot" by blast
  then show ?thesis using register_user_users [of ae ck name pw boot s] assms by auto
next
  case False
  then show ?thesis using users_quiet assms by metis
qed

lemma demo_opens:
  "map u_name (db_users (ap_db (api_step demo_api demo_clock (Register ''bob'' ''long enough'' None)
      (demo_app\<lparr>ap_db := set_setting SETTING_OPEN_REGISTRATION ''true'' (ap_db demo_app)\<rparr>)))) = [''ann'', ''bob'']"
  by code_simp

lemma accounts_by_policy_witness:
  "may_register demo_api None (demo_app\<lparr>ap_db := set_setting SETTING_OPEN_REGISTRATION ''true'' (ap_db demo_app)\<rparr>)"
proof -
  let ?s = "demo_app\<lparr>ap_db := set_setting SETTING_OPEN_REGISTRATION ''true'' (ap_db demo_app)\<rparr>"
  have "map u_name (db_users (ap_db ?s)) = [''ann'']" by (simp add: demo_app_def set_setting_def)
  then have "db_users (ap_db (api_step demo_api demo_clock (Register ''bob'' ''long enough'' None) ?s)) \<noteq> db_users (ap_db ?s)"
    using demo_opens by auto
  from accounts_by_policy [OF this] show ?thesis by auto
qed

end
