(* ===== verification/Account.thy ===== *)
theory Account
  imports RelayRules
begin

text \<open>
  The apps' client of the rendezvous API (\<open>crates/session/src/account.rs\<close>): the requests it
  sends as the server's own request values, the headers it writes, the URLs it derives and the
  message it makes of an error body.  Base64 encoding and the JSON reader are arguments; the HTTP
  agent is not modelled.
\<close>

section \<open>Devices and URLs\<close>

record device_info =
  di_device_id :: string
  di_name :: string
  di_public_key :: string
  di_role :: string
  di_created_at :: int
  di_last_seen :: "int option"

definition is_connectable :: "device_info \<Rightarrow> bool" where
  "is_connectable d \<longleftrightarrow> di_role d = ''host'' \<or> di_role d = ''both''"

definition trim_end_char :: "char \<Rightarrow> string \<Rightarrow> string" where
  "trim_end_char c s = rev (dropWhile (\<lambda>x. x = c) (rev s))"

definition strip_suffix :: "string \<Rightarrow> string \<Rightarrow> string option" where
  "strip_suffix p s = (if ends_with p s then Some (take (length s - length p) s) else None)"

definition rest_base_from_ws :: "string \<Rightarrow> string" where
  "rest_base_from_ws ws_url =
    (let s = trim_end_char CHR ''/'' ws_url;
         s = (case strip_suffix ''/ws'' s of Some r \<Rightarrow> r | None \<Rightarrow> s)
     in case strip_prefix ''wss://'' s of
          Some rest \<Rightarrow> ''https://'' @ rest
        | None \<Rightarrow> (case strip_prefix ''ws://'' s of
                     Some rest \<Rightarrow> ''http://'' @ rest
                   | None \<Rightarrow> s))"

text \<open>\<open>AccountClient::new\<close> keeps the base; the agent has no state of its own here.\<close>

definition new_base :: "string \<Rightarrow> string" where
  "new_base base_url = trim_end_char CHR ''/'' base_url"

definition account_ws_url :: "string \<Rightarrow> string" where
  "account_ws_url base =
    (case strip_prefix ''https://'' base of
       Some rest \<Rightarrow> ''wss://'' @ rest
     | None \<Rightarrow> (case strip_prefix ''http://'' base of
                  Some rest \<Rightarrow> ''ws://'' @ rest
                | None \<Rightarrow> base)) @ ''/ws''"

section \<open>Requests\<close>

definition client_basic_auth :: "(bytes \<Rightarrow> string) \<Rightarrow> string \<Rightarrow> string \<Rightarrow> string" where
  "client_basic_auth b64 user pass = ''Basic '' @ b64 (str_bytes (user @ '':'' @ pass))"

definition bearer_auth :: "string \<Rightarrow> string" where
  "bearer_auth token = ''Bearer '' @ token"

definition refresh_request :: "crypto \<Rightarrow> identity \<Rightarrow> u64 \<Rightarrow> refresh_body" where
  "refresh_request cx i now_unix =
    (let public_key = public_key_bytes cx i;
         signature = cx_sign cx (id_seed i) (token_refresh_message public_key now_unix)
     in \<lparr> fb_device_id = device_id cx i, fb_key = cx_hex cx public_key, fb_timestamp = now_unix,
          fb_signature = cx_hex cx signature \<rparr>)"

definition register_request :: "string \<Rightarrow> string \<Rightarrow> string \<Rightarrow> string \<Rightarrow> string \<Rightarrow> string \<Rightarrow> register_device_body" where
  "register_request user pass device name key role =
    \<lparr> rb_username = Some user, rb_password = Some pass, rb_device_id = device, rb_name = name, rb_key = key, rb_role = role \<rparr>"

definition client_list_devices :: "(bytes \<Rightarrow> string) \<Rightarrow> string \<Rightarrow> string \<Rightarrow> api_request" where
  "client_list_devices b64 user pass = ListDevices (Some (client_basic_auth b64 user pass))"

definition client_delete_device :: "(bytes \<Rightarrow> string) \<Rightarrow> string \<Rightarrow> string \<Rightarrow> string \<Rightarrow> api_request" where
  "client_delete_device b64 user pass device = DeleteDevice (Some (client_basic_auth b64 user pass)) device"

definition client_ice_servers :: "string \<Rightarrow> api_request" where
  "client_ice_servers token = IceServers (Some (bearer_auth token)) None"

text \<open>The reader gives the string fields of a body that is JSON.\<close>

definition extract_error :: "(string \<Rightarrow> (string \<rightharpoonup> string) option) \<Rightarrow> string \<Rightarrow> string" where
  "extract_error json body =
    (case (case json body of
             Some v \<Rightarrow> find_map v [''error'', ''message'', ''detail'']
           | None \<Rightarrow> None) of
       Some s \<Rightarrow> s
     | None \<Rightarrow> (let trimmed = trim body in if trimmed = [] then ''(no details)'' else trimmed))"

section \<open>The client and the server agree\<close>

lemma trim_end_last: "last s \<noteq> c \<Longrightarrow> trim_end_char c s = s"
  by (cases s rule: rev_cases) (auto simp: trim_end_char_def)

lemma strip_suffix_append [simp]: "strip_suffix p (s @ p) = Some s"
  by (simp add: strip_suffix_def ends_with_def)

lemma strip_prefix_append [simp]: "strip_prefix p (p @ s) = Some s"
  by (simp add: strip_prefix_def)

lemma strip_prefix_Some: "strip_prefix p s = Some r \<Longrightarrow> s = p @ r"
  by (auto simp: strip_prefix_def split: if_splits) (metis append_take_drop_id)

lemma rest_base_of_ws: "rest_base_from_ws (s @ ''/ws'') =
   (case strip_prefix ''wss://'' s of
      Some rest \<Rightarrow> ''https://'' @ rest
    | None \<Rightarrow> (case strip_prefix ''ws://'' s of Some rest \<Rightarrow> ''http://'' @ rest | None \<Rightarrow> s))"
proof -
  have t: "trim_end_char CHR ''/'' (s @ ''/ws'') = s @ ''/ws''" by (rule trim_end_last) simp
  show ?thesis unfolding rest_base_from_ws_def Let_def t strip_suffix_append option.case ..
qed

text \<open>An app that is given only the signaling address reaches the same API as one that was
  given the base: for a base that is not itself a WebSocket address, the REST base derived from
  the signaling URL that the client derives from it is the base again.\<close>

theorem rest_base_roundtrip:
  assumes "strip_prefix ''ws://'' base = None" "strip_prefix ''wss://'' base = None"
  shows "rest_base_from_ws (account_ws_url base) = base"
proof (cases "strip_prefix ''https://'' base")
  case (Some r)
  then have b: "base = ''https://'' @ r" by (rule strip_prefix_Some)
  have u: "account_ws_url base = (''wss://'' @ r) @ ''/ws''" by (simp add: account_ws_url_def Some)
  show ?thesis unfolding u rest_base_of_ws strip_prefix_append option.case by (rule b [symmetric])
next
  case none: None
  show ?thesis
  proof (cases "strip_prefix ''http://'' base")
    case (Some r)
    then have b: "base = ''http://'' @ r" by (rule strip_prefix_Some)
    have u: "account_ws_url base = (''ws://'' @ r) @ ''/ws''" by (simp add: account_ws_url_def none Some)
    have n: "strip_prefix ''wss://'' (''ws://'' @ r) = None" by (simp add: strip_prefix_def)
    show ?thesis unfolding u rest_base_of_ws n strip_prefix_append option.case by (rule b [symmetric])
  next
    case None
    then have "account_ws_url base = base @ ''/ws''" by (simp add: account_ws_url_def none)
    then show ?thesis using assms by (simp add: rest_base_of_ws)
  qed
qed

lemma rest_base_roundtrip_witness:
  "rest_base_from_ws (account_ws_url ''https://app.reachmy.dev'') = ''https://app.reachmy.dev''"
  by (rule rest_base_roundtrip) (simp_all add: strip_prefix_def)

lemma split_once_first: "c \<notin> set a \<Longrightarrow> split_once c (a @ c # b) = Some (a, b)"
  by (induction a) auto

lemma basic_auth_read:
  assumes "\<And>bs. ae_b64 ae (b64 bs) = Some bs" "CHR '':'' \<notin> set user" "utf8_valid (str_bytes (user @ '':'' @ pass))"
  shows "basic_auth ae (Some (client_basic_auth b64 user pass)) = Inr (user, pass)"
proof -
  have "strip_prefix ''Basic '' (client_basic_auth b64 user pass) = Some (b64 (str_bytes (user @ '':'' @ pass)))"
    unfolding client_basic_auth_def by (rule strip_prefix_append)
  moreover have "from_utf8 (str_bytes (user @ '':'' @ pass)) = Some (user @ '':'' @ pass)"
    using assms(3) bytes_str_str_bytes [of "user @ '':'' @ pass"] by (simp add: from_utf8_def)
  ultimately show ?thesis
    using split_once_first [OF assms(2), of pass] assms(1) by (simp add: basic_auth_def)
qed

text \<open>The header the client writes is read back by the server as the same name and password: a
  request authenticates exactly as that pair would, throttle included, for every password - as
  long as the name holds no colon.\<close>

theorem credentials_read_back:
  assumes "\<And>bs. ae_b64 ae (b64 bs) = Some bs" "CHR '':'' \<notin> set user" "utf8_valid (str_bytes (user @ '':'' @ pass))"
  shows "authed_user ae ck (Some (client_basic_auth b64 user pass)) s = authenticate_user ae ck user pass s"
proof -
  have "bearer_token (Some (client_basic_auth b64 user pass)) = None"
    by (simp add: bearer_token_def client_basic_auth_def strip_prefix_def nonempty_def)
  then show ?thesis using basic_auth_read [OF assms] by (simp add: authed_user_def)
qed

lemma credentials_read_back_witness:
  "fst (authed_user demo_api demo_clock (Some (client_basic_auth bytes_str ''ann'' ''password'')) demo_app)
    = fst (authenticate_user demo_api demo_clock ''ann'' ''password'' demo_app)"
proof -
  have "str_bytes (bytes_str bs) = bs" for bs
    by (rule nth_equalityI) (simp_all add: str_bytes_def bytes_str_def of_char_of unat_u8 take_bit_nat_eq_self)
  then have 1: "ae_b64 demo_api (bytes_str bs) = Some bs" for bs by (simp add: demo_api_def)
  have 2: "CHR '':'' \<notin> set ''ann''" by simp
  have 3: "utf8_valid (str_bytes (''ann'' @ '':'' @ ''password''))" by code_simp
  show ?thesis using credentials_read_back [OF 1 2 3] by simp
qed

lemma near_not_stale:
  assumes "\<bar>sint (word_of_int (ck_unix ck) - ts :: u64)\<bar> \<le> 120"
  shows "\<not> stale ck ts"
proof (cases "word_of_int (ck_unix ck) - ts = (2 ^ 63 :: u64)")
  case True
  then show ?thesis by (rule far_timestamp_fresh)
next
  case False
  then show ?thesis using stale_window [OF False] assms by simp
qed

lemma unhex_n_hex: "crypto_ok cx \<Longrightarrow> length b = n \<Longrightarrow> unhex_n cx n (cx_hex cx b) = Some b"
  by (simp add: unhex_n_def crypto_okD)

text \<open>A registered device recovers its own token: the refresh request that the client builds
  from the device's identity is accepted by the server while their clocks differ by at most two
  minutes, whatever became of the device's earlier token, and the token in the response is the
  one the device is known by until it expires.\<close>

theorem refresh_request_accepted:
  assumes "crypto_ok (ae_crypto ae)" "length (id_seed i) = 32" "db_ok (ap_db s)"
    and row: "x \<in> set (db_devices (ap_db s))" "dv_id x = device_id (ae_crypto ae) i"
    and clocks: "\<bar>sint (word_of_int (ck_unix ck) - now :: u64)\<bar> \<le> 120"
    and fresh: "hash_token (ae_crypto ae) (generate_token (ae_crypto ae) (ap_rand s (ap_draws s)))
      \<notin> tk_hash ` set (db_tokens (ap_db s))"
  shows "\<exists>token s'. refresh_token ae ck (refresh_request (ae_crypto ae) i now) s = (Inr (token, dv_id x), s')
    \<and> sole_token ae ck token (dv_user x, dv_id x) s'"
proof -
  let ?cx = "ae_crypto ae" and ?pk = "public_key_bytes (ae_crypto ae) i"
  let ?sig = "cx_sign ?cx (id_seed i) (token_refresh_message ?pk now)"
  have pk: "unhex_n ?cx 32 (cx_hex ?cx ?pk) = Some ?pk"
    using assms(1,2) by (intro unhex_n_hex) (simp_all add: public_key_bytes_def crypto_okD)
  have sig: "unhex_n ?cx 64 (cx_hex ?cx ?sig) = Some ?sig"
    using assms(1) by (intro unhex_n_hex) (simp_all add: crypto_okD)
  have dev: "api_device_id_from_public_key ?cx ?pk = device_id ?cx i"
    by (simp add: api_device_id_from_public_key_def device_id_def fingerprint_def)
  have v: "refresh_signature_valid ?cx ?pk now ?sig"
    using assms(1,2) crypto_okD(3,5) [OF assms(1,2)]
    by (simp add: refresh_signature_valid_def public_key_bytes_def token_refresh_message_def TOKEN_REFRESH_TAG_def)
  have r: "find_device (device_id ?cx i) (ap_db s) = Some x"
    using assms(3) find_by_key [of dv_id, OF _ row(1)] row(2) by (simp add: find_device_def db_ok_def)
  obtain token s' where iss: "issue_device_token ae ck (dv_pk x) s = (Inr token, s')"
    using fresh by (auto simp: issue_device_token_def draw_def Let_def image_iff)
  have "refresh_token ae ck (refresh_request ?cx i now) s = (Inr (token, dv_id x), s')"
    using pk sig dev v r iss near_not_stale [OF clocks] row(2)
    by (simp add: refresh_token_def refresh_request_def Let_def)
  then show ?thesis using issued_token_sole [OF assms(3) row(1) iss] by blast
qed

text \<open>The demo device, with its seed: in the demo instance a public key is its seed.\<close>

definition demo_identity :: identity where "demo_identity = \<lparr> id_seed = replicate 32 7 \<rparr>"

lemma refresh_request_accepted_witness:
  "\<exists>token s'. refresh_token demo_api demo_clock (refresh_request demo_crypto demo_identity 950) demo_app
      = (Inr (token, concat (replicate 16 ''07'')), s')
    \<and> sole_token demo_api demo_clock token (1, concat (replicate 16 ''07'')) s'"
proof -
  let ?x = "hd (db_devices (ap_db demo_app))"
  have cx: "ae_crypto demo_api = demo_crypto" by (simp add: demo_api_def)
  have 1: "crypto_ok (ae_crypto demo_api)" using demo_crypto_ok cx by simp
  have 2: "length (id_seed demo_identity) = 32" by (simp add: demo_identity_def)
  have 3: "?x \<in> set (db_devices (ap_db demo_app))" by (simp add: demo_app_def)
  have 4: "dv_id ?x = device_id (ae_crypto demo_api) demo_identity" unfolding cx by code_simp
  have 5: "\<bar>sint (word_of_int (ck_unix demo_clock) - 950 :: u64)\<bar> \<le> 120" by (simp add: demo_clock_def)
  have 6: "hash_token (ae_crypto demo_api) (generate_token (ae_crypto demo_api) (ap_rand demo_app (ap_draws demo_app)))
      \<notin> tk_hash ` set (db_tokens (ap_db demo_app))" by code_simp
  have 7: "dv_id ?x = concat (replicate 16 ''07'')" "dv_user ?x = 1" by (simp_all add: demo_app_def numeral_eq_Suc)
  from refresh_request_accepted [OF 1 2 demo_db_ok 3 4 5 6] show ?thesis unfolding cx 7 .
qed

end
