(* ===== verification/Protocol.thy ===== *)
theory Protocol
  imports Rmd_Prelude
begin

text \<open>
  The control-channel protocol (\<open>crates/protocol/src/lib.rs\<close>): the message types of
  the generated \<open>pb\<close> module as the Rust code uses them, the version check, the
  constructors, and the FNV-1a hash of clipboard text.  The wire format itself is
  \<open>prost\<close>'s; an encoder and a decoder are parameters where a component needs them.

  Enumerations of \<open>prost\<close> messages are raw \<open>i32\<close> fields, hence \<open>int\<close> here.
\<close>

section \<open>Messages\<close>

datatype role = RoleUnspecified | RoleHost | RoleViewer

fun role_i32 :: "role \<Rightarrow> int" where
  "role_i32 RoleUnspecified = 0"
| "role_i32 RoleHost = 1"
| "role_i32 RoleViewer = 2"

datatype pb_codec = CodecUnspecified | CodecH264 | CodecAv1

fun codec_i32 :: "pb_codec \<Rightarrow> int" where
  "codec_i32 CodecUnspecified = 0"
| "codec_i32 CodecH264 = 1"
| "codec_i32 CodecAv1 = 2"

record hello_msg =
  h_device_name :: string
  h_role :: int
  h_features :: u64
  h_public_key :: bytes
  h_signature :: bytes
  h_supported_video_codecs :: "int list"
  h_password :: string

record hello_ack_msg =
  a_accepted :: bool
  a_reason :: string
  a_device_name :: string
  a_features :: u64
  a_host_public_key :: bytes
  a_host_proof :: bytes
  a_video_codec :: int
  a_password_required :: bool

datatype input_event =
    MouseMove f64 f64
  | MouseButton int bool f64 f64
  | MouseScroll f64 f64
  | KeyEvent u32 bool u32

record display_descriptor =
  d_id :: u32
  d_width :: u32
  d_height :: u32
  d_name :: string
  d_primary :: bool

record clipboard_update =
  c_kind :: int
  c_data :: bytes
  c_seq :: u64
  c_origin_hash :: u64

record file_offer_msg =
  o_transfer_id :: string
  o_name :: string
  o_size :: u64
  o_mime :: string

datatype payload =
    P_Hello hello_msg
  | P_HelloAck hello_ack_msg
  | P_Input "input_event option"
  | P_Ping u64
  | P_Pong u64
  | P_Bye string
  | P_Clipboard clipboard_update
  | P_FileOffer file_offer_msg
  | P_FileChunk string u64 bytes
  | P_FileAck string u64
  | P_FileComplete string bytes
  | P_FileCancel string string
  | P_DisplayList "display_descriptor list"
  | P_SelectDisplay u32
  | P_RequestKeyframe
  | P_ViewOnly bool
  | P_Audio bytes u64
  | P_SetZoom f64 f64 f64 f64

record envelope_msg =
  e_major :: u32
  e_minor :: u32
  e_payload :: "payload option"

section \<open>Versions\<close>

definition PROTOCOL_MAJOR :: u32 where "PROTOCOL_MAJOR = 1"
definition PROTOCOL_MINOR :: u32 where "PROTOCOL_MINOR = 7"

datatype protocol_error =
    Decode
  | IncompatibleMajor u32 u32
  | EmptyEnvelope

definition check_compatibility :: "u32 \<Rightarrow> protocol_error + unit" where
  "check_compatibility remote_major =
    (if remote_major = PROTOCOL_MAJOR then Inr ()
     else Inl (IncompatibleMajor PROTOCOL_MAJOR remote_major))"

definition envelope :: "payload \<Rightarrow> envelope_msg" where
  "envelope p = \<lparr> e_major = PROTOCOL_MAJOR, e_minor = PROTOCOL_MINOR, e_payload = Some p \<rparr>"

section \<open>Constants\<close>

definition mod_SHIFT :: u32 where "mod_SHIFT = push_bit 0 1"
definition mod_CONTROL :: u32 where "mod_CONTROL = push_bit 1 1"
definition mod_ALT :: u32 where "mod_ALT = push_bit 2 1"
definition mod_META :: u32 where "mod_META = push_bit 3 1"
definition mod_CAPS_LOCK :: u32 where "mod_CAPS_LOCK = push_bit 4 1"

definition FEATURE_CLIENT_CURSOR :: u64 where "FEATURE_CLIENT_CURSOR = push_bit 0 1"

definition KIND_TEXT :: int where "KIND_TEXT = 1"

section \<open>FNV-1a\<close>

definition fnv_step :: "u64 \<Rightarrow> u8 \<Rightarrow> u64" where
  "fnv_step h b = (h XOR ucast b) * 0x100000001b3"

definition fnv1a :: "bytes \<Rightarrow> u64" where
  "fnv1a bs = foldl fnv_step 0xcbf29ce484222325 bs"

section \<open>Constructors\<close>

definition native_supported_codecs :: "int list" where
  "native_supported_codecs = [codec_i32 CodecH264]"

definition hello_authenticated ::
  "string \<Rightarrow> role \<Rightarrow> u64 \<Rightarrow> bytes \<Rightarrow> bytes \<Rightarrow> envelope_msg" where
  "hello_authenticated device_name role features public_key signature =
    envelope (P_Hello \<lparr> h_device_name = device_name, h_role = role_i32 role,
      h_features = features, h_public_key = public_key, h_signature = signature,
      h_supported_video_codecs = native_supported_codecs, h_password = '''' \<rparr>)"

definition hello :: "string \<Rightarrow> role \<Rightarrow> u64 \<Rightarrow> envelope_msg" where
  "hello device_name role features =
    envelope (P_Hello \<lparr> h_device_name = device_name, h_role = role_i32 role,
      h_features = features, h_public_key = [], h_signature = [],
      h_supported_video_codecs = native_supported_codecs, h_password = '''' \<rparr>)"

definition with_password :: "envelope_msg \<Rightarrow> string \<Rightarrow> envelope_msg" where
  "with_password env password =
    (case e_payload env of
       Some (P_Hello h) \<Rightarrow> env\<lparr>e_payload := Some (P_Hello (h\<lparr>h_password := password\<rparr>))\<rparr>
     | _ \<Rightarrow> env)"

definition hello_ack_ok_signed ::
  "string \<Rightarrow> u64 \<Rightarrow> bytes \<Rightarrow> bytes \<Rightarrow> pb_codec \<Rightarrow> envelope_msg" where
  "hello_ack_ok_signed device_name features host_public_key host_proof video_codec =
    envelope (P_HelloAck \<lparr> a_accepted = True, a_reason = '''', a_device_name = device_name,
      a_features = features, a_host_public_key = host_public_key, a_host_proof = host_proof,
      a_video_codec = codec_i32 video_codec, a_password_required = False \<rparr>)"

definition hello_ack_ok :: "string \<Rightarrow> u64 \<Rightarrow> pb_codec \<Rightarrow> envelope_msg" where
  "hello_ack_ok device_name features video_codec =
    envelope (P_HelloAck \<lparr> a_accepted = True, a_reason = '''', a_device_name = device_name,
      a_features = features, a_host_public_key = [], a_host_proof = [],
      a_video_codec = codec_i32 video_codec, a_password_required = False \<rparr>)"

definition hello_ack_reject :: "string \<Rightarrow> envelope_msg" where
  "hello_ack_reject reason =
    envelope (P_HelloAck \<lparr> a_accepted = False, a_reason = reason, a_device_name = '''',
      a_features = 0, a_host_public_key = [], a_host_proof = [],
      a_video_codec = codec_i32 CodecUnspecified, a_password_required = False \<rparr>)"

definition hello_ack_password_required :: "string \<Rightarrow> envelope_msg" where
  "hello_ack_password_required reason =
    envelope (P_HelloAck \<lparr> a_accepted = False, a_reason = reason, a_device_name = '''',
      a_features = 0, a_host_public_key = [], a_host_proof = [],
      a_video_codec = codec_i32 CodecUnspecified, a_password_required = True \<rparr>)"

definition input :: "input_event \<Rightarrow> envelope_msg" where
  "input ev = envelope (P_Input (Some ev))"

definition ping :: "u64 \<Rightarrow> envelope_msg" where "ping t = envelope (P_Ping t)"
definition pong :: "u64 \<Rightarrow> envelope_msg" where "pong t = envelope (P_Pong t)"

definition clipboard_text :: "string \<Rightarrow> u64 \<Rightarrow> envelope_msg" where
  "clipboard_text text seq =
    (let data = str_bytes text in
     envelope (P_Clipboard \<lparr> c_kind = KIND_TEXT, c_data = data, c_seq = seq,
       c_origin_hash = fnv1a data \<rparr>))"

definition file_offer :: "string \<Rightarrow> string \<Rightarrow> u64 \<Rightarrow> string \<Rightarrow> envelope_msg" where
  "file_offer tid name sz mime =
    envelope (P_FileOffer \<lparr> o_transfer_id = tid, o_name = name, o_size = sz, o_mime = mime \<rparr>)"

definition file_chunk :: "string \<Rightarrow> u64 \<Rightarrow> bytes \<Rightarrow> envelope_msg" where
  "file_chunk tid offset data = envelope (P_FileChunk tid offset data)"

definition file_ack :: "string \<Rightarrow> u64 \<Rightarrow> envelope_msg" where
  "file_ack tid offset = envelope (P_FileAck tid offset)"

definition file_complete :: "string \<Rightarrow> bytes \<Rightarrow> envelope_msg" where
  "file_complete tid sha256 = envelope (P_FileComplete tid sha256)"

definition file_cancel :: "string \<Rightarrow> string \<Rightarrow> envelope_msg" where
  "file_cancel tid reason = envelope (P_FileCancel tid reason)"

definition request_keyframe :: envelope_msg where
  "request_keyframe = envelope P_RequestKeyframe"

definition view_only_msg :: "bool \<Rightarrow> envelope_msg" where
  "view_only_msg enabled = envelope (P_ViewOnly enabled)"

definition audio_frame :: "bytes \<Rightarrow> u64 \<Rightarrow> envelope_msg" where
  "audio_frame opus seq = envelope (P_Audio opus seq)"

definition display_list :: "display_descriptor list \<Rightarrow> envelope_msg" where
  "display_list ds = envelope (P_DisplayList ds)"

definition select_display :: "u32 \<Rightarrow> envelope_msg" where
  "select_display i = envelope (P_SelectDisplay i)"

definition set_zoom :: "f64 \<Rightarrow> f64 \<Rightarrow> f64 \<Rightarrow> f64 \<Rightarrow> envelope_msg" where
  "set_zoom x y w h = envelope (P_SetZoom x y w h)"

lemmas constructor_defs [wire_simps] =
  hello_authenticated_def hello_def hello_ack_ok_signed_def hello_ack_ok_def
  hello_ack_reject_def hello_ack_password_required_def input_def ping_def pong_def
  clipboard_text_def file_offer_def file_chunk_def file_ack_def file_complete_def
  file_cancel_def request_keyframe_def view_only_msg_def audio_frame_def display_list_def
  select_display_def set_zoom_def envelope_def

section \<open>Lemmas\<close>

lemma e_payload_envelope [simp]: "e_payload (envelope p) = Some p"
  by (simp add: envelope_def)

lemma envelope_inject [simp]: "envelope p = envelope q \<longleftrightarrow> p = q"
  by (simp add: envelope_def)

lemma check_compatibility_ok [simp]:
  "check_compatibility v = Inr () \<longleftrightarrow> v = PROTOCOL_MAJOR"
  by (simp add: check_compatibility_def)

lemma envelope_compatible [simp]: "check_compatibility (e_major (envelope p)) = Inr ()"
  by (simp add: envelope_def)

lemma fnv1a_snoc: "fnv1a (bs @ [b]) = fnv_step (fnv1a bs) b"
  by (simp add: fnv1a_def)

text \<open>The FNV prime is odd, so a step can be undone: equal hashes of two texts that end
  alike come from equal hashes of what precedes.\<close>

lemma fnv_prime_inverse: "(0x100000001b3 :: u64) * 0xce965057aff6957b = 1"
  by simp

lemma fnv_step_inject: "fnv_step h b = fnv_step h' b \<longleftrightarrow> h = h'"
proof
  assume "fnv_step h b = fnv_step h' b"
  then have "(h XOR ucast b) * 0x100000001b3 * 0xce965057aff6957b
           = (h' XOR ucast b) * (0x100000001b3 :: u64) * 0xce965057aff6957b"
    by (simp add: fnv_step_def)
  then have "h XOR ucast b = h' XOR ucast b"
    by (simp only: mult.assoc fnv_prime_inverse mult_1_right)
  then have "(h XOR ucast b) XOR ucast b = (h' XOR ucast b) XOR ucast b" by simp
  then show "h = h'" by (simp only: xor.assoc xor_self_eq xor.right_neutral)
qed simp

lemma fnv_step_byte_inject: "fnv_step h b = fnv_step h b' \<longleftrightarrow> b = b'"
proof
  assume "fnv_step h b = fnv_step h b'"
  then have "(h XOR ucast b) * 0x100000001b3 * 0xce965057aff6957b
           = (h XOR ucast b') * (0x100000001b3 :: u64) * 0xce965057aff6957b"
    by (simp add: fnv_step_def)
  then have "h XOR ucast b = h XOR (ucast b' :: u64)"
    by (simp only: mult.assoc fnv_prime_inverse mult_1_right)
  then have "h XOR (h XOR ucast b) = h XOR (h XOR (ucast b' :: u64))" by simp
  then have "(ucast b :: u64) = ucast b'"
    by (simp only: xor.assoc [symmetric] xor_self_eq xor.left_neutral)
  then have "unat (ucast b :: u64) = unat (ucast b' :: u64)" by simp
  then show "b = b'" using unat_u8 [of b] unat_u8 [of b']
    by (simp add: unsigned_ucast_eq take_bit_nat_eq_self word_unat_eq_iff)
qed simp

lemma fnv_suffix_inject:
  "foldl fnv_step h s = foldl fnv_step h' s \<longleftrightarrow> h = h'"
  by (induction s arbitrary: h h') (simp_all add: fnv_step_inject)

text \<open>Two texts of the same length that differ in exactly one byte never collide.\<close>

lemma fnv1a_single_byte:
  "fnv1a (p @ b # s) = fnv1a (p @ b' # s) \<longleftrightarrow> b = b'"
  by (simp add: fnv1a_def fnv_suffix_inject fnv_step_byte_inject)

end
