(* ===== verification/Codec.thy ===== *)
theory Codec
  imports Rmd_Prelude
begin

text \<open>
  The codec crate's own logic (\<open>crates/codec/src/scale.rs\<close> and \<open>lib.rs\<close>): the zoom
  rectangle and its sanitisation, the crop window in source pixels and the packing of
  its rows, the scan for an IDR in an Annex-B stream, and the codec choice.  The SIMD
  resampler and the encoders are third-party and parameters.
\<close>

section \<open>The zoom rectangle\<close>

record crop_rect =
  cr_x :: f64
  cr_y :: f64
  cr_w :: f64
  cr_h :: f64

definition FULL :: crop_rect where
  "FULL = \<lparr> cr_x = Fin 0, cr_y = Fin 0, cr_w = Fin 1, cr_h = Fin 1 \<rparr>"

definition sanitized :: "crop_rect \<Rightarrow> crop_rect" where
  "sanitized r =
    (let w = f_clamp (cr_w r) (Fin 0) (Fin 1);
         h = f_clamp (cr_h r) (Fin 0) (Fin 1)
     in if \<not> (f_lt (Fin 0) w \<and> f_lt (Fin 0) h) \<or> (f_le (Fin 1) w \<and> f_le (Fin 1) h) then FULL
        else \<lparr> cr_x = f_clamp (cr_x r) (Fin 0) (f_sub (Fin 1) w),
               cr_y = f_clamp (cr_y r) (Fin 0) (f_sub (Fin 1) h),
               cr_w = w, cr_h = h \<rparr>)"

definition is_full :: "crop_rect \<Rightarrow> bool" where
  "is_full r = (f_le (Fin 1) (cr_w r) \<and> f_le (Fin 1) (cr_h r))"

section \<open>Cropping a frame\<close>

definition f_to_u32 :: "f64 \<Rightarrow> nat" where
  "f_to_u32 v = nat (f_to_int 0 (2 ^ 32 - 1) v)"

text \<open>Origin and extent of the crop in source pixels; \<open>\<lparr>w, h\<rparr>\<close> are non-zero here.\<close>

definition crop_window :: "crop_rect \<Rightarrow> nat \<Rightarrow> nat \<Rightarrow> nat \<times> nat \<times> nat \<times> nat" where
  "crop_window r src_w src_h =
    (let px = (\<lambda>v n. f_to_u32 (f_round (f_mul v (Fin (of_nat n)))));
         cx = min (px (cr_x r) src_w) (src_w - 1);
         cy = min (px (cr_y r) src_h) (src_h - 1);
         cw = min (max (px (cr_w r) src_w) 1) (src_w - cx);
         ch = min (max (px (cr_h r) src_h) 1) (src_h - cy)
     in (cx, cy, cw, ch))"

text \<open>\<open>src.get(so..so + n)\<close>: None when the range leaves the slice.\<close>

definition slice :: "nat \<Rightarrow> nat \<Rightarrow> 'a list \<Rightarrow> 'a list option" where
  "slice so n xs = (if so + n \<le> length xs then Some (take n (drop so xs)) else None)"

fun pack_rows :: "bytes \<Rightarrow> nat \<Rightarrow> nat \<Rightarrow> nat \<Rightarrow> nat \<Rightarrow> nat \<Rightarrow> bytes option" where
  "pack_rows src stride cx cy row_bytes 0 = Some []"
| "pack_rows src stride cx cy row_bytes (Suc n) =
    (case slice (cy * stride + cx * 4) row_bytes src of
       None \<Rightarrow> None
     | Some row \<Rightarrow>
         (case pack_rows src stride cx (Suc cy) row_bytes n of
            None \<Rightarrow> None
          | Some rest \<Rightarrow> Some (row @ rest)))"

definition crop_scale ::
  "(nat \<Rightarrow> nat \<Rightarrow> bytes \<Rightarrow> nat \<Rightarrow> nat \<Rightarrow> bytes option) \<Rightarrow> bytes \<Rightarrow> nat \<Rightarrow> nat \<Rightarrow> nat \<Rightarrow> crop_rect
    \<Rightarrow> nat \<Rightarrow> nat \<Rightarrow> bytes option" where
  "crop_scale resize src src_w src_h src_stride rect out_w out_h =
    (let rect = sanitized rect
     in if is_full rect \<or> src_w = 0 \<or> src_h = 0 \<or> out_w = 0 \<or> out_h = 0 then None
        else
          (case crop_window rect src_w src_h of
             (cx, cy, cw, ch) \<Rightarrow>
               (case pack_rows src src_stride cx cy (cw * 4) ch of
                  None \<Rightarrow> None
                | Some tight \<Rightarrow> resize cw ch tight out_w out_h)))"

section \<open>Keyframes and codecs\<close>

text \<open>The start code at the head of the remaining bytes: how many bytes it takes.\<close>

definition start_code :: "bytes \<Rightarrow> nat option" where
  "start_code bs =
    (if length bs > 3 \<and> bs ! 0 = 0 \<and> bs ! 1 = 0 \<and> bs ! 2 = 1 then Some 3
     else if length bs > 4 \<and> bs ! 0 = 0 \<and> bs ! 1 = 0 \<and> bs ! 2 = 0 \<and> bs ! 3 = 1 then Some 4
     else None)"

function contains_idr :: "bytes \<Rightarrow> bool" where
  "contains_idr bs =
    (if length bs \<le> 3 then False
     else case start_code bs of
       Some n \<Rightarrow> if bs ! n AND 0x1f = 5 then True else contains_idr (drop (Suc n) bs)
     | None \<Rightarrow> contains_idr (tl bs))"
  by pat_completeness auto
termination
  by (relation "measure length") auto

declare contains_idr.simps [simp del]

datatype video_codec = H264 | Av1

fun is_natively_decodable :: "video_codec \<Rightarrow> bool" where
  "is_natively_decodable H264 = True"
| "is_natively_decodable Av1 = False"

fun codec_str :: "video_codec \<Rightarrow> string" where
  "codec_str H264 = ''h264''"
| "codec_str Av1 = ''av1''"

datatype decoder_kind = OpenH264Decoder

fun new_decoder :: "video_codec \<Rightarrow> decoder_kind option" where
  "new_decoder H264 = Some OpenH264Decoder"
| "new_decoder Av1 = None"

datatype encoder_kind = OpenH264Encoder | Rav1eEncoder

fun new_encoder :: "bool \<Rightarrow> video_codec \<Rightarrow> encoder_kind option" where
  "new_encoder av1_feature H264 = Some OpenH264Encoder"
| "new_encoder av1_feature Av1 = (if av1_feature then Some Rav1eEncoder else None)"

section \<open>Lemmas on the zoom rectangle\<close>

text \<open>A rectangle that lies in the unit square and is not empty; its origin is a number
  unless the peer sent NaN.\<close>

definition on_screen :: "crop_rect \<Rightarrow> bool" where
  "on_screen r \<longleftrightarrow> (\<exists>x y w h. r = \<lparr> cr_x = Fin x, cr_y = Fin y, cr_w = Fin w, cr_h = Fin h \<rparr>
     \<and> 0 \<le> x \<and> 0 \<le> y \<and> 0 < w \<and> 0 < h \<and> x + w \<le> 1 \<and> y + h \<le> 1)"

lemma on_screen_FULL [simp]: "on_screen FULL"
  by (auto simp: on_screen_def FULL_def)

lemma clamp_unit_cases:
  assumes "f_clamp v (Fin 0) (Fin 1) = w"
  shows "w = NaN \<or> (\<exists>r. w = Fin r \<and> 0 \<le> r \<and> r \<le> 1)"
  using f_clamp_Fin [of 0 1 v] assms by (cases "v = NaN") auto

lemma sanitized_cases:
  "sanitized r = FULL \<or>
   (\<exists>w h. sanitized r = \<lparr> cr_x = f_clamp (cr_x r) (Fin 0) (Fin (1 - w)),
       cr_y = f_clamp (cr_y r) (Fin 0) (Fin (1 - h)), cr_w = Fin w, cr_h = Fin h \<rparr>
     \<and> 0 < w \<and> w \<le> 1 \<and> 0 < h \<and> h \<le> 1 \<and> (w < 1 \<or> h < 1))"
  using clamp_unit_cases [of "cr_w r", OF refl] clamp_unit_cases [of "cr_h r", OF refl]
  by (auto simp: sanitized_def Let_def f_sub_def f_le_def)

lemma sanitized_on_screen:
  assumes "cr_x r \<noteq> NaN" "cr_y r \<noteq> NaN"
  shows "on_screen (sanitized r)"
proof -
  consider "sanitized r = FULL"
    | w h where "sanitized r = \<lparr> cr_x = f_clamp (cr_x r) (Fin 0) (Fin (1 - w)),
       cr_y = f_clamp (cr_y r) (Fin 0) (Fin (1 - h)), cr_w = Fin w, cr_h = Fin h \<rparr>"
      "0 < w" "w \<le> 1" "0 < h" "h \<le> 1"
    using sanitized_cases [of r] by auto
  then show ?thesis
  proof cases
    case 1
    then show ?thesis by simp
  next
    case (2 w h)
    obtain x where x: "f_clamp (cr_x r) (Fin 0) (Fin (1 - w)) = Fin x" "0 \<le> x" "x \<le> 1 - w"
      using f_clamp_Fin [of 0 "1 - w" "cr_x r"] assms(1) 2 by auto
    obtain y where y: "f_clamp (cr_y r) (Fin 0) (Fin (1 - h)) = Fin y" "0 \<le> y" "y \<le> 1 - h"
      using f_clamp_Fin [of 0 "1 - h" "cr_y r"] assms(2) 2 by auto
    show ?thesis using 2 x y by (auto simp: on_screen_def)
  qed
qed

lemma f_clamp_idem [simp]: "f_clamp (f_clamp v lo hi) lo hi = f_clamp v lo hi" if "\<not> f_lt hi lo"
  using that by (auto simp: f_clamp_def)

lemma f_clamp_in: "0 < w \<Longrightarrow> w \<le> 1 \<Longrightarrow> f_clamp (Fin w) (Fin 0) (Fin 1) = Fin w"
  by (simp add: f_clamp_def)

text \<open>Sanitising is idempotent, so the rectangle stored by \<open>SetZoom\<close> and the one the
  input path and the encoder each re-sanitise are the same rectangle.\<close>

theorem sanitized_idempotent: "sanitized (sanitized r) = sanitized r"
proof -
  have full: "sanitized FULL = FULL" by (simp add: sanitized_def FULL_def f_clamp_def f_le_def Let_def)
  consider "sanitized r = FULL"
    | w h where "sanitized r = \<lparr> cr_x = f_clamp (cr_x r) (Fin 0) (Fin (1 - w)),
       cr_y = f_clamp (cr_y r) (Fin 0) (Fin (1 - h)), cr_w = Fin w, cr_h = Fin h \<rparr>"
      "0 < w" "w \<le> 1" "0 < h" "h \<le> 1" "w < 1 \<or> h < 1"
    using sanitized_cases [of r] by blast
  then show ?thesis
  proof cases
    case 1
    then show ?thesis using full by simp
  next
    case (2 w h)
    show ?thesis unfolding 2(1) using 2(2-)
      by (auto simp: sanitized_def Let_def f_clamp_in f_sub_def f_le_def)
  qed
qed

text \<open>The viewer's pointer is mapped through the rectangle; an on-screen rectangle maps the
  unit square into itself.\<close>

lemma on_screen_maps_inside:
  assumes "on_screen r" "0 \<le> p" "p \<le> 1"
  shows "\<exists>q. f_add (cr_x r) (f_mul (Fin p) (cr_w r)) = Fin q \<and> 0 \<le> q \<and> q \<le> 1"
    and "\<exists>q. f_add (cr_y r) (f_mul (Fin p) (cr_h r)) = Fin q \<and> 0 \<le> q \<and> q \<le> 1"
proof -
  have in_unit: "0 \<le> x + p * w \<and> x + p * w \<le> 1" if "0 \<le> x" "0 < w" "x + w \<le> 1" for x w :: rat
  proof -
    have "p * w \<le> 1 * w" using assms(3) that(2) by (intro mult_right_mono) auto
    moreover have "0 \<le> p * w" using assms(2) that(2) by simp
    ultimately show ?thesis using that by linarith
  qed
  show "\<exists>q. f_add (cr_x r) (f_mul (Fin p) (cr_w r)) = Fin q \<and> 0 \<le> q \<and> q \<le> 1"
    and "\<exists>q. f_add (cr_y r) (f_mul (Fin p) (cr_h r)) = Fin q \<and> 0 \<le> q \<and> q \<le> 1"
    using assms(1) in_unit by (auto simp: on_screen_def)
qed

section \<open>Lemmas on cropping\<close>

lemma crop_window_bounds:
  assumes "crop_window r src_w src_h = (cx, cy, cw, ch)" "0 < src_w" "0 < src_h"
  shows "cx < src_w" "cy < src_h" "0 < cw" "cx + cw \<le> src_w" "0 < ch" "cy + ch \<le> src_h"
proof -
  define a where "a = f_to_u32 (f_round (f_mul (cr_x r) (Fin (of_nat src_w))))"
  define b where "b = f_to_u32 (f_round (f_mul (cr_y r) (Fin (of_nat src_h))))"
  define c where "c = f_to_u32 (f_round (f_mul (cr_w r) (Fin (of_nat src_w))))"
  define d where "d = f_to_u32 (f_round (f_mul (cr_h r) (Fin (of_nat src_h))))"
  have e: "cx = min a (src_w - 1)" "cy = min b (src_h - 1)"
    "cw = min (max c 1) (src_w - min a (src_w - 1))" "ch = min (max d 1) (src_h - min b (src_h - 1))"
    using assms(1) unfolding crop_window_def Let_def a_def b_def c_def d_def by auto
  have g: "min n (m - 1) < m" "0 < min (max k 1) (m - min n (m - 1))"
    "min n (m - 1) + min (max k 1) (m - min n (m - 1)) \<le> m" if "0 < m" for n m k :: nat
    using that by (auto simp: min_def max_def)
  show "cx < src_w" "cy < src_h" "0 < cw" "cx + cw \<le> src_w" "0 < ch" "cy + ch \<le> src_h"
    unfolding e using g assms(2,3) by blast+
qed

lemma pack_rows_total:
  assumes "(cy + n) * stride \<le> length src" "cx * 4 + row_bytes \<le> stride"
  shows "\<exists>t. pack_rows src stride cx cy row_bytes n = Some t \<and> length t = row_bytes * n"
  using assms(1)
proof (induction n arbitrary: cy)
  case (Suc n)
  have "cy * stride + stride \<le> length src"
    using Suc.prems by (simp add: algebra_simps)
  then have "cy * stride + cx * 4 + row_bytes \<le> length src" using assms(2) by simp
  then obtain row where row: "slice (cy * stride + cx * 4) row_bytes src = Some row" "length row = row_bytes"
    by (simp add: slice_def)
  obtain t where "pack_rows src stride cx (Suc cy) row_bytes n = Some t" "length t = row_bytes * n"
    using Suc.IH [of "Suc cy"] Suc.prems by auto
  then show ?case using row by simp
qed simp

text \<open>For a frame that holds the rows it declares, a zoom crop never reads outside the
  frame: whatever rectangle the viewer asked for, the packing succeeds and hands the
  resampler a non-empty image of exactly \<open>cw * ch\<close> pixels.\<close>

theorem crop_stays_in_frame:
  assumes "0 < src_w" "0 < src_h" "src_w * 4 \<le> stride" "src_h * stride \<le> length src"
    and "crop_window (sanitized r) src_w src_h = (cx, cy, cw, ch)"
  shows "\<exists>t. pack_rows src stride cx cy (cw * 4) ch = Some t \<and> length t = cw * 4 * ch
    \<and> 0 < length t"
proof -
  note b = crop_window_bounds [OF assms(5,1,2)]
  have "(cy + ch) * stride \<le> src_h * stride" using b(6) by (rule mult_le_mono1)
  then have "(cy + ch) * stride \<le> length src" using assms(4) by (rule order_trans)
  moreover have "cx * 4 + cw * 4 \<le> stride" using b(4) assms(3) by simp
  ultimately obtain t where "pack_rows src stride cx cy (cw * 4) ch = Some t" "length t = cw * 4 * ch"
    using pack_rows_total by blast
  then show ?thesis using b by auto
qed

lemma floor_half: "\<lfloor>3 / 2 :: rat\<rfloor> = 1"
  by (simp add: floor_eq_iff)

lemma crop_stays_in_frame_witness:
  "\<exists>t. pack_rows (replicate 16 7) 8 1 0 (1 * 4) 1 = Some t \<and> length t = 1 * 4 * 1 \<and> 0 < length t"
proof -
  have "crop_window (sanitized \<lparr> cr_x = Fin (1/2), cr_y = Fin 0, cr_w = Fin (1/2), cr_h = Fin (1/2) \<rparr>) 2 2
      = (1, 0, 1, 1)"
    using floor_half by (simp add: crop_window_def sanitized_def f_clamp_def f_le_def f_sub_def Let_def f_to_u32_def
      rat_trunc_def)
  from crop_stays_in_frame [OF _ _ _ _ this, of 8 "replicate 16 7"] show ?thesis by simp
qed

section \<open>Lemmas on the IDR scan\<close>

text \<open>The specification of the scan: a start code followed by a NAL header of type 5.\<close>

definition idr_at :: "bytes \<Rightarrow> nat \<Rightarrow> bool" where
  "idr_at bs i \<longleftrightarrow> (i + 3 < length bs \<and> bs ! i = 0 \<and> bs ! (i + 1) = 0 \<and> bs ! (i + 2) = 1
     \<and> bs ! (i + 3) AND 0x1f = 5)"

lemma contains_idr_sound:
  "contains_idr bs \<Longrightarrow> \<exists>i. idr_at bs i"
proof (induction bs rule: contains_idr.induct)
  case (1 bs)
  show ?case
  proof (cases "start_code bs")
    case None
    then have "contains_idr (tl bs)" and len: "\<not> length bs \<le> 3"
      using 1(3) by (auto simp: contains_idr.simps [of bs] split: if_splits)
    then obtain i where "idr_at (tl bs) i" using 1(1) None by blast
    then have "idr_at bs (Suc i)" by (cases bs) (auto simp: idr_at_def add.commute)
    then show ?thesis by blast
  next
    case (Some n)
    have len: "\<not> length bs \<le> 3" using 1(3) by (auto simp: contains_idr.simps [of bs] split: if_splits)
    show ?thesis
    proof (cases "bs ! n AND 0x1f = 5")
      case True
      then have "idr_at bs (n - 3)"
        using Some by (auto simp: start_code_def idr_at_def numeral_eq_Suc split: if_splits)
      then show ?thesis by blast
    next
      case False
      then have "contains_idr (drop (Suc n) bs)"
        using 1(3) Some len by (simp add: contains_idr.simps [of bs])
      then obtain i where "idr_at (drop (Suc n) bs) i" using 1(2) Some False len by blast
      then have "idr_at bs (Suc n + i)" by (auto simp: idr_at_def ac_simps)
      then show ?thesis by blast
    qed
  qed
qed

text \<open>Annex-B never puts a zero byte right after a start code (it would be NAL type 0).\<close>

definition nal_headers_ok :: "bytes \<Rightarrow> bool" where
  "nal_headers_ok bs \<longleftrightarrow> (\<forall>i. i + 3 < length bs \<longrightarrow> bs ! i = 0 \<longrightarrow> bs ! (i + 1) = 0 \<longrightarrow>
     bs ! (i + 2) = 1 \<longrightarrow> bs ! (i + 3) \<noteq> 0)"

lemma nal_headers_drop: "nal_headers_ok bs \<Longrightarrow> nal_headers_ok (drop n bs)"
  unfolding nal_headers_ok_def
proof (intro allI impI)
  fix i
  assume a: "\<forall>i. i + 3 < length bs \<longrightarrow> bs ! i = 0 \<longrightarrow> bs ! (i + 1) = 0 \<longrightarrow> bs ! (i + 2) = 1 \<longrightarrow> bs ! (i + 3) \<noteq> 0"
    and "i + 3 < length (drop n bs)" "drop n bs ! i = 0" "drop n bs ! (i + 1) = 0" "drop n bs ! (i + 2) = 1"
  then show "drop n bs ! (i + 3) \<noteq> 0" using spec [OF a, of "n + i"] by (simp add: add.assoc)
qed

lemma idr_at_drop: "n \<le> i \<Longrightarrow> idr_at bs i \<Longrightarrow> idr_at (drop n bs) (i - n)"
  by (auto simp: idr_at_def)

lemma contains_idr_complete:
  "nal_headers_ok bs \<Longrightarrow> idr_at bs i \<Longrightarrow> contains_idr bs"
proof (induction bs arbitrary: i rule: contains_idr.induct)
  case (1 bs)
  have len: "\<not> length bs \<le> 3" using 1(4) by (auto simp: idr_at_def)
  show ?case
  proof (cases "start_code bs")
    case None
    have "i \<noteq> 0"
    proof
      assume "i = 0"
      then show False using None 1(4) len by (simp add: start_code_def idr_at_def numeral_2_eq_2)
    qed
    then have "idr_at (drop 1 bs) (i - 1)" by (intro idr_at_drop [OF _ 1(4)]) simp
    then have "contains_idr (drop 1 bs)"
      using 1(1) [OF len None] nal_headers_drop [OF 1(3), of 1] by (simp add: drop_Suc)
    then show ?thesis using None len by (simp add: contains_idr.simps [of bs] drop_Suc)
  next
    case (Some n)
    show ?thesis
    proof (cases "bs ! n AND 0x1f = 5")
      case True
      then show ?thesis using Some len by (simp add: contains_idr.simps [of bs])
    next
      case False
      have "Suc n \<le> i"
      proof (rule ccontr)
        assume "\<not> Suc n \<le> i"
        then have i: "i = 0 \<or> i = 1 \<or> i = 2 \<or> i = 3 \<or> i = 4 \<and> n = 4"
          using Some by (auto simp: start_code_def split: if_splits)
        have z: "bs ! i = 0" "bs ! Suc i = 0" "bs ! Suc (Suc i) = 1" "bs ! (i + 3) AND 0x1f = 5"
          using 1(4) by (auto simp: idr_at_def)
        from Some consider
            "n = 3" "bs ! 0 = 0" "bs ! 1 = 0" "bs ! 2 = 1"
          | "n = 4" "4 < length bs" "bs ! 0 = 0" "bs ! 1 = 0" "bs ! 2 = 0" "bs ! 3 = 1"
          by (auto simp: start_code_def split: if_splits)
        then show False
        proof cases
          case 1
          moreover have "bs ! 3 \<noteq> 0"
            using 1 \<open>nal_headers_ok bs\<close> len unfolding nal_headers_ok_def
            by (metis add_0 not_le one_add_one)
          ultimately show False using i z False by (auto simp: numeral_eq_Suc)
        next
          case 2
          moreover have "bs ! 4 \<noteq> 0"
            using 2 \<open>nal_headers_ok bs\<close> unfolding nal_headers_ok_def
            by (auto dest!: spec [of _ 1] simp: numeral_eq_Suc)
          ultimately show False using i z False by (auto simp: numeral_eq_Suc)
        qed
      qed
      then have "idr_at (drop (Suc n) bs) (i - Suc n)" by (rule idr_at_drop [OF _ 1(4)])
      then have "contains_idr (drop (Suc n) bs)"
        using 1(2) [OF len Some False] nal_headers_drop [OF 1(3)] by blast
      then show ?thesis using Some len by (simp add: contains_idr.simps [of bs])
    qed
  qed
qed

text \<open>The keyframe scan is exact: on a stream whose NAL headers are not zero bytes, the
  skipping scan answers true exactly when some three-byte start code is followed by a NAL
  header of type 5 (IDR).\<close>

theorem contains_idr_exact:
  assumes "nal_headers_ok bs"
  shows "contains_idr bs \<longleftrightarrow> (\<exists>i. idr_at bs i)"
  using contains_idr_sound contains_idr_complete [OF assms] by blast

lemma contains_idr_exact_witness: "contains_idr [0, 0, 1, 0x65] = True"
proof -
  have "nal_headers_ok [0, 0, 1, 0x65]" by (simp add: nal_headers_ok_def)
  moreover have "idr_at [0, 0, 1, 0x65] 0" by (simp add: idr_at_def)
  ultimately show ?thesis using contains_idr_exact by blast
qed

end
