(* ===== verification/Keymap.thy ===== *)
theory Keymap
  imports Rmd_Prelude
begin

text \<open>
  The keycode tables of \<open>crates/input/src/keymap.rs\<close>: USB HID usages to macOS virtual
  keycodes, to Linux evdev codes and to X11 keycodes.  A \<open>match\<close> on literals is the
  first matching pair of a table; no usage occurs twice.
\<close>

definition macos_table :: "(nat \<times> nat) list" where
  "macos_table = [
    (0x04, 0), (0x05, 11), (0x06, 8), (0x07, 2), (0x08, 14), (0x09, 3), (0x0A, 5), (0x0B, 4),
    (0x0C, 34), (0x0D, 38), (0x0E, 40), (0x0F, 37), (0x10, 46), (0x11, 45), (0x12, 31),
    (0x13, 35), (0x14, 12), (0x15, 15), (0x16, 1), (0x17, 17), (0x18, 32), (0x19, 9),
    (0x1A, 13), (0x1B, 7), (0x1C, 16), (0x1D, 6), (0x1E, 18), (0x1F, 19), (0x20, 20),
    (0x21, 21), (0x22, 23), (0x23, 22), (0x24, 26), (0x25, 28), (0x26, 25), (0x27, 29),
    (0x28, 36), (0x29, 53), (0x2A, 51), (0x2B, 48), (0x2C, 49), (0x2D, 27), (0x2E, 24),
    (0x2F, 33), (0x30, 30), (0x31, 42), (0x33, 41), (0x34, 39), (0x35, 50), (0x36, 43),
    (0x37, 47), (0x38, 44), (0x39, 57), (0x3A, 122), (0x3B, 120), (0x3C, 99), (0x3D, 118),
    (0x3E, 96), (0x3F, 97), (0x40, 98), (0x41, 100), (0x42, 101), (0x43, 109), (0x44, 103),
    (0x45, 111), (0x46, 105), (0x47, 107), (0x48, 113), (0x49, 114), (0x65, 110),
    (0x68, 105), (0x69, 107), (0x6A, 113), (0x6B, 106), (0x6C, 64), (0x6D, 79), (0x6E, 80),
    (0x6F, 90), (0x4A, 115), (0x4B, 116), (0x4C, 117), (0x4D, 119), (0x4E, 121), (0x4F, 124),
    (0x50, 123), (0x51, 125), (0x52, 126), (0x53, 71), (0x54, 75), (0x55, 67), (0x56, 78),
    (0x57, 69), (0x58, 76), (0x59, 83), (0x5A, 84), (0x5B, 85), (0x5C, 86), (0x5D, 87),
    (0x5E, 88), (0x5F, 89), (0x60, 91), (0x61, 92), (0x62, 82), (0x63, 65), (0x67, 81),
    (0xE0, 59), (0xE1, 56), (0xE2, 58), (0xE3, 55), (0xE4, 62), (0xE5, 60), (0xE6, 61),
    (0xE7, 54)]"

definition hid_to_macos :: "u32 \<Rightarrow> u16 option" where
  "hid_to_macos hid = map_option of_nat (map_of macos_table (unat hid))"

definition evdev_table :: "(nat \<times> nat) list" where
  "evdev_table = [
    (0x04, 30), (0x05, 48), (0x06, 46), (0x07, 32), (0x08, 18), (0x09, 33), (0x0A, 34),
    (0x0B, 35), (0x0C, 23), (0x0D, 36), (0x0E, 37), (0x0F, 38), (0x10, 50), (0x11, 49),
    (0x12, 24), (0x13, 25), (0x14, 16), (0x15, 19), (0x16, 31), (0x17, 20), (0x18, 22),
    (0x19, 47), (0x1A, 17), (0x1B, 45), (0x1C, 21), (0x1D, 44), (0x1E, 2), (0x1F, 3),
    (0x20, 4), (0x21, 5), (0x22, 6), (0x23, 7), (0x24, 8), (0x25, 9), (0x26, 10), (0x27, 11),
    (0x28, 28), (0x29, 1), (0x2A, 14), (0x2B, 15), (0x2C, 57), (0x2D, 12), (0x2E, 13),
    (0x2F, 26), (0x30, 27), (0x31, 43), (0x33, 39), (0x34, 40), (0x35, 41), (0x36, 51),
    (0x37, 52), (0x38, 53), (0x39, 58), (0x3A, 59), (0x3B, 60), (0x3C, 61), (0x3D, 62),
    (0x3E, 63), (0x3F, 64), (0x40, 65), (0x41, 66), (0x42, 67), (0x43, 68), (0x44, 87),
    (0x45, 88), (0x46, 99), (0x47, 70), (0x48, 119), (0x49, 110), (0x65, 127), (0x68, 183),
    (0x69, 184), (0x6A, 185), (0x6B, 186), (0x6C, 187), (0x6D, 188), (0x6E, 189),
    (0x6F, 190), (0x70, 191), (0x71, 192), (0x72, 193), (0x73, 194), (0x4A, 102),
    (0x4B, 104), (0x4C, 111), (0x4D, 107), (0x4E, 109), (0x4F, 106), (0x50, 105),
    (0x51, 108), (0x52, 103), (0x53, 69), (0x54, 98), (0x55, 55), (0x56, 74), (0x57, 78),
    (0x58, 96), (0x59, 79), (0x5A, 80), (0x5B, 81), (0x5C, 75), (0x5D, 76), (0x5E, 77),
    (0x5F, 71), (0x60, 72), (0x61, 73), (0x62, 82), (0x63, 83), (0x67, 117), (0xE0, 29),
    (0xE1, 42), (0xE2, 56), (0xE3, 125), (0xE4, 97), (0xE5, 54), (0xE6, 100), (0xE7, 126)]"

definition hid_to_evdev :: "u32 \<Rightarrow> u16 option" where
  "hid_to_evdev hid = map_option of_nat (map_of evdev_table (unat hid))"

definition hid_to_x_keycode :: "u32 \<Rightarrow> u8 option" where
  "hid_to_x_keycode hid = map_option (\<lambda>evdev. ucast (evdev + 8)) (hid_to_evdev hid)"

section \<open>Facts about the tables\<close>

lemma evdev_keys_distinct: "distinct (map fst evdev_table)"
  by code_simp

lemma evdev_codes_distinct: "distinct (map snd evdev_table)"
  by code_simp

lemma macos_keys_distinct: "distinct (map fst macos_table)"
  by code_simp

lemma evdev_code_range: "list_all (\<lambda>(h, c). 1 \<le> c \<and> c \<le> 194) evdev_table"
  by code_simp

lemma evdev_lookup:
  assumes "hid_to_evdev h = Some c"
  obtains n where "(unat h, n) \<in> set evdev_table" "c = of_nat n" "1 \<le> n" "n \<le> 194"
  using assms evdev_code_range map_of_SomeD
  by (fastforce simp: hid_to_evdev_def list_all_iff)

lemma unat_u16: "n < 65536 \<Longrightarrow> unat (of_nat n :: u16) = n"
  by (simp add: unat_of_nat take_bit_nat_eq_self)

lemma evdev_injective:
  assumes "hid_to_evdev h = Some c" "hid_to_evdev h' = Some c"
  shows "h = h'"
proof -
  obtain n where n: "(unat h, n) \<in> set evdev_table" "c = of_nat n" "n \<le> 194"
    by (rule evdev_lookup [OF assms(1)])
  obtain n' where n': "(unat h', n') \<in> set evdev_table" "c = of_nat n'" "n' \<le> 194"
    by (rule evdev_lookup [OF assms(2)])
  have "n = n'" using n n' unat_u16 [of n] unat_u16 [of n'] by simp
  then have "unat h = unat h'"
    using n(1) n'(1) evdev_codes_distinct
    by (metis distinct_map fst_conv inj_onD prod.inject snd_conv)
  then show ?thesis by (simp add: word_unat_eq_iff)
qed

text \<open>The X11 keycode is the evdev code plus eight, and the sum fits in a byte.\<close>

lemma x_keycode_exact:
  assumes "hid_to_evdev h = Some c"
  shows "\<exists>k. hid_to_x_keycode h = Some k \<and> unat k = unat c + 8"
proof -
  obtain n where n: "c = of_nat n" "n \<le> 194" by (rule evdev_lookup [OF assms])
  have u: "unat c = n" using n unat_u16 by simp
  then have "unat (c + 8) = n + 8" using n(2) by (simp add: unat_word_ariths)
  then have "unat (ucast (c + 8) :: u8) = n + 8"
    using n(2) by (simp add: unsigned_ucast_eq take_bit_nat_eq_self)
  then show ?thesis using assms u by (simp add: hid_to_x_keycode_def)
qed

text \<open>The Linux keymap is faithful: every code it produces is one the uinput device
  declares (1 to 248), no two HID usages share a code (so one key cannot release
  another), and the X11 keycode is exactly the evdev code plus eight, without
  wrapping in its byte.\<close>

theorem keymap_faithful:
  assumes "hid_to_evdev h = Some c"
  shows "1 \<le> unat c \<and> unat c \<le> 248 \<and> (\<forall>h'. hid_to_evdev h' = Some c \<longrightarrow> h' = h)
    \<and> (\<exists>k. hid_to_x_keycode h = Some k \<and> unat k = unat c + 8)"
proof -
  obtain n where "c = of_nat n" "1 \<le> n" "n \<le> 194" by (rule evdev_lookup [OF assms])
  then have "1 \<le> unat c \<and> unat c \<le> 248" using unat_u16 [of n] by simp
  then show ?thesis using evdev_injective assms x_keycode_exact by blast
qed

lemma keymap_faithful_witness: "\<exists>k. hid_to_x_keycode 0x73 = Some k \<and> unat k = unat (194 :: u16) + 8"
proof -
  have "hid_to_evdev 0x73 = Some 194" by code_simp
  from keymap_faithful [OF this] show ?thesis by blast
qed

end
