(* ===== verification/InputModel.thy ===== *)
theory InputModel
  imports Protocol Keymap
begin

text \<open>
  The input injectors (\<open>crates/input/src/lib.rs\<close>, \<open>uinput.rs\<close>, \<open>linux.rs\<close>,
  \<open>mac.rs\<close>): each backend's state, its \<open>inject\<close> and \<open>release_all\<close>, and the choice of
  backend.  A backend writes to the operating system through a fallible call; the log
  is what got through, and what the system considers held down is read off the log.
\<close>

datatype held = HeldKey nat | HeldButton nat

record monitor_rect =
  mr_ox :: f64
  mr_oy :: f64
  mr_mw :: f64
  mr_mh :: f64
  mr_dw :: f64
  mr_dh :: f64

section \<open>Floating-point helpers\<close>

definition is_finite :: "f64 \<Rightarrow> bool" where
  "is_finite v = (v \<noteq> NaN \<and> v \<noteq> PInf \<and> v \<noteq> NInf)"

fun f_div :: "f64 \<Rightarrow> f64 \<Rightarrow> f64" where
  "f_div NaN b = NaN"
| "f_div a NaN = NaN"
| "f_div (Fin a) (Fin b) =
    (if b \<noteq> 0 then Fin (a / b) else if a = 0 then NaN else if a > 0 then PInf else NInf)"
| "f_div (Fin a) i = Fin 0"
| "f_div PInf (Fin b) = (if b < 0 then NInf else PInf)"
| "f_div NInf (Fin b) = (if b < 0 then PInf else NInf)"
| "f_div i j = NaN"

definition f_to_i32 :: "f64 \<Rightarrow> int" where "f_to_i32 v = f_to_int (- (2 ^ 31)) (2 ^ 31 - 1) v"
definition f_to_i16 :: "f64 \<Rightarrow> int" where "f_to_i16 v = f_to_int (- (2 ^ 15)) (2 ^ 15 - 1) v"

section \<open>uinput\<close>

datatype ev_event =
    EvAbsX int
  | EvAbsY int
  | EvWheel int
  | EvWheelHiRes int
  | EvHWheel int
  | EvHWheelHiRes int
  | EvKey nat bool

text \<open>\<open>u_fails\<close> says which of the successive \<open>emit\<close> calls fail.\<close>

record uinput =
  u_rect :: "monitor_rect option"
  u_pressed :: "nat list"
  u_last_x :: int
  u_last_y :: int
  u_log :: "ev_event list"
  u_calls :: nat
  u_fails :: "nat \<Rightarrow> bool"

definition ABS_MAX :: int where "ABS_MAX = 65535"

definition BTN_LEFT :: nat where "BTN_LEFT = 0x110"
definition BTN_RIGHT :: nat where "BTN_RIGHT = 0x111"
definition BTN_MIDDLE :: nat where "BTN_MIDDLE = 0x112"

definition uinput_new :: "monitor_rect option \<Rightarrow> (nat \<Rightarrow> bool) \<Rightarrow> uinput" where
  "uinput_new rect fails = \<lparr> u_rect = rect, u_pressed = [], u_last_x = ABS_MAX div 2,
     u_last_y = ABS_MAX div 2, u_log = [], u_calls = 0, u_fails = fails \<rparr>"

definition u_emit :: "ev_event list \<Rightarrow> uinput \<Rightarrow> bool \<times> uinput" where
  "u_emit evs s =
    (let s' = s\<lparr>u_calls := Suc (u_calls s)\<rparr>
     in if u_fails s (u_calls s) then (False, s') else (True, s'\<lparr>u_log := u_log s @ evs\<rparr>))"

definition u_map :: "uinput \<Rightarrow> f64 \<Rightarrow> f64 \<Rightarrow> (int \<times> int) option" where
  "u_map s x_norm y_norm =
    (if \<not> is_finite x_norm \<or> \<not> is_finite y_norm then None
     else
       let (fx, fy) =
         (case u_rect s of
            Some r \<Rightarrow>
              (f_div (f_add (mr_ox r) (f_mul (f_clamp x_norm (Fin 0) (Fin 1)) (mr_mw r))) (mr_dw r),
               f_div (f_add (mr_oy r) (f_mul (f_clamp y_norm (Fin 0) (Fin 1)) (mr_mh r))) (mr_dh r))
          | None \<Rightarrow> (x_norm, y_norm))
       in Some (f_to_i32 (f_mul (f_clamp fx (Fin 0) (Fin 1)) (Fin (of_int ABS_MAX))),
                f_to_i32 (f_mul (f_clamp fy (Fin 0) (Fin 1)) (Fin (of_int ABS_MAX)))))"

definition scroll_axes :: "f64 \<Rightarrow> int \<times> int" where
  "scroll_axes v =
    (if \<not> is_finite v \<or> f_eq v (Fin 0) then (0, 0)
     else
       let v = f_clamp v (Fin (- 30)) (Fin 30);
           n = f_to_i32 (f_round v);
           notch = (if n = 0 then (if f_lt (Fin 0) v then 1 else - 1) else n);
           hires = f_to_i32 (f_round (f_mul v (Fin 120)))
       in (notch, hires))"

definition press_code :: "nat \<Rightarrow> bool \<Rightarrow> nat list \<Rightarrow> nat list" where
  "press_code c pressed held = (if pressed then List.insert c held else removeAll c held)"

definition uinput_button :: "int \<Rightarrow> nat" where
  "uinput_button b = (if b = 2 then BTN_RIGHT else if b = 3 then BTN_MIDDLE else BTN_LEFT)"

definition wheel_events :: "f64 \<Rightarrow> f64 \<Rightarrow> ev_event list" where
  "wheel_events dx dy =
    (let (notch, hires) = scroll_axes dy; (hnotch, hhires) = scroll_axes dx
     in (if notch \<noteq> 0 then [EvWheel notch, EvWheelHiRes hires] else [])
        @ (if hnotch \<noteq> 0 then [EvHWheel hnotch, EvHWheelHiRes hhires] else []))"

fun uinput_inject :: "input_event \<Rightarrow> uinput \<Rightarrow> bool \<times> uinput" where
  "uinput_inject (MouseMove mx my) s =
    (case u_map s mx my of
       None \<Rightarrow> (True, s)
     | Some (x, y) \<Rightarrow> u_emit [EvAbsX x, EvAbsY y] (s\<lparr>u_last_x := x, u_last_y := y\<rparr>))"
| "uinput_inject (MouseButton b pressed bx by') s =
    (let (x, y) =
       (if f_eq bx (Fin 0) \<and> f_eq by' (Fin 0) then (u_last_x s, u_last_y s)
        else (case u_map s bx by' of Some p \<Rightarrow> p | None \<Rightarrow> (u_last_x s, u_last_y s)));
         c = uinput_button b
     in u_emit [EvAbsX x, EvAbsY y, EvKey c pressed]
          (s\<lparr>u_last_x := x, u_last_y := y, u_pressed := press_code c pressed (u_pressed s)\<rparr>))"
| "uinput_inject (MouseScroll dx dy) s =
    (let evs = wheel_events dx dy in if evs = [] then (True, s) else u_emit evs s)"
| "uinput_inject (KeyEvent h pressed modifiers) s =
    (case hid_to_evdev h of
       None \<Rightarrow> (True, s)
     | Some c \<Rightarrow> u_emit [EvKey (unat c) pressed]
         (s\<lparr>u_pressed := press_code (unat c) pressed (u_pressed s)\<rparr>))"

definition uinput_release_all :: "uinput \<Rightarrow> uinput" where
  "uinput_release_all s =
    (if u_pressed s = [] then s
     else snd (u_emit (map (\<lambda>c. EvKey c False) (u_pressed s)) (s\<lparr>u_pressed := []\<rparr>)))"

text \<open>The keys and buttons the kernel has down after a log.\<close>

fun ev_down :: "ev_event \<Rightarrow> nat set \<Rightarrow> nat set" where
  "ev_down (EvKey c True) S = insert c S"
| "ev_down (EvKey c False) S = S - {c}"
| "ev_down _ S = S"

definition uinput_held :: "uinput \<Rightarrow> nat set" where
  "uinput_held s = fold ev_down (u_log s) {}"

section \<open>X11 XTEST\<close>

datatype x_type = KEY_PRESS | KEY_RELEASE | BUTTON_PRESS | BUTTON_RELEASE | MOTION_NOTIFY

record x11 =
  x_width :: f64
  x_height :: f64
  x_pressed_keys :: "nat list"
  x_pressed_buttons :: "nat list"
  x_log :: "(x_type \<times> nat \<times> int \<times> int) list"
  x_calls :: nat
  x_fails :: "nat \<Rightarrow> bool"

definition x11_new :: "f64 \<Rightarrow> f64 \<Rightarrow> (nat \<Rightarrow> bool) \<Rightarrow> x11" where
  "x11_new w h fails = \<lparr> x_width = w, x_height = h, x_pressed_keys = [], x_pressed_buttons = [],
     x_log = [], x_calls = 0, x_fails = fails \<rparr>"

definition fake :: "x_type \<Rightarrow> nat \<Rightarrow> int \<Rightarrow> int \<Rightarrow> x11 \<Rightarrow> bool \<times> x11" where
  "fake ty detail x y s =
    (let s' = s\<lparr>x_calls := Suc (x_calls s)\<rparr>
     in if x_fails s (x_calls s) then (False, s')
        else (True, s'\<lparr>x_log := x_log s @ [(ty, detail, x, y)]\<rparr>))"

text \<open>Sequencing with \<open>?\<close>: stop at the first error.\<close>

definition and_then :: "bool \<times> 's \<Rightarrow> ('s \<Rightarrow> bool \<times> 's) \<Rightarrow> bool \<times> 's" where
  "and_then r f = (if fst r then f (snd r) else (False, snd r))"

definition x_click :: "nat \<Rightarrow> x11 \<Rightarrow> bool \<times> x11" where
  "x_click button s = and_then (fake BUTTON_PRESS button 0 0 s) (fake BUTTON_RELEASE button 0 0)"

definition x_button :: "int \<Rightarrow> nat" where
  "x_button b = (if b = 2 then 3 else if b = 3 then 2 else 1)"

fun x11_inject :: "input_event \<Rightarrow> x11 \<Rightarrow> bool \<times> x11" where
  "x11_inject (MouseMove mx my) s =
    fake MOTION_NOTIFY 0 (f_to_i16 (f_mul mx (x_width s))) (f_to_i16 (f_mul my (x_height s))) s"
| "x11_inject (MouseButton b pressed bx by') s =
    and_then
      (fake MOTION_NOTIFY 0 (f_to_i16 (f_mul bx (x_width s))) (f_to_i16 (f_mul by' (x_height s))) s)
      (\<lambda>s. fake (if pressed then BUTTON_PRESS else BUTTON_RELEASE) (x_button b) 0 0
         (s\<lparr>x_pressed_buttons := press_code (x_button b) pressed (x_pressed_buttons s)\<rparr>))"
| "x11_inject (MouseScroll dx dy) s =
    and_then
      (if f_lt (Fin 0) dy then x_click 4 s else if f_lt dy (Fin 0) then x_click 5 s else (True, s))
      (\<lambda>s. if f_lt (Fin 0) dx then x_click 7 s else if f_lt dx (Fin 0) then x_click 6 s else (True, s))"
| "x11_inject (KeyEvent h pressed modifiers) s =
    (case hid_to_x_keycode h of
       None \<Rightarrow> (True, s)
     | Some k \<Rightarrow>
         fake (if pressed then KEY_PRESS else KEY_RELEASE) (unat k) 0 0
           (s\<lparr>x_pressed_keys := press_code (unat k) pressed (x_pressed_keys s)\<rparr>))"

definition x11_release_all :: "x11 \<Rightarrow> x11" where
  "x11_release_all s =
    fold (\<lambda>b s. snd (fake BUTTON_RELEASE b 0 0 s)) (x_pressed_buttons s)
      (fold (\<lambda>k s. snd (fake KEY_RELEASE k 0 0 s)) (x_pressed_keys s)
        (s\<lparr>x_pressed_keys := [], x_pressed_buttons := []\<rparr>))"

fun x_down :: "x_type \<times> nat \<times> int \<times> int \<Rightarrow> held set \<Rightarrow> held set" where
  "x_down (KEY_PRESS, k, _) S = insert (HeldKey k) S"
| "x_down (KEY_RELEASE, k, _) S = S - {HeldKey k}"
| "x_down (BUTTON_PRESS, b, _) S = insert (HeldButton b) S"
| "x_down (BUTTON_RELEASE, b, _) S = S - {HeldButton b}"
| "x_down (MOTION_NOTIFY, _) S = S"

definition x11_held :: "x11 \<Rightarrow> held set" where
  "x11_held s = fold x_down (x_log s) {}"

section \<open>macOS\<close>

datatype mac_event =
    MacMove string f64 f64
  | MacButton string bool f64 f64
  | MacScroll int int
  | MacKey nat bool "string list"

record mac =
  m_width :: f64
  m_height :: f64
  m_left_down :: bool
  m_right_down :: bool
  m_other_down :: bool
  m_log :: "mac_event list"
  m_made :: nat
  m_fail :: "nat \<Rightarrow> bool"

definition mac_new :: "f64 \<Rightarrow> f64 \<Rightarrow> (nat \<Rightarrow> bool) \<Rightarrow> mac" where
  "mac_new w h fail = \<lparr> m_width = w, m_height = h, m_left_down = False, m_right_down = False,
     m_other_down = False, m_log = [], m_made = 0, m_fail = fail \<rparr>"

definition cg_flags :: "u32 \<Rightarrow> string list" where
  "cg_flags m =
    (if m AND mod_SHIFT \<noteq> 0 then [''Shift''] else [])
    @ (if m AND mod_CONTROL \<noteq> 0 then [''Control''] else [])
    @ (if m AND mod_ALT \<noteq> 0 then [''Alternate''] else [])
    @ (if m AND mod_META \<noteq> 0 then [''Command''] else [])
    @ (if m AND mod_CAPS_LOCK \<noteq> 0 then [''AlphaShift''] else [])"

text \<open>Making a \<open>CGEvent\<close> may fail, by the oracle; one that was made is posted.\<close>

definition m_post :: "mac_event \<Rightarrow> mac \<Rightarrow> bool \<times> mac" where
  "m_post e s =
    (let s1 = s\<lparr>m_made := Suc (m_made s)\<rparr>
     in if m_fail s (m_made s) then (False, s1) else (True, s1\<lparr>m_log := m_log s @ [e]\<rparr>))"

fun mac_inject :: "input_event \<Rightarrow> mac \<Rightarrow> bool \<times> mac" where
  "mac_inject (MouseMove mx my) s =
    (let kind = (if m_left_down s then ''LeftMouseDragged''
                 else if m_right_down s then ''RightMouseDragged''
                 else if m_other_down s then ''OtherMouseDragged'' else ''MouseMoved'')
     in m_post (MacMove kind (f_mul mx (m_width s)) (f_mul my (m_height s))) s)"
| "mac_inject (MouseButton b pressed bx by') s =
    (let px = f_mul bx (m_width s); py = f_mul by' (m_height s)
     in if b = 2 then m_post (MacButton ''Right'' pressed px py) (s\<lparr>m_right_down := pressed\<rparr>)
        else if b = 3 then m_post (MacButton ''Center'' pressed px py) (s\<lparr>m_other_down := pressed\<rparr>)
        else m_post (MacButton ''Left'' pressed px py) (s\<lparr>m_left_down := pressed\<rparr>))"
| "mac_inject (MouseScroll dx dy) s = m_post (MacScroll (f_to_i32 dy) (f_to_i32 dx)) s"
| "mac_inject (KeyEvent h pressed modifiers) s =
    (case hid_to_macos h of
       None \<Rightarrow> (True, s)
     | Some k \<Rightarrow> m_post (MacKey (unat k) pressed (cg_flags modifiers)) s)"

text \<open>\<open>MacInjector\<close> does not override the trait's default, which does nothing.\<close>

definition mac_release_all :: "mac \<Rightarrow> mac" where
  "mac_release_all s = s"

fun mac_down :: "mac_event \<Rightarrow> held set \<Rightarrow> held set" where
  "mac_down (MacButton b True _ _) S = insert (HeldButton (length b)) S"
| "mac_down (MacButton b False _ _) S = S - {HeldButton (length b)}"
| "mac_down (MacKey k True _) S = insert (HeldKey k) S"
| "mac_down (MacKey k False _) S = S - {HeldKey k}"
| "mac_down _ S = S"

definition mac_held :: "mac \<Rightarrow> held set" where
  "mac_held s = fold mac_down (m_log s) {}"

section \<open>The trait object\<close>

datatype injector = InjUinput uinput | InjX11 x11 | InjMac mac

fun inj_inject :: "input_event \<Rightarrow> injector \<Rightarrow> bool \<times> injector" where
  "inj_inject e (InjUinput s) = (case uinput_inject e s of (ok, s') \<Rightarrow> (ok, InjUinput s'))"
| "inj_inject e (InjX11 s) = (case x11_inject e s of (ok, s') \<Rightarrow> (ok, InjX11 s'))"
| "inj_inject e (InjMac s) = (case mac_inject e s of (ok, s') \<Rightarrow> (ok, InjMac s'))"

fun inj_release_all :: "injector \<Rightarrow> injector" where
  "inj_release_all (InjUinput s) = InjUinput (uinput_release_all s)"
| "inj_release_all (InjX11 s) = InjX11 (x11_release_all s)"
| "inj_release_all (InjMac s) = InjMac (mac_release_all s)"

fun inj_held :: "injector \<Rightarrow> held set" where
  "inj_held (InjUinput s) = HeldKey ` uinput_held s"
| "inj_held (InjX11 s) = x11_held s"
| "inj_held (InjMac s) = mac_held s"

text \<open>The Linux branch of \<open>new_injector\<close>: \<open>want\<close> is \<open>RMD_INPUT\<close>; the results of opening
  either backend are arguments, an error being its message.\<close>

definition new_injector ::
  "string \<Rightarrow> (monitor_rect option \<Rightarrow> string + uinput) \<Rightarrow> (string + x11) \<Rightarrow> monitor_rect option
    \<Rightarrow> monitor_rect option \<Rightarrow> string + injector" where
  "new_injector want uinput_open x11_open env_rect rect =
    (if want = ''xtest'' then
       (case x11_open of Inr x \<Rightarrow> Inr (InjX11 x) | Inl e \<Rightarrow> Inl e)
     else
       let r = (case env_rect of Some r \<Rightarrow> Some r | None \<Rightarrow> rect)
       in case uinput_open r of
            Inr u \<Rightarrow> Inr (InjUinput u)
          | Inl e \<Rightarrow>
              if want = ''uinput'' then Inl e
              else (case x11_open of Inr x \<Rightarrow> Inr (InjX11 x) | Inl _ \<Rightarrow> Inl e))"

section \<open>The contract of an injector\<close>

text \<open>
  What a session relies on: an injector in good order stays so under every operation, and
  \<open>release_all\<close> leaves nothing held down in the system.
\<close>

locale injector_contract =
  fixes inject :: "'e \<Rightarrow> 's \<Rightarrow> bool \<times> 's"
    and release_all :: "'s \<Rightarrow> 's"
    and held :: "'s \<Rightarrow> held set"
    and good :: "'s \<Rightarrow> bool"
  assumes good_inject: "good s \<Longrightarrow> good (snd (inject e s))"
    and good_release: "good s \<Longrightarrow> good (release_all s)"
    and release_clears: "good s \<Longrightarrow> held (release_all s) = {}"
begin

lemma good_run: "good s \<Longrightarrow> good (fold (\<lambda>e s. snd (inject e s)) es s)"
  by (induction es arbitrary: s) (auto intro: good_inject)

lemma run_release: "good s \<Longrightarrow> held (release_all (fold (\<lambda>e s. snd (inject e s)) es s)) = {}"
  by (intro release_clears good_run)

text \<open>Events and releases in any order, None being a release.\<close>

lemma good_mixed_run:
  "good s \<Longrightarrow> good (fold (\<lambda>x s. case x of Some e \<Rightarrow> snd (inject e s) | None \<Rightarrow> release_all s) xs s)"
  by (induction xs arbitrary: s) (auto intro: good_inject good_release split: option.split)

lemma mixed_run_release:
  "good s \<Longrightarrow> held (release_all (fold (\<lambda>x s. case x of Some e \<Rightarrow> snd (inject e s) | None \<Rightarrow> release_all s) xs s)) = {}"
  by (intro release_clears good_mixed_run)

end

section \<open>The Linux backends meet the contract\<close>

text \<open>A uinput device in good order: no \<open>emit\<close> fails, and the codes recorded as pressed are
  exactly those the kernel has down.\<close>

definition uinput_good :: "uinput \<Rightarrow> bool" where
  "uinput_good s \<longleftrightarrow> u_fails s = (\<lambda>_. False) \<and> set (u_pressed s) = uinput_held s"

lemma fold_ev_up [simp]:
  "fold ev_down (map (\<lambda>c. EvKey c False) cs) S = S - set cs"
  by (induction cs arbitrary: S) auto

lemma u_emit_log:
  "u_fails s = (\<lambda>_. False) \<Longrightarrow> u_emit evs s = (True, s\<lparr>u_calls := Suc (u_calls s), u_log := u_log s @ evs\<rparr>)"
  by (simp add: u_emit_def Let_def)

lemma set_press_code: "set (press_code c p xs) = (if p then insert c (set xs) else set xs - {c})"
  by (simp add: press_code_def)

lemma wheel_not_down: "fold ev_down (wheel_events dx dy) S = S"
  by (auto simp: wheel_events_def split: prod.splits)

lemma uinput_good_inject: "uinput_good s \<Longrightarrow> uinput_good (snd (uinput_inject e s))"
proof (cases e)
  case (MouseMove mx my)
  assume "uinput_good s"
  then show ?thesis using MouseMove
    by (auto simp: uinput_good_def u_emit_log uinput_held_def split: option.splits)
next
  case (MouseButton b p mx my)
  assume "uinput_good s"
  then show ?thesis using MouseButton
    by (cases p) (auto simp: uinput_good_def u_emit_log uinput_held_def set_press_code Let_def split_beta)
next
  case (MouseScroll dx dy)
  assume "uinput_good s"
  then show ?thesis using MouseScroll
    by (auto simp: uinput_good_def u_emit_log uinput_held_def wheel_not_down Let_def)
next
  case (KeyEvent h p m)
  assume "uinput_good s"
  then show ?thesis using KeyEvent
    by (cases p) (auto simp: uinput_good_def u_emit_log uinput_held_def set_press_code split: option.splits)
qed

lemma uinput_good_release:
  assumes "uinput_good s"
  shows "uinput_good (uinput_release_all s)" "uinput_held (uinput_release_all s) = {}"
proof -
  show "uinput_held (uinput_release_all s) = {}"
    using assms by (auto simp: uinput_release_all_def uinput_good_def u_emit_log uinput_held_def)
  then show "uinput_good (uinput_release_all s)"
    using assms by (auto simp: uinput_release_all_def uinput_good_def u_emit_log)
qed

interpretation uinp: injector_contract uinput_inject uinput_release_all "\<lambda>s. HeldKey ` uinput_held s" uinput_good
  by unfold_locales (simp_all add: uinput_good_inject uinput_good_release)

definition x11_good :: "x11 \<Rightarrow> bool" where
  "x11_good s \<longleftrightarrow> x_fails s = (\<lambda>_. False)
     \<and> x11_held s = HeldKey ` set (x_pressed_keys s) \<union> HeldButton ` set (x_pressed_buttons s)
     \<and> set (x_pressed_buttons s) \<subseteq> {1, 2, 3}"

lemma fake_log:
  "x_fails s = (\<lambda>_. False) \<Longrightarrow>
    fake ty d x y s = (True, s\<lparr>x_calls := Suc (x_calls s), x_log := x_log s @ [(ty, d, x, y)]\<rparr>)"
  by (simp add: fake_def Let_def)

lemma x_click_log:
  assumes "x_fails s = (\<lambda>_. False)"
  shows "x_click b s = (True, s\<lparr>x_calls := Suc (Suc (x_calls s)), x_log := x_log s @ [(BUTTON_PRESS, b, 0, 0), (BUTTON_RELEASE, b, 0, 0)]\<rparr>)"
  using assms by (simp add: x_click_def and_then_def fake_log)

lemma x_button_range: "x_button b \<in> {1, 2, 3}"
  by (simp add: x_button_def)

lemma x11_click_good:
  assumes "x11_good s" "b > 3"
  shows "fst (x_click b s)" "x11_good (snd (x_click b s))"
proof -
  have e: "x_click b s = (True, s\<lparr>x_calls := Suc (Suc (x_calls s)), x_log := x_log s @ [(BUTTON_PRESS, b, 0, 0), (BUTTON_RELEASE, b, 0, 0)]\<rparr>)"
    using x_click_log assms(1) by (auto simp: x11_good_def)
  then show "fst (x_click b s)" by simp
  have "HeldButton b \<notin> x11_held s" using assms by (auto simp: x11_good_def)
  then show "x11_good (snd (x_click b s))"
    using e assms(1) by (auto simp: x11_good_def x11_held_def)
qed

lemma and_then_good:
  assumes "P (snd r)" "\<And>s. P s \<Longrightarrow> P (snd (f s))"
  shows "P (snd (and_then r f))"
  using assms by (simp add: and_then_def)

lemma x11_good_inject: "x11_good s \<Longrightarrow> x11_good (snd (x11_inject e s))"
proof (cases e)
  case (MouseMove mx my)
  assume "x11_good s"
  then show ?thesis using MouseMove by (simp add: x11_good_def fake_log x11_held_def)
next
  case (MouseButton b p mx my)
  assume g: "x11_good s"
  then show ?thesis using MouseButton x_button_range [of b]
    by (cases p) (auto simp: x11_good_def fake_log x11_held_def set_press_code and_then_def)
next
  case (MouseScroll dx dy)
  assume g: "x11_good s"
  have c: "x11_good (snd (if f_lt (Fin 0) v then x_click a s else if f_lt v (Fin 0) then x_click b s else (True, s)))"
    if "x11_good s" "a > 3" "b > 3" for s v a b
    using that x11_click_good(2) by simp
  show ?thesis unfolding MouseScroll x11_inject.simps
    by (rule and_then_good [of x11_good]) (auto simp only: intro!: c g)
next
  case (KeyEvent h p m)
  assume "x11_good s"
  then show ?thesis using KeyEvent
    by (cases p) (auto simp: x11_good_def fake_log x11_held_def set_press_code split: option.splits)
qed

lemma fold_fake_release:
  assumes "x_fails s = (\<lambda>_. False)"
  shows "x_fails (fold (\<lambda>k s. snd (fake ty k 0 0 s)) ks s) = (\<lambda>_. False)
    \<and> x_log (fold (\<lambda>k s. snd (fake ty k 0 0 s)) ks s) = x_log s @ map (\<lambda>k. (ty, k, 0, 0)) ks
    \<and> x_pressed_keys (fold (\<lambda>k s. snd (fake ty k 0 0 s)) ks s) = x_pressed_keys s
    \<and> x_pressed_buttons (fold (\<lambda>k s. snd (fake ty k 0 0 s)) ks s) = x_pressed_buttons s"
  using assms by (induction ks arbitrary: s) (auto simp: fake_log)

lemma fold_x_key_up: "fold x_down (map (\<lambda>k. (KEY_RELEASE, k, 0, 0)) ks) S = S - HeldKey ` set ks"
  by (induction ks arbitrary: S) auto

lemma fold_x_button_up: "fold x_down (map (\<lambda>k. (BUTTON_RELEASE, k, 0, 0)) ks) S = S - HeldButton ` set ks"
  by (induction ks arbitrary: S) auto

lemma x11_good_release:
  assumes "x11_good s"
  shows "x11_good (x11_release_all s)" "x11_held (x11_release_all s) = {}"
proof -
  let ?s0 = "s\<lparr>x_pressed_keys := [], x_pressed_buttons := []\<rparr>"
  let ?s1 = "fold (\<lambda>k s. snd (fake KEY_RELEASE k 0 0 s)) (x_pressed_keys s) ?s0"
  have f0: "x_fails ?s0 = (\<lambda>_. False)" using assms by (simp add: x11_good_def)
  note r1 = fold_fake_release [OF f0, of KEY_RELEASE "x_pressed_keys s"]
  have f1: "x_fails ?s1 = (\<lambda>_. False)" using r1 by blast
  note r2 = fold_fake_release [OF f1, of BUTTON_RELEASE "x_pressed_buttons s"]
  have log: "x_log (x11_release_all s) = x_log s @ map (\<lambda>k. (KEY_RELEASE, k, 0, 0)) (x_pressed_keys s)
      @ map (\<lambda>b. (BUTTON_RELEASE, b, 0, 0)) (x_pressed_buttons s)"
    using r1 r2 by (simp add: x11_release_all_def)
  show h: "x11_held (x11_release_all s) = {}"
    unfolding x11_held_def log using assms
    by (simp add: fold_x_key_up fold_x_button_up x11_good_def x11_held_def) blast
  show "x11_good (x11_release_all s)"
    using r1 r2 h by (simp add: x11_good_def x11_release_all_def)
qed

interpretation x11i: injector_contract x11_inject x11_release_all x11_held x11_good
  by unfold_locales (simp_all add: x11_good_inject x11_good_release)

fun linux_good :: "injector \<Rightarrow> bool" where
  "linux_good (InjUinput s) = uinput_good s"
| "linux_good (InjX11 s) = x11_good s"
| "linux_good (InjMac s) = False"

interpretation linux: injector_contract inj_inject inj_release_all inj_held linux_good
proof
  fix s :: injector and e
  assume g: "linux_good s"
  show "linux_good (snd (inj_inject e s))"
    using g uinp.good_inject x11i.good_inject by (cases s) (auto split: prod.splits; metis snd_conv)+
  show "linux_good (inj_release_all s)" and "inj_held (inj_release_all s) = {}"
    using g uinput_good_release x11_good_release by (cases s; simp)+
qed

section \<open>Properties of the injectors\<close>

lemma linux_good_new: "linux_good (InjUinput (uinput_new rect (\<lambda>_. False)))"
  by (simp add: uinput_good_def uinput_new_def uinput_held_def)

lemma x11_good_new: "linux_good (InjX11 (x11_new w h (\<lambda>_. False)))"
  by (simp add: x11_good_def x11_new_def x11_held_def)

text \<open>C34: A viewer that leaves while holding keys or buttons leaves nothing stuck on a Linux host: for the
  uinput and for the X11 injector, opened and with writes that go through, after any sequence of input
  events and releases (None), \<open>release_all\<close> leaves no key and no button down in the kernel
  or the X server.\<close>

theorem nothing_left_held:
  assumes "i = InjUinput (uinput_new rect (\<lambda>_. False)) \<or> i = InjX11 (x11_new w h (\<lambda>_. False))"
  shows "inj_held (inj_release_all (fold (\<lambda>x s. case x of Some e \<Rightarrow> snd (inj_inject e s) | None \<Rightarrow> inj_release_all s) xs i)) = {}"
proof (rule linux.mixed_run_release)
  show "linux_good i" using assms linux_good_new x11_good_new by blast
qed

lemma nothing_left_held_witness:
  "inj_held (inj_release_all (fold (\<lambda>x s. case x of Some e \<Rightarrow> snd (inj_inject e s) | None \<Rightarrow> inj_release_all s)
     [Some (KeyEvent 0xE1 True 1), Some (MouseButton 1 True (Fin 0) (Fin 0))] (InjUinput (uinput_new None (\<lambda>_. False))))) = {}"
  by (rule nothing_left_held) blast

text \<open>The macOS backend tracks held buttons but keeps the default \<open>release_all\<close>: what was
  held stays held.\<close>

lemma mac_release_keeps_held:
  "inj_held (inj_release_all (snd (inj_inject (KeyEvent 0xE1 True 1) (InjMac (mac_new (Fin 100) (Fin 100) (\<lambda>_. False))))))
    = {HeldKey 56}"
  by code_simp

lemma f_to_i32_unit:
  assumes "0 \<le> r" "r \<le> 1"
  shows "f_to_i32 (f_mul (Fin r) (Fin (of_int ABS_MAX))) = \<lfloor>r * of_int ABS_MAX\<rfloor>"
    and "0 \<le> \<lfloor>r * of_int ABS_MAX\<rfloor>" and "\<lfloor>r * of_int ABS_MAX\<rfloor> \<le> ABS_MAX"
proof -
  have "0 \<le> r * 65535" "r * 65535 \<le> 1 * 65535"
    using assms by (auto intro: mult_right_mono)
  then show b: "0 \<le> \<lfloor>r * of_int ABS_MAX\<rfloor>" "\<lfloor>r * of_int ABS_MAX\<rfloor> \<le> ABS_MAX"
    by (simp_all add: ABS_MAX_def floor_le_iff)
  then show "f_to_i32 (f_mul (Fin r) (Fin (of_int ABS_MAX))) = \<lfloor>r * of_int ABS_MAX\<rfloor>"
    using \<open>0 \<le> r * 65535\<close>
    by (simp add: f_to_i32_def rat_trunc_def ABS_MAX_def)
qed

text \<open>The captured output lies inside the desktop, with finite numbers.\<close>

definition rect_ok :: "monitor_rect \<Rightarrow> rat \<Rightarrow> rat \<Rightarrow> rat \<Rightarrow> rat \<Rightarrow> rat \<Rightarrow> rat \<Rightarrow> bool" where
  "rect_ok r ox oy mw mh dw dh \<longleftrightarrow>
     r = \<lparr> mr_ox = Fin ox, mr_oy = Fin oy, mr_mw = Fin mw, mr_mh = Fin mh, mr_dw = Fin dw, mr_dh = Fin dh \<rparr>
     \<and> 0 \<le> ox \<and> 0 \<le> oy \<and> 0 < mw \<and> 0 < mh \<and> ox + mw \<le> dw \<and> oy + mh \<le> dh"

lemma axis_in_monitor:
  assumes "0 \<le> o1" "0 < m" "o1 + m \<le> d" "0 \<le> p" "p \<le> (1 :: rat)"
  shows "\<exists>q. f_div (f_add (Fin o1) (f_mul (Fin p) (Fin m))) (Fin d) = Fin q
    \<and> o1 / d \<le> q \<and> q \<le> (o1 + m) / d \<and> 0 \<le> q \<and> q \<le> 1"
proof -
  have d: "0 < d" using assms by simp
  have "0 \<le> p * m" "p * m \<le> 1 * m" using assms by (auto intro: mult_right_mono)
  then have pd: "0 \<le> o1 + p * m" "o1 + p * m \<le> d" using assms(1,3) by linarith+
  have "o1 / d \<le> (o1 + p * m) / d" "(o1 + p * m) / d \<le> (o1 + m) / d"
    using d \<open>0 \<le> p * m\<close> \<open>p * m \<le> 1 * m\<close> by (auto intro!: divide_right_mono)
  moreover have "0 \<le> (o1 + p * m) / d" "(o1 + p * m) / d \<le> 1" using d pd by auto
  ultimately show ?thesis using d by auto
qed

text \<open>On a multi-monitor host the pointer cannot leave the captured output: whatever
  finite coordinates the viewer sends, in range or not, the absolute axis values lie
  between the output's edges as fractions of the desktop, within 0 to 65535.\<close>

theorem pointer_in_monitor:
  assumes r: "u_rect s = Some r" "rect_ok r ox oy mw mh dw dh"
    and m: "u_map s mx my = Some (x, y)"
  shows "\<lfloor>ox / dw * of_int ABS_MAX\<rfloor> \<le> x \<and> x \<le> \<lfloor>(ox + mw) / dw * of_int ABS_MAX\<rfloor>
    \<and> \<lfloor>oy / dh * of_int ABS_MAX\<rfloor> \<le> y \<and> y \<le> \<lfloor>(oy + mh) / dh * of_int ABS_MAX\<rfloor>
    \<and> 0 \<le> x \<and> x \<le> ABS_MAX \<and> 0 \<le> y \<and> y \<le> ABS_MAX"
proof -
  have fin: "mx \<noteq> NaN" "my \<noteq> NaN" using m by (auto simp: u_map_def is_finite_def split: if_splits)
  obtain p where p: "f_clamp mx (Fin 0) (Fin 1) = Fin p" "0 \<le> p" "p \<le> 1"
    using f_clamp_Fin [of 0 1 mx] fin by auto
  obtain q where q: "f_clamp my (Fin 0) (Fin 1) = Fin q" "0 \<le> q" "q \<le> 1"
    using f_clamp_Fin [of 0 1 my] fin by auto
  note ok = r(2) [unfolded rect_ok_def]
  obtain a where a: "f_div (f_add (Fin ox) (f_mul (Fin p) (Fin mw))) (Fin dw) = Fin a"
      "ox / dw \<le> a" "a \<le> (ox + mw) / dw" "0 \<le> a" "a \<le> 1"
    using axis_in_monitor [of ox mw dw p] ok p by blast
  obtain b where b: "f_div (f_add (Fin oy) (f_mul (Fin q) (Fin mh))) (Fin dh) = Fin b"
      "oy / dh \<le> b" "b \<le> (oy + mh) / dh" "0 \<le> b" "b \<le> 1"
    using axis_in_monitor [of oy mh dh q] ok q by blast
  have cl: "f_clamp (Fin a) (Fin 0) (Fin 1) = Fin a" "f_clamp (Fin b) (Fin 0) (Fin 1) = Fin b"
    using a b by (simp_all add: f_clamp_def)
  have "x = f_to_i32 (f_mul (Fin a) (Fin (of_int ABS_MAX)))"
    "y = f_to_i32 (f_mul (Fin b) (Fin (of_int ABS_MAX)))"
    using m r(1) ok p(1) q(1) a(1) b(1) cl
    by (auto simp only: u_map_def Let_def option.case prod.case monitor_rect.simps split: if_splits)
  then have xy: "x = \<lfloor>a * of_int ABS_MAX\<rfloor>" "y = \<lfloor>b * of_int ABS_MAX\<rfloor>"
    using f_to_i32_unit(1) a b by auto
  have mono: "u \<le> v \<Longrightarrow> \<lfloor>u * of_int ABS_MAX\<rfloor> \<le> \<lfloor>v * of_int ABS_MAX\<rfloor>" for u v :: rat
    by (intro floor_mono mult_right_mono) (auto simp: ABS_MAX_def)
  show ?thesis unfolding xy
    using mono [OF a(2)] mono [OF a(3)] mono [OF b(2)] mono [OF b(3)]
      f_to_i32_unit(2,3) [OF a(4,5)] f_to_i32_unit(2,3) [OF b(4,5)] by blast
qed

definition demo_rect :: monitor_rect where
  "demo_rect = \<lparr> mr_ox = Fin 100, mr_oy = Fin 0, mr_mw = Fin 100, mr_mh = Fin 100,
     mr_dw = Fin 200, mr_dh = Fin 100 \<rparr>"

lemma pointer_in_monitor_witness:
  "\<exists>x y. u_map (uinput_new (Some demo_rect) (\<lambda>_. False)) (Fin 5) (Fin (-1)) = Some (x, y)
    \<and> \<lfloor>(100 / 200 :: rat) * of_int ABS_MAX\<rfloor> \<le> x \<and> x \<le> ABS_MAX \<and> 0 \<le> y"
proof -
  obtain x y where m: "u_map (uinput_new (Some demo_rect) (\<lambda>_. False)) (Fin 5) (Fin (-1)) = Some (x, y)"
    by (simp add: u_map_def is_finite_def Let_def split_beta)
  have "rect_ok demo_rect 100 0 100 100 200 100" by (simp add: rect_ok_def demo_rect_def)
  from pointer_in_monitor [OF _ this m] m show ?thesis by (auto simp: uinput_new_def)
qed

end
