(* ===== verification/Settings.thy ===== *)
theory Settings
  imports Identity
begin

text \<open>
  The encrypted settings store (\<open>crates/session/src/settings.rs\<close>): the map, its sealed
  file format, loading, saving under the advisory lock, and the resolution of the state
  directory.  \<open>serde_json\<close>'s rendering of the map is a parameter pair
  \<open>to_json\<close>/\<open>of_json\<close>.
\<close>

definition MAGIC :: bytes where "MAGIC = str_bytes ''RSS1''"
definition NONCE_LEN :: nat where "NONCE_LEN = 24"
definition SETTINGS_INFO :: bytes where "SETTINGS_INFO = str_bytes ''rmd-settings-v1''"

type_synonym settings = "string \<Rightarrow> string option"

definition KEY_TOKEN :: string where "KEY_TOKEN = ''token''"
definition KEY_PASSWORD :: string where "KEY_PASSWORD = ''password''"
definition KEY_SCREENCAST_RESTORE_TOKEN :: string where
  "KEY_SCREENCAST_RESTORE_TOKEN = ''screencast_restore_token''"

definition st_get :: "string \<Rightarrow> settings \<Rightarrow> string option" where "st_get k m = m k"

definition st_set :: "string \<Rightarrow> string \<Rightarrow> settings \<Rightarrow> settings" where "st_set k v m = m(k \<mapsto> v)"

definition st_remove :: "string \<Rightarrow> settings \<Rightarrow> bool \<times> settings" where
  "st_remove k m = (m k \<noteq> None, m(k := None))"

record json =
  to_json :: "settings \<Rightarrow> bytes"
  of_json :: "bytes \<Rightarrow> settings option"

definition encrypt ::
  "crypto \<Rightarrow> json \<Rightarrow> identity \<Rightarrow> settings \<Rightarrow> id_env \<Rightarrow> (id_error + bytes) \<times> id_env" where
  "encrypt cx js i m e =
    (let key = derive_subkey cx i SETTINGS_INFO
     in case getrandom NONCE_LEN e of
          (None, e1) \<Rightarrow> (Inl RandomFailed, e1)
        | (Some nonce, e1) \<Rightarrow>
            (case cx_seal cx key nonce (to_json js m) of
               None \<Rightarrow> (Inl SealFailed, e1)
             | Some ct \<Rightarrow> (Inr (MAGIC @ nonce @ ct), e1)))"

definition decrypt :: "crypto \<Rightarrow> json \<Rightarrow> identity \<Rightarrow> bytes \<Rightarrow> id_error + settings" where
  "decrypt cx js i blob =
    (let header = 4 + NONCE_LEN
     in if \<not> (length blob > header \<and> take 4 blob = MAGIC) then Inl NotWrapped
        else
          let nonce = take NONCE_LEN (drop 4 blob);
              ct = drop header blob;
              key = derive_subkey cx i SETTINGS_INFO
          in case cx_open cx key nonce ct of
               None \<Rightarrow> Inl WrongPassphrase
             | Some pt \<Rightarrow> (case of_json js pt of None \<Rightarrow> Inl BadPlaintext | Some m \<Rightarrow> Inr m))"

definition st_load :: "crypto \<Rightarrow> json \<Rightarrow> identity \<Rightarrow> string \<Rightarrow> id_env \<Rightarrow> (id_error + settings) \<times> id_env" where
  "st_load cx js i path e =
    (case d_slurp path (ie_disk e) of
       (Inl NotFound, d) \<Rightarrow> (Inr (\<lambda>_. None), e\<lparr>ie_disk := d\<rparr>)
     | (Inl OtherIo, d) \<Rightarrow> (Inl Io, e\<lparr>ie_disk := d\<rparr>)
     | (Inr blob, d) \<Rightarrow> (decrypt cx js i blob, e\<lparr>ie_disk := d\<rparr>))"

definition st_save ::
  "crypto \<Rightarrow> json \<Rightarrow> identity \<Rightarrow> settings \<Rightarrow> string \<Rightarrow> id_env \<Rightarrow> (id_error + unit) \<times> id_env" where
  "st_save cx js i m path e =
    (case encrypt cx js i m e of
       (Inl err, e1) \<Rightarrow> (Inl err, e1)
     | (Inr blob, e1) \<Rightarrow>
         (case write_secret path blob e1 of (ok, e2) \<Rightarrow> (if ok then Inr () else Inl Io, e2)))"

text \<open>\<open>lock\<close>: creates the lock file; None when that fails, otherwise the lock is held.\<close>

definition st_lock :: "string \<Rightarrow> id_env \<Rightarrow> bool \<times> id_env" where
  "st_lock path e =
    (let (mk, d1) = d_create_dir (ie_disk e)
     in if \<not> mk then (False, e\<lparr>ie_disk := d1\<rparr>)
        else
          let (r, d2) = d_open_create (with_extension path ''lock'') d1
          in case r of
               None \<Rightarrow> (False, e\<lparr>ie_disk := d2\<rparr>)
             | Some _ \<Rightarrow> (\<not> failing d2, e\<lparr>ie_disk := tick d2\<rparr>))"

text \<open>Load-modify-save under the lock, as its callers do.\<close>

definition st_update ::
  "crypto \<Rightarrow> json \<Rightarrow> identity \<Rightarrow> string \<Rightarrow> (settings \<Rightarrow> settings) \<Rightarrow> id_env \<Rightarrow> (id_error + unit) \<times> id_env" where
  "st_update cx js i path f e =
    (case st_lock path e of
       (False, e1) \<Rightarrow> (Inl Io, e1)
     | (True, e1) \<Rightarrow>
         (case st_load cx js i path e1 of
            (Inl err, e2) \<Rightarrow> (Inl err, e2)
          | (Inr m, e2) \<Rightarrow> st_save cx js i (f m) path e2))"

definition config_dir :: "string option \<Rightarrow> string option \<Rightarrow> string option \<Rightarrow> string" where
  "config_dir state_dir xdg home =
    (case state_dir of
       Some s \<Rightarrow>
         if s \<noteq> [] then s
         else (case xdg of
                 Some x \<Rightarrow> if x \<noteq> [] then x @ ''/rmd''
                           else (case home of Some h \<Rightarrow> h | None \<Rightarrow> ''.'') @ ''/.config/rmd''
               | None \<Rightarrow> (case home of Some h \<Rightarrow> h | None \<Rightarrow> ''.'') @ ''/.config/rmd'')
     | None \<Rightarrow>
         (case xdg of
            Some x \<Rightarrow> if x \<noteq> [] then x @ ''/rmd''
                      else (case home of Some h \<Rightarrow> h | None \<Rightarrow> ''.'') @ ''/.config/rmd''
          | None \<Rightarrow> (case home of Some h \<Rightarrow> h | None \<Rightarrow> ''.'') @ ''/.config/rmd''))"

section \<open>Round trip\<close>

text \<open>The \<open>serde_json\<close> rendering of a given map parses back.\<close>

definition json_ok :: "json \<Rightarrow> settings \<Rightarrow> bool" where
  "json_ok js m \<longleftrightarrow> of_json js (to_json js m) = Some m"

lemma blob_layout:
  assumes "length nonce = 24"
  shows "take 4 (MAGIC @ nonce @ ct) = MAGIC" "take NONCE_LEN (drop 4 (MAGIC @ nonce @ ct)) = nonce"
    "drop (4 + NONCE_LEN) (MAGIC @ nonce @ ct) = ct" "length (MAGIC @ nonce @ ct) = 28 + length ct"
proof -
  have m: "length MAGIC = 4" by (simp add: MAGIC_def)
  show "take 4 (MAGIC @ nonce @ ct) = MAGIC" "take NONCE_LEN (drop 4 (MAGIC @ nonce @ ct)) = nonce"
    "drop (4 + NONCE_LEN) (MAGIC @ nonce @ ct) = ct" "length (MAGIC @ nonce @ ct) = 28 + length ct"
    using assms m by (simp_all add: NONCE_LEN_def)
qed

lemma encrypt_decrypt:
  assumes "crypto_ok cx" "seals cx" "json_ok js m" "rand_ok e"
  shows "\<exists>blob. encrypt cx js i m e = (Inr blob, e\<lparr>ie_draws := Suc (ie_draws e)\<rparr>)
    \<and> decrypt cx js i blob = Inr m \<and> length blob = 44 + length (to_json js m)"
proof -
  let ?key = "derive_subkey cx i SETTINGS_INFO"
  obtain nonce where n: "getrandom NONCE_LEN e = (Some nonce, e\<lparr>ie_draws := Suc (ie_draws e)\<rparr>)" "length nonce = 24"
    using getrandom_ok [OF assms(4), of NONCE_LEN] by (metis NONCE_LEN_def)
  obtain ct where c: "cx_seal cx ?key nonce (to_json js m) = Some ct"
    using assms(2) by (fastforce simp: seals_def)
  have o: "cx_open cx ?key nonce ct = Some (to_json js m)" "length ct = length (to_json js m) + 16"
    using crypto_okD(6,7) [OF assms(1) c] by auto
  note l = blob_layout [OF n(2), of ct]
  have "decrypt cx js i (MAGIC @ nonce @ ct) = Inr m"
    unfolding decrypt_def Let_def l using o assms(3) by (simp add: NONCE_LEN_def json_ok_def)
  then show ?thesis using n c l(4) o(2) by (simp add: encrypt_def)
qed

lemma decrypt_sealed:
  "decrypt cx js i blob = Inr m \<Longrightarrow>
    \<exists>pt. cx_open cx (derive_subkey cx i SETTINGS_INFO) (take NONCE_LEN (drop 4 blob)) (drop (4 + NONCE_LEN) blob) = Some pt"
  by (auto simp: decrypt_def Let_def split: if_splits option.splits)

lemma st_save_blob:
  assumes "crypto_ok cx" "seals cx" "json_ok js m" "env_ok path e" "paths_ok path"
    "length (to_json js m) + 44 \<le> MAX_OFF"
  shows "\<exists>e' blob. st_save cx js i m path e = (Inr (), e') \<and> env_ok path e'
    \<and> (\<forall>j. fst (st_load cx js j path e') = decrypt cx js j blob)
    \<and> decrypt cx js i blob = Inr m"
proof -
  let ?e1 = "e\<lparr>ie_draws := Suc (ie_draws e)\<rparr>"
  obtain blob where b: "encrypt cx js i m e = (Inr blob, ?e1)" "decrypt cx js i blob = Inr m"
      "length blob \<le> MAX_OFF"
    using encrypt_decrypt [OF assms(1-3), of e i] assms(4,6) by (auto simp: env_ok_def)
  have e1: "env_ok path ?e1" using assms(4) by (simp add: env_ok_def)
  obtain d where w: "write_secret path blob ?e1 = (True, ?e1\<lparr>ie_disk := d, ie_ctr := Suc (ie_ctr ?e1)\<rparr>)"
    "env_ok path (?e1\<lparr>ie_disk := d, ie_ctr := Suc (ie_ctr ?e1)\<rparr>)" "dview d path = Some blob"
    using write_secret_ok [OF e1 assms(5) b(3)] by auto
  have "d_slurp path d = (Inr blob, tick d)"
    using slurp_exists(2) [OF _ w(3)] w(2) by (simp add: env_ok_def)
  then show ?thesis using b w by (intro exI [of _ blob] exI) (auto simp: st_save_def st_load_def)
qed

lemma decrypt_other_key:
  assumes "decrypt cx js i blob = Inr m"
    and "\<And>n c. cx_open cx (derive_subkey cx i SETTINGS_INFO) n c \<noteq> None \<Longrightarrow>
      cx_open cx (derive_subkey cx j SETTINGS_INFO) n c = None"
  shows "decrypt cx js j blob = Inl WrongPassphrase"
  using decrypt_sealed [OF assms(1)] assms
  by (auto simp: decrypt_def Let_def split: if_splits)

text \<open>Settings round trip: what \<open>save\<close> writes, \<open>load\<close> with the same identity reads back
  exactly, through the sealed file; and loading it under an identity whose key opens nothing
  sealed under the first is an error, never an empty or partial store.\<close>

theorem settings_roundtrip:
  assumes "crypto_ok cx" "seals cx" "json_ok js m" "env_ok path e" "paths_ok path"
    "length (to_json js m) + 44 \<le> MAX_OFF"
    and other: "\<And>n c. cx_open cx (derive_subkey cx i SETTINGS_INFO) n c \<noteq> None \<Longrightarrow>
      cx_open cx (derive_subkey cx j SETTINGS_INFO) n c = None"
  shows "\<exists>e'. st_save cx js i m path e = (Inr (), e') \<and> fst (st_load cx js i path e') = Inr m
    \<and> fst (st_load cx js j path e') = Inl WrongPassphrase"
  using st_save_blob [OF assms(1-6)] decrypt_other_key [OF _ other] by fastforce

definition demo_json :: json where
  "demo_json = \<lparr> to_json = (\<lambda>m. case m ''token'' of None \<Rightarrow> [] | Some v \<Rightarrow> str_bytes v),
     of_json = (\<lambda>b. Some ((\<lambda>_. None)(''token'' \<mapsto> bytes_str b))) \<rparr>"

lemma settings_roundtrip_witness:
  "\<exists>e'. st_save demo_crypto demo_json \<lparr>id_seed = replicate 32 1\<rparr> [''token'' \<mapsto> ''t''] ''/c/identity.key'' demo_env = (Inr (), e')
    \<and> fst (st_load demo_crypto demo_json \<lparr>id_seed = replicate 32 1\<rparr> ''/c/identity.key'' e') = Inr [''token'' \<mapsto> ''t'']
    \<and> fst (st_load demo_crypto demo_json \<lparr>id_seed = replicate 32 2\<rparr> ''/c/identity.key'' e') = Inl WrongPassphrase"
proof (rule settings_roundtrip [OF demo_crypto_ok demo_seals _ demo_env_ok demo_paths])
  show "json_ok demo_json [''token'' \<mapsto> ''t'']"
    by (simp add: json_ok_def demo_json_def)
  show "length (to_json demo_json [''token'' \<mapsto> ''t'']) + 44 \<le> MAX_OFF"
    by (simp add: demo_json_def MAX_OFF_def)
  have k: "fit 16 (derive_subkey demo_crypto \<lparr>id_seed = replicate 32 1\<rparr> SETTINGS_INFO)
      \<noteq> fit 16 (derive_subkey demo_crypto \<lparr>id_seed = replicate 32 2\<rparr> SETTINGS_INFO)"
    by (simp add: derive_subkey_def demo_crypto_def fit_def SETTINGS_INFO_def str_bytes_def)
  show "cx_open demo_crypto (derive_subkey demo_crypto \<lparr>id_seed = replicate 32 2\<rparr> SETTINGS_INFO) n c = None"
    if "cx_open demo_crypto (derive_subkey demo_crypto \<lparr>id_seed = replicate 32 1\<rparr> SETTINGS_INFO) n c \<noteq> None" for n c
    using that k by (auto simp: demo_crypto_def split: if_splits)
qed

section \<open>Load-modify-save\<close>

lemma st_lock_ok:
  assumes "env_ok path e" "paths_ok path"
  shows "\<exists>e1. st_lock path e = (True, e1) \<and> env_ok path e1 \<and> dview (ie_disk e1) path = dview (ie_disk e) path"
proof -
  let ?e = "e\<lparr>ie_disk := tick (ie_disk e)\<rparr>"
  have ok: "env_ok path ?e" by (rule env_ok_tick [OF assms(1)])
  note t = take_lock_ok [OF ok assms(2)]
  have nf: "no_faults (ie_disk e)" using assms(1) by (simp add: env_ok_def)
  obtain r d2 where o: "d_open_create (with_extension path ''lock'') (tick (ie_disk e)) = (Some r, d2)"
    using nf by (fastforce simp: d_open_create_def split: option.split)
  then have tl: "take_lock path ?e = e\<lparr>ie_disk := d2\<rparr>" by (simp add: take_lock_def)
  have "no_faults d2" using t(1) by (simp add: tl env_ok_def)
  then have "st_lock path e = (True, (take_lock path ?e)\<lparr>ie_disk := tick (ie_disk (take_lock path ?e))\<rparr>)"
    using nf o by (simp add: st_lock_def d_create_dir_def tl)
  moreover have "dview (ie_disk (take_lock path ?e)) path = dview (ie_disk e) path"
    using t(2) [of path] assms(2) unfolding paths_ok_def by auto
  ultimately show ?thesis using env_ok_tick [OF t(1)] by simp
qed

lemma st_load_view:
  assumes "env_ok path e"
  shows "st_load cx js i path e =
    (case dview (ie_disk e) path of None \<Rightarrow> Inr (\<lambda>_. None) | Some b \<Rightarrow> decrypt cx js i b, e\<lparr>ie_disk := tick (ie_disk e)\<rparr>)"
  using assms by (simp add: st_load_def env_ok_def d_slurp_view split: option.split)

lemma lock_then_load:
  assumes "env_ok path e" "paths_ok path"
  obtains e1 e2 where "st_lock path e = (True, e1)" "st_load cx js i path e1 = (fst (st_load cx js i path e), e2)"
    "env_ok path e1" "env_ok path e2"
    "dview (ie_disk e1) path = dview (ie_disk e) path" "dview (ie_disk e2) path = dview (ie_disk e) path"
proof -
  obtain e1 where e1: "st_lock path e = (True, e1)" "env_ok path e1" "dview (ie_disk e1) path = dview (ie_disk e) path"
    using st_lock_ok [OF assms] by blast
  show ?thesis
    by (rule that [OF e1(1) _ e1(2) env_ok_tick [OF e1(2)] e1(3)])
      (simp_all add: st_load_view [OF e1(2)] st_load_view [OF assms(1)] e1(3))
qed

end
