(* ===== verification/VideoPlane.thy ===== *)
theory VideoPlane
  imports Protocol Codec InputModel Settings
begin

text \<open>
  The video source of a host session: the trait \<open>VideoPlane\<close> and its in-process
  implementation (\<open>crates/session/src/host.rs\<close>: \<open>LocalVideoPlane\<close>,
  \<open>CaptureController\<close>), and the choice of the capture backend
  (\<open>crates/capture/src/lib.rs\<close>).  Starting a capture session and reading its
  portal token are the operating system's; an oracle numbered by the call decides them.
\<close>

section \<open>Backend choice\<close>

datatype session_kind = X11 | GnomeWayland | OtherWayland

text \<open>The environment: \<open>RMD_FORCE_X11\<close>, whether \<open>WAYLAND_DISPLAY\<close> is set,
  \<open>RMD_WAYLAND_BACKEND\<close> and \<open>XDG_CURRENT_DESKTOP\<close>.\<close>

definition pick_session_kind :: "string option \<Rightarrow> bool \<Rightarrow> string option \<Rightarrow> string option \<Rightarrow> session_kind" where
  "pick_session_kind force_x11 wayland backend desktop =
    (if force_x11 = Some ''1'' then X11
     else if \<not> wayland then X11
     else if backend = Some ''portal'' then OtherWayland
     else if backend = Some ''mutter'' then GnomeWayland
     else if (\<exists>d\<in>set (split_on CHR '':'' (case desktop of None \<Rightarrow> [] | Some d \<Rightarrow> d)).
                map ascii_lower d = ''gnome'')
     then GnomeWayland else OtherWayland)"

section \<open>The encode size\<close>

definition even_dim :: "f64 \<Rightarrow> nat" where
  "even_dim v = 2 * (max (f_to_u32 (f_round v)) 2 div 2)"

definition fit_display_aspect :: "u32 \<Rightarrow> u32 \<Rightarrow> u32 \<Rightarrow> u32 \<Rightarrow> nat \<times> nat" where
  "fit_display_aspect disp_w disp_h cap_w cap_h =
    (if disp_w = 0 \<or> disp_h = 0 \<or> cap_w = 0 \<or> cap_h = 0
     then (max (unat cap_w) 2, max (unat cap_h) 2)
     else
       let f = (\<lambda>w :: u32. Fin (of_nat (unat w)));
           scale = f_min (f_div (f cap_w) (f disp_w)) (f_div (f cap_h) (f disp_h))
       in (even_dim (f_mul (f disp_w) scale), even_dim (f_mul (f disp_h) scale)))"

section \<open>The capture controller\<close>

record display_info =
  di_index :: nat
  di_width :: u32
  di_height :: u32

record capture_config =
  cc_width :: nat
  cc_height :: nat
  cc_fps :: u32
  cc_show_cursor :: bool
  cc_restore_token :: "string option"

record cap_os =
  os_start :: "nat \<Rightarrow> bool"
  os_token :: "nat \<Rightarrow> string option"
  os_crypto :: crypto
  os_json :: json
  os_path :: string

record capture_ctl =
  cap_config :: capture_config
  cap_displays :: "display_info list"
  cap_current :: nat
  cap_handle :: "(capture_config \<times> nat) option"
  cap_force :: bool
  cap_identity :: "identity option"
  cap_env :: id_env
  cap_calls :: nat
  cap_tokens :: nat

definition ctl_start :: "capture_config \<Rightarrow> nat \<Rightarrow> display_info list option \<Rightarrow> identity option \<Rightarrow> id_env \<Rightarrow> capture_ctl" where
  "ctl_start cfg display displays ident env =
    \<lparr> cap_config = cfg, cap_displays = (case displays of None \<Rightarrow> [] | Some ds \<Rightarrow> ds),
      cap_current = display, cap_handle = None, cap_force = True, cap_identity = ident,
      cap_env = env, cap_calls = 0, cap_tokens = 0 \<rparr>"

definition fitted_config :: "capture_ctl \<Rightarrow> capture_config" where
  "fitted_config c =
    (if cap_current c < length (cap_displays c) then
       let d = cap_displays c ! cap_current c;
           (w, h) = fit_display_aspect (di_width d) (di_height d)
             (word_of_nat (cc_width (cap_config c))) (word_of_nat (cc_height (cap_config c)))
       in (cap_config c)\<lparr>cc_width := w, cc_height := h\<rparr>
     else cap_config c)"

definition absorb_restore_token :: "cap_os \<Rightarrow> string option \<Rightarrow> capture_ctl \<Rightarrow> capture_ctl" where
  "absorb_restore_token os token c =
    (case token of
       None \<Rightarrow> c
     | Some t \<Rightarrow>
         if cc_restore_token (cap_config c) = Some t then c
         else
           let c1 = c\<lparr>cap_config := (cap_config c)\<lparr>cc_restore_token := Some t\<rparr>\<rparr>
           in (case cap_identity c1 of
                 None \<Rightarrow> c1
               | Some i \<Rightarrow>
                   (case st_lock (os_path os) (cap_env c1) of
                      (False, e1) \<Rightarrow> c1\<lparr>cap_env := e1\<rparr>
                    | (True, e1) \<Rightarrow>
                        (case st_load (os_crypto os) (os_json os) i (os_path os) e1 of
                           (Inl err, e2) \<Rightarrow> c1\<lparr>cap_env := e2\<rparr>
                         | (Inr m, e2) \<Rightarrow>
                             c1\<lparr>cap_env := snd (st_save (os_crypto os) (os_json os) i
                                (st_set KEY_SCREENCAST_RESTORE_TOKEN t m) (os_path os) e2)\<rparr>))))"

text \<open>The common part of \<open>resume\<close>, \<open>select\<close> and \<open>set_show_cursor\<close>: start a session
  on the current display; on success it replaces the old one, whose drop stops it.\<close>

definition restart_capture :: "cap_os \<Rightarrow> capture_ctl \<Rightarrow> capture_ctl" where
  "restart_capture os c =
    (if os_start os (cap_calls c) then
       (absorb_restore_token os (os_token os (cap_tokens c))
          (c\<lparr>cap_calls := Suc (cap_calls c), cap_tokens := Suc (cap_tokens c),
             cap_handle := Some (fitted_config c, cap_current c)\<rparr>))\<lparr>cap_force := True\<rparr>
     else c\<lparr>cap_calls := Suc (cap_calls c)\<rparr>)"

definition is_capturing :: "capture_ctl \<Rightarrow> bool" where
  "is_capturing c \<longleftrightarrow> cap_handle c \<noteq> None"

definition resume :: "cap_os \<Rightarrow> capture_ctl \<Rightarrow> capture_ctl" where
  "resume os c = (if is_capturing c then c else restart_capture os c)"

definition pause :: "cap_os \<Rightarrow> capture_ctl \<Rightarrow> capture_ctl" where
  "pause os c =
    (if is_capturing c then
       absorb_restore_token os (os_token os (cap_tokens c))
         (c\<lparr>cap_handle := None, cap_tokens := Suc (cap_tokens c)\<rparr>)
     else c)"

definition display_name :: "nat \<Rightarrow> string" where
  "display_name i = ''Display '' @ show_nat (i + 1)"

definition descriptors :: "capture_ctl \<Rightarrow> display_descriptor list" where
  "descriptors c = map (\<lambda>d. \<lparr> d_id = word_of_nat (di_index d), d_width = di_width d, d_height = di_height d,
     d_name = display_name (di_index d), d_primary = (di_index d = 0) \<rparr>) (cap_displays c)"

definition set_show_cursor :: "cap_os \<Rightarrow> bool \<Rightarrow> capture_ctl \<Rightarrow> capture_ctl" where
  "set_show_cursor os b c =
    (if cc_show_cursor (cap_config c) = b then c
     else
       let c1 = c\<lparr>cap_config := (cap_config c)\<lparr>cc_show_cursor := b\<rparr>\<rparr>
       in if is_capturing c1 then restart_capture os c1 else c1)"

definition select :: "cap_os \<Rightarrow> u32 \<Rightarrow> capture_ctl \<Rightarrow> capture_ctl" where
  "select os i c =
    (let idx = unat i
     in if idx = cap_current c then c
        else if idx \<ge> max (length (cap_displays c)) 1 then c
        else
          let c1 = c\<lparr>cap_current := idx\<rparr>
          in if is_capturing c1 then restart_capture os c1 else c1)"

section \<open>The trait\<close>

record 'v vplane =
  vp_descriptors :: "'v \<Rightarrow> display_descriptor list"
  vp_resume :: "'v \<Rightarrow> 'v"
  vp_pause :: "'v \<Rightarrow> 'v"
  vp_select :: "u32 \<Rightarrow> 'v \<Rightarrow> 'v"
  vp_set_show_cursor :: "bool \<Rightarrow> 'v \<Rightarrow> 'v"
  vp_request_keyframe :: "'v \<Rightarrow> 'v"
  vp_monitor_rect :: "'v \<Rightarrow> monitor_rect option"
  vp_poll_geometry :: "'v \<Rightarrow> monitor_rect option option \<times> 'v"

text \<open>The in-process plane; \<open>rect\<close> is what \<open>capture::primary_monitor_rect\<close> reports.\<close>

definition local_plane :: "cap_os \<Rightarrow> monitor_rect option \<Rightarrow> capture_ctl vplane" where
  "local_plane os rect = \<lparr> vp_descriptors = descriptors, vp_resume = resume os, vp_pause = pause os,
     vp_select = select os, vp_set_show_cursor = set_show_cursor os,
     vp_request_keyframe = (\<lambda>c. c\<lparr>cap_force := True\<rparr>), vp_monitor_rect = (\<lambda>_. rect),
     vp_poll_geometry = (\<lambda>c. (None, c)) \<rparr>"

text \<open>What the session core relies on, whatever the plane: pausing stops the capture, and
  nothing but \<open>resume\<close> can start it.\<close>

locale video_plane =
  fixes ops :: "'v vplane" and capturing :: "'v \<Rightarrow> bool"
  assumes pause_stops: "\<not> capturing (vp_pause ops v)"
    and select_keeps: "capturing (vp_select ops i v) = capturing v"
    and cursor_keeps: "capturing (vp_set_show_cursor ops b v) = capturing v"
    and keyframe_keeps: "capturing (vp_request_keyframe ops v) = capturing v"
    and poll_keeps: "capturing (snd (vp_poll_geometry ops v)) = capturing v"
begin

lemmas control_keeps = select_keeps cursor_keeps keyframe_keeps poll_keeps

end

lemma absorb_handle [simp]: "cap_handle (absorb_restore_token os t c) = cap_handle c"
  by (simp add: absorb_restore_token_def Let_def split: option.split prod.split sum.split bool.split)

lemma restart_handle: "is_capturing c \<Longrightarrow> is_capturing (restart_capture os c)"
  by (simp add: restart_capture_def is_capturing_def)

lemma is_capturing_upd [simp]:
  "is_capturing (c\<lparr>cap_force := b\<rparr>) = is_capturing c" "is_capturing (c\<lparr>cap_config := f\<rparr>) = is_capturing c"
  "is_capturing (c\<lparr>cap_current := i\<rparr>) = is_capturing c"
  by (simp_all add: is_capturing_def)

interpretation local: video_plane "local_plane os rect" is_capturing for os rect
proof unfold_locales
  fix c i b
  show "\<not> is_capturing (vp_pause (local_plane os rect) c)"
    by (simp add: local_plane_def pause_def is_capturing_def)
  show "is_capturing (vp_select (local_plane os rect) i c) = is_capturing c"
    using restart_handle by (simp add: local_plane_def select_def Let_def)
  show "is_capturing (vp_set_show_cursor (local_plane os rect) b c) = is_capturing c"
    using restart_handle by (simp add: local_plane_def set_show_cursor_def Let_def)
qed (simp_all add: local_plane_def)

section \<open>Fitting the display\<close>

lemma even_dim_of:
  assumes "x \<le> of_nat n" "0 \<le> x" "n < 2 ^ 32"
  shows "even (even_dim (Fin x))" "2 \<le> even_dim (Fin x)" "even_dim (Fin x) \<le> max n 2"
proof -
  have "\<lfloor>x + 1 / 2\<rfloor> \<le> int n" using assms(1) by linarith
  moreover have "0 \<le> \<lfloor>x + 1 / 2\<rfloor>" using assms(2) by simp
  ultimately have u: "f_to_u32 (f_round (Fin x)) \<le> n"
    using assms(2,3) by (simp add: f_to_u32_def rat_trunc_def)
  define m where "m = max (f_to_u32 (f_round (Fin x))) 2"
  have m: "2 \<le> m" "m \<le> max n 2" using u unfolding m_def by linarith+
  have e: "even_dim (Fin x) = 2 * (m div 2)" by (simp add: even_dim_def m_def)
  show "even (even_dim (Fin x))" "2 \<le> even_dim (Fin x)" "even_dim (Fin x) \<le> max n 2"
    unfolding e using m by simp_all
qed

lemma even_dim_exact: "n < 2 ^ 32 \<Longrightarrow> even_dim (Fin (of_nat n)) = 2 * (max n 2 div 2)"
proof -
  assume n: "n < 2 ^ 32"
  have "\<lfloor>of_nat n + 1 / 2 :: rat\<rfloor> = int n" by linarith
  then have "f_to_u32 (f_round (Fin (of_nat n))) = n" using n by (simp add: f_to_u32_def rat_trunc_def)
  then show ?thesis by (simp add: even_dim_def)
qed

text \<open>The encode size of a display fits the configured box: both sides are even, at least
  two and at most the box's, and one of them fills its side of the box up to evenness, so the
  picture is as large as it can be.\<close>

theorem encode_size_fits:
  assumes "disp_w \<noteq> 0" "disp_h \<noteq> 0" "cap_w \<noteq> 0" "cap_h \<noteq> 0"
    and "fit_display_aspect disp_w disp_h cap_w cap_h = (w, h)"
  shows "even w \<and> even h \<and> 2 \<le> w \<and> 2 \<le> h \<and> w \<le> max (unat cap_w) 2 \<and> h \<le> max (unat cap_h) 2
    \<and> (w = 2 * (max (unat cap_w) 2 div 2) \<or> h = 2 * (max (unat cap_h) 2 div 2))"
proof -
  define dw dh cw ch where d: "dw = (of_nat (unat disp_w) :: rat)" "dh = (of_nat (unat disp_h) :: rat)"
    "cw = (of_nat (unat cap_w) :: rat)" "ch = (of_nat (unat cap_h) :: rat)"
  have pos: "0 < dw" "0 < dh" "0 < cw" "0 < ch"
  proof -
    have "0 < unat x" if "x \<noteq> 0" for x :: u32 using that by (simp add: unat_eq_0 [symmetric] del: unat_eq_0)
    then show "0 < dw" "0 < dh" "0 < cw" "0 < ch" using assms(1-4) by (simp_all only: d of_nat_0_less_iff)
  qed
  define s where "s = (if ch / dh < cw / dw then ch / dh else cw / dw)"
  have wh: "w = even_dim (Fin (dw * s))" "h = even_dim (Fin (dh * s))"
  proof -
    have "f_min (f_div (Fin cw) (Fin dw)) (f_div (Fin ch) (Fin dh)) = Fin s"
      using pos by (simp add: f_min_def s_def)
    then have "fit_display_aspect disp_w disp_h cap_w cap_h = (even_dim (Fin (dw * s)), even_dim (Fin (dh * s)))"
      using assms(1-4) unfolding fit_display_aspect_def Let_def d by simp
    then show "w = even_dim (Fin (dw * s))" "h = even_dim (Fin (dh * s))" using assms(5) by simp_all
  qed
  have s: "0 < s" "dw * s \<le> cw" "dh * s \<le> ch" "dw * s = cw \<or> dh * s = ch"
    using pos by (auto simp: s_def field_simps)
  have n: "unat cap_w < 2 ^ 32" "unat cap_h < 2 ^ 32"
    using unsigned_less [of cap_w] unsigned_less [of cap_h] by simp_all
  have nn: "0 \<le> dw * s" "0 \<le> dh * s" using pos s(1) by simp_all
  note w = even_dim_of [OF s(2) [unfolded d(3)] nn(1) n(1)] and h = even_dim_of [OF s(3) [unfolded d(4)] nn(2) n(2)]
  have "w = 2 * (max (unat cap_w) 2 div 2) \<or> h = 2 * (max (unat cap_h) 2 div 2)"
    using s(4) even_dim_exact [OF n(1)] even_dim_exact [OF n(2)] by (auto simp: wh d)
  then show ?thesis using w h by (simp add: wh)
qed

lemma encode_size_fits_witness:
  "fit_display_aspect 3440 1440 1920 1080 = (1920, 804) \<and> (804 :: nat) \<le> 1080"
proof -
  have f: "fit_display_aspect 3440 1440 1920 1080 = (1920, 804)" by code_simp
  from encode_size_fits [OF _ _ _ _ f] show ?thesis using f by simp
qed

end
