(* ===== verification/Ipc.thy ===== *)
theory Ipc
  imports Rmd_Prelude
begin

text \<open>
  The broker/agent protocol (\<open>crates/ipc/src/lib.rs\<close>): its messages and the
  length-prefixed framing.  \<open>postcard\<close> is a parameter: \<open>pc_ser\<close> encodes a message (None on its
  error), \<open>pc_de\<close> decodes one.
\<close>

definition DEFAULT_SOCKET_PATH :: string where "DEFAULT_SOCKET_PATH = ''/run/rmd/agent.sock''"

definition MAX_FRAME_BYTES :: nat where "MAX_FRAME_BYTES = 64 * 1024 * 1024"

definition socket_path :: "string option \<Rightarrow> string" where
  "socket_path env = (case env of Some p \<Rightarrow> p | None \<Rightarrow> DEFAULT_SOCKET_PATH)"

datatype session_phase = Greeter | User

datatype backend_kind = BkX11 | BkGnomeWayland | BkOtherWayland | BkUnknown

record display_desc =
  dd_id :: u32
  dd_width :: u32
  dd_height :: u32
  dd_name :: string
  dd_primary :: bool

text \<open>The six numbers of a monitor rectangle.\<close>

type_synonym ipc_rect = "f64 \<times> f64 \<times> f64 \<times> f64 \<times> f64 \<times> f64"

datatype agent_msg =
    AgHello session_phase backend_kind u32 "ipc_rect option" "display_desc list"
  | AgVideo bytes bool u64
  | AgDisplays "display_desc list"

datatype broker_msg =
    SetCapturing bool
  | SetBitrate u32
  | ForceKeyframe
  | SelectDisplay u32
  | SetShowCursor bool

record 'm postcard =
  pc_ser :: "'m \<Rightarrow> bytes option"
  pc_de :: "bytes \<Rightarrow> 'm option"

text \<open>The bytes \<open>write_msg\<close> puts on the stream, None when it refuses.\<close>

definition write_msg :: "'m postcard \<Rightarrow> 'm \<Rightarrow> bytes option" where
  "write_msg pc m =
    (case pc_ser pc m of
       None \<Rightarrow> None
     | Some buf \<Rightarrow>
         if length buf \<ge> 2 ^ 32 then None
         else if length buf > MAX_FRAME_BYTES then None
         else Some (le_bytes 4 (length buf) @ buf))"

datatype read_error = Eof | TooLarge | BadFrame

text \<open>\<open>read_exact\<close> on the bytes that will ever arrive; what is left is the stream after the
  read, consumed even when the read fails.\<close>

definition read_msg :: "'m postcard \<Rightarrow> bytes \<Rightarrow> (read_error + 'm) \<times> bytes" where
  "read_msg pc s =
    (if length s < 4 then (Inl Eof, [])
     else
       let len = le_value (take 4 s)
       in if len > MAX_FRAME_BYTES then (Inl TooLarge, drop 4 s)
          else if length s < 4 + len then (Inl Eof, [])
          else
            let buf = take len (drop 4 s); rest = drop (4 + len) s
            in (case pc_de pc buf of None \<Rightarrow> (Inl BadFrame, rest) | Some m \<Rightarrow> (Inr m, rest)))"

lemma read_msg_shorter: "read_msg pc s = (Inr m, rest) \<Longrightarrow> length rest < length s"
  by (auto simp: read_msg_def Let_def split: if_splits option.splits)

text \<open>A reader loop: messages until the first error.\<close>

function read_all :: "'m postcard \<Rightarrow> bytes \<Rightarrow> 'm list \<times> read_error" where
  "read_all pc s =
    (case read_msg pc s of
       (Inl e, rest) \<Rightarrow> ([], e)
     | (Inr m, rest) \<Rightarrow> (case read_all pc rest of (ms, e) \<Rightarrow> (m # ms, e)))"
  by pat_completeness auto
termination by (relation "measure (\<lambda>(pc, s). length s)") (auto dest: read_msg_shorter [OF sym])

declare read_all.simps [simp del]

definition postcard_ok :: "'m postcard \<Rightarrow> 'm set \<Rightarrow> bool" where
  "postcard_ok pc ms \<longleftrightarrow> (\<forall>m\<in>ms. \<forall>b. pc_ser pc m = Some b \<longrightarrow> pc_de pc b = Some m)"

lemma read_written:
  assumes "write_msg pc m = Some bs" "\<And>b. pc_ser pc m = Some b \<Longrightarrow> pc_de pc b = Some m"
  shows "read_msg pc (bs @ rest) = (Inr m, rest)"
proof -
  obtain buf where b: "pc_ser pc m = Some buf" "bs = le_bytes 4 (length buf) @ buf" "length buf \<le> MAX_FRAME_BYTES"
    using assms(1) by (auto simp: write_msg_def split: option.splits if_splits)
  have "le_value (le_bytes 4 (length buf)) = length buf"
    using b(3) by (simp add: le_value_le_bytes MAX_FRAME_BYTES_def)
  then show ?thesis using b assms(2) by (simp add: read_msg_def Let_def)
qed

text \<open>C35: The framing is faithful over a whole connection: the messages written, and only
  they, are read back in order, whatever their sizes and contents, until the end of the
  stream; and a truncated frame at the end is an error, never a message.\<close>

theorem ipc_stream_roundtrip:
  assumes "postcard_ok pc (set ms)" "map (write_msg pc) ms = map Some frames"
    and "tail = [] \<or> (\<exists>m f n. write_msg pc m = Some f \<and> n < length f \<and> tail = take n f)"
  shows "read_all pc (concat frames @ tail) = (ms, Eof)"
  using assms(1,2)
proof (induction ms arbitrary: frames)
  case Nil
  have "fst (read_msg pc tail) = Inl Eof"
    using assms(3)
  proof
    assume "\<exists>m f n. write_msg pc m = Some f \<and> n < length f \<and> tail = take n f"
    then obtain m f n where f: "write_msg pc m = Some f" "n < length f" "tail = take n f" by blast
    then obtain buf where b: "f = le_bytes 4 (length buf) @ buf" "length buf \<le> MAX_FRAME_BYTES"
      by (auto simp: write_msg_def split: option.splits if_splits)
    have v: "le_value (le_bytes 4 (length buf)) = length buf"
      using b(2) by (simp add: le_value_le_bytes MAX_FRAME_BYTES_def)
    show ?thesis
    proof (cases "n < 4")
      case False
      then have "take 4 tail = le_bytes 4 (length buf)" using f b by (simp add: take_append)
      then show ?thesis using f b v by (simp add: read_msg_def Let_def)
    qed (use f b in \<open>simp add: read_msg_def\<close>)
  qed (simp add: read_msg_def)
  then show ?case using Nil by (auto simp: read_all.simps [of pc tail] split: prod.split)
next
  case (Cons m ms)
  obtain f fs where fs: "frames = f # fs" "write_msg pc m = Some f" "map (write_msg pc) ms = map Some fs"
    using Cons.prems(2) by (cases frames) auto
  have "read_msg pc (f @ concat fs @ tail) = (Inr m, concat fs @ tail)"
    using Cons.prems(1) fs(2) by (intro read_written) (auto simp: postcard_ok_def)
  moreover have "read_all pc (concat fs @ tail) = (ms, Eof)"
    using Cons.IH [OF _ fs(3)] Cons.prems(1) by (simp add: postcard_ok_def)
  ultimately show ?case using fs(1) by (subst read_all.simps) simp
qed

definition demo_postcard :: "bytes postcard" where
  "demo_postcard = \<lparr> pc_ser = Some, pc_de = Some \<rparr>"

lemma ipc_stream_roundtrip_witness:
  "read_all demo_postcard ([2, 0, 0, 0, 7, 8] @ [0, 0, 0, 0] @ [1, 0]) = ([[7, 8], []], Eof)"
proof -
  have "map (write_msg demo_postcard) [[7, 8], []] = map Some [[2, 0, 0, 0, 7, 8], [0, 0, 0, 0]]" by code_simp
  moreover have "write_msg demo_postcard [9] = Some [1, 0, 0, 0, 9]" by code_simp
  then have "\<exists>m f n. write_msg demo_postcard m = Some f \<and> n < length f \<and> [1, 0] = take n f"
    by (intro exI [of _ "[9]"] exI [of _ "[1, 0, 0, 0, 9]"] exI [of _ 2]) simp
  ultimately show ?thesis
    using ipc_stream_roundtrip [of demo_postcard "[[7, 8], []]" "[[2, 0, 0, 0, 7, 8], [0, 0, 0, 0]]" "[1, 0]"]
    by (simp add: postcard_ok_def demo_postcard_def)
qed

end
