(* ===== verification/Broker.thy ===== *)
theory Broker
  imports VideoPlane Ipc
begin

text \<open>
  The system-mode broker (\<open>crates/session/src/broker.rs\<close>): a video plane whose frames
  come from per-session agents over a Unix socket.  The plane's methods queue commands; the
  IPC loop takes one input at a time (a connection, an agent's event, a command, the
  bitrate tick), and each connection's task forwards frames on its own, so the steps
  interleave freely.  What has been sent to an agent is the list \<open>br_ctrl\<close> of its control
  channel.
\<close>

section \<open>State\<close>

datatype plane_cmd = PcSetCapturing bool | PcSelect u32 | PcSetShowCursor bool | PcKeyframe

datatype agent_event =
    EvHello nat session_phase backend_kind "monitor_rect option" "display_desc list"
  | EvDisplays nat "display_desc list"
  | EvClosed nat

record broker =
  br_displays :: "display_desc list"
  br_rect :: "monitor_rect option"
  br_gen :: u64
  br_last_gen :: u64
  br_cmds :: "plane_cmd list"
  br_events :: "agent_event list"
  br_active_id :: "nat option"
  br_active :: "nat option"
  br_pending :: "nat set"
  br_capturing :: bool
  br_next_id :: nat
  br_ctrl :: "nat \<Rightarrow> broker_msg list"
  br_video :: "(nat \<times> bytes \<times> bool \<times> u64) list"

definition broker_start :: broker where
  "broker_start = \<lparr> br_displays = [], br_rect = None, br_gen = 0, br_last_gen = 0, br_cmds = [],
     br_events = [], br_active_id = None, br_active = None, br_pending = {}, br_capturing = False,
     br_next_id = 0, br_ctrl = (\<lambda>_. []), br_video = [] \<rparr>"

section \<open>The plane\<close>

definition br_send :: "plane_cmd \<Rightarrow> broker \<Rightarrow> broker" where
  "br_send c b = b\<lparr>br_cmds := br_cmds b @ [c]\<rparr>"

definition br_descriptors :: "broker \<Rightarrow> display_descriptor list" where
  "br_descriptors b = map (\<lambda>d. \<lparr> d_id = dd_id d, d_width = dd_width d, d_height = dd_height d,
     d_name = dd_name d, d_primary = dd_primary d \<rparr>) (br_displays b)"

definition br_poll_geometry :: "broker \<Rightarrow> monitor_rect option option \<times> broker" where
  "br_poll_geometry b =
    (if br_gen b \<noteq> br_last_gen b then (Some (br_rect b), b\<lparr>br_last_gen := br_gen b\<rparr>) else (None, b))"

definition broker_plane :: "broker vplane" where
  "broker_plane = \<lparr> vp_descriptors = br_descriptors, vp_resume = br_send (PcSetCapturing True),
     vp_pause = br_send (PcSetCapturing False), vp_select = (\<lambda>i. br_send (PcSelect i)),
     vp_set_show_cursor = (\<lambda>s. br_send (PcSetShowCursor s)), vp_request_keyframe = br_send PcKeyframe,
     vp_monitor_rect = br_rect, vp_poll_geometry = br_poll_geometry \<rparr>"

text \<open>Whether the session core wants frames: the capture flag once the queue is worked off.\<close>

fun wanted :: "plane_cmd list \<Rightarrow> bool \<Rightarrow> bool" where
  "wanted [] c = c"
| "wanted (PcSetCapturing on # cs) c = wanted cs on"
| "wanted (_ # cs) c = wanted cs c"

definition wants_frames :: "broker \<Rightarrow> bool" where
  "wants_frames b = wanted (br_cmds b) (br_capturing b)"

lemma wanted_append: "wanted (a @ b) c = wanted b (wanted a c)"
  by (induction a c rule: wanted.induct) auto

interpretation brokered: video_plane broker_plane wants_frames
  by unfold_locales
    (simp_all add: broker_plane_def wants_frames_def br_send_def wanted_append br_poll_geometry_def)

section \<open>The IPC loop\<close>

definition tell :: "nat \<Rightarrow> broker_msg \<Rightarrow> broker \<Rightarrow> broker" where
  "tell i m b = b\<lparr>br_ctrl := (br_ctrl b)(i := br_ctrl b i @ [m])\<rparr>"

definition tell_active :: "broker_msg \<Rightarrow> broker \<Rightarrow> broker" where
  "tell_active m b = (case br_active b of None \<Rightarrow> b | Some i \<Rightarrow> tell i m b)"

definition detect_greeters :: "(string \<Rightarrow> u32 option) \<Rightarrow> u32 list" where
  "detect_greeters uid_of = List.map_filter uid_of [''gdm'', ''sddm'', ''lightdm'']"

definition permits :: "u32 list \<Rightarrow> u32 \<Rightarrow> bool" where
  "permits greeters uid \<longleftrightarrow> uid = 0 \<or> uid \<ge> 1000 \<or> uid \<in> set greeters"

definition br_accept :: "u32 list \<Rightarrow> u32 option \<Rightarrow> broker \<Rightarrow> broker" where
  "br_accept greeters cred b =
    (case cred of
       Some uid \<Rightarrow>
         if permits greeters uid
         then b\<lparr>br_next_id := Suc (br_next_id b), br_pending := insert (br_next_id b) (br_pending b)\<rparr>
         else b
     | None \<Rightarrow> b)"

fun br_event :: "agent_event \<Rightarrow> broker \<Rightarrow> broker" where
  "br_event (EvHello i phase backend rect displays) b =
    (if i \<notin> br_pending b then b
     else
       let b1 = b\<lparr>br_pending := br_pending b - {i}, br_displays := displays, br_rect := rect,
                  br_gen := br_gen b + 1, br_active_id := Some i, br_active := Some i\<rparr>
       in if br_capturing b1
          then tell_active ForceKeyframe (tell_active (SetCapturing True) b1) else b1)"
| "br_event (EvDisplays i displays) b =
    (if br_active_id b = Some i then b\<lparr>br_displays := displays\<rparr> else b)"
| "br_event (EvClosed i) b =
    (let b1 = b\<lparr>br_pending := br_pending b - {i}\<rparr>
     in if br_active b1 = Some i
        then b1\<lparr>br_active := None, br_active_id := None, br_displays := [], br_gen := br_gen b1 + 1\<rparr>
        else b1)"

fun br_cmd :: "plane_cmd \<Rightarrow> broker \<Rightarrow> broker" where
  "br_cmd (PcSetCapturing on) b = tell_active (SetCapturing on) (b\<lparr>br_capturing := on\<rparr>)"
| "br_cmd (PcSelect i) b = tell_active (SelectDisplay i) b"
| "br_cmd (PcSetShowCursor s) b = tell_active (SetShowCursor s) b"
| "br_cmd PcKeyframe b = tell_active ForceKeyframe b"

definition br_bitrate :: "u32 \<Rightarrow> broker \<Rightarrow> broker" where
  "br_bitrate bps b = (if br_capturing b then tell_active (SetBitrate bps) b else b)"

text \<open>One message read by an agent's connection task; the error that ends it is
  \<open>agent_gone\<close>.\<close>

definition to_rect :: "ipc_rect \<Rightarrow> monitor_rect" where
  "to_rect r = (case r of (ox, oy, mw, mh, dw, dh) \<Rightarrow>
     \<lparr> mr_ox = ox, mr_oy = oy, mr_mw = mw, mr_mh = mh, mr_dw = dw, mr_dh = dh \<rparr>)"

fun agent_conn :: "nat \<Rightarrow> agent_msg \<Rightarrow> broker \<Rightarrow> broker" where
  "agent_conn i (AgHello phase backend uid rect displays) b =
     b\<lparr>br_events := br_events b @ [EvHello i phase backend (map_option to_rect rect) displays]\<rparr>"
| "agent_conn i (AgVideo annexb key ts) b =
     (if br_active_id b = Some i then b\<lparr>br_video := br_video b @ [(i, annexb, key, ts)]\<rparr> else b)"
| "agent_conn i (AgDisplays displays) b = b\<lparr>br_events := br_events b @ [EvDisplays i displays]\<rparr>"

definition agent_gone :: "nat \<Rightarrow> broker \<Rightarrow> broker" where
  "agent_gone i b = b\<lparr>br_events := br_events b @ [EvClosed i]\<rparr>"

text \<open>A step of the broker process: the core's calls on the plane, the loop's branches and the
  connection tasks, in any order.\<close>

datatype br_input =
    Plane plane_cmd
  | PollGeometry
  | Accept "u32 option"
  | TakeEvent
  | TakeCmd
  | BitrateTick u32
  | FromAgent nat agent_msg
  | AgentGone nat

fun broker_step :: "u32 list \<Rightarrow> br_input \<Rightarrow> broker \<Rightarrow> broker" where
  "broker_step g (Plane c) b = br_send c b"
| "broker_step g PollGeometry b = snd (br_poll_geometry b)"
| "broker_step g (Accept cred) b = br_accept g cred b"
| "broker_step g TakeEvent b =
     (case br_events b of [] \<Rightarrow> b | e # es \<Rightarrow> br_event e (b\<lparr>br_events := es\<rparr>))"
| "broker_step g TakeCmd b =
     (case br_cmds b of [] \<Rightarrow> b | c # cs \<Rightarrow> br_cmd c (b\<lparr>br_cmds := cs\<rparr>))"
| "broker_step g (BitrateTick bps) b = br_bitrate bps b"
| "broker_step g (FromAgent i m) b = (if i < br_next_id b then agent_conn i m b else b)"
| "broker_step g (AgentGone i) b = (if i < br_next_id b then agent_gone i b else b)"

inductive broker_reach :: "u32 list \<Rightarrow> broker \<Rightarrow> bool" for g where
  start: "broker_reach g broker_start"
| step: "broker_reach g b \<Longrightarrow> broker_reach g (broker_step g x b)"

section \<open>What the agents are told\<close>

text \<open>An agent captures when the last \<open>SetCapturing\<close> it got says so; it starts idle.\<close>

fun told_capturing :: "broker_msg list \<Rightarrow> bool \<Rightarrow> bool" where
  "told_capturing [] c = c"
| "told_capturing (SetCapturing on # ms) c = told_capturing ms on"
| "told_capturing (_ # ms) c = told_capturing ms c"

lemma told_append: "told_capturing (a @ b) c = told_capturing b (told_capturing a c)"
  by (induction a c rule: told_capturing.induct) auto

definition broker_inv :: "broker \<Rightarrow> bool" where
  "broker_inv b \<longleftrightarrow>
     br_active_id b = br_active b
   \<and> (\<forall>i. br_active b = Some i \<longrightarrow> told_capturing (br_ctrl b i) False = br_capturing b \<and> i < br_next_id b \<and> i \<notin> br_pending b)
   \<and> (\<forall>i\<in>br_pending b. br_ctrl b i = [] \<and> i < br_next_id b)
   \<and> (\<forall>i\<ge>br_next_id b. br_ctrl b i = [])"

lemma broker_inv_start: "broker_inv broker_start"
  by (simp add: broker_inv_def broker_start_def)

lemma tell_simps [simp]:
  "br_active (tell_active m b) = br_active b" "br_active_id (tell_active m b) = br_active_id b"
  "br_pending (tell_active m b) = br_pending b" "br_capturing (tell_active m b) = br_capturing b"
  "br_next_id (tell_active m b) = br_next_id b"
  "br_video (tell_active m b) = br_video b"
  "br_ctrl (tell_active m b) i = (if br_active b = Some i then br_ctrl b i @ [m] else br_ctrl b i)"
  by (auto simp: tell_active_def tell_def split: option.split)

lemma broker_inv_tell:
  assumes "broker_inv b" "m \<notin> {SetCapturing True, SetCapturing False}"
  shows "broker_inv (tell_active m b)"
proof -
  have "told_capturing (ms @ [m]) c = told_capturing ms c" for ms c
    using assms(2) by (cases m) (auto simp: told_append)
  then show ?thesis using assms(1) by (auto simp: broker_inv_def)
qed

lemma broker_inv_event: "broker_inv b \<Longrightarrow> broker_inv (br_event e b)"
proof (cases e)
  case (EvHello i phase backend rect displays)
  assume b: "broker_inv b"
  then show ?thesis
    by (auto simp: EvHello broker_inv_def Let_def told_append)
qed (auto simp: broker_inv_def Let_def)

lemma broker_inv_cmd: "broker_inv b \<Longrightarrow> broker_inv (br_cmd c b)"
proof (cases c)
  case (PcSetCapturing on)
  assume "broker_inv b"
  then show ?thesis by (auto simp: PcSetCapturing broker_inv_def told_append)
qed (simp_all add: broker_inv_tell)

lemma broker_inv_step: "broker_inv b \<Longrightarrow> broker_inv (broker_step g x b)"
proof (cases x)
  case TakeEvent
  assume "broker_inv b"
  then have "broker_inv (b\<lparr>br_events := es\<rparr>)" for es by (simp add: broker_inv_def)
  then show ?thesis using \<open>broker_inv b\<close> by (simp add: TakeEvent broker_inv_event split: list.split)
next
  case TakeCmd
  assume "broker_inv b"
  then have "broker_inv (b\<lparr>br_cmds := cs\<rparr>)" for cs by (simp add: broker_inv_def)
  then show ?thesis using \<open>broker_inv b\<close> by (simp add: TakeCmd broker_inv_cmd split: list.split)
next
  case (FromAgent i m)
  assume "broker_inv b"
  then show ?thesis by (cases m) (auto simp: FromAgent broker_inv_def)
next
  case (Accept cred)
  assume "broker_inv b"
  then show ?thesis by (auto simp: Accept br_accept_def broker_inv_def split: option.split)
qed (auto simp: broker_inv_def br_send_def br_poll_geometry_def br_bitrate_def agent_gone_def told_append)

lemma reach_inv: "broker_reach g b \<Longrightarrow> broker_inv b"
  by (induction rule: broker_reach.induct) (simp_all add: broker_inv_start broker_inv_step)

text \<open>The frames that reach the transport in a step.\<close>

lemma step_video:
  "br_video (broker_step g x b) = br_video b @
    (case x of FromAgent i (AgVideo annexb key ts) \<Rightarrow>
       if i < br_next_id b \<and> br_active_id b = Some i then [(i, annexb, key, ts)] else []
     | _ \<Rightarrow> [])"
proof (cases x)
  case TakeEvent
  have "br_video (br_event e b) = br_video b" for e b by (cases e) (auto simp: Let_def)
  then show ?thesis by (simp add: TakeEvent split: list.split)
next
  case TakeCmd
  have "br_video (br_cmd c b) = br_video b" for c b by (cases c) simp_all
  then show ?thesis by (simp add: TakeCmd split: list.split)
next
  case (FromAgent i m)
  then show ?thesis by (cases m) simp_all
qed (auto simp: br_send_def br_poll_geometry_def br_accept_def br_bitrate_def agent_gone_def split: option.split)

text \<open>C15: Handover: in every state the broker can reach, whatever agents come and go, the active
  agent has been told to capture exactly when the session wants frames as far as the command
  queue is worked off, no agent that has not been made active has been told anything, and the
  only frames that a further step passes to the viewer are those of the active agent.\<close>

theorem broker_handover:
  assumes "broker_reach g b"
  shows "(\<forall>i. br_active b = Some i \<longrightarrow> told_capturing (br_ctrl b i) False = br_capturing b)
    \<and> (\<forall>i\<in>br_pending b. br_ctrl b i = [])
    \<and> (br_cmds b = [] \<longrightarrow> br_capturing b = wants_frames b)
    \<and> (\<forall>x. \<forall>f\<in>set (drop (length (br_video b)) (br_video (broker_step g x b))). br_active b = Some (fst f))"
proof -
  have i: "broker_inv b" by (rule reach_inv [OF assms])
  then have "br_active_id b = br_active b" by (simp add: broker_inv_def)
  then have "\<forall>x. \<forall>f\<in>set (drop (length (br_video b)) (br_video (broker_step g x b))). br_active b = Some (fst f)"
    unfolding step_video by (auto split: br_input.splits agent_msg.splits if_splits)
  then show ?thesis using i by (simp add: broker_inv_def wants_frames_def)
qed

definition demo_broker_run :: "br_input list" where
  "demo_broker_run = [Accept (Some 1000), FromAgent 0 (AgHello Greeter BkX11 120 None []), TakeEvent,
     Plane (PcSetCapturing True), TakeCmd, Accept (Some 1000),
     FromAgent 1 (AgHello User BkGnomeWayland 1000 None []), TakeEvent]"

lemma fold_reach: "broker_reach g b \<Longrightarrow> broker_reach g (fold (broker_step g) xs b)"
  by (induction xs arbitrary: b) (simp_all add: broker_reach.step)

lemma broker_handover_witness:
  "let b = fold (broker_step []) demo_broker_run broker_start
   in br_active b = Some 1 \<and> told_capturing (br_ctrl b 1) False"
proof -
  let ?b = "fold (broker_step []) demo_broker_run broker_start"
  have "broker_reach [] ?b" by (rule fold_reach [OF broker_reach.start])
  from broker_handover [OF this] have *: "br_active ?b = Some 1 \<Longrightarrow> told_capturing (br_ctrl ?b 1) False = br_capturing ?b"
    by blast
  have "br_active ?b = Some 1" "br_capturing ?b"
    by (simp_all add: demo_broker_run_def broker_start_def br_accept_def permits_def Let_def br_send_def
        tell_active_def tell_def)
  then show ?thesis using * by (simp add: Let_def)
qed

text \<open>The handover replays the capture flag only: the viewer's cursor choice and display are
  lost with the old agent.\<close>

lemma handover_forgets_cursor:
  "let b = fold (broker_step []) [Accept (Some 1000), FromAgent 0 (AgHello User BkX11 1000 None []), TakeEvent,
       Plane (PcSetShowCursor False), TakeCmd, Plane (PcSelect 1), TakeCmd, Plane (PcSetCapturing True), TakeCmd,
       Accept (Some 1000), FromAgent 1 (AgHello User BkX11 1000 None []), TakeEvent] broker_start
   in br_ctrl b 0 = [SetShowCursor False, SelectDisplay 1, SetCapturing True]
    \<and> br_ctrl b 1 = [SetCapturing True, ForceKeyframe]"
  by (simp add: broker_start_def br_accept_def permits_def Let_def br_send_def tell_active_def tell_def)

end
