(* ===== verification/Transport.thy ===== *)
theory Transport
  imports Rmd_Prelude
begin

text \<open>
  The WebRTC transport (\<open>crates/transport/src/lib.rs\<close>, \<open>driver.rs\<close>): the signaling, event
  and command types, the URL and candidate helpers, the TURN relay's routing, and the driver
  loop with its session bookkeeping.

  The \<open>rtc\<close> engine is third-party code.  What the driver asks of it is a log of
  \<open>pc_call\<close>s whose outcomes an oracle decides from the calls so far; what it reports
  (\<open>poll_event\<close>, \<open>poll_read\<close>, \<open>poll_write\<close>) is the input of a pass of the loop.
\<close>

section \<open>Types\<close>

datatype transport_role = Host | Viewer

datatype tp_codec = TpH264 | TpAv1

record ice_server =
  ice_urls :: "string list"
  ice_username :: "string option"
  ice_credential :: "string option"

definition ice_server_urls :: "string list \<Rightarrow> ice_server" where
  "ice_server_urls urls = \<lparr> ice_urls = urls, ice_username = None, ice_credential = None \<rparr>"

datatype signal_msg = Offer string | Answer string | Candidate string

datatype transport_event =
    LocalSignal signal_msg
  | Connected
  | Disconnected
  | Video bytes u64
  | Data bytes
  | KeyframeRequested

datatype driver_cmd =
    CmdVideo bytes bool u64
  | CmdData bytes
  | CmdSignal signal_msg
  | CmdIceRestart
  | CmdShutdown

section \<open>Configuration helpers\<close>

definition VIDEO_CLOCK_RATE :: nat where "VIDEO_CLOCK_RATE = 90000"
definition H264_PAYLOAD_TYPE :: nat where "H264_PAYLOAD_TYPE = 102"
definition AV1_PAYLOAD_TYPE :: nat where "AV1_PAYLOAD_TYPE = 41"
definition AV1_FMTP :: string where "AV1_FMTP = ''profile-id=0''"
definition H264_FMTP :: string where
  "H264_FMTP = ''level-asymmetry-allowed=1;packetization-mode=1;profile-level-id=42e01f''"
definition STUN_DEFAULT_PORT :: nat where "STUN_DEFAULT_PORT = 3478"

record codec_parameters =
  cp_mime_type :: string
  cp_clock_rate :: nat
  cp_channels :: nat
  cp_fmtp :: string
  cp_payload_type :: nat

text \<open>The MIME type names are the crate's constants.\<close>

fun codec_params :: "string \<Rightarrow> string \<Rightarrow> tp_codec \<Rightarrow> codec_parameters" where
  "codec_params mime_h264 mime_av1 TpH264 =
     \<lparr> cp_mime_type = mime_h264, cp_clock_rate = VIDEO_CLOCK_RATE, cp_channels = 0,
       cp_fmtp = H264_FMTP, cp_payload_type = H264_PAYLOAD_TYPE \<rparr>"
| "codec_params mime_h264 mime_av1 TpAv1 =
     \<lparr> cp_mime_type = mime_av1, cp_clock_rate = VIDEO_CLOCK_RATE, cp_channels = 0,
       cp_fmtp = AV1_FMTP, cp_payload_type = AV1_PAYLOAD_TYPE \<rparr>"

definition unwrap_or_default :: "string option \<Rightarrow> string" where
  "unwrap_or_default s = (case s of None \<Rightarrow> [] | Some x \<Rightarrow> x)"

definition rtc_ice_servers :: "ice_server list \<Rightarrow> (string list \<times> string \<times> string) list" where
  "rtc_ice_servers servers =
    map (\<lambda>s. (ice_urls s, unwrap_or_default (ice_username s), unwrap_or_default (ice_credential s)))
      (filter (\<lambda>s. ice_urls s \<noteq> []) servers)"

definition before_query :: "string \<Rightarrow> string" where
  "before_query s = takeWhile (\<lambda>c. c \<noteq> CHR ''?'') s"

definition with_default_port :: "string \<Rightarrow> string" where
  "with_default_port s = (if CHR '':'' \<in> set s then s else s @ '':'' @ show_nat STUN_DEFAULT_PORT)"

definition parse_stun_url :: "string \<Rightarrow> string option" where
  "parse_stun_url url =
    (case (case strip_prefix ''stun:'' url of Some r \<Rightarrow> Some r | None \<Rightarrow> strip_prefix ''stuns:'' url) of
       None \<Rightarrow> None
     | Some rest \<Rightarrow> Some (with_default_port (before_query rest)))"

text \<open>\<open>trim_start_matches\<close> removes the prefix as often as it occurs.\<close>

function trim_start_matches :: "string \<Rightarrow> string \<Rightarrow> string" where
  "trim_start_matches p s =
    (if p = [] then s
     else case strip_prefix p s of None \<Rightarrow> s | Some r \<Rightarrow> trim_start_matches p r)"
  by pat_completeness auto
termination
proof (relation "measure (\<lambda>(p, s). length s)")
  fix p s r :: string
  assume "p \<noteq> []" "strip_prefix p s = Some r"
  then have "r = drop (length p) s" "take (length p) s = p" by (auto simp: strip_prefix_def split: if_splits)
  moreover from this have "length p \<le> length s" by (metis length_take min.cobounded1)
  ultimately show "((p, r), (p, s)) \<in> measure (\<lambda>(p, s). length s)" using \<open>p \<noteq> []\<close> by (cases p) auto
qed simp

declare trim_start_matches.simps [simp del]

fun contains_str :: "string \<Rightarrow> string \<Rightarrow> bool" where
  "contains_str p [] = (p = [])"
| "contains_str p (c # s) = (starts_with p (c # s) \<or> contains_str p s)"

definition turn_pick :: "string list \<Rightarrow> string option" where
  "turn_pick urls =
    (case find (\<lambda>u. starts_with ''turn:'' u \<and> contains_str ''transport=udp'' u) urls of
       Some u \<Rightarrow> Some u
     | None \<Rightarrow> find (starts_with ''turn:'') urls)"

fun first_turn_server :: "ice_server list \<Rightarrow> (string \<times> string \<times> string \<times> string) option" where
  "first_turn_server [] = None"
| "first_turn_server (s # ss) =
    (case (ice_username s, ice_credential s) of
       (Some username, Some credential) \<Rightarrow>
         if username = [] \<or> credential = [] then first_turn_server ss
         else (case turn_pick (ice_urls s) of
                 Some url \<Rightarrow>
                   Some (with_default_port (before_query (trim_start_matches ''turn:'' url)),
                         username, credential, url)
               | None \<Rightarrow> first_turn_server ss)
     | _ \<Rightarrow> first_turn_server ss)"

text \<open>IP addresses, as numbers of their family.\<close>

datatype ip_addr = V4 u32 | V6 "128 word"

fun is_ipv4 :: "ip_addr \<Rightarrow> bool" where
  "is_ipv4 (V4 _) = True"
| "is_ipv4 (V6 _) = False"

fun is_unspecified :: "ip_addr \<Rightarrow> bool" where
  "is_unspecified (V4 a) = (a = 0)"
| "is_unspecified (V6 a) = (a = 0)"

text \<open>\<open>ifaces\<close>: what the interface enumeration returned, None on its error.\<close>

definition host_candidate_ips :: "ip_addr list option \<Rightarrow> ip_addr \<Rightarrow> ip_addr list" where
  "host_candidate_ips ifaces bound =
    (if \<not> is_unspecified bound then [bound]
     else case ifaces of Some is \<Rightarrow> filter is_ipv4 is | None \<Rightarrow> [])"

type_synonym sock_addr = "ip_addr \<times> u16"

text \<open>Candidates to advertise: one per local address that can be built, then one per
  STUN URL that answers; \<open>build\<close> and \<open>srflx\<close> are the engine's and the network's.\<close>

definition gather_local_candidates ::
  "ip_addr list option \<Rightarrow> (ip_addr \<Rightarrow> u16 \<Rightarrow> string option) \<Rightarrow> (string \<Rightarrow> string \<Rightarrow> string option)
   \<Rightarrow> sock_addr \<Rightarrow> ice_server list \<Rightarrow> string list" where
  "gather_local_candidates ifaces build srflx local servers =
    List.map_filter (\<lambda>ip. build ip (snd local)) (host_candidate_ips ifaces (fst local))
    @ List.map_filter (\<lambda>url. Option.bind (parse_stun_url url) (\<lambda>hp. srflx hp url))
        (concat (map ice_urls servers))"

section \<open>The TURN relay\<close>

datatype turn_call = CreatePermission sock_addr | RelaySend sock_addr bytes

record turn_relay =
  tr_server :: sock_addr
  tr_relayed_addr :: sock_addr
  tr_relayed_peers :: "sock_addr set"
  tr_permitted :: "ip_addr set"
  tr_live :: bool
  tr_calls :: "turn_call list"

definition reset_session :: "turn_relay \<Rightarrow> turn_relay" where
  "reset_session t = t\<lparr>tr_relayed_peers := {}, tr_permitted := {}\<rparr>"

definition is_server :: "turn_relay \<Rightarrow> sock_addr \<Rightarrow> bool" where
  "is_server t a \<longleftrightarrow> a = tr_server t"

text \<open>\<open>client.relay(relayed_addr)\<close> answers while the allocation is live.\<close>

definition turn_call :: "turn_call \<Rightarrow> turn_relay \<Rightarrow> turn_relay" where
  "turn_call c t = (if tr_live t then t\<lparr>tr_calls := tr_calls t @ [c]\<rparr> else t)"

definition route_out :: "sock_addr \<Rightarrow> bytes \<Rightarrow> turn_relay \<Rightarrow> bool \<times> turn_relay" where
  "route_out peer msg t =
    (let t1 = (if fst peer \<in> tr_permitted t then t
               else turn_call (CreatePermission peer) (t\<lparr>tr_permitted := insert (fst peer) (tr_permitted t)\<rparr>))
     in if peer \<in> tr_relayed_peers t1 then (True, turn_call (RelaySend peer msg) t1)
        else (False, t1))"

section \<open>The driver\<close>

datatype pc_call =
    SetRemote string
  | SetLocal string
  | AddLocal string
  | AddRemote string
  | WriteRtp u32 bytes
  | DcSend nat bytes
  | PcRead sock_addr bytes
  | PcClose

text \<open>The engine: whether a session description parses, whether a call succeeds after the
  calls so far, the answer and offer it creates, and the packetizer.\<close>

record rtc =
  rx_parse :: "string \<Rightarrow> bool"
  rx_ok :: "pc_call list \<Rightarrow> pc_call \<Rightarrow> bool"
  rx_answer :: "pc_call list \<Rightarrow> string option"
  rx_packets :: "bytes \<Rightarrow> u32 \<Rightarrow> bytes list option"

record video_send =
  vs_ssrc :: u32
  vs_last_ts :: "u64 option"

record role_state =
  dv_calls :: "pc_call list"
  dv_events :: "transport_event list"
  dv_video :: "video_send option"
  dv_samples :: bool
  dv_channel :: "nat option"
  dv_pending_local :: "string list"
  dv_remote_set :: bool
  dv_pending_remote :: "string list"
  dv_bitrate :: u32
  dv_gcc :: bool
  dv_is_host :: bool
  dv_negotiated :: bool
  dv_rebuild :: bool
  dv_pending_offer :: "string option"
  dv_connected :: bool

datatype loop_outcome = Shutdown | Reconnect "string option" | Failed

definition pc :: "rtc \<Rightarrow> pc_call \<Rightarrow> role_state \<Rightarrow> bool \<times> role_state" where
  "pc rx c s = (rx_ok rx (dv_calls s) c, s\<lparr>dv_calls := dv_calls s @ [c]\<rparr>)"

definition emit :: "transport_event \<Rightarrow> role_state \<Rightarrow> role_state" where
  "emit e s = s\<lparr>dv_events := dv_events s @ [e]\<rparr>"

definition rtp_samples :: "u64 option \<Rightarrow> u64 \<Rightarrow> u32" where
  "rtp_samples prev_ts ts =
    (case prev_ts of
       None \<Rightarrow> 0
     | Some prev \<Rightarrow>
         if ts > prev then word_of_nat (unat (ts - prev) * VIDEO_CLOCK_RATE div 1000000) else 0)"

definition send_video :: "rtc \<Rightarrow> bytes \<Rightarrow> u64 \<Rightarrow> role_state \<Rightarrow> role_state" where
  "send_video rx annexb ts s =
    (case dv_video s of
       None \<Rightarrow> s
     | Some v \<Rightarrow>
         let samples = rtp_samples (vs_last_ts v) ts;
             s1 = s\<lparr>dv_video := Some (v\<lparr>vs_last_ts := Some ts\<rparr>)\<rparr>
         in (case rx_packets rx annexb samples of
               None \<Rightarrow> s1
             | Some packets \<Rightarrow> fold (\<lambda>p s. snd (pc rx (WriteRtp (vs_ssrc v) p) s)) packets s1))"

definition send_data :: "rtc \<Rightarrow> bytes \<Rightarrow> role_state \<Rightarrow> role_state" where
  "send_data rx bs s =
    (case dv_channel s of None \<Rightarrow> s | Some i \<Rightarrow> snd (pc rx (DcSend i bs) s))"

definition flush_remote_candidates :: "rtc \<Rightarrow> role_state \<Rightarrow> role_state" where
  "flush_remote_candidates rx s =
    fold (\<lambda>c s. snd (pc rx (AddRemote c) s)) (dv_pending_remote s) (s\<lparr>dv_pending_remote := []\<rparr>)"

text \<open>The drain of the gathered candidates: each is added and trickled; the first failure
  ends the handler, and the rest of the drained vector is dropped with it.\<close>

fun add_local_candidates :: "rtc \<Rightarrow> string list \<Rightarrow> role_state \<Rightarrow> bool \<times> role_state" where
  "add_local_candidates rx [] s = (True, s)"
| "add_local_candidates rx (c # cs) s =
    (case pc rx (AddLocal c) s of
       (False, s1) \<Rightarrow> (False, s1)
     | (True, s1) \<Rightarrow> add_local_candidates rx cs (emit (LocalSignal (Candidate c)) s1))"

fun apply_signal :: "rtc \<Rightarrow> signal_msg \<Rightarrow> role_state \<Rightarrow> bool \<times> role_state" where
  "apply_signal rx (Offer json) s =
    (if dv_negotiated s then (True, s\<lparr>dv_rebuild := True, dv_pending_offer := Some json\<rparr>)
     else if \<not> rx_parse rx json then (False, s)
     else (case pc rx (SetRemote json) s of
             (False, s1) \<Rightarrow> (False, s1)
           | (True, s1) \<Rightarrow>
               let s2 = s1\<lparr>dv_remote_set := True\<rparr>
               in (case rx_answer rx (dv_calls s2) of
                     None \<Rightarrow> (False, s2)
                   | Some answer \<Rightarrow>
                       (case pc rx (SetLocal answer) s2 of
                          (False, s3) \<Rightarrow> (False, s3)
                        | (True, s3) \<Rightarrow>
                            let s4 = (emit (LocalSignal (Answer answer)) s3)\<lparr>dv_negotiated := True\<rparr>
                            in (case add_local_candidates rx (dv_pending_local s4) (s4\<lparr>dv_pending_local := []\<rparr>) of
                                  (False, s5) \<Rightarrow> (False, s5)
                                | (True, s5) \<Rightarrow> (True, flush_remote_candidates rx s5))))))"
| "apply_signal rx (Answer json) s =
    (if dv_negotiated s then (True, s\<lparr>dv_rebuild := True, dv_pending_offer := None\<rparr>)
     else if \<not> rx_parse rx json then (False, s)
     else (case pc rx (SetRemote json) s of
             (False, s1) \<Rightarrow> (False, s1)
           | (True, s1) \<Rightarrow>
               (True, flush_remote_candidates rx (s1\<lparr>dv_remote_set := True, dv_negotiated := True\<rparr>))))"
| "apply_signal rx (Candidate c) s =
    (if dv_remote_set s then (True, snd (pc rx (AddRemote c) s))
     else (True, s\<lparr>dv_pending_remote := dv_pending_remote s @ [c]\<rparr>))"

text \<open>Result: whether to shut down.  \<open>hup\<close>: the handle was dropped, seen when the queue
  is empty.\<close>

fun drain_commands :: "rtc \<Rightarrow> driver_cmd list \<Rightarrow> bool \<Rightarrow> role_state \<Rightarrow> bool \<times> role_state" where
  "drain_commands rx [] hup s = (hup, s)"
| "drain_commands rx (CmdVideo annexb key ts # cs) hup s =
     drain_commands rx cs hup (send_video rx annexb ts s)"
| "drain_commands rx (CmdData bs # cs) hup s = drain_commands rx cs hup (send_data rx bs s)"
| "drain_commands rx (CmdSignal m # cs) hup s = drain_commands rx cs hup (snd (apply_signal rx m s))"
| "drain_commands rx (CmdIceRestart # cs) hup s =
     drain_commands rx cs hup (if dv_is_host s then s\<lparr>dv_rebuild := True\<rparr> else s)"
| "drain_commands rx (CmdShutdown # cs) hup s = (True, s)"

datatype conn_state = CsConnected | CsFailed | CsDisconnected | CsClosed | CsOther

datatype pc_event = ConnState conn_state | IceCandidate "string option" | DcOpen nat | PcOther

fun pc_event_step :: "pc_event \<Rightarrow> role_state \<Rightarrow> role_state" where
  "pc_event_step (ConnState CsConnected) s =
     (if \<not> dv_connected s then emit Connected (s\<lparr>dv_connected := True\<rparr>) else s)"
| "pc_event_step (ConnState CsOther) s = s"
| "pc_event_step (ConnState _) s =
     (if dv_connected s then (emit Disconnected (s\<lparr>dv_connected := False\<rparr>))\<lparr>dv_rebuild := True\<rparr> else s)"
| "pc_event_step (IceCandidate (Some c)) s =
     (if c \<noteq> [] then emit (LocalSignal (Candidate c)) s else s)"
| "pc_event_step (IceCandidate None) s = s"
| "pc_event_step (DcOpen i) s = s\<lparr>dv_channel := Some i\<rparr>"
| "pc_event_step PcOther s = s"

definition drain_events :: "pc_event list \<Rightarrow> role_state \<Rightarrow> role_state" where
  "drain_events es s = fold pc_event_step es s"

text \<open>A read: an RTP packet with its timestamp and the access units the sample builder
  completes on it, a data-channel message, or an RTCP compound that asks for a keyframe.\<close>

datatype pc_read = RtpPacket u32 "bytes list" | DataChannelMessage bytes | RtcpPacket bool

fun pc_read_step :: "pc_read \<Rightarrow> role_state \<Rightarrow> role_state" where
  "pc_read_step (RtpPacket ts samples) s =
     (if dv_samples s then fold (\<lambda>b. emit (Video b (ucast ts))) samples s else s)"
| "pc_read_step (DataChannelMessage b) s = emit (Data b) s"
| "pc_read_step (RtcpPacket wants) s = (if wants then emit KeyframeRequested s else s)"

definition drain_reads :: "pc_read list \<Rightarrow> role_state \<Rightarrow> role_state" where
  "drain_reads rs s = fold pc_read_step rs s"

definition publish_gcc :: "u32 option \<Rightarrow> role_state \<Rightarrow> role_state" where
  "publish_gcc bps s =
    (if dv_gcc s then (case bps of None \<Rightarrow> s | Some b \<Rightarrow> s\<lparr>dv_bitrate := b\<rparr>) else s)"

text \<open>Outbound datagrams of the engine: through the relay or straight to the socket.\<close>

definition flush_writes ::
  "(sock_addr \<times> bytes) list \<Rightarrow> turn_relay option \<Rightarrow> (sock_addr \<times> bytes) list \<times> turn_relay option" where
  "flush_writes ws t =
    fold (\<lambda>(peer, msg) (direct, t).
      (case t of
         None \<Rightarrow> (direct @ [(peer, msg)], None)
       | Some t \<Rightarrow> (case route_out peer msg t of
            (relayed, t') \<Rightarrow> (if relayed then direct else direct @ [(peer, msg)], Some t')))) ws ([], t)"

text \<open>Relayed datagrams the TURN client reports reach the engine as if they came from the peer.\<close>

definition turn_drain_events ::
  "rtc \<Rightarrow> (sock_addr \<times> bytes) list \<Rightarrow> turn_relay \<times> role_state \<Rightarrow> turn_relay \<times> role_state" where
  "turn_drain_events rx evs ts =
    fold (\<lambda>(from, data) (t, s). (t\<lparr>tr_relayed_peers := insert from (tr_relayed_peers t)\<rparr>,
                                  snd (pc rx (PcRead from data) s))) evs ts"

text \<open>What one pass of the loop finds: the queued commands, whether the handle is gone, the
  engine's datagrams, events and reads, the TURN client's relayed datagrams before and after the
  socket read, GCC's estimate, whether a timer fired (and its handler succeeded), and the
  datagram read, if any.\<close>

record pass =
  ps_cmds :: "driver_cmd list"
  ps_closed :: bool
  ps_writes :: "(sock_addr \<times> bytes) list"
  ps_relayed :: "(sock_addr \<times> bytes) list"
  ps_events :: "pc_event list"
  ps_reads :: "pc_read list"
  ps_gcc :: "u32 option"
  ps_timer_fired :: "bool option"
  ps_datagram :: "(sock_addr \<times> bytes) option"
  ps_relayed_after :: "(sock_addr \<times> bytes) list"

definition drain_turn ::
  "rtc \<Rightarrow> (sock_addr \<times> bytes) list \<Rightarrow> turn_relay option \<Rightarrow> role_state \<Rightarrow> turn_relay option \<times> role_state" where
  "drain_turn rx evs t s =
    (case t of None \<Rightarrow> (None, s)
     | Some r \<Rightarrow> (case turn_drain_events rx evs (r, s) of (r', s') \<Rightarrow> (Some r', s')))"

text \<open>The timer's and the read's errors end the driver.\<close>

definition read_socket ::
  "rtc \<Rightarrow> pass \<Rightarrow> turn_relay option \<Rightarrow> role_state \<Rightarrow> bool \<times> turn_relay option \<times> role_state" where
  "read_socket rx p t s =
    (case ps_timer_fired p of
       Some ok \<Rightarrow> (ok, t, s)
     | None \<Rightarrow>
         (case ps_datagram p of
            None \<Rightarrow> (True, t, s)
          | Some (from, data) \<Rightarrow>
              (case t of
                 None \<Rightarrow> (case pc rx (PcRead from data) s of (ok, s') \<Rightarrow> (ok, t, s'))
               | Some r \<Rightarrow>
                   if is_server r from then (True, drain_turn rx (ps_relayed_after p) t s)
                   else (case pc rx (PcRead from data) s of (ok, s') \<Rightarrow> (ok, t, s')))))"

definition loop_pass ::
  "rtc \<Rightarrow> pass \<Rightarrow> turn_relay option \<Rightarrow> role_state
   \<Rightarrow> loop_outcome option \<times> (sock_addr \<times> bytes) list \<times> turn_relay option \<times> role_state" where
  "loop_pass rx p t s =
    (case drain_commands rx (ps_cmds p) (ps_closed p) s of
       (True, s1) \<Rightarrow> (Some Shutdown, [], t, snd (pc rx PcClose s1))
     | (False, s1) \<Rightarrow>
         let (direct, t1) = flush_writes (ps_writes p) t;
             (t2, s2) = drain_turn rx (ps_relayed p) t1 s1;
             s3 = drain_events (ps_events p) s2
         in if dv_rebuild s3
            then (Some (Reconnect (dv_pending_offer s3)), direct, t2,
                  (snd (pc rx PcClose s3))\<lparr>dv_pending_offer := None\<rparr>)
            else
              let s4 = publish_gcc (ps_gcc p) (drain_reads (ps_reads p) s3)
              in (case read_socket rx p t2 s4 of
                    (ok, t3, s5) \<Rightarrow> (if ok then None else Some Failed, direct, t3, s5)))"

text \<open>A fresh session of either role; \<open>events\<close> are those emitted so far, which outlive
  the session.\<close>

definition fresh_state :: "bool \<Rightarrow> u32 \<Rightarrow> u32 \<Rightarrow> string list \<Rightarrow> transport_event list \<Rightarrow> role_state" where
  "fresh_state host ssrc bitrate pending events =
    \<lparr> dv_calls = [], dv_events = events,
      dv_video = (if host then Some \<lparr> vs_ssrc = ssrc, vs_last_ts = None \<rparr> else None),
      dv_samples = (\<not> host), dv_channel = None, dv_pending_local = (if host then [] else pending),
      dv_remote_set = False, dv_pending_remote = [], dv_bitrate = bitrate, dv_gcc = host,
      dv_is_host = host, dv_negotiated = False, dv_rebuild = False, dv_pending_offer = None,
      dv_connected = False \<rparr>"

text \<open>\<open>run_host\<close>'s set-up of a session: offer, gathered candidates, relay candidate.  A failing
  engine call there ends the driver (None).\<close>

definition host_session ::
  "rtc \<Rightarrow> string \<Rightarrow> string list \<Rightarrow> string option \<Rightarrow> u32 \<Rightarrow> u32 \<Rightarrow> turn_relay option \<Rightarrow> transport_event list
   \<Rightarrow> (turn_relay option \<times> role_state) option" where
  "host_session rx offer cands relay_cand ssrc bitrate t events =
    (let s0 = fresh_state True ssrc bitrate [] events
     in case pc rx (SetLocal offer) s0 of
          (False, _) \<Rightarrow> None
        | (True, s1) \<Rightarrow>
            (case add_local_candidates rx cands (emit (LocalSignal (Offer offer)) s1) of
               (False, _) \<Rightarrow> None
             | (True, s2) \<Rightarrow>
                 (case (t, relay_cand) of
                    (Some r, Some c) \<Rightarrow>
                      Some (Some (reset_session r),
                            emit (LocalSignal (Candidate c)) (snd (pc rx (AddLocal c) s2)))
                  | _ \<Rightarrow> Some (t, s2))))"

definition viewer_session ::
  "rtc \<Rightarrow> string list \<Rightarrow> u32 \<Rightarrow> string option \<Rightarrow> transport_event list \<Rightarrow> role_state" where
  "viewer_session rx cands bitrate pending events =
    (let s0 = fresh_state False 0 bitrate cands events
     in case pending of None \<Rightarrow> s0 | Some offer \<Rightarrow> snd (apply_signal rx (Offer offer) s0))"

section \<open>Candidates\<close>

fun remote_adds :: "pc_call list \<Rightarrow> string list" where
  "remote_adds [] = []"
| "remote_adds (AddRemote c # cs) = c # remote_adds cs"
| "remote_adds (_ # cs) = remote_adds cs"

fun is_set_remote :: "pc_call \<Rightarrow> bool" where
  "is_set_remote (SetRemote _) = True"
| "is_set_remote _ = False"

fun candidates_of :: "signal_msg list \<Rightarrow> string list" where
  "candidates_of [] = []"
| "candidates_of (Candidate c # ms) = c # candidates_of ms"
| "candidates_of (_ # ms) = candidates_of ms"

definition run_signals :: "rtc \<Rightarrow> signal_msg list \<Rightarrow> role_state \<Rightarrow> role_state" where
  "run_signals rx ms s = fold (\<lambda>m s. snd (apply_signal rx m s)) ms s"

lemma remote_adds_append [simp]: "remote_adds (a @ b) = remote_adds a @ remote_adds b"
  by (induction a rule: remote_adds.induct) auto

lemma candidates_of_append [simp]: "candidates_of (a @ b) = candidates_of a @ candidates_of b"
  by (induction a rule: candidates_of.induct) auto

lemma flush_calls:
  "dv_calls (fold (\<lambda>c s. snd (pc rx (AddRemote c) s)) cs s) = dv_calls s @ map AddRemote cs"
  "dv_pending_remote (fold (\<lambda>c s. snd (pc rx (AddRemote c) s)) cs s) = dv_pending_remote s"
  "dv_remote_set (fold (\<lambda>c s. snd (pc rx (AddRemote c) s)) cs s) = dv_remote_set s"
  "dv_negotiated (fold (\<lambda>c s. snd (pc rx (AddRemote c) s)) cs s) = dv_negotiated s"
  by (induction cs arbitrary: s) (simp_all add: pc_def)

lemma flush_simps [simp]:
  "dv_calls (flush_remote_candidates rx s) = dv_calls s @ map AddRemote (dv_pending_remote s)"
  "dv_pending_remote (flush_remote_candidates rx s) = []"
  "dv_remote_set (flush_remote_candidates rx s) = dv_remote_set s"
  "dv_negotiated (flush_remote_candidates rx s) = dv_negotiated s"
  by (simp_all add: flush_remote_candidates_def flush_calls)

lemma remote_adds_map [simp]: "remote_adds (map AddRemote cs) = cs"
  by (induction cs) auto

lemma add_local_calls:
  "add_local_candidates rx cs s = (ok, s') \<Longrightarrow> \<exists>as. dv_calls s' = dv_calls s @ map AddLocal as
     \<and> dv_pending_remote s' = dv_pending_remote s \<and> dv_remote_set s' = dv_remote_set s"
proof (induction cs arbitrary: s)
  case (Cons c cs)
  show ?case
  proof (cases "rx_ok rx (dv_calls s) (AddLocal c)")
    case True
    then have "add_local_candidates rx cs (emit (LocalSignal (Candidate c)) (s\<lparr>dv_calls := dv_calls s @ [AddLocal c]\<rparr>)) = (ok, s')"
      using Cons.prems by (simp add: pc_def)
    from Cons.IH [OF this] obtain as where
      "dv_calls s' = (dv_calls s @ [AddLocal c]) @ map AddLocal as"
      "dv_pending_remote s' = dv_pending_remote s" "dv_remote_set s' = dv_remote_set s"
      by (auto simp: emit_def)
    then show ?thesis by (intro exI [of _ "c # as"]) simp
  next
    case False
    then show ?thesis using Cons.prems by (auto simp: pc_def intro: exI [of _ "[c]"])
  qed
qed (auto intro: exI [of _ "[]"])

lemma remote_adds_local [simp]: "remote_adds (map AddLocal as) = []"
  by (induction as) auto

text \<open>The engine grants what it is asked, candidates of the peer excepted, which it may refuse.\<close>

definition rtc_accepts :: "rtc \<Rightarrow> bool" where
  "rtc_accepts rx \<longleftrightarrow> (\<forall>cs c. (\<forall>x. c \<noteq> AddRemote x) \<longrightarrow> rx_ok rx cs c) \<and> (\<forall>cs. rx_answer rx cs \<noteq> None)"

definition candidates_inv :: "string list \<Rightarrow> role_state \<Rightarrow> bool" where
  "candidates_inv got s \<longleftrightarrow>
     remote_adds (dv_calls s) @ dv_pending_remote s = got
   \<and> (dv_remote_set s \<longrightarrow> dv_pending_remote s = [])
   \<and> remote_adds (takeWhile (\<lambda>c. \<not> is_set_remote c) (dv_calls s)) = []
   \<and> (dv_remote_set s \<longrightarrow> (\<exists>c\<in>set (dv_calls s). is_set_remote c))
   \<and> (\<not> dv_remote_set s \<longrightarrow> remote_adds (dv_calls s) = [])"

lemma takeWhile_calls:
  "remote_adds (takeWhile (\<lambda>c. \<not> is_set_remote c) cs) = [] \<Longrightarrow> remote_adds ext = [] \<or> (\<exists>c\<in>set cs. is_set_remote c) \<Longrightarrow>
   remote_adds (takeWhile (\<lambda>c. \<not> is_set_remote c) (cs @ ext)) = []"
proof (cases "\<exists>c\<in>set cs. is_set_remote c")
  case False
  assume a: "remote_adds (takeWhile (\<lambda>c. \<not> is_set_remote c) cs) = []"
    "remote_adds ext = [] \<or> (\<exists>c\<in>set cs. is_set_remote c)"
  have t: "takeWhile (\<lambda>c. \<not> is_set_remote c) (cs @ ext) = cs @ takeWhile (\<lambda>c. \<not> is_set_remote c) ext"
    using False by (simp add: takeWhile_append2)
  have tw: "takeWhile (\<lambda>c. \<not> is_set_remote c) cs = cs" using False by (simp add: takeWhile_eq_all_conv)
  have "remote_adds cs = []" using a(1) unfolding tw .
  moreover have "remote_adds (takeWhile P ext) = []" for P
    using a(2) False takeWhile_dropWhile_id [of P ext] remote_adds_append [of "takeWhile P ext" "dropWhile P ext"] by simp
  ultimately show ?thesis by (simp add: t)
qed (auto simp: takeWhile_append1)

lemma candidates_inv_step:
  assumes rx: "rtc_accepts rx" and i: "candidates_inv got s"
  shows "candidates_inv (got @ candidates_of [m]) (snd (apply_signal rx m s))"
proof -
  have ok: "\<And>cs x. rx_ok rx cs (SetRemote x)" "\<And>cs x. rx_ok rx cs (SetLocal x)" "\<And>cs x. rx_ok rx cs (AddLocal x)"
    using rx by (simp_all add: rtc_accepts_def)
  have al: "fst (add_local_candidates rx cs s)" for cs s
    by (induction cs arbitrary: s) (simp_all add: pc_def ok)
  show ?thesis
  proof (cases m)
    case (Candidate c)
    show ?thesis
    proof (cases "dv_remote_set s")
      case True
      then show ?thesis using i Candidate takeWhile_calls [of "dv_calls s" "[AddRemote c]"]
        by (auto simp: candidates_inv_def pc_def)
    qed (use i Candidate in \<open>auto simp: candidates_inv_def\<close>)
  next
    case (Answer json)
    show ?thesis
    proof (cases "dv_negotiated s \<or> \<not> rx_parse rx json")
      case False
      have t: "remote_adds (takeWhile (\<lambda>c. \<not> is_set_remote c) (dv_calls s @ SetRemote json # map AddRemote (dv_pending_remote s))) = []"
        using i takeWhile_calls [of "dv_calls s" "[SetRemote json]"] takeWhile_calls [of "dv_calls s @ [SetRemote json]" "map AddRemote (dv_pending_remote s)"]
        by (simp add: candidates_inv_def)
      show ?thesis using False i Answer t
        by (auto simp: candidates_inv_def pc_def ok)
    qed (use i Answer in \<open>auto simp: candidates_inv_def\<close>)
  next
    case (Offer json)
    show ?thesis
    proof (cases "dv_negotiated s \<or> \<not> rx_parse rx json")
      case False
      let ?s2 = "s\<lparr>dv_calls := dv_calls s @ [SetRemote json], dv_remote_set := True\<rparr>"
      obtain an where an: "rx_answer rx (dv_calls ?s2) = Some an" using rx by (fastforce simp: rtc_accepts_def)
      let ?s4 = "(emit (LocalSignal (Answer an)) (?s2\<lparr>dv_calls := dv_calls ?s2 @ [SetLocal an]\<rparr>))\<lparr>dv_negotiated := True\<rparr>"
      obtain s5 where s5: "add_local_candidates rx (dv_pending_local ?s4) (?s4\<lparr>dv_pending_local := []\<rparr>) = (True, s5)"
        using al by (metis prod.collapse)
      from add_local_calls [OF s5] obtain as where as:
        "dv_calls s5 = (dv_calls s @ [SetRemote json]) @ SetLocal an # map AddLocal as"
        "dv_pending_remote s5 = dv_pending_remote s" "dv_remote_set s5"
        by (auto simp: emit_def)
      have r: "snd (apply_signal rx (Offer json) s) = flush_remote_candidates rx s5"
        using False an s5 by (simp add: pc_def ok Let_def emit_def)
      have t: "remote_adds (takeWhile (\<lambda>c. \<not> is_set_remote c)
          ((dv_calls s @ [SetRemote json]) @ SetLocal an # map AddLocal as @ map AddRemote (dv_pending_remote s))) = []"
        using i takeWhile_calls [of "dv_calls s" "[SetRemote json]"]
        by (intro takeWhile_calls) (simp_all add: candidates_inv_def)
      show ?thesis unfolding Offer r using i t as
        by (auto simp: candidates_inv_def simp del: apply_signal.simps)
    next
      case True
      then have "snd (apply_signal rx (Offer json) s) = s
          \<or> snd (apply_signal rx (Offer json) s) = s\<lparr>dv_rebuild := True, dv_pending_offer := Some json\<rparr>"
        by (cases "dv_negotiated s") simp_all
      then show ?thesis unfolding Offer using i by (auto simp: candidates_inv_def simp del: apply_signal.simps)
    qed
  qed
qed

text \<open>No candidate of the peer is lost, reordered or applied too early: whatever order
  offers, answers and candidates arrive in, those handed to the engine followed by those still
  buffered are exactly those received, none is handed over before a remote description is
  set, and once one is, none stays buffered.\<close>

theorem candidates_kept:
  assumes "rtc_accepts rx"
  shows "let s = run_signals rx ms (fresh_state host ssrc bitrate pending events)
    in remote_adds (dv_calls s) @ dv_pending_remote s = candidates_of ms
     \<and> remote_adds (takeWhile (\<lambda>c. \<not> is_set_remote c) (dv_calls s)) = []
     \<and> (dv_remote_set s \<longrightarrow> dv_pending_remote s = [])"
proof -
  have "candidates_inv (candidates_of ms) (run_signals rx ms (fresh_state host ssrc bitrate pending events))"
  proof (induction ms rule: rev_induct)
    case Nil
    show ?case by (simp add: run_signals_def fresh_state_def candidates_inv_def)
  next
    case (snoc m ms)
    then show ?case using candidates_inv_step [OF assms snoc.IH, of m] by (simp add: run_signals_def)
  qed
  then show ?thesis by (simp add: candidates_inv_def Let_def)
qed

definition demo_rtc :: rtc where
  "demo_rtc = \<lparr> rx_parse = (\<lambda>_. True), rx_ok = (\<lambda>_ _. True), rx_answer = (\<lambda>_. Some ''ans''),
     rx_packets = (\<lambda>b _. Some [b]) \<rparr>"

lemma candidates_kept_witness:
  "dv_calls (run_signals demo_rtc [Candidate ''a'', Candidate ''b'', Answer ''sdp'', Candidate ''c'']
     (fresh_state True 1 8 [] [])) = [SetRemote ''sdp'', AddRemote ''a'', AddRemote ''b'', AddRemote ''c'']
   \<and> remote_adds (takeWhile (\<lambda>c. \<not> is_set_remote c) (dv_calls (run_signals demo_rtc
       [Candidate ''a'', Candidate ''b'', Answer ''sdp'', Candidate ''c''] (fresh_state True 1 8 [] [])))) = []"
proof -
  have "rtc_accepts demo_rtc" by (simp add: rtc_accepts_def demo_rtc_def)
  from candidates_kept [OF this] show ?thesis
    by (simp add: Let_def run_signals_def demo_rtc_def fresh_state_def pc_def flush_remote_candidates_def)
qed

text \<open>A local candidate the engine refuses ends the offer's handler before the buffer is
  flushed: with the description set, the buffered candidates are never applied.\<close>

lemma buffered_candidates_stranded:
  "let rx = demo_rtc\<lparr>rx_ok := (\<lambda>cs c. c \<noteq> AddLocal ''bad'')\<rparr>;
       s = run_signals rx [Candidate ''a'', Offer ''sdp'', Candidate ''b''] (fresh_state False 0 8 [''bad''] [])
   in dv_remote_set s \<and> dv_negotiated s \<and> dv_pending_remote s = [''a''] \<and> remote_adds (dv_calls s) = [''b'']"
  by (simp add: Let_def run_signals_def demo_rtc_def fresh_state_def pc_def emit_def)

section \<open>Connection events\<close>

fun conn_events :: "transport_event list \<Rightarrow> bool list" where
  "conn_events [] = []"
| "conn_events (Connected # es) = True # conn_events es"
| "conn_events (Disconnected # es) = False # conn_events es"
| "conn_events (_ # es) = conn_events es"

lemma conn_events_append [simp]: "conn_events (a @ b) = conn_events a @ conn_events b"
  by (induction a rule: conn_events.induct) auto

text \<open>A pass leaves the connection events alone except in \<open>drain_events\<close>.\<close>

definition quiet :: "role_state \<Rightarrow> role_state \<Rightarrow> bool" where
  "quiet s s' \<longleftrightarrow> conn_events (dv_events s') = conn_events (dv_events s) \<and> dv_connected s' = dv_connected s"

lemma quiet_refl [simp, inv_intros]: "quiet s s"
  by (simp add: quiet_def)

lemma quiet_trans: "quiet a b \<Longrightarrow> quiet b c \<Longrightarrow> quiet a c"
  by (simp add: quiet_def)

lemma quiet_pc [simp]: "quiet s (snd (pc rx c t)) = quiet s t"
  by (simp add: quiet_def pc_def)

lemma quiet_emit [simp]: "e \<noteq> Connected \<Longrightarrow> e \<noteq> Disconnected \<Longrightarrow> quiet s (emit e t) = quiet s t"
  by (cases e) (simp_all add: quiet_def emit_def)

lemma quiet_upd [simp]:
  "quiet s (t\<lparr>dv_remote_set := b\<rparr>) = quiet s t" "quiet s (t\<lparr>dv_negotiated := b\<rparr>) = quiet s t"
  "quiet s (t\<lparr>dv_rebuild := b\<rparr>) = quiet s t" "quiet s (t\<lparr>dv_pending_offer := o'\<rparr>) = quiet s t"
  "quiet s (t\<lparr>dv_pending_local := l\<rparr>) = quiet s t" "quiet s (t\<lparr>dv_pending_remote := l\<rparr>) = quiet s t"
  "quiet s (t\<lparr>dv_bitrate := w\<rparr>) = quiet s t" "quiet s (t\<lparr>dv_video := v\<rparr>) = quiet s t"
  "quiet s (t\<lparr>dv_calls := cs\<rparr>) = quiet s t"
  by (simp_all add: quiet_def)

lemma quiet_fold:
  assumes "\<And>x t. quiet s t \<Longrightarrow> quiet s (f x t)"
  shows "quiet s t \<Longrightarrow> quiet s (fold f xs t)"
  by (induction xs arbitrary: t) (simp_all add: assms)

lemma quiet_flush [simp]: "quiet s t \<Longrightarrow> quiet s (flush_remote_candidates rx t)"
  unfolding flush_remote_candidates_def by (rule quiet_fold) simp_all

lemma quiet_add_local: "quiet s t \<Longrightarrow> quiet s (snd (add_local_candidates rx cs t))"
proof (induction cs arbitrary: t)
  case (Cons c cs)
  obtain ok t1 where p: "pc rx (AddLocal c) t = (ok, t1)" by fastforce
  then have "quiet s t1" using Cons.prems quiet_pc [of s rx "AddLocal c" t] by simp
  then show ?case using Cons.IH p by (cases ok) simp_all
qed simp

lemma pc_eq: "pc rx c s = (rx_ok rx (dv_calls s) c, s\<lparr>dv_calls := dv_calls s @ [c]\<rparr>)"
  by (simp add: pc_def)

lemma quiet_apply_offer:
  assumes q: "quiet s t"
  shows "quiet s (snd (apply_signal rx (Offer json) t))"
proof (cases "\<not> dv_negotiated t \<and> rx_parse rx json \<and> rx_ok rx (dv_calls t) (SetRemote json)")
  case True
  let ?t2 = "t\<lparr>dv_calls := dv_calls t @ [SetRemote json], dv_remote_set := True\<rparr>"
  show ?thesis
  proof (cases "rx_answer rx (dv_calls ?t2)")
    case (Some an)
    let ?t4 = "(emit (LocalSignal (Answer an)) (?t2\<lparr>dv_calls := dv_calls ?t2 @ [SetLocal an]\<rparr>))\<lparr>dv_negotiated := True\<rparr>"
    obtain ok t5 where a: "add_local_candidates rx (dv_pending_local ?t4) (?t4\<lparr>dv_pending_local := []\<rparr>) = (ok, t5)"
      by fastforce
    have "quiet s (?t4\<lparr>dv_pending_local := []\<rparr>)" using q by simp
    from quiet_add_local [OF this, of rx "dv_pending_local ?t4"] have "quiet s t5" by (simp only: a snd_conv)
    then show ?thesis using True Some a q by (cases ok) (simp_all add: pc_eq Let_def emit_def split: bool.split)
  qed (use True q in \<open>simp add: pc_eq Let_def\<close>)
qed (use q in \<open>auto simp: pc_eq\<close>)

lemma quiet_apply: "quiet s t \<Longrightarrow> quiet s (snd (apply_signal rx m t))"
  using quiet_apply_offer by (cases m) (auto simp: pc_eq simp del: apply_signal.simps(1) split: bool.split)

lemma quiet_send_video: "quiet s t \<Longrightarrow> quiet s (send_video rx b ts t)"
  unfolding send_video_def Let_def
  by (auto split: option.split intro!: quiet_fold)

lemma quiet_commands: "quiet s t \<Longrightarrow> quiet s (snd (drain_commands rx cs hup t))"
  by (induction cs arbitrary: t rule: list.induct [case_names Nil Cons])
    (simp, case_tac x1, auto simp: quiet_apply quiet_send_video send_data_def split: option.split)

lemma quiet_turn: "quiet s (snd ts) \<Longrightarrow> quiet s (snd (turn_drain_events rx evs ts))"
  unfolding turn_drain_events_def
  by (induction evs arbitrary: ts) (auto split: prod.splits)

lemma quiet_drain_turn: "quiet s t \<Longrightarrow> quiet s (snd (drain_turn rx evs r t))"
  using quiet_turn [of s "(the r, t)" rx evs] by (auto simp: drain_turn_def split: option.splits prod.splits)

lemma quiet_reads: "quiet s t \<Longrightarrow> quiet s (drain_reads rs t)"
  unfolding drain_reads_def
proof (rule quiet_fold)
  fix x t assume q: "quiet s t"
  show "quiet s (pc_read_step x t)"
    by (cases x) (auto simp: q intro!: quiet_fold)
qed

lemma quiet_gcc: "quiet s t \<Longrightarrow> quiet s (publish_gcc b t)"
  by (simp add: publish_gcc_def split: option.split)

lemma quiet_socket: "quiet s t \<Longrightarrow> quiet s (snd (snd (read_socket rx p r t)))"
  using quiet_drain_turn [of s t rx] by (auto simp: read_socket_def pc_eq split: option.split prod.split)

fun alternating :: "bool \<Rightarrow> bool list \<Rightarrow> bool" where
  "alternating b [] = True"
| "alternating b (x # xs) = (x = b \<and> alternating (\<not> b) xs)"

text \<open>Whether the last event reported leaves the session up.\<close>

definition up_after :: "bool list \<Rightarrow> bool" where
  "up_after bs = (bs \<noteq> [] \<and> last bs)"

lemma alternating_snoc:
  "alternating True (bs @ [x]) \<longleftrightarrow> alternating True bs \<and> x = (\<not> up_after bs)"
proof -
  have "alternating b (bs @ [x]) \<longleftrightarrow> alternating b bs \<and> x = (if bs = [] then b else \<not> last bs)" for b
    by (induction bs arbitrary: b) auto
  then show ?thesis by (auto simp: up_after_def)
qed

definition conn_inv :: "role_state \<Rightarrow> bool" where
  "conn_inv s \<longleftrightarrow> alternating True (conn_events (dv_events s))
     \<and> dv_connected s = up_after (conn_events (dv_events s))"

lemma conn_inv_quiet: "conn_inv s \<Longrightarrow> quiet s t \<Longrightarrow> conn_inv t"
  by (simp add: conn_inv_def quiet_def)

lemma conn_inv_event: "conn_inv s \<Longrightarrow> conn_inv (pc_event_step e s)"
  by (cases "(e, s)" rule: pc_event_step.cases)
    (auto simp: conn_inv_def emit_def alternating_snoc up_after_def)

lemma conn_inv_events: "conn_inv s \<Longrightarrow> conn_inv (drain_events es s)"
  unfolding drain_events_def by (induction es arbitrary: s) (simp_all add: conn_inv_event)

lemma conn_inv_pass:
  assumes "conn_inv s" "loop_pass rx p t s = (out, direct, t', s')"
  shows "conn_inv s'"
proof -
  obtain stop s1 where c: "drain_commands rx (ps_cmds p) (ps_closed p) s = (stop, s1)" by fastforce
  then have "conn_inv s1"
    using conn_inv_quiet [OF assms(1)] quiet_commands [of s s rx "ps_cmds p" "ps_closed p"] by simp
  moreover obtain direct1 t1 where f: "flush_writes (ps_writes p) t = (direct1, t1)" by fastforce
  moreover obtain t2 s2 where d: "drain_turn rx (ps_relayed p) t1 s1 = (t2, s2)" by fastforce
  ultimately have "conn_inv s2"
    using conn_inv_quiet [of s1 s2] quiet_drain_turn [of s1 s1 rx "ps_relayed p" t1] by simp
  then have 3: "conn_inv (drain_events (ps_events p) s2)" (is "conn_inv ?s3") by (rule conn_inv_events)
  let ?s4 = "publish_gcc (ps_gcc p) (drain_reads (ps_reads p) ?s3)"
  obtain ok t3 s5 where r: "read_socket rx p t2 ?s4 = (ok, t3, s5)" by (metis prod_cases3)
  have "quiet ?s3 ?s4" by (intro quiet_gcc quiet_reads quiet_refl)
  then have 5: "conn_inv s5"
    using conn_inv_quiet [OF 3, of s5] quiet_socket [of ?s3 ?s4 rx p t2] r by simp
  have "quiet ?s3 ((snd (pc rx PcClose ?s3))\<lparr>dv_pending_offer := None\<rparr>)" by simp
  then have 6: "conn_inv ((snd (pc rx PcClose ?s3))\<lparr>dv_pending_offer := None\<rparr>)"
    by (rule conn_inv_quiet [OF 3])
  have 7: "conn_inv (snd (pc rx PcClose s1))"
    using conn_inv_quiet [OF \<open>conn_inv s1\<close>, of "snd (pc rx PcClose s1)"] by simp
  show ?thesis
    using assms(2) c f d r 5 6 7
    by (cases stop) (auto simp: loop_pass_def Let_def split: if_splits)
qed

text \<open>A session: passes until one ends it.\<close>

fun run_passes ::
  "rtc \<Rightarrow> pass list \<Rightarrow> turn_relay option \<Rightarrow> role_state \<Rightarrow> loop_outcome option \<times> turn_relay option \<times> role_state" where
  "run_passes rx [] t s = (None, t, s)"
| "run_passes rx (p # ps) t s =
    (case loop_pass rx p t s of
       (None, direct, t', s') \<Rightarrow> run_passes rx ps t' s'
     | (Some out, direct, t', s') \<Rightarrow> (Some out, t', s'))"

lemma conn_inv_passes:
  "conn_inv s \<Longrightarrow> run_passes rx ps t s = (out, t', s') \<Longrightarrow> conn_inv s'"
proof (induction ps arbitrary: t s)
  case (Cons p ps)
  obtain o1 direct t1 s1 where l: "loop_pass rx p t s = (o1, direct, t1, s1)" by (metis prod_cases4)
  have "conn_inv s1" by (rule conn_inv_pass [OF Cons.prems(1) l])
  then show ?case using Cons.IH Cons.prems(2) l by (cases o1) auto
qed simp

lemma loss_rebuilds:
  "dv_connected s \<Longrightarrow> \<not> dv_connected (drain_events es s) \<Longrightarrow> dv_rebuild (drain_events es s)"
  unfolding drain_events_def
proof (induction es arbitrary: s)
  case (Cons e es)
  have mono: "dv_rebuild s \<Longrightarrow> dv_rebuild (fold pc_event_step es s)" for s
  proof (induction es arbitrary: s)
    case (Cons e es)
    have "dv_rebuild (pc_event_step e s)"
      using Cons.prems by (cases "(e, s)" rule: pc_event_step.cases) (auto simp: emit_def)
    then show ?case using Cons.IH by simp
  qed simp
  show ?case
  proof (cases "dv_connected (pc_event_step e s)")
    case False
    then have "dv_rebuild (pc_event_step e s)"
      using Cons.prems(1) by (cases "(e, s)" rule: pc_event_step.cases) (auto simp: emit_def)
    then show ?thesis using mono by simp
  qed (use Cons in simp)
qed simp

text \<open>Within a session the application sees connection events strictly in turn, first
  Connected, then Disconnected, and the flag behind them is exactly whether the last one
  was Connected, whatever commands, signals, engine events and datagrams arrive.\<close>

theorem connection_events_alternate:
  assumes "run_passes rx ps t (fresh_state host ssrc bitrate pending []) = (out, t', s')"
  shows "alternating True (conn_events (dv_events s'))
    \<and> dv_connected s' = up_after (conn_events (dv_events s'))"
proof -
  have "conn_inv (fresh_state host ssrc bitrate pending [])"
    by (simp add: conn_inv_def fresh_state_def up_after_def)
  from conn_inv_passes [OF this assms] show ?thesis by (simp add: conn_inv_def)
qed

definition idle_pass :: pass where
  "idle_pass = \<lparr> ps_cmds = [], ps_closed = False, ps_writes = [], ps_relayed = [], ps_events = [],
     ps_reads = [], ps_gcc = None, ps_timer_fired = None, ps_datagram = None, ps_relayed_after = [] \<rparr>"

lemma connection_events_alternate_witness:
  "\<exists>s'. run_passes demo_rtc [idle_pass\<lparr>ps_events := [ConnState CsConnected, ConnState CsConnected]\<rparr>,
       idle_pass\<lparr>ps_events := [ConnState CsFailed]\<rparr>] None (fresh_state True 1 8 [] [])
     = (Some (Reconnect None), None, s') \<and> conn_events (dv_events s') = [True, False]
     \<and> alternating True (conn_events (dv_events s'))"
proof -
  let ?r = "run_passes demo_rtc [idle_pass\<lparr>ps_events := [ConnState CsConnected, ConnState CsConnected]\<rparr>,
       idle_pass\<lparr>ps_events := [ConnState CsFailed]\<rparr>] None (fresh_state True 1 8 [] [])"
  obtain out t' s' where r: "?r = (out, t', s')" by (metis prod_cases3)
  have "out = Some (Reconnect None) \<and> t' = None \<and> conn_events (dv_events s') = [True, False]"
    using r by (auto simp: idle_pass_def fresh_state_def loop_pass_def flush_writes_def drain_turn_def
        drain_events_def drain_reads_def publish_gcc_def read_socket_def demo_rtc_def pc_def emit_def Let_def)
  then show ?thesis using r connection_events_alternate [OF r] by simp
qed

text \<open>A restart the host asks for while a viewer is connected ends the session without a
  Disconnected: the next session's Connected follows directly on the previous one.\<close>

lemma restart_hides_disconnect:
  "\<exists>s' s''. run_passes demo_rtc [idle_pass\<lparr>ps_events := [ConnState CsConnected]\<rparr>,
       idle_pass\<lparr>ps_cmds := [CmdIceRestart]\<rparr>] None (fresh_state True 1 8 [] [])
     = (Some (Reconnect None), None, s')
   \<and> run_passes demo_rtc [idle_pass\<lparr>ps_events := [ConnState CsConnected]\<rparr>] None
       (fresh_state True 2 8 [] (dv_events s')) = (None, None, s'')
   \<and> dv_events s'' = [Connected, Connected]"
  by (simp add: idle_pass_def fresh_state_def loop_pass_def flush_writes_def drain_turn_def
        drain_events_def drain_reads_def publish_gcc_def read_socket_def demo_rtc_def pc_def emit_def Let_def)

section \<open>RTP time\<close>

text \<open>The clock ticks the frames of a capture run add, frame by frame.\<close>

fun ticks :: "u64 option \<Rightarrow> u64 list \<Rightarrow> nat" where
  "ticks prev_ts [] = 0"
| "ticks prev_ts (t # ts) = unat (rtp_samples prev_ts t) + ticks (Some t) ts"

lemma send_video_stamp:
  "dv_video s = Some v \<Longrightarrow> dv_video (send_video rx b ts s) = Some (v\<lparr>vs_last_ts := Some ts\<rparr>)"
proof -
  have f: "dv_video (fold (\<lambda>p s. snd (pc rx (c p) s)) ps s) = dv_video s" for c ps s
    by (induction ps arbitrary: s) (simp_all add: pc_def)
  show "dv_video s = Some v \<Longrightarrow> dv_video (send_video rx b ts s) = Some (v\<lparr>vs_last_ts := Some ts\<rparr>)"
    by (simp add: send_video_def Let_def f split: option.split)
qed

lemma rtp_samples_gap:
  assumes "prev < ts" "unat ts - unat prev < 47721858844"
  shows "unat (rtp_samples (Some prev) ts) = (unat ts - unat prev) * 90000 div 1000000"
proof -
  have d: "unat (ts - prev) = unat ts - unat prev" using assms(1) by (simp add: unat_sub less_imp_le)
  have "(unat ts - unat prev) * 90000 div 1000000 < 2 ^ LENGTH(32)" using assms(2) by simp
  then show ?thesis using assms(1) unfolding rtp_samples_def d VIDEO_CLOCK_RATE_def
    by (simp add: d unat_of_nat take_bit_nat_eq_self)
qed

text \<open>The RTP clock follows the capture clock: over frames whose timestamps increase by
  less than 13 hours each, the ticks added never run ahead of the elapsed time at 90 kHz
  and fall behind by less than one tick per frame.\<close>

theorem rtp_clock_tracks_capture:
  assumes "sorted_wrt (<) (t0 # ts)" "\<forall>i < length ts. unat (ts ! i) - unat ((t0 # ts) ! i) < 47721858844"
  shows "ticks (Some t0) ts * 1000000 \<le> (unat (last (t0 # ts)) - unat t0) * 90000
    \<and> (unat (last (t0 # ts)) - unat t0) * 90000 \<le> (ticks (Some t0) ts + length ts) * 1000000"
  using assms
proof (induction ts arbitrary: t0)
  case (Cons t ts)
  have lt: "t0 < t" "unat t - unat t0 < 47721858844"
    using Cons.prems(1) Cons.prems(2) [rule_format, of 0] by auto
  have "sorted_wrt (<) (t # ts)" using Cons.prems(1) by simp
  moreover have "\<forall>i < length ts. unat (ts ! i) - unat ((t # ts) ! i) < 47721858844"
    using Cons.prems(2) by (metis (no_types, lifting) Suc_less_eq length_Cons nth_Cons_Suc)
  ultimately have IH: "ticks (Some t) ts * 1000000 \<le> (unat (last (t # ts)) - unat t) * 90000"
    "(unat (last (t # ts)) - unat t) * 90000 \<le> (ticks (Some t) ts + length ts) * 1000000"
    using Cons.IH by blast+
  have le: "unat t0 < unat t" using lt(1) by (simp add: word_less_nat_alt)
  have "t \<le> last (t # ts)" using \<open>sorted_wrt (<) (t # ts)\<close> by (cases ts rule: rev_cases) (auto simp: sorted_wrt_append)
  then have le': "unat t \<le> unat (last (t # ts))" by (simp add: word_le_nat_alt)
  define g where "g = (unat t - unat t0) * 90000"
  have g: "unat (rtp_samples (Some t0) t) * 1000000 \<le> g" "g \<le> (unat (rtp_samples (Some t0) t) + 1) * 1000000"
    using rtp_samples_gap [OF lt] by (simp_all add: g_def)
  have split: "(unat (last (t0 # t # ts)) - unat t0) * 90000 = g + (unat (last (t # ts)) - unat t) * 90000"
    using le le' by (simp add: g_def flip: add_mult_distrib)
  show ?case unfolding split using IH g by simp
qed simp

lemma rtp_clock_tracks_capture_witness:
  "ticks (Some 0) [33333, 66666, 100000] * 1000000 \<le> 100000 * 90000 \<and> ticks (Some 0) [33333, 66666, 100000] = 8998"
proof -
  have "sorted_wrt (<) (0 # [33333, 66666, 100000 :: u64])" by simp
  moreover have "unat ([33333, 66666, 100000 :: u64] ! i) - unat ((0 # [33333, 66666, 100000 :: u64]) ! i) < 47721858844"
    if "i < length [33333, 66666, 100000 :: u64]" for i
  proof -
    have "i = 0 \<or> i = 1 \<or> i = 2" using that by auto
    then show ?thesis by (elim disjE) simp_all
  qed
  ultimately have "ticks (Some 0) [33333, 66666, 100000] * 1000000
      \<le> (unat (last (0 # [33333, 66666, 100000 :: u64])) - unat (0 :: u64)) * 90000"
    using rtp_clock_tracks_capture [of 0 "[33333, 66666, 100000]"] by blast
  then have "ticks (Some 0) [33333, 66666, 100000] * 1000000 \<le> 100000 * 90000" by simp
  moreover have "ticks (Some 0) [33333, 66666, 100000] = 8998" by (simp add: rtp_samples_def VIDEO_CLOCK_RATE_def)
  ultimately show ?thesis by simp
qed

section \<open>Relay routing\<close>

definition permissions :: "turn_relay \<Rightarrow> ip_addr list" where
  "permissions t = List.map_filter (\<lambda>c. case c of CreatePermission p \<Rightarrow> Some (fst p) | _ \<Rightarrow> None) (tr_calls t)"

lemma permissions_call:
  "permissions (turn_call (CreatePermission p) t) = (if tr_live t then permissions t @ [fst p] else permissions t)"
  "permissions (turn_call (RelaySend p m) t) = permissions t"
  by (simp_all add: turn_call_def permissions_def map_filter_def)

lemma turn_call_simps [simp]:
  "tr_permitted (turn_call c t) = tr_permitted t" "tr_relayed_peers (turn_call c t) = tr_relayed_peers t"
  "tr_live (turn_call c t) = tr_live t"
  by (simp_all add: turn_call_def)

lemma route_out_facts:
  assumes "route_out peer msg t = (r, t1)"
  shows "tr_live t1 = tr_live t" "tr_permitted t1 = insert (fst peer) (tr_permitted t)"
    "tr_relayed_peers t1 = tr_relayed_peers t" "r = (peer \<in> tr_relayed_peers t)"
    "tr_live t \<Longrightarrow> permissions t1 = (if fst peer \<in> tr_permitted t then permissions t else permissions t @ [fst peer])"
proof -
  have perm: "permissions (t\<lparr>tr_permitted := X\<rparr>) = permissions t" for X by (simp add: permissions_def)
  obtain u where u: "u = (if fst peer \<in> tr_permitted t then t
     else turn_call (CreatePermission peer) (t\<lparr>tr_permitted := insert (fst peer) (tr_permitted t)\<rparr>))"
    by blast
  have "(if peer \<in> tr_relayed_peers u then (True, turn_call (RelaySend peer msg) u) else (False, u)) = (r, t1)"
    using assms unfolding route_out_def Let_def u .
  then have r: "r = (peer \<in> tr_relayed_peers u)" "t1 = (if r then turn_call (RelaySend peer msg) u else u)"
    by (cases "peer \<in> tr_relayed_peers u"; simp)+
  show "tr_live t1 = tr_live t" "tr_permitted t1 = insert (fst peer) (tr_permitted t)"
    "tr_relayed_peers t1 = tr_relayed_peers t" "r = (peer \<in> tr_relayed_peers t)"
    unfolding r u by auto
  show "permissions t1 = (if fst peer \<in> tr_permitted t then permissions t else permissions t @ [fst peer])"
    if "tr_live t"
    unfolding r u using that by (simp add: permissions_call perm)
qed

text \<open>Relay routing: a datagram goes through the relay exactly when its peer is known to
  be reachable only there and straight to the socket otherwise; on a live allocation the
  relay is asked for a permission once per peer address and never again in the session.\<close>

theorem relay_routing:
  assumes "tr_live t" "distinct (permissions t)" "set (permissions t) = tr_permitted t"
    and "flush_writes ws (Some t) = (direct, Some t')"
  shows "direct = filter (\<lambda>(peer, msg). peer \<notin> tr_relayed_peers t) ws
    \<and> distinct (permissions t') \<and> set (permissions t') = tr_permitted t \<union> fst ` fst ` set ws"
proof -
  have *: "\<exists>t'. fold (\<lambda>(peer, msg) (direct, t).
      (case t of
         None \<Rightarrow> (direct @ [(peer, msg)], None)
       | Some t \<Rightarrow> (case route_out peer msg t of
            (relayed, t') \<Rightarrow> (if relayed then direct else direct @ [(peer, msg)], Some t')))) ws (d0, Some t)
      = (d0 @ filter (\<lambda>(peer, msg). peer \<notin> tr_relayed_peers t) ws, Some t')
     \<and> distinct (permissions t') \<and> set (permissions t') = tr_permitted t \<union> fst ` fst ` set ws"
    if "tr_live t" "distinct (permissions t)" "set (permissions t) = tr_permitted t" for d0
    using that
  proof (induction ws arbitrary: t d0)
    case (Cons w ws)
    obtain peer msg where w: "w = (peer, msg)" by (cases w)
    obtain r t1 where o: "route_out peer msg t = (r, t1)" by fastforce
    have t1: "tr_live t1" "distinct (permissions t1)" "set (permissions t1) = tr_permitted t1"
      "tr_permitted t1 = insert (fst peer) (tr_permitted t)" "tr_relayed_peers t1 = tr_relayed_peers t"
      "r = (peer \<in> tr_relayed_peers t)"
      using route_out_facts [OF o] Cons.prems by auto
    show ?case
      using Cons.IH [OF t1(1-3), of "if r then d0 else d0 @ [(peer, msg)]"] o t1(4-6) by (auto simp: w)
  qed simp
  show ?thesis using * [OF assms(1-3), of "[]"] assms(4) by (auto simp: flush_writes_def)
qed

lemma flush_writes_snoc:
  "flush_writes (ws @ [(peer, msg)]) t0 = (case flush_writes ws t0 of
     (direct, None) \<Rightarrow> (direct @ [(peer, msg)], None)
   | (direct, Some t) \<Rightarrow> (case route_out peer msg t of
       (relayed, t') \<Rightarrow> (if relayed then direct else direct @ [(peer, msg)], Some t')))"
  by (simp add: flush_writes_def split: prod.splits option.splits)

lemma flush_writes_some: "\<exists>d t'. flush_writes ws (Some t) = (d, Some t')"
proof (induction ws rule: rev_induct)
  case (snoc w ws)
  then obtain d t' where "flush_writes ws (Some t) = (d, Some t')" by blast
  then show ?case by (cases w) (simp add: flush_writes_snoc split: prod.split)
qed (simp add: flush_writes_def)

lemma relay_routing_witness:
  "\<exists>direct t'. flush_writes [((V4 1, 9), [1]), ((V4 2, 9), [2]), ((V4 1, 9), [3])]
       (Some \<lparr> tr_server = (V4 7, 3478), tr_relayed_addr = (V4 8, 1), tr_relayed_peers = {(V4 2, 9)},
               tr_permitted = {}, tr_live = True, tr_calls = [] \<rparr>) = (direct, Some t')
     \<and> direct = [((V4 1, 9), [1]), ((V4 1, 9), [3])] \<and> distinct (permissions t')"
proof -
  let ?t = "\<lparr> tr_server = (V4 7, 3478), tr_relayed_addr = (V4 8, 1), tr_relayed_peers = {(V4 2, 9)},
               tr_permitted = {}, tr_live = True, tr_calls = [] \<rparr> :: turn_relay"
  let ?ws = "[((V4 1, 9), [1]), ((V4 2, 9), [2]), ((V4 1, 9), [3])] :: (sock_addr \<times> bytes) list"
  obtain direct t' where f: "flush_writes ?ws (Some ?t) = (direct, Some t')"
    using flush_writes_some by blast
  have "tr_live ?t" "distinct (permissions ?t)" "set (permissions ?t) = tr_permitted ?t"
    by (simp_all add: permissions_def map_filter_def)
  from relay_routing [OF this f] show ?thesis using f by simp
qed

end
