(* ===== verification/Clipboard.thy ===== *)
theory Clipboard
  imports Protocol
begin

text \<open>
  Clipboard synchronisation (\<open>crates/session/src/clipboard.rs\<close>): the state of the sync
  thread and one turn of its loop.  The operating system's clipboard is a value, its
  \<open>set_text\<close> may fail as an oracle decides, and \<open>cl_text = None\<close> is a clipboard without
  text (\<open>get_text\<close> fails).
\<close>

record clip =
  cl_up :: bool
  cl_text :: "string option"
  cl_last_hash :: u64
  cl_seq :: u64
  cl_queue :: "clipboard_update list"
  cl_out :: "envelope_msg list"
  cl_sets :: nat
  cl_set_ok :: "nat \<Rightarrow> bool"

definition clip_spawn :: "bool \<Rightarrow> string option \<Rightarrow> (nat \<Rightarrow> bool) \<Rightarrow> clip" where
  "clip_spawn up text set_ok = \<lparr> cl_up = up, cl_text = text, cl_last_hash = 0, cl_seq = 0,
     cl_queue = [], cl_out = [], cl_sets = 0, cl_set_ok = set_ok \<rparr>"

definition apply_remote :: "clipboard_update \<Rightarrow> clip \<Rightarrow> clip" where
  "apply_remote u c = c\<lparr>cl_queue := cl_queue c @ [u]\<rparr>"

definition set_text :: "string \<Rightarrow> clip \<Rightarrow> bool \<times> clip" where
  "set_text t c =
    (if cl_set_ok c (cl_sets c) then (True, c\<lparr>cl_text := Some t, cl_sets := Suc (cl_sets c)\<rparr>)
     else (False, c\<lparr>cl_sets := Suc (cl_sets c)\<rparr>))"

definition take_update :: "clipboard_update \<Rightarrow> clip \<Rightarrow> clip" where
  "take_update u c =
    (if c_kind u = KIND_TEXT then
       (case from_utf8 (c_data u) of
          None \<Rightarrow> c
        | Some text \<Rightarrow>
            (case set_text text c of
               (True, c1) \<Rightarrow> c1\<lparr>cl_last_hash := c_origin_hash u\<rparr>
             | (False, c1) \<Rightarrow> c1))
     else c)"

definition poll_local :: "clip \<Rightarrow> clip" where
  "poll_local c =
    (case cl_text c of
       None \<Rightarrow> c
     | Some text \<Rightarrow>
         if text = [] then c
         else
           let h = fnv1a (str_bytes text)
           in if h \<noteq> cl_last_hash c
              then c\<lparr>cl_last_hash := h, cl_seq := cl_seq c + 1,
                     cl_out := cl_out c @ [clipboard_text text (cl_seq c + 1)]\<rparr>
              else c)"

definition clip_turn :: "clip \<Rightarrow> clip" where
  "clip_turn c =
    (if cl_up c then poll_local (fold take_update (cl_queue c) (c\<lparr>cl_queue := []\<rparr>)) else c)"

section \<open>No echo\<close>

text \<open>The update an honest peer makes of a text.\<close>

definition update_of :: "string \<Rightarrow> u64 \<Rightarrow> clipboard_update" where
  "update_of text seq = \<lparr> c_kind = KIND_TEXT, c_data = str_bytes text, c_seq = seq,
     c_origin_hash = fnv1a (str_bytes text) \<rparr>"

lemma clipboard_text_update: "clipboard_text text seq = envelope (P_Clipboard (update_of text seq))"
  by (simp add: clipboard_text_def update_of_def Let_def)

text \<open>A thread at rest: nothing queued, and what the clipboard holds is what was last sent or
  applied, so that a turn does nothing.\<close>

definition settled :: "clip \<Rightarrow> bool" where
  "settled c \<longleftrightarrow> cl_queue c = [] \<and>
     (case cl_text c of None \<Rightarrow> True | Some t \<Rightarrow> t = [] \<or> cl_last_hash c = fnv1a (str_bytes t))"

lemma settled_turn: "settled c \<Longrightarrow> clip_turn c = c"
  by (auto simp: settled_def clip_turn_def poll_local_def split: option.splits)

lemma poll_settles: "cl_queue c = [] \<Longrightarrow> settled (poll_local c)"
  by (auto simp: settled_def poll_local_def Let_def split: option.splits)

lemma take_update_honest:
  assumes "utf8_valid (str_bytes text)" "cl_set_ok c (cl_sets c)"
  shows "take_update (update_of text seq) c
    = c\<lparr>cl_text := Some text, cl_sets := Suc (cl_sets c), cl_last_hash := fnv1a (str_bytes text)\<rparr>"
  using assms by (simp add: take_update_def update_of_def from_utf8_def set_text_def)

text \<open>Clipboard sync does not echo: a text copied on one side is sent to the peer exactly
  once, with the next sequence number; the peer's clipboard becomes that text, the peer sends
  nothing back, and both threads are then at rest.\<close>

theorem clipboard_no_echo:
  assumes a: "cl_up a" "cl_queue a = []" "cl_text a = Some text" "text \<noteq> []"
      "cl_last_hash a \<noteq> fnv1a (str_bytes text)"
    and b: "cl_up b" "cl_queue b = []" "cl_set_ok b (cl_sets b)"
    and u: "utf8_valid (str_bytes text)"
  shows "let a' = clip_turn a; upd = update_of text (cl_seq a + 1); b' = clip_turn (apply_remote upd b)
    in cl_out a' = cl_out a @ [envelope (P_Clipboard upd)] \<and> cl_text b' = Some text
     \<and> cl_out b' = cl_out b \<and> clip_turn a' = a' \<and> clip_turn b' = b'"
proof -
  have same: "cl_queue c = [] \<Longrightarrow> c\<lparr>cl_queue := []\<rparr> = c" for c :: clip by (cases c) simp
  have ta: "clip_turn a = a\<lparr>cl_last_hash := fnv1a (str_bytes text), cl_seq := cl_seq a + 1,
      cl_out := cl_out a @ [clipboard_text text (cl_seq a + 1)]\<rparr>"
    using a by (simp add: clip_turn_def poll_local_def Let_def same)
  have tb: "clip_turn (apply_remote (update_of text (cl_seq a + 1)) b)
      = b\<lparr>cl_text := Some text, cl_sets := Suc (cl_sets b), cl_last_hash := fnv1a (str_bytes text)\<rparr>"
    using b a(4) take_update_honest [OF u, of b]
    by (simp add: clip_turn_def apply_remote_def poll_local_def Let_def same)
  have "settled (clip_turn a)" "settled (clip_turn (apply_remote (update_of text (cl_seq a + 1)) b))"
    unfolding ta tb using a b by (simp_all add: settled_def)
  then show ?thesis using settled_turn by (simp add: Let_def ta tb clipboard_text_update)
qed

lemma clipboard_no_echo_witness:
  "cl_text (clip_turn (apply_remote (update_of ''hi'' 1) (clip_spawn True None (\<lambda>_. True)))) = Some ''hi''"
proof -
  let ?a = "clip_spawn True (Some ''hi'') (\<lambda>_. True)" and ?b = "clip_spawn True None (\<lambda>_. True)"
  have h: "fnv1a (str_bytes ''hi'') \<noteq> 0" by code_simp
  have u: "utf8_valid (str_bytes ''hi'')" by code_simp
  show ?thesis
    using clipboard_no_echo [of ?a "''hi''" ?b] h u by (simp add: clip_spawn_def Let_def)
qed

end
