(* ===== verification/FileTransfer.thy ===== *)
theory FileTransfer
  imports Protocol Disk
begin

text \<open>
  Resumable file transfer (\<open>crates/session/src/filexfer.rs\<close>): the manager
  \<open>FileTransfers\<close> with its receive side (one handler per envelope kind), its send
  side, and the body of the per-transfer send thread, one loop iteration at a time.
  Outgoing envelopes and UI events are logs; \<open>sha\<close> stands for the \<open>sha2\<close> crate's
  SHA-256 and is a parameter of every operation that hashes.
\<close>

definition CHUNK :: nat where "CHUNK = 16 * 1024"
definition WINDOW :: nat where "WINDOW = 1024 * 1024"
definition ACK_EVERY :: nat where "ACK_EVERY = 256 * 1024"

datatype file_event =
    Offered string string nat
  | Progress string nat nat
  | Completed string "string option"
  | Failed string string

text \<open>\<open>SendShared\<close>: the atomics shared between the manager and one send thread.\<close>

record send_shared =
  ss_acked :: nat
  ss_started :: bool
  ss_cancel :: bool

text \<open>\<open>RecvState\<close>: \<open>file\<close> is the open inode and its cursor; \<open>hasher\<close> the bytes fed to
  the digest so far.\<close>

record recv_state =
  rs_ino :: nat
  rs_pos :: nat
  rs_part :: string
  rs_final :: string
  rs_written :: nat
  rs_size :: nat
  rs_last_ack :: nat
  rs_hashed :: bytes

text \<open>The send thread between two steps.\<close>

datatype send_phase =
    SHash
  | SWait bytes nat
  | SStream bytes nat nat
  | SDone

record sender =
  sn_path :: string
  sn_tid :: string
  sn_size :: nat
  sn_shared :: nat
  sn_phase :: send_phase

record ft =
  ft_dir :: string
  ft_disk :: disk
  ft_out :: "envelope_msg list"
  ft_events :: "file_event list"
  ft_recvs :: "string \<Rightarrow> recv_state option"
  ft_sends :: "string \<Rightarrow> nat option"
  ft_shared :: "nat \<Rightarrow> send_shared"
  ft_threads :: "sender list"
  ft_seq :: nat

section \<open>Names and paths\<close>

definition is_sep :: "char \<Rightarrow> bool" where
  "is_sep c = (c = CHR ''/'' \<or> c = CHR 0x5C)"

definition sanitize :: "string \<Rightarrow> string" where
  "sanitize name =
    (let base = last_segment is_sep name;
         base = trim_matches (\<lambda>c. c = CHR ''.'') base
     in if base = [] then ''file'' else base)"

definition with_ext :: "string \<Rightarrow> string \<Rightarrow> string" where
  "with_ext path ext = path @ ''.'' @ ext"

text \<open>\<open>Path::join\<close>: an absolute argument replaces the base.\<close>

definition path_join :: "string \<Rightarrow> string \<Rightarrow> string" where
  "path_join dir name =
    (if name \<noteq> [] \<and> hd name = CHR ''/'' then name
     else if dir = [] \<or> last dir = CHR ''/'' then dir @ name
     else dir @ ''/'' @ name)"

text \<open>\<open>Path::file_name\<close> and \<open>Path::extension\<close>.\<close>

definition file_name :: "string \<Rightarrow> string option" where
  "file_name p =
    (let cs = filter (\<lambda>c. c \<noteq> [] \<and> c \<noteq> ''.'') (split_on (CHR ''/'') p)
     in if cs = [] \<or> last cs = ''..'' then None else Some (last cs))"

definition extension :: "string \<Rightarrow> string option" where
  "extension p =
    (case file_name p of
       None \<Rightarrow> None
     | Some n \<Rightarrow>
         (let e = last_segment (\<lambda>c. c = CHR ''.'') n
          in if length e = length n \<or> length e + 1 = length n then None else Some e))"

definition mime_for :: "string \<Rightarrow> string" where
  "mime_for p =
    (case extension p of
       Some e \<Rightarrow>
         if e = ''txt'' then ''text/plain''
         else if e = ''png'' then ''image/png''
         else if e = ''jpg'' \<or> e = ''jpeg'' then ''image/jpeg''
         else if e = ''pdf'' then ''application/pdf''
         else if e = ''zip'' then ''application/zip''
         else ''application/octet-stream''
     | None \<Rightarrow> ''application/octet-stream'')"

section \<open>Receiving\<close>

definition ft_emit :: "envelope_msg \<Rightarrow> ft \<Rightarrow> ft" where
  "ft_emit e s = s\<lparr>ft_out := ft_out s @ [e]\<rparr>"

definition ft_event :: "file_event \<Rightarrow> ft \<Rightarrow> ft" where
  "ft_event e s = s\<lparr>ft_events := ft_events s @ [e]\<rparr>"

definition ft_fail :: "string \<Rightarrow> string \<Rightarrow> ft \<Rightarrow> ft" where
  "ft_fail tid reason s = ft_event (Failed tid reason) s"

text \<open>The loop of \<open>on_offer\<close> that re-hashes the bytes already on disk: reads of at most
  \<open>CHUNK\<close> until \<open>left\<close> is used up, the file ends or a read fails.\<close>

function rehash :: "nat \<Rightarrow> nat \<Rightarrow> nat \<Rightarrow> bytes \<Rightarrow> disk \<Rightarrow> bytes \<times> disk" where
  "rehash i pos left acc d =
    (if left = 0 then (acc, d)
     else case d_read i pos (min left CHUNK) d of
       (None, d') \<Rightarrow> (acc, d')
     | (Some bs, d') \<Rightarrow>
         if bs = [] then (acc, d')
         else rehash i (pos + length bs) (left - length bs) (acc @ bs) d')"
  by pat_completeness auto
termination
  by (relation "measure (\<lambda>(i, pos, left, acc, d). left)") auto

declare rehash.simps [simp del]

definition resume_hash :: "string \<Rightarrow> nat \<Rightarrow> disk \<Rightarrow> bytes \<times> disk" where
  "resume_hash part resume d =
    (if resume > 0 then
       (case d_open part d of
          (Some i, d') \<Rightarrow> rehash i 0 resume [] d'
        | (None, d') \<Rightarrow> ([], d'))
     else ([], d))"

definition on_offer :: "file_offer_msg \<Rightarrow> ft \<Rightarrow> ft" where
  "on_offer msg s =
    (let final_path = path_join (ft_dir s) (sanitize (o_name msg));
         part_path = with_ext final_path ''part'';
         tid = o_transfer_id msg;
         sz = unat (o_size msg);
         (mk, d1) = d_create_dir (ft_disk s)
     in if \<not> mk then ft_fail tid ''mkdir'' (s\<lparr>ft_disk := d1\<rparr>)
        else
          let (len, d2) = d_len part_path d1;
              existing = (case len of None \<Rightarrow> 0 | Some n \<Rightarrow> n);
              resume = min existing sz;
              (hashed, d3) = resume_hash part_path resume d2
          in case d_open_create part_path d3 of
               (None, d4) \<Rightarrow> ft_fail tid ''open .part'' (s\<lparr>ft_disk := d4\<rparr>)
             | (Some i, d4) \<Rightarrow>
                 let (_, d5) = d_set_len i resume d4;
                     (sk, d6) = d_seek resume d5;
                     st = \<lparr> rs_ino = i, rs_pos = (if sk then resume else 0),
                            rs_part = part_path, rs_final = final_path,
                            rs_written = resume, rs_size = sz, rs_last_ack = resume,
                            rs_hashed = hashed \<rparr>
                 in ft_emit (file_ack tid (of_nat resume))
                      (ft_event (Offered tid (o_name msg) sz)
                        (s\<lparr>ft_disk := d6, ft_recvs := (ft_recvs s)(tid \<mapsto> st)\<rparr>)))"

definition on_chunk :: "string \<Rightarrow> u64 \<Rightarrow> bytes \<Rightarrow> ft \<Rightarrow> ft" where
  "on_chunk tid offset data s =
    (case ft_recvs s tid of
       None \<Rightarrow> s
     | Some st \<Rightarrow>
         if unat offset \<noteq> rs_written st then
           (if unat offset < rs_written st then s else ft_fail tid ''chunk gap'' s)
         else
           let (ok, pos', d') = d_write_all (rs_ino st) (rs_pos st) data (ft_disk s)
           in if \<not> ok then
                ft_fail tid ''write''
                  (s\<lparr>ft_disk := d', ft_recvs := (ft_recvs s)(tid \<mapsto> st\<lparr>rs_pos := pos'\<rparr>)\<rparr>)
              else
                let written = rs_written st + length data;
                    st' = st\<lparr>rs_pos := pos', rs_hashed := rs_hashed st @ data, rs_written := written\<rparr>;
                    s' = ft_event (Progress tid written (rs_size st))
                           (s\<lparr>ft_disk := d', ft_recvs := (ft_recvs s)(tid \<mapsto> st')\<rparr>)
                in if written - rs_last_ack st \<ge> ACK_EVERY \<or> written = rs_size st then
                     ft_emit (file_ack tid (of_nat written))
                       (s'\<lparr>ft_recvs := (ft_recvs s')(tid \<mapsto> st'\<lparr>rs_last_ack := written\<rparr>)\<rparr>)
                   else s')"

definition on_complete :: "(bytes \<Rightarrow> bytes) \<Rightarrow> string \<Rightarrow> bytes \<Rightarrow> ft \<Rightarrow> ft" where
  "on_complete sha tid sha256 s =
    (case ft_recvs s tid of
       None \<Rightarrow> s
     | Some st \<Rightarrow>
         let s1 = s\<lparr>ft_recvs := (ft_recvs s)(tid := None), ft_disk := tick (ft_disk s)\<rparr>
         in if rs_written st \<noteq> rs_size st then
              let s2 = ft_fail tid ''short transfer'' s1
              in s2\<lparr>ft_disk := snd (d_remove (rs_part st) (ft_disk s2))\<rparr>
            else if sha (rs_hashed st) \<noteq> sha256 then
              let s2 = ft_fail tid ''integrity check failed'' s1
              in s2\<lparr>ft_disk := snd (d_remove (rs_part st) (ft_disk s2))\<rparr>
            else
              let (ok, d') = d_rename (rs_part st) (rs_final st) (ft_disk s1)
              in if \<not> ok then ft_fail tid ''finalize'' (s1\<lparr>ft_disk := d'\<rparr>)
                 else ft_event (Completed tid (Some (rs_final st))) (s1\<lparr>ft_disk := d'\<rparr>))"

definition on_ack :: "string \<Rightarrow> u64 \<Rightarrow> ft \<Rightarrow> ft" where
  "on_ack tid offset s =
    (case ft_sends s tid of
       None \<Rightarrow> s
     | Some k \<Rightarrow> s\<lparr>ft_shared := (ft_shared s)
         (k := (ft_shared s k)\<lparr>ss_acked := unat offset, ss_started := True\<rparr>)\<rparr>)"

definition drop_send :: "string \<Rightarrow> ft \<Rightarrow> ft" where
  "drop_send tid s =
    (case ft_sends s tid of
       None \<Rightarrow> s
     | Some k \<Rightarrow> s\<lparr>ft_sends := (ft_sends s)(tid := None),
         ft_shared := (ft_shared s)(k := (ft_shared s k)\<lparr>ss_cancel := True\<rparr>)\<rparr>)"

definition on_cancel :: "string \<Rightarrow> string \<Rightarrow> ft \<Rightarrow> ft" where
  "on_cancel tid reason s =
    (let s1 = drop_send tid s
     in ft_fail tid reason (s1\<lparr>ft_recvs := (ft_recvs s1)(tid := None)\<rparr>))"

definition cancel_transfer :: "string \<Rightarrow> string \<Rightarrow> ft \<Rightarrow> ft" where
  "cancel_transfer tid reason s =
    (let s1 = drop_send tid s
     in ft_emit (file_cancel tid reason) (s1\<lparr>ft_recvs := (ft_recvs s1)(tid := None)\<rparr>))"

fun ft_handle :: "(bytes \<Rightarrow> bytes) \<Rightarrow> payload \<Rightarrow> ft \<Rightarrow> bool \<times> ft" where
  "ft_handle sha (P_FileOffer msg) s = (True, on_offer msg s)"
| "ft_handle sha (P_FileChunk tid off data) s = (True, on_chunk tid off data s)"
| "ft_handle sha (P_FileAck tid off) s = (True, on_ack tid off s)"
| "ft_handle sha (P_FileComplete tid dg) s = (True, on_complete sha tid dg s)"
| "ft_handle sha (P_FileCancel tid reason) s = (True, on_cancel tid reason s)"
| "ft_handle sha _ s = (False, s)"

section \<open>Sending\<close>

definition send_file :: "string \<Rightarrow> ft \<Rightarrow> string option \<times> ft" where
  "send_file path s =
    (let (len, d1) = d_len path (ft_disk s)
     in case len of
          None \<Rightarrow> (None, s\<lparr>ft_disk := d1\<rparr>)
        | Some sz \<Rightarrow>
            let name = (case file_name path of Some n \<Rightarrow> n | None \<Rightarrow> ''file'');
                n = Suc (ft_seq s);
                tid = ''tx-'' @ show_nat n @ ''-'' @ name;
                sh = \<lparr> ss_acked = 0, ss_started = False, ss_cancel = False \<rparr>;
                th = \<lparr> sn_path = path, sn_tid = tid, sn_size = sz, sn_shared = n, sn_phase = SHash \<rparr>;
                s1 = s\<lparr>ft_disk := tick d1, ft_seq := n,
                       ft_sends := (ft_sends s)(tid \<mapsto> n),
                       ft_shared := (ft_shared s)(n := sh)\<rparr>;
                s2 = ft_emit (file_offer tid name (of_nat sz) (mime_for path)) s1
            in (Some tid, if failing d1 then s2 else s2\<lparr>ft_threads := ft_threads s2 @ [th]\<rparr>))"

text \<open>\<open>hash_file\<close>: read to the end of the file.\<close>

function read_rest :: "nat \<Rightarrow> nat \<Rightarrow> bytes \<Rightarrow> disk \<Rightarrow> bytes option \<times> disk" where
  "read_rest i pos acc d =
    (case d_read i pos CHUNK d of
       (None, d') \<Rightarrow> (None, d')
     | (Some bs, d') \<Rightarrow>
         if bs = [] then (Some acc, d') else read_rest i (pos + length bs) (acc @ bs) d')"
  by pat_completeness auto
termination
  by (relation "measure (\<lambda>(i, pos, acc, d). length (dk_data d i) - pos)")
     (auto intro: d_read_progress [OF sym])

declare read_rest.simps [simp del]

definition hash_file :: "(bytes \<Rightarrow> bytes) \<Rightarrow> string \<Rightarrow> disk \<Rightarrow> bytes option \<times> disk" where
  "hash_file sha path d =
    (case d_open path d of
       (None, d') \<Rightarrow> (None, d')
     | (Some i, d') \<Rightarrow>
         (case read_rest i 0 [] d' of
            (None, d'') \<Rightarrow> (None, d'')
          | (Some bs, d'') \<Rightarrow> (Some (sha bs), d'')))"

text \<open>One step of \<open>send_loop\<close>: the preparation up to the wait, one poll of the wait, or one
  iteration of the stream loop.\<close>

definition send_step :: "(bytes \<Rightarrow> bytes) \<Rightarrow> sender \<Rightarrow> ft \<Rightarrow> sender \<times> ft" where
  "send_step sha sn s =
    (let sh = ft_shared s (sn_shared sn); tid = sn_tid sn; sz = sn_size sn
     in case sn_phase sn of
       SHash \<Rightarrow>
         (case hash_file sha (sn_path sn) (ft_disk s) of
            (None, d) \<Rightarrow> (sn\<lparr>sn_phase := SDone\<rparr>, s\<lparr>ft_disk := d\<rparr>)
          | (Some dg, d) \<Rightarrow>
              (case d_open (sn_path sn) d of
                 (None, d') \<Rightarrow> (sn\<lparr>sn_phase := SDone\<rparr>, s\<lparr>ft_disk := d'\<rparr>)
               | (Some i, d') \<Rightarrow> (sn\<lparr>sn_phase := SWait dg i\<rparr>, s\<lparr>ft_disk := d'\<rparr>)))
     | SWait dg i \<Rightarrow>
         if \<not> ss_started sh then
           (if ss_cancel sh then (sn\<lparr>sn_phase := SDone\<rparr>, s) else (sn, s))
         else
           (case d_seek (ss_acked sh) (ft_disk s) of
              (ok, d) \<Rightarrow>
                (sn\<lparr>sn_phase := (if ok then SStream dg i (ss_acked sh) else SDone)\<rparr>, s\<lparr>ft_disk := d\<rparr>))
     | SStream dg i nxt \<Rightarrow>
         if ss_cancel sh then (sn\<lparr>sn_phase := SDone\<rparr>, s)
         else if nxt \<ge> sz then
           (if ss_acked sh \<ge> sz then
              (sn\<lparr>sn_phase := SDone\<rparr>,
               ft_event (Completed tid None) (ft_emit (file_complete tid dg) s))
            else (sn, s))
         else if nxt - ss_acked sh \<ge> WINDOW then (sn, s)
         else
           (case d_read i nxt (min (sz - nxt) CHUNK) (ft_disk s) of
              (None, d) \<Rightarrow> (sn\<lparr>sn_phase := SDone\<rparr>, s\<lparr>ft_disk := d\<rparr>)
            | (Some bs, d) \<Rightarrow>
                if bs = [] then (sn\<lparr>sn_phase := SDone\<rparr>, s\<lparr>ft_disk := d\<rparr>)
                else
                  (sn\<lparr>sn_phase := SStream dg i (nxt + length bs)\<rparr>,
                   ft_event (Progress tid (nxt + length bs) sz)
                     (ft_emit (file_chunk tid (of_nat nxt) bs) (s\<lparr>ft_disk := d\<rparr>))))
     | SDone \<Rightarrow> (sn, s))"

text \<open>Everything that can happen to a manager: an envelope of the peer, a local request, or
  a step of send thread \<open>k\<close>.\<close>

datatype ft_input =
    FMsg payload
  | FSend string
  | FCancel string string
  | FThread nat

definition run_thread :: "(bytes \<Rightarrow> bytes) \<Rightarrow> nat \<Rightarrow> ft \<Rightarrow> ft" where
  "run_thread sha k s =
    (if k < length (ft_threads s) then
       (case send_step sha (ft_threads s ! k) s of
          (sn, s') \<Rightarrow> s'\<lparr>ft_threads := (ft_threads s')[k := sn]\<rparr>)
     else s)"

fun ft_step :: "(bytes \<Rightarrow> bytes) \<Rightarrow> ft_input \<Rightarrow> ft \<Rightarrow> ft" where
  "ft_step sha (FMsg p) s = snd (ft_handle sha p s)"
| "ft_step sha (FSend path) s = snd (send_file path s)"
| "ft_step sha (FCancel tid reason) s = cancel_transfer tid reason s"
| "ft_step sha (FThread k) s = run_thread sha k s"

definition ft_new :: "string \<Rightarrow> disk \<Rightarrow> ft" where
  "ft_new dir d = \<lparr> ft_dir = dir, ft_disk = d, ft_out = [], ft_events = [],
     ft_recvs = (\<lambda>_. None), ft_sends = (\<lambda>_. None),
     ft_shared = (\<lambda>_. \<lparr> ss_acked = 0, ss_started = False, ss_cancel = False \<rparr>),
     ft_threads = [], ft_seq = 0 \<rparr>"

inductive ft_reach :: "(bytes \<Rightarrow> bytes) \<Rightarrow> ft \<Rightarrow> ft \<Rightarrow> bool" for sha where
  ft_refl: "ft_reach sha s s"
| ft_trans: "ft_reach sha s t \<Longrightarrow> ft_reach sha s (ft_step sha x t)"

section \<open>Containment\<close>

text \<open>Names a peer can make the receiver use: one path component below the directory.\<close>

definition safe_name :: "string \<Rightarrow> bool" where
  "safe_name n \<longleftrightarrow> n \<noteq> [] \<and> n \<noteq> ''.'' \<and> n \<noteq> ''..'' \<and> (\<forall>c\<in>set n. \<not> is_sep c)"

definition contained :: "string \<Rightarrow> string \<Rightarrow> bool" where
  "contained dir q \<longleftrightarrow> (\<exists>n. safe_name n \<and> q = path_join dir n)"

definition file_view :: "disk \<Rightarrow> string \<Rightarrow> bytes option" where
  "file_view d q = map_option (dk_data d) (dk_names d q)"

text \<open>What a disk operation of the receiver may do to the rest of the disk.\<close>

definition evolves :: "string \<Rightarrow> disk \<Rightarrow> disk \<Rightarrow> bool" where
  "evolves dir d d' \<longleftrightarrow> disk_ok d' \<and> dk_next d \<le> dk_next d' \<and>
     (\<forall>q. \<not> contained dir q \<longrightarrow> dk_names d' q = dk_names d q) \<and>
     (\<forall>q i. \<not> contained dir q \<longrightarrow> dk_names d q = Some i \<longrightarrow> dk_data d' i = dk_data d i)"

text \<open>An inode that no name outside the directory reaches.\<close>

definition inner :: "string \<Rightarrow> nat \<Rightarrow> disk \<Rightarrow> bool" where
  "inner dir i d \<longleftrightarrow> i < dk_next d \<and> (\<forall>q. dk_names d q = Some i \<longrightarrow> contained dir q)"

definition ft_inv :: "ft \<Rightarrow> bool" where
  "ft_inv s \<longleftrightarrow> disk_ok (ft_disk s) \<and>
     (\<forall>tid st. ft_recvs s tid = Some st \<longrightarrow>
        contained (ft_dir s) (rs_part st) \<and> contained (ft_dir s) (rs_final st) \<and>
        inner (ft_dir s) (rs_ino st) (ft_disk s))"

lemma sanitize_chars: "c \<in> set (sanitize n) \<Longrightarrow> \<not> is_sep c"
proof -
  assume c: "c \<in> set (sanitize n)"
  show "\<not> is_sep c"
  proof (cases "trim_matches (\<lambda>c. c = CHR ''.'') (last_segment is_sep n) = []")
    case True
    then have "c \<in> set ''file''" using c by (simp add: sanitize_def Let_def)
    then show ?thesis by (auto simp: is_sep_def)
  next
    case False
    then show ?thesis using c last_segment_no_sep set_trim_matches
      by (fastforce simp: sanitize_def Let_def)
  qed
qed

lemma sanitize_hd: "sanitize n \<noteq> [] \<and> hd (sanitize n) \<noteq> CHR ''.''"
  using trim_matches_hd [of "\<lambda>c. c = CHR ''.''" "last_segment is_sep n"]
  by (auto simp: sanitize_def Let_def)

lemma safe_sanitize: "safe_name (sanitize n)"
  using sanitize_hd [of n] sanitize_chars [of _ n]
  by (auto simp: safe_name_def)

lemma path_join_ext: "n \<noteq> [] \<Longrightarrow> path_join dir n @ e = path_join dir (n @ e)"
  by (auto simp: path_join_def)

lemma safe_part: "safe_name n \<Longrightarrow> safe_name (n @ ''.part'')"
  by (cases n) (auto simp: safe_name_def is_sep_def)

lemma contained_final: "contained dir (path_join dir (sanitize n))"
  using safe_sanitize by (auto simp: contained_def)

lemma contained_part: "contained dir (with_ext (path_join dir (sanitize n)) ''part'')"
proof -
  have "with_ext (path_join dir (sanitize n)) ''part'' = path_join dir (sanitize n @ ''.part'')"
    using sanitize_hd [of n] path_join_ext [of "sanitize n" dir "''.part''"]
    by (simp add: with_ext_def)
  then show ?thesis using safe_part [OF safe_sanitize] by (metis contained_def)
qed

lemma evolves_refl [simp]: "disk_ok d \<Longrightarrow> evolves dir d d"
  by (simp add: evolves_def)

lemma evolves_trans: "evolves dir a b \<Longrightarrow> evolves dir b c \<Longrightarrow> evolves dir a c"
  unfolding evolves_def by (metis order_trans)

lemma evolves_tick [simp]: "evolves dir a (tick b) = evolves dir a b"
  by (simp add: evolves_def)

lemma inner_evolves: "inner dir i d \<Longrightarrow> evolves dir d d' \<Longrightarrow> inner dir i d'"
  unfolding inner_def evolves_def by (metis order_less_le_trans)

lemma evolves_data:
  assumes "disk_ok d" "inner dir i d" "length bs \<le> MAX_OFF"
  shows "evolves dir d (d\<lparr>dk_data := (dk_data d)(i := bs)\<rparr>)"
  using assms by (auto simp: evolves_def disk_ok_def inner_def)

lemma evolves_write:
  assumes "disk_ok d" "inner dir i d"
  shows "evolves dir d (snd (snd (d_write_all i pos bs d)))"
proof -
  have "length (put_at pos w (dk_data d i)) \<le> MAX_OFF" if "pos + length w \<le> MAX_OFF" for w
    using that assms(1) by (auto simp: length_put_at disk_ok_def)
  then show ?thesis using evolves_data [OF assms] assms(1)
    by (auto simp: d_write_all_def Let_def)
qed

lemma evolves_set_len:
  "disk_ok d \<Longrightarrow> inner dir i d \<Longrightarrow> evolves dir d (snd (d_set_len i n d))"
  using evolves_data by (auto simp: d_set_len_def)

lemma evolves_open_create:
  assumes "disk_ok d" "contained dir p"
  shows "evolves dir d (snd (d_open_create p d))"
proof -
  have ok: "disk_ok (snd (d_open_create p d))" by (rule disk_ok_open_create [OF assms(1)])
  have fresh: "dk_names d q = Some i \<Longrightarrow> i \<noteq> dk_next d" for q i
    using assms(1) by (auto simp: disk_ok_def)
  show ?thesis unfolding evolves_def using ok
  proof (intro conjI allI impI)
    fix q assume "\<not> contained dir q"
    then have "q \<noteq> p" using assms(2) by auto
    then show "dk_names (snd (d_open_create p d)) q = dk_names d q"
      by (simp add: d_open_create_def split: option.splits)
  next
    fix q i assume "dk_names d q = Some i"
    then show "dk_data (snd (d_open_create p d)) i = dk_data d i"
      using fresh by (simp add: d_open_create_def split: option.splits)
  qed (simp_all add: d_open_create_def split: option.splits)
qed

lemma open_create_name:
  assumes "d_open_create p d = (Some i, d')"
  shows "dk_names d' p = Some i"
  using assms by (auto simp: d_open_create_def split: option.splits if_splits)

lemma inner_open_create:
  assumes "disk_ok d" "contained dir p" "d_open_create p d = (Some i, d')"
  shows "inner dir i d'"
proof -
  have ok: "disk_ok d'" using disk_ok_open_create [OF assms(1), of p] assms(3) by simp
  have n: "dk_names d' p = Some i" by (rule open_create_name [OF assms(3)])
  have "i < dk_next d'" using ok n by (simp add: disk_ok_def)
  moreover have "q = p" if "dk_names d' q = Some i" for q
    using ok n that unfolding disk_ok_def by blast
  ultimately show ?thesis using assms(2) by (auto simp: inner_def)
qed

lemma evolves_rename:
  assumes "disk_ok d" "contained dir a" "contained dir b"
  shows "evolves dir d (snd (d_rename a b d))"
  using assms disk_ok_rename [OF assms(1), of a b]
  by (auto simp: evolves_def d_rename_def split: option.splits)

lemma evolves_remove:
  assumes "disk_ok d" "contained dir a"
  shows "evolves dir d (snd (d_remove a d))"
  using assms disk_ok_remove [OF assms(1), of a]
  by (auto simp: evolves_def d_remove_def)

lemma evolves_no_change:
  assumes "disk_ok d" "dk_names d' = dk_names d" "dk_data d' = dk_data d" "dk_next d' = dk_next d"
  shows "evolves dir d d'"
  using assms by (simp add: evolves_def disk_ok_def)

text \<open>The reading operations move nothing but the tick.\<close>

definition same_files :: "disk \<Rightarrow> disk \<Rightarrow> bool" where
  "same_files d d' \<longleftrightarrow> dk_names d' = dk_names d \<and> dk_data d' = dk_data d \<and> dk_next d' = dk_next d
     \<and> dk_fault d' = dk_fault d \<and> dk_limit d' = dk_limit d"

lemma same_files_refl [simp]: "same_files d d"
  by (simp add: same_files_def)

lemma same_files_tick [simp]: "same_files d (tick d') = same_files d d'"
  by (simp add: same_files_def)

lemma same_files_trans: "same_files a b \<Longrightarrow> same_files b c \<Longrightarrow> same_files a c"
  by (simp add: same_files_def)

lemma same_files_evolves: "disk_ok d \<Longrightarrow> same_files d d' \<Longrightarrow> evolves dir d d'"
  by (rule evolves_no_change) (simp_all add: same_files_def)

lemma same_files_read [simp]: "same_files d (snd (d_read i pos w d))"
  by (simp add: d_read_def)

lemma same_files_open [simp]: "same_files d (snd (d_open p d))"
  by (simp add: d_open_def)

lemma same_files_rehash: "same_files d (snd (rehash i pos left acc d))"
proof (induction i pos left acc d rule: rehash.induct)
  case (1 i pos left acc d)
  obtain r d' where r: "d_read i pos (min left CHUNK) d = (r, d')" by fastforce
  then have sd: "same_files d d'" using same_files_read [of d i pos "min left CHUNK"] by simp
  show ?case
  proof (cases "left = 0 \<or> r = None \<or> r = Some []")
    case True
    then show ?thesis using r sd by (subst rehash.simps) auto
  next
    case False
    then obtain bs where bs: "r = Some bs" "bs \<noteq> []" "left \<noteq> 0" by auto
    then have "same_files d' (snd (rehash i (pos + length bs) (left - length bs) (acc @ bs) d'))"
      using 1 r by auto
    then show ?thesis using r bs sd by (subst rehash.simps) (auto intro: same_files_trans)
  qed
qed

lemma same_files_resume_hash: "same_files d (snd (resume_hash p r d))"
proof (cases "r > 0 \<and> fst (d_open p d) \<noteq> None")
  case True
  then obtain i d' where o: "d_open p d = (Some i, d')" by (cases "d_open p d") auto
  then have "same_files d d'" using same_files_open [of d p] by simp
  then show ?thesis using True o same_files_rehash [of d' i 0 r "[]"]
    by (auto simp: resume_hash_def intro: same_files_trans)
next
  case False
  then show ?thesis using same_files_open [of d p]
    by (cases "d_open p d") (auto simp: resume_hash_def split: option.splits)
qed

lemma same_files_read_rest: "same_files d (snd (read_rest i pos acc d))"
proof (induction i pos acc d rule: read_rest.induct)
  case (1 i pos acc d)
  obtain r d' where r: "d_read i pos CHUNK d = (r, d')" by fastforce
  then have sd: "same_files d d'" using same_files_read [of d i pos CHUNK] by simp
  show ?case
  proof (cases "r = None \<or> r = Some []")
    case True
    then show ?thesis using r sd by (subst read_rest.simps) auto
  next
    case False
    then obtain bs where bs: "r = Some bs" "bs \<noteq> []" by auto
    then have "same_files d' (snd (read_rest i (pos + length bs) (acc @ bs) d'))"
      using 1 r by auto
    then show ?thesis using r bs sd by (subst read_rest.simps) (auto intro: same_files_trans)
  qed
qed

section \<open>The containment invariant\<close>

definition keeps :: "ft \<Rightarrow> ft \<Rightarrow> bool" where
  "keeps s s' \<longleftrightarrow> ft_inv s' \<and> ft_dir s' = ft_dir s \<and> evolves (ft_dir s) (ft_disk s) (ft_disk s')"

lemma keepsI [inv_intros]:
  assumes "ft_inv s" "ft_dir s' = ft_dir s" "evolves (ft_dir s) (ft_disk s) (ft_disk s')"
    and "\<And>tid st. ft_recvs s' tid = Some st \<Longrightarrow>
      (\<exists>st0 t. ft_recvs s t = Some st0 \<and> rs_part st = rs_part st0 \<and> rs_final st = rs_final st0
        \<and> rs_ino st = rs_ino st0)
      \<or> contained (ft_dir s) (rs_part st) \<and> contained (ft_dir s) (rs_final st)
        \<and> inner (ft_dir s) (rs_ino st) (ft_disk s')"
  shows "keeps s s'"
proof -
  have "contained (ft_dir s) (rs_part st) \<and> contained (ft_dir s) (rs_final st)
        \<and> inner (ft_dir s) (rs_ino st) (ft_disk s')"
    if "ft_recvs s' tid = Some st" for tid st
    using assms(1) assms(4) [OF that] inner_evolves [OF _ assms(3)] unfolding ft_inv_def by metis
  moreover have "disk_ok (ft_disk s')" using assms(3) by (simp add: evolves_def)
  ultimately show ?thesis using assms(2,3) by (simp add: keeps_def ft_inv_def)
qed

lemma keeps_inv: "ft_inv s \<Longrightarrow> disk_ok (ft_disk s)"
  by (simp add: ft_inv_def)

lemma ft_log_simps [simp]:
  "ft_disk (ft_event e s) = ft_disk s" "ft_recvs (ft_event e s) = ft_recvs s"
  "ft_dir (ft_event e s) = ft_dir s" "ft_out (ft_event e s) = ft_out s"
  "ft_shared (ft_event e s) = ft_shared s" "ft_threads (ft_event e s) = ft_threads s"
  "ft_sends (ft_event e s) = ft_sends s" "ft_seq (ft_event e s) = ft_seq s"
  "ft_disk (ft_emit m s) = ft_disk s" "ft_recvs (ft_emit m s) = ft_recvs s"
  "ft_dir (ft_emit m s) = ft_dir s" "ft_events (ft_emit m s) = ft_events s"
  "ft_shared (ft_emit m s) = ft_shared s" "ft_threads (ft_emit m s) = ft_threads s"
  "ft_sends (ft_emit m s) = ft_sends s" "ft_seq (ft_emit m s) = ft_seq s"
  "ft_out (ft_emit m s) = ft_out s @ [m]" "ft_events (ft_event e s) = ft_events s @ [e]"
  by (simp_all add: ft_event_def ft_emit_def)

lemma drop_send_simps [simp]:
  "ft_disk (drop_send tid s) = ft_disk s" "ft_recvs (drop_send tid s) = ft_recvs s"
  "ft_dir (drop_send tid s) = ft_dir s"
  by (simp_all add: drop_send_def split: option.splits)

lemma keeps_on_chunk:
  assumes "ft_inv s" shows "keeps s (on_chunk tid off data s)"
proof (cases "ft_recvs s tid")
  case None
  then show ?thesis using assms keeps_inv [OF assms] by (auto simp: on_chunk_def intro!: keepsI)
next
  case (Some st)
  obtain ok pos' d' where w: "d_write_all (rs_ino st) (rs_pos st) data (ft_disk s) = (ok, pos', d')"
    by (cases "d_write_all (rs_ino st) (rs_pos st) data (ft_disk s)") auto
  have "evolves (ft_dir s) (ft_disk s) d'"
    using evolves_write [of "ft_disk s" "ft_dir s" "rs_ino st" "rs_pos st" data] w assms Some
    by (auto simp: ft_inv_def)
  then show ?thesis using assms keeps_inv [OF assms] Some w
    by (intro keepsI) (auto simp: on_chunk_def ft_fail_def Let_def split: if_splits)
qed

lemma keeps_on_complete:
  assumes "ft_inv s" shows "keeps s (on_complete sha tid dg s)"
proof (cases "ft_recvs s tid")
  case None
  then show ?thesis using assms keeps_inv [OF assms] by (auto simp: on_complete_def intro!: keepsI)
next
  case (Some st)
  have c: "contained (ft_dir s) (rs_part st)" "contained (ft_dir s) (rs_final st)"
    and ok: "disk_ok (tick (ft_disk s))"
    using assms Some by (auto simp: ft_inv_def)
  have "evolves (ft_dir s) (tick (ft_disk s)) (snd (d_remove (rs_part st) (tick (ft_disk s))))"
    "evolves (ft_dir s) (tick (ft_disk s))
       (snd (d_rename (rs_part st) (rs_final st) (tick (ft_disk s))))"
    using evolves_remove [OF ok c(1)] evolves_rename [OF ok c] by auto
  then have e: "evolves (ft_dir s) (ft_disk s) (snd (d_remove (rs_part st) (tick (ft_disk s))))"
    "evolves (ft_dir s) (ft_disk s)
       (snd (d_rename (rs_part st) (rs_final st) (tick (ft_disk s))))"
    by (auto simp: evolves_def)
  show ?thesis using assms keeps_inv [OF assms] Some e
    by (intro keepsI)
       (auto simp: on_complete_def ft_fail_def Let_def split: if_splits prod.splits)
qed

lemma keeps_on_offer:
  assumes "ft_inv s" shows "keeps s (on_offer m s)"
proof -
  define dir where "dir = ft_dir s"
  define final where "final = path_join dir (sanitize (o_name m))"
  define part where "part = with_ext final ''part''"
  define d1 where "d1 = snd (d_create_dir (ft_disk s))"
  obtain len d2 where l: "d_len part d1 = (len, d2)" by fastforce
  define resume where "resume = min (case len of None \<Rightarrow> 0 | Some n \<Rightarrow> n) (unat (o_size m))"
  obtain hashed d3 where h: "resume_hash part resume d2 = (hashed, d3)" by fastforce
  obtain r d4 where o: "d_open_create part d3 = (r, d4)" by fastforce
  have c: "contained dir part" "contained dir final"
    using contained_part contained_final by (auto simp: part_def final_def)
  have d: "disk_ok (ft_disk s)" using assms by (simp add: ft_inv_def)
  have "same_files (ft_disk s) d1" by (simp add: d1_def d_create_dir_def)
  moreover have "same_files d1 d2" using l by (auto simp: d_len_def)
  moreover have "same_files d2 d3" using h same_files_resume_hash [of d2 part resume] by simp
  ultimately have s13: "same_files (ft_disk s) d1" "same_files (ft_disk s) d3"
    by (auto intro: same_files_trans)
  have e1: "evolves dir (ft_disk s) d1" and e3: "evolves dir (ft_disk s) d3"
    using same_files_evolves [OF d] s13 by auto
  have d3: "disk_ok d3" using e3 by (simp add: evolves_def)
  have e4: "evolves dir (ft_disk s) d4"
    using evolves_trans [OF e3] evolves_open_create [OF d3 c(1)] o by simp
  note keep = keepsI [OF assms, of "on_offer m s"]
  show ?thesis
  proof (cases "fst (d_create_dir (ft_disk s))")
    case False
    then show ?thesis using e1
      by (intro keep) (auto simp: on_offer_def Let_def ft_fail_def d1_def dir_def split: prod.splits)
  next
    case mk: True
    show ?thesis
    proof (cases r)
      case None
      have "on_offer m s = ft_fail (o_transfer_id m) ''open .part'' (s\<lparr>ft_disk := d4\<rparr>)"
        using mk None l h o
        by (cases "d_create_dir (ft_disk s)")
           (simp add: on_offer_def Let_def d1_def part_def final_def dir_def resume_def)
      then show ?thesis using e4 by (intro keep) (auto simp: ft_fail_def dir_def)
    next
      case (Some i)
      define d5 where "d5 = snd (d_set_len i resume d4)"
      have i4: "inner dir i d4" using inner_open_create [OF d3 c(1)] o Some by simp
      have d4: "disk_ok d4" using e4 by (simp add: evolves_def)
      have e45: "evolves dir d4 d5" unfolding d5_def by (rule evolves_set_len [OF d4 i4])
      define d6 where "d6 = snd (d_seek resume d5)"
      have e56: "evolves dir d5 d6" using e45
        by (auto simp: d6_def d_seek_def evolves_def)
      have e6: "evolves dir (ft_disk s) d6" and i6: "inner dir i d6"
        using evolves_trans [OF e4 evolves_trans [OF e45 e56]]
          inner_evolves [OF i4 evolves_trans [OF e45 e56]] by auto
      define st where "st = \<lparr> rs_ino = i, rs_pos = (if fst (d_seek resume d5) then resume else 0),
                            rs_part = part, rs_final = final,
                            rs_written = resume, rs_size = unat (o_size m), rs_last_ack = resume,
                            rs_hashed = hashed \<rparr>"
      have "on_offer m s = ft_emit (file_ack (o_transfer_id m) (of_nat resume))
          (ft_event (Offered (o_transfer_id m) (o_name m) (unat (o_size m)))
            (s\<lparr>ft_disk := d6, ft_recvs := (ft_recvs s)(o_transfer_id m \<mapsto> st)\<rparr>))"
        using mk Some l h o
        by (cases "d_create_dir (ft_disk s)")
           (simp add: on_offer_def Let_def d1_def part_def final_def dir_def resume_def
             d5_def d6_def st_def split_beta)
      then show ?thesis using e6 i6 c
        by (intro keep) (auto simp: dir_def st_def split: if_splits)
    qed
  qed
qed

lemma keeps_same:
  assumes "ft_inv s" "same_files (ft_disk s) (ft_disk s')" "ft_dir s' = ft_dir s"
    "ft_recvs s' = ft_recvs s"
  shows "keeps s s'"
  using assms same_files_evolves keeps_inv by (intro keepsI) auto

lemma keeps_fewer:
  assumes "ft_inv s" "ft_disk s' = ft_disk s" "ft_dir s' = ft_dir s"
    "\<And>tid st. ft_recvs s' tid = Some st \<Longrightarrow> ft_recvs s tid = Some st"
  shows "keeps s s'"
proof (rule keepsI [OF assms(1) assms(3)])
  show "evolves (ft_dir s) (ft_disk s) (ft_disk s')"
    using assms(1,2) by (simp add: keeps_inv)
qed (use assms(4) in blast)

lemma same_files_hash_file: "same_files d (snd (hash_file sha p d))"
proof (cases "fst (d_open p d)")
  case None
  then show ?thesis using same_files_open [of d p]
    by (cases "d_open p d") (simp add: hash_file_def)
next
  case (Some i)
  then obtain d' where o: "d_open p d = (Some i, d')" by (cases "d_open p d") auto
  obtain r d'' where r: "read_rest i 0 [] d' = (r, d'')" by fastforce
  have "same_files d d'" using same_files_open [of d p] o by simp
  moreover have "same_files d' d''" using same_files_read_rest [of d' i 0 "[]"] r by simp
  ultimately have "same_files d d''" by (rule same_files_trans)
  then show ?thesis using o r by (cases r) (simp_all add: hash_file_def)
qed

lemma send_step_disk:
  "same_files (ft_disk s) (ft_disk (snd (send_step sha sn s)))
   \<and> ft_dir (snd (send_step sha sn s)) = ft_dir s \<and> ft_recvs (snd (send_step sha sn s)) = ft_recvs s
   \<and> ft_threads (snd (send_step sha sn s)) = ft_threads s"
proof (cases "sn_phase sn")
  case SHash
  obtain r d where h: "hash_file sha (sn_path sn) (ft_disk s) = (r, d)" by fastforce
  obtain r' d' where o: "d_open (sn_path sn) d = (r', d')" by fastforce
  have "same_files (ft_disk s) d" using same_files_hash_file [of "ft_disk s" sha "sn_path sn"] h by simp
  moreover have "same_files d d'" using same_files_open [of d "sn_path sn"] o by simp
  ultimately show ?thesis using SHash h o
    by (auto simp: send_step_def Let_def split: option.splits intro: same_files_trans)
next
  case (SWait dg i)
  then show ?thesis by (auto simp: send_step_def Let_def d_seek_def)
next
  case (SStream dg i nxt)
  then show ?thesis
    by (auto simp: send_step_def Let_def split: option.splits prod.splits)
       (metis same_files_read snd_conv)+
qed (simp add: send_step_def Let_def)

lemma keeps_run_thread:
  assumes "ft_inv s" shows "keeps s (run_thread sha k s)"
  using send_step_disk [of s sha "ft_threads s ! k"] assms
  by (intro keeps_same) (auto simp: run_thread_def split: prod.splits)

lemma send_file_disk:
  "same_files (ft_disk s) (ft_disk (snd (send_file p s)))
   \<and> ft_dir (snd (send_file p s)) = ft_dir s \<and> ft_recvs (snd (send_file p s)) = ft_recvs s"
  by (auto simp: send_file_def Let_def d_len_def split: option.splits)

lemma keeps_handle:
  assumes "ft_inv s" shows "keeps s (snd (ft_handle sha p s))"
proof (cases p)
  case (P_FileOffer m)
  then show ?thesis using keeps_on_offer [OF assms] by simp
next
  case (P_FileChunk tid off data)
  then show ?thesis using keeps_on_chunk [OF assms] by simp
next
  case (P_FileAck tid off)
  then show ?thesis using assms by (auto simp: on_ack_def split: option.splits intro!: keeps_fewer)
next
  case (P_FileComplete tid dg)
  then show ?thesis using keeps_on_complete [OF assms] by simp
next
  case (P_FileCancel tid reason)
  then show ?thesis using assms
    by (auto simp: on_cancel_def ft_fail_def Let_def split: if_splits intro!: keeps_fewer)
qed (use assms in \<open>auto intro: keeps_fewer\<close>)

lemma keeps_step: "ft_inv s \<Longrightarrow> keeps s (ft_step sha x s)"
proof (induction x)
  case (FMsg p)
  then show ?case using keeps_handle by simp
next
  case (FSend path)
  then show ?case using send_file_disk [of s path] by (simp add: keeps_same)
next
  case (FCancel tid reason)
  then show ?case
    by (auto simp: cancel_transfer_def Let_def split: if_splits intro!: keeps_fewer)
next
  case (FThread k)
  then show ?case using keeps_run_thread by simp
qed

lemma ft_inv_new: "disk_ok d \<Longrightarrow> ft_inv (ft_new dir d)"
  by (simp add: ft_inv_def ft_new_def)

lemma reach_keeps:
  assumes "ft_reach sha s t" "ft_inv s" shows "keeps s t"
  using assms
proof (induction rule: ft_reach.induct)
  case (ft_refl s)
  then show ?case by (intro keeps_fewer) auto
next
  case (ft_trans s t x)
  then have "keeps s t" by simp
  then show ?case using keeps_step [of t sha x] unfolding keeps_def
    by (auto intro: evolves_trans)
qed

lemma evolves_view:
  "evolves dir d d' \<Longrightarrow> \<not> contained dir q \<Longrightarrow> file_view d' q = file_view d q"
  by (cases "dk_names d q") (auto simp: evolves_def file_view_def)

text \<open>C5: Whatever envelopes the peer sends, in any order and interleaved with local sends,
  cancellations, send-thread steps and failing system calls, a file whose path is not
  one component below the download directory keeps its name and its contents: an
  offered name cannot climb out of the directory.\<close>

theorem peer_cannot_escape:
  assumes "disk_ok d" "ft_reach sha (ft_new dir d) s" "\<not> contained dir q"
  shows "file_view (ft_disk s) q = file_view d q"
proof -
  have "keeps (ft_new dir d) s" by (rule reach_keeps [OF assms(2) ft_inv_new [OF assms(1)]])
  then have "evolves dir d (ft_disk s)" by (simp add: keeps_def ft_new_def)
  then show ?thesis using evolves_view assms(3) by blast
qed

text \<open>A small disk for the examples: one file outside the download directory.\<close>

definition demo_disk :: "string \<Rightarrow> bytes \<Rightarrow> disk" where
  "demo_disk p bs = \<lparr> dk_names = [p \<mapsto> 0], dk_data = (\<lambda>_. [])(0 := bs), dk_next = 1,
     dk_tick = 0, dk_fault = (\<lambda>_. False), dk_limit = (\<lambda>_. 1000) \<rparr>"

lemma demo_disk_ok: "length bs \<le> MAX_OFF \<Longrightarrow> disk_ok (demo_disk p bs)"
  by (auto simp: demo_disk_def disk_ok_def split: if_splits)

lemma demo_disk_faults: "no_faults (demo_disk p bs)"
  by (simp add: demo_disk_def no_faults_def)

definition demo_offer :: file_offer_msg where
  "demo_offer = \<lparr> o_transfer_id = ''t'', o_name = ''../../etc/passwd'', o_size = 1, o_mime = ''x'' \<rparr>"

lemma contained_prefix: "contained dir q \<Longrightarrow> take (length dir) q = dir"
proof -
  assume "contained dir q"
  then obtain n where n: "safe_name n" "q = path_join dir n" by (auto simp: contained_def)
  then have "\<not> is_sep (hd n)" by (simp add: safe_name_def)
  then have "hd n \<noteq> CHR ''/''" by (auto simp: is_sep_def)
  then show ?thesis using n(2) by (simp add: path_join_def)
qed

lemma demo_not_contained: "\<not> contained ''/dl'' ''/etc/passwd''"
  using contained_prefix [of "''/dl''" "''/etc/passwd''"] by auto

lemma peer_cannot_escape_witness:
  "file_view (ft_disk (ft_step id (FMsg (P_FileOffer demo_offer))
     (ft_new ''/dl'' (demo_disk ''/etc/passwd'' [7])))) ''/etc/passwd'' = Some [7]"
proof -
  have ok: "disk_ok (demo_disk ''/etc/passwd'' [7])"
    by (rule demo_disk_ok) (simp add: MAX_OFF_def)
  have "ft_reach id (ft_new ''/dl'' (demo_disk ''/etc/passwd'' [7]))
     (ft_step id (FMsg (P_FileOffer demo_offer)) (ft_new ''/dl'' (demo_disk ''/etc/passwd'' [7])))"
    by (intro ft_reach.intros)
  moreover have "file_view (demo_disk ''/etc/passwd'' [7]) ''/etc/passwd'' = Some [7]"
    by (simp add: file_view_def demo_disk_def)
  ultimately show ?thesis
    using peer_cannot_escape [OF ok _ demo_not_contained] by metis
qed

end
