(* ===== verification/HostSession.thy ===== *)
theory HostSession
  imports VideoPlane Broker Transport Clipboard FileTransfer
begin

text \<open>
  The host session core (\<open>crates/session/src/host.rs\<close>): configuration, access control,
  the password throttle, the control-message dispatcher, the event loop and the encode
  thread's turn.  The video plane is an argument, as \<open>dyn VideoPlane\<close> is in the code; the
  state gathers the locals of \<open>run_host_core\<close> and what it has sent.  The protobuf
  decoder, the SDP field of a session description, the opening of an injector and the texts of
  error messages are fields of \<open>host_env\<close>.  Time is in milliseconds.
\<close>

section \<open>Codecs\<close>

fun to_transport_codec :: "video_codec \<Rightarrow> tp_codec" where
  "to_transport_codec H264 = TpH264"
| "to_transport_codec Av1 = TpAv1"

fun to_proto_codec :: "video_codec \<Rightarrow> pb_codec" where
  "to_proto_codec H264 = CodecH264"
| "to_proto_codec Av1 = CodecAv1"

text \<open>Why a viewer is turned away.\<close>

datatype rejection =
    WrongMajor protocol_error
  | NoCommonCodec pb_codec "int list"
  | NoProof
  | ProofRejected proof_error
  | NotAuthorized string

definition check_codec_compatible :: "hello_msg \<Rightarrow> pb_codec \<Rightarrow> rejection + unit" where
  "check_codec_compatible h host_codec =
    (let supported = (if h_supported_video_codecs h = [] then [codec_i32 CodecH264]
                      else h_supported_video_codecs h)
     in if codec_i32 host_codec \<in> set supported then Inr () else Inl (NoCommonCodec host_codec supported))"

section \<open>Configuration and access control\<close>

datatype capture_source = Monitor | Virtual

record host_config =
  hc_display_index :: nat
  hc_width :: nat
  hc_height :: nat
  hc_fps :: nat
  hc_bitrate_bps :: nat
  hc_device_name :: string
  hc_ice_servers :: "ice_server list"
  hc_bind_addr :: string
  hc_enable_audio :: bool
  hc_video_codec :: video_codec
  hc_require_authorization :: bool
  hc_authorized_device_ids :: "string list"
  hc_identity :: "identity option"
  hc_connect_password :: "string option"
  hc_restore_token :: "string option"
  hc_capture_source :: capture_source

definition host_config_default :: host_config where
  "host_config_default = \<lparr> hc_display_index = 0, hc_width = 1920, hc_height = 1080, hc_fps = 30,
     hc_bitrate_bps = 8000000, hc_device_name = ''rmd-host'', hc_ice_servers = [],
     hc_bind_addr = ''0.0.0.0:0'', hc_enable_audio = False, hc_video_codec = H264,
     hc_require_authorization = True, hc_authorized_device_ids = [], hc_identity = None,
     hc_connect_password = None, hc_restore_token = None, hc_capture_source = Monitor \<rparr>"

record host_env =
  he_crypto :: crypto
  he_decode :: "bytes \<Rightarrow> envelope_msg option"
  he_sdp :: "string \<Rightarrow> string option"
  he_injector :: "monitor_rect option \<Rightarrow> injector option"
  he_text :: "rejection \<Rightarrow> string"

definition authorize :: "crypto \<Rightarrow> bool \<Rightarrow> string list \<Rightarrow> hello_msg \<Rightarrow> bytes \<Rightarrow> rejection + unit" where
  "authorize cx require allowed h binding =
    (if \<not> require then Inr ()
     else if h_public_key h = [] \<or> h_signature h = [] then Inl NoProof
     else (case verify_access_proof cx (h_public_key h) (h_signature h) binding of
             Inl e \<Rightarrow> Inl (ProofRejected e)
           | Inr dev \<Rightarrow> if dev \<in> set allowed then Inr () else Inl (NotAuthorized dev)))"

definition fingerprint_from_session_json :: "(string \<Rightarrow> string option) \<Rightarrow> string \<Rightarrow> string option" where
  "fingerprint_from_session_json sdp_of json = Option.bind (sdp_of json) dtls_fingerprint_from_sdp"

section \<open>The password throttle\<close>

record pw_throttle =
  pt_failures :: u32
  pt_locked_until :: "nat option"

definition THROTTLE_AFTER :: nat where "THROTTLE_AFTER = 3"
definition THROTTLE_MAX_SECS :: nat where "THROTTLE_MAX_SECS = 30"

definition pt_new :: pw_throttle where "pt_new = \<lparr> pt_failures = 0, pt_locked_until = None \<rparr>"

definition pt_locked :: "nat \<Rightarrow> pw_throttle \<Rightarrow> bool" where
  "pt_locked now t = (case pt_locked_until t of None \<Rightarrow> False | Some u \<Rightarrow> now < u)"

definition pt_record_failure :: "nat \<Rightarrow> pw_throttle \<Rightarrow> pw_throttle" where
  "pt_record_failure now t =
    (let n = sat_add (pt_failures t) 1; t1 = t\<lparr>pt_failures := n\<rparr>
     in if unat n \<ge> THROTTLE_AFTER then
          let steps = unat n - THROTTLE_AFTER + 1; secs = min (steps * 2) THROTTLE_MAX_SECS
          in t1\<lparr>pt_locked_until := Some (now + secs * 1000)\<rparr>
        else t1)"

definition pt_reset :: "pw_throttle \<Rightarrow> pw_throttle" where
  "pt_reset t = t\<lparr>pt_failures := 0, pt_locked_until := None\<rparr>"

definition host_ct_eq :: "bytes \<Rightarrow> bytes \<Rightarrow> bool" where
  "host_ct_eq a b = (if length a \<noteq> length b then False else diff_bits a b = 0)"

interpretation host_pw: ct_equality host_ct_eq
  by unfold_locales (auto simp: host_ct_eq_def diff_bits_zero)

definition verify_connect_password :: "string option \<Rightarrow> string \<Rightarrow> bool" where
  "verify_connect_password configured supplied =
    (case configured of None \<Rightarrow> True | Some expected \<Rightarrow> host_ct_eq (str_bytes expected) (str_bytes supplied))"

section \<open>Session state\<close>

datatype host_status = Waiting | Active | Ended

record 'v host =
  hs_connected :: bool
  hs_authorized :: bool
  hs_was_authorized :: bool
  hs_view_only :: bool
  hs_zoom :: crop_rect
  hs_injector :: "injector option"
  hs_clip :: clip
  hs_files :: ft
  hs_remote_fp :: "string option"
  hs_local_fp :: "string option"
  hs_pw :: pw_throttle
  hs_video :: 'v
  hs_out :: "envelope_msg list"
  hs_status :: "host_status list"
  hs_fed :: "signal_msg list"
  hs_restarts :: nat
  hs_signals :: "signal_msg list"

definition host_start :: "host_env \<Rightarrow> 'v vplane \<Rightarrow> 'v \<Rightarrow> clip \<Rightarrow> ft \<Rightarrow> 'v host" where
  "host_start he vp v clip files =
    \<lparr> hs_connected = False, hs_authorized = False, hs_was_authorized = False, hs_view_only = False,
      hs_zoom = FULL, hs_injector = he_injector he (vp_monitor_rect vp v), hs_clip = clip,
      hs_files = files, hs_remote_fp = None, hs_local_fp = None, hs_pw = pt_new, hs_video = v,
      hs_out = [], hs_status = [Waiting], hs_fed = [], hs_restarts = 0, hs_signals = [] \<rparr>"

definition send :: "envelope_msg \<Rightarrow> 'v host \<Rightarrow> 'v host" where
  "send e s = s\<lparr>hs_out := hs_out s @ [e]\<rparr>"

definition release_held :: "'v host \<Rightarrow> 'v host" where
  "release_held s = s\<lparr>hs_injector := map_option inj_release_all (hs_injector s)\<rparr>"

section \<open>Gates\<close>

fun is_hello :: "payload \<Rightarrow> bool" where
  "is_hello (P_Hello h) = True"
| "is_hello _ = False"

fun is_input :: "payload \<Rightarrow> bool" where
  "is_input (P_Input e) = True"
| "is_input _ = False"

definition authorization_permits :: "payload \<Rightarrow> bool \<Rightarrow> bool" where
  "authorization_permits p authorized \<longleftrightarrow> authorized \<or> is_hello p"

definition view_only_suppresses :: "payload \<Rightarrow> bool \<Rightarrow> bool" where
  "view_only_suppresses p view_only \<longleftrightarrow> view_only \<and> is_input p"

section \<open>Control messages\<close>

definition opt_bytes :: "string option \<Rightarrow> bytes" where
  "opt_bytes s = str_bytes (case s of None \<Rightarrow> [] | Some x \<Rightarrow> x)"

text \<open>The checks of a Hello before the password.\<close>

definition hello_decision :: "host_env \<Rightarrow> host_config \<Rightarrow> bytes \<Rightarrow> u32 \<Rightarrow> hello_msg \<Rightarrow> rejection + unit" where
  "hello_decision he hc binding major h =
    (case check_compatibility major of
       Inl e \<Rightarrow> Inl (WrongMajor e)
     | Inr _ \<Rightarrow>
         (case check_codec_compatible h (to_proto_codec (hc_video_codec hc)) of
            Inl r \<Rightarrow> Inl r
          | Inr _ \<Rightarrow> authorize (he_crypto he) (hc_require_authorization hc) (hc_authorized_device_ids hc) h binding))"

definition accept_hello :: "host_env \<Rightarrow> host_config \<Rightarrow> 'v vplane \<Rightarrow> hello_msg \<Rightarrow> 'v host \<Rightarrow> 'v host" where
  "accept_hello he hc vp h s =
    (let s1 = s\<lparr>hs_authorized := True\<rparr>;
         client_cursor = (h_features h AND FEATURE_CLIENT_CURSOR \<noteq> 0);
         s2 = s1\<lparr>hs_video := vp_resume vp (vp_set_show_cursor vp (\<not> client_cursor) (hs_video s1))\<rparr>;
         codec = to_proto_codec (hc_video_codec hc);
         ack = (case hc_identity hc of
                  Some i \<Rightarrow> hello_ack_ok_signed (hc_device_name hc) 0 (public_key_bytes (he_crypto he) i)
                      (access_proof (he_crypto he) i (opt_bytes (hs_local_fp s2))) codec
                | None \<Rightarrow> hello_ack_ok (hc_device_name hc) 0 codec);
         s3 = send ack s2
     in send (display_list (vp_descriptors vp (hs_video s3))) s3)"

definition handle_hello ::
  "host_env \<Rightarrow> host_config \<Rightarrow> 'v vplane \<Rightarrow> nat \<Rightarrow> u32 \<Rightarrow> hello_msg \<Rightarrow> 'v host \<Rightarrow> 'v host" where
  "handle_hello he hc vp now major h s =
    (case hello_decision he hc (opt_bytes (hs_remote_fp s)) major h of
       Inl r \<Rightarrow> send (hello_ack_reject (he_text he r)) (s\<lparr>hs_authorized := False\<rparr>)
     | Inr _ \<Rightarrow>
         if pt_locked now (hs_pw s) then
           send (hello_ack_password_required ''too many password attempts; wait and retry'')
             (s\<lparr>hs_authorized := False\<rparr>)
         else if \<not> verify_connect_password (hc_connect_password hc) (h_password h) then
           send (hello_ack_password_required ''connection password required'')
             (s\<lparr>hs_pw := pt_record_failure now (hs_pw s), hs_authorized := False\<rparr>)
         else accept_hello he hc vp h (s\<lparr>hs_pw := pt_reset (hs_pw s)\<rparr>))"

text \<open>The pointer through the zoom rectangle.\<close>

definition remap_event :: "crop_rect \<Rightarrow> input_event \<Rightarrow> input_event" where
  "remap_event rect ev =
    (if is_full rect then ev
     else case ev of
       MouseMove x y \<Rightarrow> MouseMove (f_add (cr_x rect) (f_mul x (cr_w rect))) (f_add (cr_y rect) (f_mul y (cr_h rect)))
     | MouseButton b p x y \<Rightarrow>
         MouseButton b p (f_add (cr_x rect) (f_mul x (cr_w rect))) (f_add (cr_y rect) (f_mul y (cr_h rect)))
     | _ \<Rightarrow> ev)"

definition handle_input :: "input_event option \<Rightarrow> 'v host \<Rightarrow> 'v host" where
  "handle_input ev s =
    (case (hs_injector s, ev) of
       (Some ij, Some e) \<Rightarrow>
         s\<lparr>hs_injector := Some (snd (inj_inject (remap_event (sanitized (hs_zoom s)) e) ij))\<rparr>
     | _ \<Rightarrow> s)"

fun dispatch ::
  "host_env \<Rightarrow> host_config \<Rightarrow> 'v vplane \<Rightarrow> nat \<Rightarrow> u32 \<Rightarrow> payload \<Rightarrow> 'v host \<Rightarrow> 'v host" where
  "dispatch he hc vp now major (P_Hello h) s = handle_hello he hc vp now major h s"
| "dispatch he hc vp now major (P_Input ev) s = handle_input ev s"
| "dispatch he hc vp now major (P_Ping t) s = send (pong t) s"
| "dispatch he hc vp now major (P_Clipboard u) s = s\<lparr>hs_clip := apply_remote u (hs_clip s)\<rparr>"
| "dispatch he hc vp now major P_RequestKeyframe s = s\<lparr>hs_video := vp_request_keyframe vp (hs_video s)\<rparr>"
| "dispatch he hc vp now major (P_SelectDisplay i) s = s\<lparr>hs_video := vp_select vp i (hs_video s)\<rparr>"
| "dispatch he hc vp now major (P_ViewOnly on) s =
     (let s1 = s\<lparr>hs_view_only := on\<rparr> in if on then release_held s1 else s1)"
| "dispatch he hc vp now major (P_SetZoom x y w h) s =
     s\<lparr>hs_zoom := sanitized \<lparr> cr_x = x, cr_y = y, cr_w = w, cr_h = h \<rparr>\<rparr>"
| "dispatch he hc vp now major _ s = s"

definition handle_control :: "host_env \<Rightarrow> host_config \<Rightarrow> 'v vplane \<Rightarrow> nat \<Rightarrow> bytes \<Rightarrow> 'v host \<Rightarrow> 'v host" where
  "handle_control he hc vp now bs s =
    (case he_decode he bs of
       None \<Rightarrow> s
     | Some env \<Rightarrow>
         (case e_payload env of
            None \<Rightarrow> s
          | Some p \<Rightarrow>
              if \<not> authorization_permits p (hs_authorized s) then s
              else if view_only_suppresses p (hs_view_only s) then s
              else (case ft_handle (cx_sha256 (he_crypto he)) p (hs_files s) of
                      (True, f) \<Rightarrow> s\<lparr>hs_files := f\<rparr>
                    | (False, f) \<Rightarrow> dispatch he hc vp now (e_major env) p (s\<lparr>hs_files := f\<rparr>))))"

section \<open>The event loop\<close>

fun handle_event :: "host_env \<Rightarrow> host_config \<Rightarrow> 'v vplane \<Rightarrow> nat \<Rightarrow> transport_event \<Rightarrow> 'v host \<Rightarrow> 'v host" where
  "handle_event he hc vp now (LocalSignal m) s =
     (let s1 = (case m of
                  Offer json \<Rightarrow> (case fingerprint_from_session_json (he_sdp he) json of
                                   Some fp \<Rightarrow> s\<lparr>hs_local_fp := Some fp\<rparr> | None \<Rightarrow> s)
                | _ \<Rightarrow> s)
      in s1\<lparr>hs_signals := hs_signals s1 @ [m]\<rparr>)"
| "handle_event he hc vp now Connected s =
     s\<lparr>hs_connected := True, hs_authorized := False, hs_was_authorized := False, hs_view_only := False\<rparr>"
| "handle_event he hc vp now Disconnected s =
     (let s1 = release_held (s\<lparr>hs_connected := False, hs_authorized := False, hs_was_authorized := False,
                               hs_view_only := False\<rparr>)
      in s1\<lparr>hs_pw := pt_reset (hs_pw s1), hs_video := vp_pause vp (hs_video s1),
            hs_status := hs_status s1 @ [Ended]\<rparr>)"
| "handle_event he hc vp now (Data bs) s =
     (let s1 = handle_control he hc vp now bs s
      in if hs_authorized s1 \<and> \<not> hs_was_authorized s1
         then s1\<lparr>hs_was_authorized := True, hs_status := hs_status s1 @ [Active]\<rparr> else s1)"
| "handle_event he hc vp now (Video annexb ts) s = s"
| "handle_event he hc vp now KeyframeRequested s = s\<lparr>hs_video := vp_request_keyframe vp (hs_video s)\<rparr>"

definition feed_signal :: "host_env \<Rightarrow> signal_msg \<Rightarrow> 'v host \<Rightarrow> 'v host" where
  "feed_signal he m s =
    (let s1 = (case m of
                 Answer json \<Rightarrow> (case fingerprint_from_session_json (he_sdp he) json of
                                   Some fp \<Rightarrow> s\<lparr>hs_remote_fp := Some fp\<rparr> | None \<Rightarrow> s)
               | _ \<Rightarrow> s)
     in s1\<lparr>hs_fed := hs_fed s1 @ [m]\<rparr>)"

text \<open>One turn of the loop: the signals waiting, whether the peer switched, and the transport
  event received within the timeout, if any.\<close>

record turn =
  tn_signals :: "signal_msg list"
  tn_switched :: bool
  tn_event :: "transport_event option"
  tn_now :: nat

definition host_turn :: "host_env \<Rightarrow> host_config \<Rightarrow> 'v vplane \<Rightarrow> turn \<Rightarrow> 'v host \<Rightarrow> 'v host" where
  "host_turn he hc vp t s =
    (let s1 = fold (feed_signal he) (tn_signals t) s;
         s2 = (if tn_switched t then s1\<lparr>hs_restarts := Suc (hs_restarts s1)\<rparr> else s1);
         (geo, v) = vp_poll_geometry vp (hs_video s2);
         s3 = (case geo of
                 None \<Rightarrow> s2\<lparr>hs_video := v\<rparr>
               | Some rect \<Rightarrow> s2\<lparr>hs_video := v, hs_injector := he_injector he rect\<rparr>)
     in case tn_event t of None \<Rightarrow> s3 | Some ev \<Rightarrow> handle_event he hc vp (tn_now t) ev s3)"

section \<open>The encode thread\<close>

record frame =
  fr_width :: nat
  fr_height :: nat
  fr_bytes_per_row :: nat
  fr_data :: bytes
  fr_ts :: u64

text \<open>One turn: the frames waiting, of which only the newest counts, the force flag, and the
  encoder \<open>enc data width height stride force\<close> (None: no output or an error).  The result is
  what is sent and the flag afterwards.\<close>

definition encode_turn ::
  "(nat \<Rightarrow> nat \<Rightarrow> bytes \<Rightarrow> nat \<Rightarrow> nat \<Rightarrow> bytes option) \<Rightarrow> (bytes \<Rightarrow> nat \<Rightarrow> nat \<Rightarrow> nat \<Rightarrow> bool \<Rightarrow> (bytes \<times> bool) option)
   \<Rightarrow> bool \<Rightarrow> crop_rect \<Rightarrow> bool \<Rightarrow> frame list \<Rightarrow> (bytes \<times> bool \<times> u64) option \<times> bool" where
  "encode_turn resize enc authorized zoom force frames =
    (if frames = [] then (None, force)
     else
       let f = last frames
       in if \<not> authorized then (None, force)
          else
            let (data, stride) =
                  (case crop_scale resize (fr_data f) (fr_width f) (fr_height f) (fr_bytes_per_row f) zoom
                          (fr_width f) (fr_height f) of
                     Some scaled \<Rightarrow> (scaled, fr_width f * 4)
                   | None \<Rightarrow> (fr_data f, fr_bytes_per_row f))
            in (map_option (\<lambda>(d, key). (d, key, fr_ts f)) (enc data (fr_width f) (fr_height f) stride force), False))"

end
