(* ===== verification/Agent.thy ===== *)
theory Agent
  imports VideoPlane Ipc HostSession Broker
begin

text \<open>
  The system-mode capture agent (\<open>crates/session/src/agent.rs\<close>): what it announces, the lock
  gate around the session, the capture-control thread, the reader loop and the encode turn.
  \<open>loginctl\<close> and \<open>systemd-inhibit\<close> are commands of the operating system: the record \<open>sys\<close>
  logs what is run, and oracles numbered by the call answer \<open>LockedHint\<close> and the spawning
  of the inhibitor.
\<close>

section \<open>What the agent says of its session\<close>

record agent_config =
  ac_width :: u32
  ac_height :: u32
  ac_fps :: u32
  ac_bitrate :: u32
  ac_codec :: video_codec
  ac_source :: capture_source
  ac_display :: nat

definition u32_env :: "(string \<Rightarrow> string option) \<Rightarrow> string \<Rightarrow> nat \<Rightarrow> u32" where
  "u32_env env k d = word_of_nat (case Option.bind (env k) (parse_uint 32) of Some n \<Rightarrow> n | None \<Rightarrow> d)"

definition agent_config_from_env :: "(string \<Rightarrow> string option) \<Rightarrow> agent_config" where
  "agent_config_from_env env = \<lparr> ac_width = u32_env env ''RMD_WIDTH'' 1920, ac_height = u32_env env ''RMD_HEIGHT'' 1080,
     ac_fps = u32_env env ''RMD_FPS'' 30, ac_bitrate = u32_env env ''RMD_BITRATE'' 8000000, ac_codec = H264,
     ac_source = (if env ''RMD_CAPTURE_SOURCE'' = Some ''virtual'' then Virtual else Monitor),
     ac_display = unat (u32_env env ''RMD_DISPLAY_INDEX'' 0) \<rparr>"

definition detect_phase :: "(string \<Rightarrow> u32 option) \<Rightarrow> u32 \<Rightarrow> session_phase" where
  "detect_phase uid_of uid =
    (if \<exists>name\<in>set [''gdm'', ''sddm'', ''lightdm'']. uid_of name = Some uid then Greeter else User)"

fun contains :: "string \<Rightarrow> string \<Rightarrow> bool" where
  "contains needle [] = (needle = [])"
| "contains needle (c # s) = (starts_with needle (c # s) \<or> contains needle s)"

definition detect_backend :: "bool \<Rightarrow> string option \<Rightarrow> backend_kind" where
  "detect_backend wayland desktop =
    (if \<not> wayland then BkX11
     else if (case desktop of Some d \<Rightarrow> contains ''gnome'' (map ascii_lower d) | None \<Rightarrow> False) then BkGnomeWayland
     else BkOtherWayland)"

definition is_greeter_session :: "string option \<Rightarrow> string option \<Rightarrow> string option \<Rightarrow> bool" where
  "is_greeter_session logind_class class_env home =
    (map_option trim logind_class = Some ''greeter'' \<or> class_env = Some ''greeter''
     \<or> (case home of Some h \<Rightarrow> starts_with ''/run/gdm'' h \<or> contains ''gdm-greeter'' h | None \<Rightarrow> False))"

definition agent_hello :: "session_phase \<Rightarrow> backend_kind \<Rightarrow> u32 \<Rightarrow> ipc_rect option \<Rightarrow> display_info list option \<Rightarrow> agent_msg" where
  "agent_hello phase backend uid rect displays = AgHello phase backend uid rect
     (map (\<lambda>d. \<lparr> dd_id = word_of_nat (di_index d), dd_width = di_width d, dd_height = di_height d,
        dd_name = display_name (di_index d), dd_primary = (di_index d = 0) \<rparr>) (case displays of None \<Rightarrow> [] | Some ds \<Rightarrow> ds))"

section \<open>The lock gate\<close>

record sys =
  sy_log :: "string list"
  sy_locked :: "nat \<Rightarrow> bool"
  sy_polls :: nat
  sy_inhibit_ok :: bool

record gate =
  sg_enabled :: bool
  sg_session :: "string option"
  sg_inhibit :: bool

definition gate_new :: "string option \<Rightarrow> string option \<Rightarrow> string option \<Rightarrow> gate" where
  "gate_new lock_env session_env detected = \<lparr> sg_enabled = (lock_env = Some ''1''),
     sg_session = (case session_env of Some s \<Rightarrow> if s \<noteq> [] then Some s else detected | None \<Rightarrow> detected),
     sg_inhibit = False \<rparr>"

definition loginctl :: "string \<Rightarrow> gate \<Rightarrow> sys \<Rightarrow> sys" where
  "loginctl verb g y = (if sg_session g = None then y else y\<lparr>sy_log := sy_log y @ [verb]\<rparr>)"

definition is_locked :: "gate \<Rightarrow> sys \<Rightarrow> bool \<times> sys" where
  "is_locked g y =
    (if sg_session g = None then (False, y) else (sy_locked y (sy_polls y), y\<lparr>sy_polls := Suc (sy_polls y)\<rparr>))"

text \<open>Poll \<open>n\<close> times until the answer is \<open>want\<close>.\<close>

fun poll_until :: "nat \<Rightarrow> bool \<Rightarrow> gate \<Rightarrow> sys \<Rightarrow> bool \<times> sys" where
  "poll_until 0 want g y = (False, y)"
| "poll_until (Suc n) want g y =
     (case is_locked g y of (l, y1) \<Rightarrow> if l = want then (True, y1) else poll_until n want g y1)"

text \<open>Issue \<open>verb\<close> up to \<open>rounds\<close> times, polling after each.\<close>

fun insist :: "nat \<Rightarrow> nat \<Rightarrow> string \<Rightarrow> bool \<Rightarrow> gate \<Rightarrow> sys \<Rightarrow> bool \<times> sys" where
  "insist 0 polls verb want g y = (False, y)"
| "insist (Suc r) polls verb want g y =
     (case poll_until polls want g (loginctl verb g y) of
        (True, y1) \<Rightarrow> (True, y1)
      | (False, y1) \<Rightarrow> insist r polls verb want g y1)"

definition lock :: "gate \<Rightarrow> sys \<Rightarrow> sys" where
  "lock g y =
    (if \<not> sg_enabled g then y
     else (case is_locked g y of
             (True, y1) \<Rightarrow> y1
           | (False, y1) \<Rightarrow> snd (insist 6 6 ''lock-session'' True g y1)))"

definition unlock :: "gate \<Rightarrow> sys \<Rightarrow> gate \<times> sys" where
  "unlock g y =
    (if \<not> sg_enabled g then (g, y)
     else
       let g1 = (if \<not> sg_inhibit g \<and> sy_inhibit_ok y then g\<lparr>sg_inhibit := True\<rparr> else g)
       in (g1, snd (insist 10 5 ''unlock-session'' False g1 y)))"

definition release_idle :: "gate \<Rightarrow> gate" where
  "release_idle g = g\<lparr>sg_inhibit := False\<rparr>"

section \<open>The capture-control thread\<close>

datatype capture_cmd = CcSetCapturing bool | CcSelect u32 | CcSetShowCursor bool

record agent =
  ag_ctl :: capture_ctl
  ag_gate :: gate
  ag_sys :: sys

fun resume_retry :: "nat \<Rightarrow> cap_os \<Rightarrow> capture_ctl \<Rightarrow> capture_ctl" where
  "resume_retry 0 os c = c"
| "resume_retry (Suc n) os c = (let c1 = resume os c in if is_capturing c1 then c1 else resume_retry n os c1)"

definition agent_begin :: "capture_ctl \<Rightarrow> gate \<Rightarrow> sys \<Rightarrow> agent" where
  "agent_begin c g y = \<lparr> ag_ctl = c, ag_gate = g, ag_sys = lock g y \<rparr>"

fun agent_cmd :: "cap_os \<Rightarrow> capture_cmd \<Rightarrow> agent \<Rightarrow> agent" where
  "agent_cmd os (CcSetCapturing on) a =
    (if on then
       (case unlock (ag_gate a) (ag_sys a) of
          (g, y) \<Rightarrow> a\<lparr>ag_gate := g, ag_sys := y, ag_ctl := resume_retry 15 os (ag_ctl a)\<rparr>)
     else
       let g = release_idle (ag_gate a)
       in a\<lparr>ag_ctl := pause os (ag_ctl a), ag_gate := g, ag_sys := lock g (ag_sys a)\<rparr>)"
| "agent_cmd os (CcSelect i) a = a\<lparr>ag_ctl := select os i (ag_ctl a)\<rparr>"
| "agent_cmd os (CcSetShowCursor b) a = a\<lparr>ag_ctl := set_show_cursor os b (ag_ctl a)\<rparr>"

text \<open>The thread's end: the controller is dropped, which stops its capture.\<close>

definition agent_end :: "agent \<Rightarrow> agent" where
  "agent_end a =
    (let g = release_idle (ag_gate a)
     in a\<lparr>ag_ctl := (ag_ctl a)\<lparr>cap_handle := None\<rparr>, ag_gate := g, ag_sys := lock g (ag_sys a)\<rparr>)"

section \<open>The reader loop\<close>

record agent_io =
  ai_cmds :: "capture_cmd list"
  ai_bitrate :: u32
  ai_force :: bool

fun agent_msg_in :: "broker_msg \<Rightarrow> agent_io \<Rightarrow> agent_io" where
  "agent_msg_in (SetCapturing on) s = s\<lparr>ai_cmds := ai_cmds s @ [CcSetCapturing on]\<rparr>"
| "agent_msg_in (SetBitrate bps) s = s\<lparr>ai_bitrate := bps\<rparr>"
| "agent_msg_in ForceKeyframe s = s\<lparr>ai_force := True\<rparr>"
| "agent_msg_in (SelectDisplay i) s = s\<lparr>ai_cmds := ai_cmds s @ [CcSelect i]\<rparr>"
| "agent_msg_in (SetShowCursor b) s = s\<lparr>ai_cmds := ai_cmds s @ [CcSetShowCursor b]\<rparr>"

text \<open>The whole life of an agent: the messages it reads until SIGTERM or the end of the
  connection, then the tear-down, and the control thread's work on what was queued.\<close>

definition agent_life :: "cap_os \<Rightarrow> broker_msg list \<Rightarrow> agent_io \<Rightarrow> agent \<Rightarrow> agent" where
  "agent_life os ms s a =
    (let s1 = fold agent_msg_in ms s
     in agent_end (fold (agent_cmd os) (ai_cmds s1 @ [CcSetCapturing False]) a))"

text \<open>One turn of its encode thread, without zoom or authorization gate.\<close>

definition agent_encode ::
  "(bytes \<Rightarrow> nat \<Rightarrow> nat \<Rightarrow> nat \<Rightarrow> bool \<Rightarrow> (bytes \<times> bool) option) \<Rightarrow> bool \<Rightarrow> frame list \<Rightarrow> agent_msg option \<times> bool" where
  "agent_encode enc force frames =
    (if frames = [] then (None, force)
     else
       let f = last frames
       in (map_option (\<lambda>(d, key). AgVideo d key (fr_ts f)) (enc (fr_data f) (fr_width f) (fr_height f) (fr_bytes_per_row f) force), False))"

section \<open>The agent does what the broker says\<close>

lemma resume_retry_more: "is_capturing c \<Longrightarrow> is_capturing (resume_retry n os c)"
  by (induction n arbitrary: c) (auto simp: Let_def resume_def)

lemma resume_retry_starts: "os_start os (cap_calls c) \<Longrightarrow> is_capturing (resume_retry (Suc n) os c)"
  by (auto simp: Let_def resume_def restart_capture_def is_capturing_def)

fun ordered :: "capture_cmd list \<Rightarrow> bool \<Rightarrow> bool" where
  "ordered [] c = c"
| "ordered (CcSetCapturing on # cs) c = ordered cs on"
| "ordered (_ # cs) c = ordered cs c"

lemma ordered_append: "ordered (a @ b) c = ordered b (ordered a c)"
  by (induction a c rule: ordered.induct) auto

lemma ordered_msgs: "ordered (ai_cmds (fold agent_msg_in ms s)) c = told_capturing ms (ordered (ai_cmds s) c)"
proof (induction ms arbitrary: s)
  case (Cons m ms)
  then show ?case by (cases m) (simp_all add: ordered_append)
qed simp

text \<open>The control thread: capturing only when ordered to, and whenever ordered to if capture
  can be started.\<close>

lemma agent_cmd_capturing:
  "is_capturing (ag_ctl (agent_cmd os c a)) \<longrightarrow> ordered [c] (is_capturing (ag_ctl a))"
  "(\<And>n. os_start os n) \<Longrightarrow> is_capturing (ag_ctl (agent_cmd os c a)) = ordered [c] (is_capturing (ag_ctl a))"
proof -
  note l = local.select_keeps [of os None] local.cursor_keeps [of os None] local.pause_stops [of os None]
  have p: "\<not> is_capturing (pause os x)" "is_capturing (select os i x) = is_capturing x"
      "is_capturing (set_show_cursor os b x) = is_capturing x" for x i b
    using l by (simp_all add: local_plane_def)
  show "is_capturing (ag_ctl (agent_cmd os c a)) \<longrightarrow> ordered [c] (is_capturing (ag_ctl a))"
    by (cases c) (auto simp: p Let_def split: prod.split)
  assume "\<And>n. os_start os n"
  then have "is_capturing (resume_retry 15 os x)" for x
    using resume_retry_starts [of os x 14] by (simp del: resume_retry.simps)
  then show "is_capturing (ag_ctl (agent_cmd os c a)) = ordered [c] (is_capturing (ag_ctl a))"
    by (cases c) (auto simp: p Let_def split: prod.split)
qed

lemma agent_cmds_capturing:
  "is_capturing (ag_ctl (fold (agent_cmd os) cs a)) \<longrightarrow> ordered cs (is_capturing (ag_ctl a))"
proof (induction cs rule: rev_induct)
  case (snoc c cs)
  show ?case
    using agent_cmd_capturing(1) [of os c "fold (agent_cmd os) cs a"] snoc
    by (cases c) (auto simp: ordered_append)
qed simp

lemma agent_cmds_capture:
  assumes "\<And>n. os_start os n"
  shows "is_capturing (ag_ctl (fold (agent_cmd os) cs a)) = ordered cs (is_capturing (ag_ctl a))"
proof (induction cs rule: rev_induct)
  case (snoc c cs)
  show ?case
    using agent_cmd_capturing(2) [OF assms, of c "fold (agent_cmd os) cs a"] snoc
    by (cases c) (auto simp: ordered_append)
qed simp

text \<open>C16: The agent's capture is the broker's to command: whatever it is sent, the agent
  captures only when the last \<open>SetCapturing\<close> said so, and then it does, if the desktop lets
  a capture start.\<close>

theorem agent_captures_when_told:
  assumes "\<not> is_capturing (ag_ctl a)" "ai_cmds s = []"
  shows "(is_capturing (ag_ctl (fold (agent_cmd os) (ai_cmds (fold agent_msg_in ms s)) a)) \<longrightarrow> told_capturing ms False)
    \<and> ((\<forall>n. os_start os n) \<longrightarrow> told_capturing ms False
        \<longrightarrow> is_capturing (ag_ctl (fold (agent_cmd os) (ai_cmds (fold agent_msg_in ms s)) a)))"
  using agent_cmds_capturing [of os "ai_cmds (fold agent_msg_in ms s)" a]
    agent_cmds_capture [of os "ai_cmds (fold agent_msg_in ms s)" a] ordered_msgs [of ms s "is_capturing (ag_ctl a)"] assms
  by simp

section \<open>The session is locked at rest\<close>

lemma poll_until_result:
  assumes "poll_until n want g y = (b, y')" "sg_session g \<noteq> None"
  shows "sy_locked y' = sy_locked y \<and> sy_log y' = sy_log y
    \<and> (b \<longrightarrow> sy_polls y < sy_polls y' \<and> sy_locked y (sy_polls y' - 1) = want)"
  using assms
proof (induction n want g y rule: poll_until.induct)
  case (2 n want g y)
  have e: "is_locked g y = (sy_locked y (sy_polls y), y\<lparr>sy_polls := Suc (sy_polls y)\<rparr>)" using 2(3) by (auto simp: is_locked_def)
  show ?case
  proof (cases "sy_locked y (sy_polls y) = want")
    case True
    then show ?thesis using 2(2) by (auto simp: e)
  next
    case False
    then have "poll_until n want g (y\<lparr>sy_polls := Suc (sy_polls y)\<rparr>) = (b, y')" using 2(2) by (simp add: e)
    from 2(1) [OF e [symmetric] False this 2(3)] show ?thesis by auto
  qed
qed simp

lemma poll_until_polls: "sy_polls y \<le> sy_polls (snd (poll_until n want g y))"
proof (induction n arbitrary: y)
  case (Suc n)
  show ?case
    using Suc [of y] Suc [of "y\<lparr>sy_polls := Suc (sy_polls y)\<rparr>"] by (auto simp: is_locked_def)
qed simp

lemma insist_result:
  assumes "insist r polls verb want g y = (b, y')" "sg_session g \<noteq> None"
  shows "sy_locked y' = sy_locked y
    \<and> (if b then sy_polls y < sy_polls y' \<and> sy_locked y (sy_polls y' - 1) = want else sy_log y' = sy_log y @ replicate r verb)"
  using assms
proof (induction r arbitrary: y)
  case (Suc r)
  let ?y = "y\<lparr>sy_log := sy_log y @ [verb]\<rparr>"
  have l: "loginctl verb g y = ?y" using Suc.prems(2) by (auto simp: loginctl_def)
  obtain c y1 where p: "poll_until polls want g ?y = (c, y1)" by fastforce
  note q = poll_until_result [OF p Suc.prems(2)]
  show ?case
  proof (cases c)
    case True
    then show ?thesis using Suc.prems(1) l p q by auto
  next
    case False
    then have i: "insist r polls verb want g y1 = (b, y')" using Suc.prems(1) l p by simp
    have m: "sy_polls ?y \<le> sy_polls y1" using poll_until_polls [of ?y polls want g] by (simp add: p)
    show ?thesis using Suc.IH [OF i Suc.prems(2)] q m by (auto simp: replicate_append_same)
  qed
qed simp

text \<open>The session looked locked at the last poll, or locking was tried six times over.\<close>

definition locked_or_tried :: "sys \<Rightarrow> bool" where
  "locked_or_tried y \<longleftrightarrow> (0 < sy_polls y \<and> sy_locked y (sy_polls y - 1))
     \<or> (\<exists>pre. sy_log y = pre @ replicate 6 ''lock-session'')"

lemma lock_result:
  assumes "sg_enabled g" "sg_session g \<noteq> None"
  shows "locked_or_tried (lock g y)"
proof -
  have e: "is_locked g y = (sy_locked y (sy_polls y), y\<lparr>sy_polls := Suc (sy_polls y)\<rparr>)" using assms by (auto simp: is_locked_def)
  show ?thesis
  proof (cases "sy_locked y (sy_polls y)")
    case True
    then show ?thesis using assms e by (simp add: lock_def locked_or_tried_def)
  next
    case False
    obtain b y1 where i: "insist 6 6 ''lock-session'' True g (y\<lparr>sy_polls := Suc (sy_polls y)\<rparr>) = (b, y1)" by fastforce
    have "lock g y = y1" using False assms(1) e i by (simp add: lock_def)
    then show ?thesis using insist_result [OF i assms(2)] by (auto simp: locked_or_tried_def split: if_splits)
  qed
qed

lemma agent_cmd_gate:
  "sg_enabled (ag_gate (agent_cmd os c a)) = sg_enabled (ag_gate a)" "sg_session (ag_gate (agent_cmd os c a)) = sg_session (ag_gate a)"
  by (cases c; simp add: unlock_def release_idle_def Let_def split: prod.split)+

lemma agent_cmds_gate:
  "sg_enabled (ag_gate (fold (agent_cmd os) cs a)) = sg_enabled (ag_gate a)
   \<and> sg_session (ag_gate (fold (agent_cmd os) cs a)) = sg_session (ag_gate a)"
  by (induction cs arbitrary: a) (simp_all add: agent_cmd_gate)

text \<open>C17: The agent leaves nothing behind: whatever the broker sent before the connection broke
  or the session ended, afterwards no capture runs, the idle inhibitor is gone, and, where
  lock-gating is on, the session was seen locked or locking it was tried six times over.\<close>

theorem agent_leaves_locked:
  assumes "agent_life os ms s a = a'" "sg_enabled (ag_gate a)" "sg_session (ag_gate a) \<noteq> None"
  shows "\<not> is_capturing (ag_ctl a') \<and> \<not> sg_inhibit (ag_gate a') \<and> locked_or_tried (ag_sys a')"
proof -
  define b where "b = fold (agent_cmd os) (ai_cmds (fold agent_msg_in ms s) @ [CcSetCapturing False]) a"
  have g: "sg_enabled (release_idle (ag_gate b))" "sg_session (release_idle (ag_gate b)) \<noteq> None"
    unfolding b_def using agent_cmds_gate [of os _ a] assms(2,3) by (simp_all add: release_idle_def del: fold_append)
  have "a' = agent_end b" using assms(1) by (simp add: agent_life_def b_def Let_def)
  then show ?thesis
    using lock_result [OF g, of "ag_sys b"] by (simp add: agent_end_def Let_def is_capturing_def release_idle_def)
qed

section \<open>Examples\<close>

definition demo_agent :: agent where
  "demo_agent = agent_begin
     (ctl_start \<lparr> cc_width = 1920, cc_height = 1080, cc_fps = 30, cc_show_cursor = True, cc_restore_token = None \<rparr> 0 None None demo_env)
     (gate_new (Some ''1'') (Some ''c1'') None)
     \<lparr> sy_log = [], sy_locked = (\<lambda>n. n = 3 \<or> n = 4 \<or> n = 9 \<or> n = 10), sy_polls = 0, sy_inhibit_ok = True \<rparr>"

definition agent_os :: cap_os where
  "agent_os = \<lparr> os_start = (\<lambda>n. 2 \<le> n), os_token = (\<lambda>_. None), os_crypto = demo_crypto, os_json = demo_json,
     os_path = ''/c/settings.enc'' \<rparr>"

definition idle_io :: agent_io where "idle_io = \<lparr> ai_cmds = [], ai_bitrate = 0, ai_force = True \<rparr>"

lemma agent_captures_when_told_witness:
  "let run = (\<lambda>ms. is_capturing (ag_ctl (fold (agent_cmd (agent_os\<lparr>os_start := (\<lambda>_. True)\<rparr>)) (ai_cmds (fold agent_msg_in ms idle_io)) demo_agent)))
   in run [SetBitrate 5, SetCapturing True, ForceKeyframe] \<and> \<not> run [SetCapturing True, SelectDisplay 0, SetCapturing False]"
proof -
  have i: "\<not> is_capturing (ag_ctl demo_agent)" by code_simp
  have e: "ai_cmds idle_io = []" by (simp add: idle_io_def)
  note t = agent_captures_when_told [OF i e, of "agent_os\<lparr>os_start := (\<lambda>_. True)\<rparr>"]
  have "told_capturing [SetBitrate 5, SetCapturing True, ForceKeyframe] False"
      "\<not> told_capturing [SetCapturing True, SelectDisplay 0, SetCapturing False] False" by simp_all
  then show ?thesis using t [of "[SetBitrate 5, SetCapturing True, ForceKeyframe]"]
      t [of "[SetCapturing True, SelectDisplay 0, SetCapturing False]"] unfolding Let_def by auto
qed

lemma agent_leaves_locked_witness:
  "let a = agent_life agent_os [SetCapturing True] idle_io demo_agent
   in \<not> is_capturing (ag_ctl a) \<and> locked_or_tried (ag_sys a)
    \<and> sy_log (ag_sys a) = [''lock-session'', ''unlock-session'', ''lock-session'']"
proof -
  let ?a = "agent_life agent_os [SetCapturing True] idle_io demo_agent"
  have g: "sg_enabled (ag_gate demo_agent)" "sg_session (ag_gate demo_agent) \<noteq> None" by code_simp+
  have "sy_log (ag_sys ?a) = [''lock-session'', ''unlock-session'', ''lock-session'']" by code_simp
  then show ?thesis using agent_leaves_locked [OF refl g, of agent_os "[SetCapturing True]" idle_io] by (simp add: Let_def)
qed

text \<open>A desktop that refuses the first two starts is still captured.\<close>

lemma agent_retries:
  "is_capturing (ag_ctl (fold (agent_cmd agent_os) [CcSetCapturing True] demo_agent))"
  by code_simp

text \<open>The backend the agent reports is not the one its capture uses: the overrides are not
  looked at, and any desktop name with \<open>gnome\<close> inside counts.\<close>

lemma backend_report_differs:
  "detect_backend True (Some ''GNOME'') = BkGnomeWayland \<and> pick_session_kind (Some ''1'') True None (Some ''GNOME'') = X11
   \<and> detect_backend True (Some ''pop-gnome-like'') = BkGnomeWayland
   \<and> pick_session_kind None True None (Some ''pop-gnome-like'') = OtherWayland"
  by code_simp

end
