(* ===== verification/FileStream.thy ===== *)
theory FileStream
  imports FileTransfer
begin

text \<open>
  Two managers joined by the reliable ordered data channel: the receive handlers and
  the send loop of \<open>FileTransfer\<close> together deliver the file.  \<open>exchange\<close> moves every
  envelope that has been sent and not yet delivered, in order, both ways; \<open>link_round\<close> is
  one step of the send thread followed by an exchange.
\<close>

section \<open>The two ends of a link\<close>

record link =
  lk_sn :: sender
  lk_a :: ft
  lk_b :: ft
  lk_ab :: nat
  lk_ba :: nat

definition deliver :: "(bytes \<Rightarrow> bytes) \<Rightarrow> envelope_msg list \<Rightarrow> ft \<Rightarrow> ft" where
  "deliver sha msgs s =
    foldl (\<lambda>s e. case e_payload e of None \<Rightarrow> s | Some p \<Rightarrow> snd (ft_handle sha p s)) s msgs"

definition exchange :: "(bytes \<Rightarrow> bytes) \<Rightarrow> link \<Rightarrow> link" where
  "exchange sha l =
    (let b = deliver sha (drop (lk_ab l) (ft_out (lk_a l))) (lk_b l);
         a = deliver sha (drop (lk_ba l) (ft_out b)) (lk_a l)
     in l\<lparr>lk_a := a, lk_b := b, lk_ab := length (ft_out (lk_a l)), lk_ba := length (ft_out b)\<rparr>)"

definition link_round :: "(bytes \<Rightarrow> bytes) \<Rightarrow> link \<Rightarrow> link" where
  "link_round sha l =
    (case send_step sha (lk_sn l) (lk_a l) of
       (sn, a) \<Rightarrow> exchange sha (l\<lparr>lk_sn := sn, lk_a := a\<rparr>))"

text \<open>The link right after \<open>send_file\<close>, with the offer delivered and answered.\<close>

definition link_start :: "(bytes \<Rightarrow> bytes) \<Rightarrow> string \<Rightarrow> ft \<Rightarrow> ft \<Rightarrow> link" where
  "link_start sha path a b =
    (let a1 = snd (send_file path a)
     in exchange sha \<lparr> lk_sn = last (ft_threads a1), lk_a = a1, lk_b = b,
          lk_ab = length (ft_out a), lk_ba = length (ft_out b) \<rparr>)"

lemma deliver_Nil [simp]: "deliver sha [] s = s"
  by (simp add: deliver_def)

lemma deliver_single [simp]:
  "deliver sha [envelope p] s = snd (ft_handle sha p s)"
  by (simp add: deliver_def)

section \<open>The receiver\<close>

text \<open>A transfer in step with its file: what was hashed is what is on disk, and the cursor is
  at its end.\<close>

definition recv_ok :: "disk \<Rightarrow> recv_state \<Rightarrow> bool" where
  "recv_ok d st \<longleftrightarrow> dk_data d (rs_ino st) = rs_hashed st \<and> rs_pos st = length (rs_hashed st)
     \<and> rs_written st = length (rs_hashed st) \<and> rs_last_ack st \<le> rs_written st
     \<and> dk_names d (rs_part st) = Some (rs_ino st)"

lemma offset_unat: "n \<le> MAX_OFF \<Longrightarrow> unat (of_nat n :: u64) = n"
  by (simp add: MAX_OFF_def unat_of_nat take_bit_nat_eq_self)

lemma write_all_end:
  assumes "no_faults d" "pos = length (dk_data d i)" "pos + length bs \<le> MAX_OFF"
  shows "d_write_all i pos bs d =
    (True, pos + length bs, tick (d\<lparr>dk_data := (dk_data d)(i := dk_data d i @ bs)\<rparr>))"
  using assms by (simp add: d_write_all_def)

lemma set_len_ok:
  assumes "no_faults d" "n \<le> length (dk_data d i)" "length (dk_data d i) \<le> MAX_OFF"
  shows "d_set_len i n d = (True, tick (d\<lparr>dk_data := (dk_data d)(i := take n (dk_data d i))\<rparr>))"
  using assms by (simp add: d_set_len_def pad_to_le)

text \<open>Without faults, re-hashing reads exactly the first \<open>left\<close> bytes at the cursor, however
  short the single reads are.\<close>

lemma rehash_exact:
  assumes "no_faults d" "pos + left \<le> length (dk_data d i)"
  shows "\<exists>d'. rehash i pos left acc d = (acc @ take left (drop pos (dk_data d i)), d')
    \<and> same_files d d'"
  using assms
proof (induction i pos left acc d rule: rehash.induct)
  case (1 i pos left acc d)
  show ?case
  proof (cases "left = 0")
    case True
    then show ?thesis by (subst rehash.simps) simp
  next
    case False
    obtain bs d' where r: "d_read i pos (min left CHUNK) d = (Some bs, d')"
      using 1(2) by (simp add: d_read_def)
    have b: "length bs \<le> left" "bs = take (length bs) (drop pos (dk_data d i))" "d' = tick d" "bs \<noteq> []"
      using d_read_bounds [OF r] False 1(3) by (auto simp: CHUNK_def)
    have "\<exists>d''. rehash i (pos + length bs) (left - length bs) (acc @ bs) d'
        = ((acc @ bs) @ take (left - length bs) (drop (pos + length bs) (dk_data d' i)), d'')
        \<and> same_files d' d''"
      using 1(1) [OF False r [symmetric] refl b(4)] 1(2,3) b by auto
    moreover have "bs @ take (left - length bs) (drop (pos + length bs) (dk_data d i))
        = take left (drop pos (dk_data d i))"
      using b(1,2) take_add [of "length bs" "left - length bs" "drop pos (dk_data d i)"]
      by (simp add: add.commute)
    ultimately show ?thesis using False r b(3,4) by (subst rehash.simps) (auto simp: same_files_def)
  qed
qed

text \<open>The file the receiver can resume from.\<close>

definition part_bytes :: "disk \<Rightarrow> string \<Rightarrow> bytes" where
  "part_bytes d p = (case file_view d p of None \<Rightarrow> [] | Some bs \<Rightarrow> bs)"

definition part_of :: "ft \<Rightarrow> string \<Rightarrow> string" where
  "part_of s name = with_ext (path_join (ft_dir s) (sanitize name)) ''part''"

definition final_of :: "ft \<Rightarrow> string \<Rightarrow> string" where
  "final_of s name = path_join (ft_dir s) (sanitize name)"

lemma resume_hash_exact:
  assumes "no_faults d" "r \<le> length (part_bytes d p)"
  shows "\<exists>d'. resume_hash p r d = (take r (part_bytes d p), d') \<and> same_files d d'"
proof (cases "r = 0 \<or> dk_names d p = None")
  case True
  then show ?thesis using assms by (auto simp: resume_hash_def part_bytes_def file_view_def)
next
  case False
  then obtain i where i: "dk_names d p = Some i" and r: "r > 0" by auto
  then have o: "d_open p d = (Some i, tick d)" using assms(1) by (simp add: d_open_def)
  have "r \<le> length (dk_data (tick d) i)"
    using assms(2) i by (simp add: part_bytes_def file_view_def)
  then obtain d' where "rehash i 0 r [] (tick d) = (take r (dk_data d i), d')" "same_files (tick d) d'"
    using rehash_exact [of "tick d" 0 r i "[]"] assms(1) by auto
  then show ?thesis using r o i
    by (auto simp: resume_hash_def part_bytes_def file_view_def same_files_def)
qed

lemma open_create_exact:
  assumes "no_faults d" "disk_ok d"
  shows "\<exists>i d'. d_open_create p d = (Some i, d') \<and> dk_names d' = (dk_names d)(p \<mapsto> i)
    \<and> dk_data d' i = part_bytes d p \<and> no_faults d' \<and> disk_ok d'
    \<and> (\<forall>q j. q \<noteq> p \<longrightarrow> dk_names d q = Some j \<longrightarrow> j \<noteq> i \<and> dk_data d' j = dk_data d j)"
proof -
  obtain i d' where o: "d_open_create p d = (Some i, d')"
    using assms(1) by (cases "dk_names d p") (auto simp: d_open_create_def)
  have ok: "disk_ok d'" using disk_ok_open_create [OF assms(2), of p] o by simp
  show ?thesis
  proof (cases "dk_names d p")
    case None
    have fresh: "dk_names d q = Some j \<Longrightarrow> j \<noteq> dk_next d" for q j
      using assms(2) by (auto simp: disk_ok_def)
    show ?thesis using o ok assms(1) None fresh
      by (auto simp: d_open_create_def part_bytes_def file_view_def)
  next
    case (Some k)
    have other: "q \<noteq> p \<Longrightarrow> dk_names d q = Some j \<Longrightarrow> j \<noteq> k" for q j
      using assms(2) Some unfolding disk_ok_def by blast
    have id: "(dk_names d)(p \<mapsto> k) = dk_names d" using Some by (simp add: fun_upd_idem)
    show ?thesis using o ok assms(1) Some other id
      by (auto simp: d_open_create_def part_bytes_def file_view_def)
  qed
qed

lemma part_bytes_same: "same_files d d' \<Longrightarrow> part_bytes d' p = part_bytes d p"
  by (simp add: part_bytes_def file_view_def same_files_def)

lemma part_bytes_le: "disk_ok d \<Longrightarrow> length (part_bytes d p) \<le> MAX_OFF"
  by (auto simp: part_bytes_def file_view_def disk_ok_def MAX_OFF_def split: option.splits)

lemma d_len_exact:
  "no_faults d \<Longrightarrow> (case fst (d_len p d) of None \<Rightarrow> 0 | Some n \<Rightarrow> n) = length (part_bytes d p)"
  by (cases "dk_names d p") (auto simp: d_len_def part_bytes_def file_view_def)

text \<open>\<open>on_offer\<close> without faults: resume from whatever prefix of the offered size is on disk.\<close>

lemma on_offer_exact:
  assumes "no_faults (ft_disk s)" "disk_ok (ft_disk s)"
    and "resume = min (length (part_bytes (ft_disk s) (part_of s (o_name m)))) (unat (o_size m))"
  shows "\<exists>st d'. on_offer m s = ft_emit (file_ack (o_transfer_id m) (of_nat resume))
          (ft_event (Offered (o_transfer_id m) (o_name m) (unat (o_size m)))
            (s\<lparr>ft_disk := d', ft_recvs := (ft_recvs s)(o_transfer_id m \<mapsto> st)\<rparr>))
    \<and> recv_ok d' st \<and> no_faults d' \<and> disk_ok d'
    \<and> rs_hashed st = take resume (part_bytes (ft_disk s) (part_of s (o_name m)))
    \<and> rs_last_ack st = resume \<and> rs_size st = unat (o_size m)
    \<and> rs_part st = part_of s (o_name m) \<and> rs_final st = final_of s (o_name m)
    \<and> (\<forall>q j. q \<noteq> part_of s (o_name m) \<longrightarrow> dk_names d' q = dk_names (ft_disk s) q
        \<and> (dk_names (ft_disk s) q = Some j \<longrightarrow> dk_data d' j = dk_data (ft_disk s) j))"
proof -
  define d where "d = ft_disk s"
  define part where "part = part_of s (o_name m)"
  define P where "P = part_bytes d part"
  define d2 where "d2 = snd (d_len part (tick d))"
  have nf2: "no_faults d2" and ok2: "disk_ok d2" and sf2: "same_files d d2"
    using assms(1,2) by (auto simp: d2_def d_len_def d_def same_files_def)
  have P2: "part_bytes d2 part = P" using part_bytes_same [OF sf2] by (simp add: P_def)
  have len: "(case fst (d_len part (tick d)) of None \<Rightarrow> 0 | Some n \<Rightarrow> n) = length P"
    using d_len_exact [of "tick d" part] assms(1) part_bytes_same [of d "tick d" part]
    by (simp add: P_def d_def)
  have resume: "resume = min (length P) (unat (o_size m))"
    using assms(3) by (simp add: P_def d_def part_def)
  obtain d3 where h: "resume_hash part resume d2 = (take resume P, d3)" and sf3: "same_files d2 d3"
    using resume_hash_exact [of d2 resume part] nf2 P2 resume by auto
  have nf3: "no_faults d3" and ok3: "disk_ok d3" and P3: "part_bytes d3 part = P"
    using nf2 ok2 sf3 P2 part_bytes_same [OF sf3]
    by (auto simp: no_faults_def same_files_def disk_ok_def)
  obtain i d4 where o: "d_open_create part d3 = (Some i, d4)"
    and n4: "dk_names d4 = (dk_names d3)(part \<mapsto> i)" and data4: "dk_data d4 i = P"
    and nf4: "no_faults d4" and ok4: "disk_ok d4"
    and fr4: "\<And>q j. q \<noteq> part \<Longrightarrow> dk_names d3 q = Some j \<Longrightarrow> j \<noteq> i \<and> dk_data d4 j = dk_data d3 j"
    using open_create_exact [OF nf3 ok3, of part] P3 by auto
  define d5 where "d5 = tick (d4\<lparr>dk_data := (dk_data d4)(i := take resume P)\<rparr>)"
  have PM: "length P \<le> MAX_OFF" using part_bytes_le [of d part] assms(2) by (simp add: P_def d_def)
  have sl: "d_set_len i resume d4 = (True, d5)"
    using set_len_ok [OF nf4, of resume i] data4 PM resume by (simp add: d5_def)
  have ok5: "disk_ok d5"
    using disk_ok_set_len [OF ok4, of i resume] sl by simp
  have nf5: "no_faults d5" using nf4 by (simp add: d5_def)
  have sk: "d_seek resume d5 = (True, tick d5)"
    using nf5 PM resume by (simp add: d_seek_def)
  have mk: "d_create_dir d = (True, tick d)" using assms(1) by (simp add: d_create_dir_def d_def)
  obtain l where l: "d_len part (tick d) = (l, d2)" by (cases "d_len part (tick d)") (simp add: d2_def)
  define st where "st = \<lparr> rs_ino = i, rs_pos = resume, rs_part = part,
      rs_final = final_of s (o_name m), rs_written = resume, rs_size = unat (o_size m),
      rs_last_ack = resume, rs_hashed = take resume P \<rparr>"
  have lr: "min (case l of None \<Rightarrow> 0 | Some n \<Rightarrow> n) (unat (o_size m)) = resume"
    using len l resume by simp
  have part_eq: "with_ext (final_of s (o_name m)) ''part'' = part"
    by (simp add: part_def part_of_def final_of_def)
  have "on_offer m s = ft_emit (file_ack (o_transfer_id m) (of_nat resume))
          (ft_event (Offered (o_transfer_id m) (o_name m) (unat (o_size m)))
            (s\<lparr>ft_disk := tick d5, ft_recvs := (ft_recvs s)(o_transfer_id m \<mapsto> st)\<rparr>))"
    using mk l lr h o sl sk
    by (simp add: on_offer_def Let_def d_def [symmetric] final_of_def [symmetric] part_eq st_def)
  moreover have "recv_ok (tick d5) st"
    using n4 resume by (auto simp: recv_ok_def st_def d5_def)
  moreover have "dk_names (tick d5) q = dk_names d q
        \<and> (dk_names d q = Some j \<longrightarrow> dk_data (tick d5) j = dk_data d j)" if "q \<noteq> part" for q j
    using that n4 fr4 [OF that] sf2 sf3 by (auto simp: d5_def same_files_def)
  ultimately show ?thesis using nf5 ok5
    by (intro exI [of _ st] exI [of _ "tick d5"]) (simp add: st_def P_def part_def d_def)
qed

lemma on_offer_frame:
  assumes "no_faults (ft_disk s)" "disk_ok (ft_disk s)" "q \<noteq> part_of s (o_name m)"
  shows "dk_names (ft_disk (on_offer m s)) q = dk_names (ft_disk s) q"
    and "dk_names (ft_disk s) q = Some j \<Longrightarrow>
      dk_data (ft_disk (on_offer m s)) j = dk_data (ft_disk s) j"
  using on_offer_exact [OF assms(1,2), of _ m, OF refl] assms(3) by auto

text \<open>A chunk at the cursor is appended, and acknowledged every \<open>ACK_EVERY\<close> bytes and at the
  end of the file.\<close>

definition acks_now :: "recv_state \<Rightarrow> bytes \<Rightarrow> bool" where
  "acks_now st data \<longleftrightarrow> rs_written st + length data - rs_last_ack st \<ge> ACK_EVERY
     \<or> rs_written st + length data = rs_size st"

definition appended :: "recv_state \<Rightarrow> bytes \<Rightarrow> recv_state" where
  "appended st data = st\<lparr>rs_pos := rs_pos st + length data, rs_hashed := rs_hashed st @ data,
     rs_written := rs_written st + length data,
     rs_last_ack := (if acks_now st data then rs_written st + length data else rs_last_ack st)\<rparr>"

lemma on_chunk_exact:
  assumes "ft_recvs s tid = Some st" "recv_ok (ft_disk s) st" "no_faults (ft_disk s)"
    "rs_written st + length data \<le> MAX_OFF"
  shows "\<exists>d'. on_chunk tid (of_nat (rs_written st)) data s =
      (if acks_now st data then ft_emit (file_ack tid (of_nat (rs_written st + length data))) else id)
       (ft_event (Progress tid (rs_written st + length data) (rs_size st))
         (s\<lparr>ft_disk := d', ft_recvs := (ft_recvs s)(tid \<mapsto> appended st data)\<rparr>))
    \<and> recv_ok d' (appended st data) \<and> no_faults d' \<and> dk_names d' = dk_names (ft_disk s)
    \<and> dk_data d' = (dk_data (ft_disk s))(rs_ino st := rs_hashed st @ data)
    \<and> dk_next d' = dk_next (ft_disk s)"
proof -
  define d where "d = ft_disk s"
  define d' where "d' = tick (d\<lparr>dk_data := (dk_data d)(rs_ino st := rs_hashed st @ data)\<rparr>)"
  have r: "dk_data d (rs_ino st) = rs_hashed st" "rs_pos st = length (rs_hashed st)"
    "rs_written st = length (rs_hashed st)" using assms(2) by (auto simp: recv_ok_def d_def)
  have off: "unat (of_nat (rs_written st) :: u64) = rs_written st"
    using assms(4) by (intro offset_unat) simp
  have w: "d_write_all (rs_ino st) (rs_pos st) data d = (True, rs_pos st + length data, d')"
    using write_all_end [of d "rs_pos st" "rs_ino st" data] assms(3,4) r by (simp add: d_def d'_def)
  have st_la: "appended st data = st\<lparr>rs_pos := rs_pos st + length data, rs_hashed := rs_hashed st @ data,
     rs_written := rs_written st + length data, rs_last_ack := rs_written st + length data\<rparr>"
    if "acks_now st data" using that by (simp add: appended_def)
  have st_no: "appended st data = st\<lparr>rs_pos := rs_pos st + length data, rs_hashed := rs_hashed st @ data,
     rs_written := rs_written st + length data\<rparr>"
    if "\<not> acks_now st data" using that by (simp add: appended_def)
  have "on_chunk tid (of_nat (rs_written st)) data s =
      (if acks_now st data then ft_emit (file_ack tid (of_nat (rs_written st + length data))) else id)
       (ft_event (Progress tid (rs_written st + length data) (rs_size st))
         (s\<lparr>ft_disk := d', ft_recvs := (ft_recvs s)(tid \<mapsto> appended st data)\<rparr>))"
    using assms(1) off w st_la st_no
    by (simp add: on_chunk_def Let_def d_def [symmetric] acks_now_def ft_event_def ft_emit_def)
  moreover have "recv_ok d' (appended st data)"
    using assms(2) by (auto simp: recv_ok_def appended_def d'_def d_def)
  ultimately show ?thesis using assms(3) by (auto simp: d'_def d_def)
qed

lemma on_complete_exact:
  assumes "ft_recvs s tid = Some st" "recv_ok (ft_disk s) st" "no_faults (ft_disk s)"
    "rs_written st = rs_size st" "sha (rs_hashed st) = dg"
  shows "file_view (ft_disk (on_complete sha tid dg s)) (rs_final st) = Some (rs_hashed st)"
    "ft_events (on_complete sha tid dg s) = ft_events s @ [Completed tid (Some (rs_final st))]"
    "ft_out (on_complete sha tid dg s) = ft_out s"
  using assms by (auto simp: on_complete_def Let_def d_rename_def recv_ok_def file_view_def)

section \<open>The link in step\<close>

definition in_step ::
  "(bytes \<Rightarrow> bytes) \<Rightarrow> string \<Rightarrow> nat \<Rightarrow> bytes \<Rightarrow> string \<Rightarrow> nat \<Rightarrow> link \<Rightarrow> bool" where
  "in_step sha tid k F final nxt l \<longleftrightarrow>
     (\<exists>i st. sn_tid (lk_sn l) = tid \<and> sn_size (lk_sn l) = length F \<and> sn_shared (lk_sn l) = k
       \<and> sn_phase (lk_sn l) = SStream (sha F) i nxt
       \<and> ft_sends (lk_a l) tid = Some k \<and> \<not> ss_cancel (ft_shared (lk_a l) k)
       \<and> ss_acked (ft_shared (lk_a l) k) = rs_last_ack st
       \<and> no_faults (ft_disk (lk_a l)) \<and> dk_data (ft_disk (lk_a l)) i = F \<and> length F \<le> MAX_OFF
       \<and> lk_ab l = length (ft_out (lk_a l)) \<and> lk_ba l = length (ft_out (lk_b l))
       \<and> ft_recvs (lk_b l) tid = Some st \<and> recv_ok (ft_disk (lk_b l)) st
       \<and> no_faults (ft_disk (lk_b l)) \<and> rs_hashed st = take nxt F \<and> nxt \<le> length F
       \<and> rs_size st = length F \<and> rs_final st = final
       \<and> nxt - rs_last_ack st < ACK_EVERY \<and> (nxt = length F \<longrightarrow> rs_last_ack st = length F))"

lemma send_step_chunk:
  assumes "sn_phase sn = SStream dg i nxt" "\<not> ss_cancel (ft_shared a (sn_shared sn))"
    "nxt < sn_size sn" "nxt - ss_acked (ft_shared a (sn_shared sn)) < WINDOW"
    "no_faults (ft_disk a)" "dk_data (ft_disk a) i = F" "sn_size sn = length F"
  shows "\<exists>bs. bs \<noteq> [] \<and> length bs \<le> CHUNK \<and> nxt + length bs \<le> length F \<and> take nxt F @ bs = take (nxt + length bs) F
    \<and> send_step sha sn a =
       (sn\<lparr>sn_phase := SStream dg i (nxt + length bs)\<rparr>,
        ft_event (Progress (sn_tid sn) (nxt + length bs) (sn_size sn))
          (ft_emit (file_chunk (sn_tid sn) (of_nat nxt) bs) (a\<lparr>ft_disk := tick (ft_disk a)\<rparr>)))"
proof -
  let ?w = "min (sn_size sn - nxt) CHUNK"
  obtain bs d where r: "d_read i nxt ?w (ft_disk a) = (Some bs, d)"
    using assms(5) by (simp add: d_read_def)
  have w: "0 < ?w" using assms(3) by (simp add: CHUNK_def)
  have b: "length bs \<le> ?w" "bs = take (length bs) (drop nxt F)" "d = tick (ft_disk a)" "bs \<noteq> []"
    using d_read_bounds [OF r] w assms(3,6,7) by auto
  have "take nxt F @ bs = take (nxt + length bs) F" using b(2) by (metis take_add)
  moreover have "send_step sha sn a =
       (sn\<lparr>sn_phase := SStream dg i (nxt + length bs)\<rparr>,
        ft_event (Progress (sn_tid sn) (nxt + length bs) (sn_size sn))
          (ft_emit (file_chunk (sn_tid sn) (of_nat nxt) bs) (a\<lparr>ft_disk := tick (ft_disk a)\<rparr>)))"
    using assms(1-4) r b(3,4) by (simp add: send_step_def Let_def)
  ultimately show ?thesis using b(1,4) assms(3,7) by (intro exI [of _ bs]) auto
qed

lemma on_ack_shared:
  assumes "ft_sends a tid = Some k" "n \<le> MAX_OFF"
  shows "on_ack tid (of_nat n) a = a\<lparr>ft_shared := (ft_shared a)
    (k := (ft_shared a k)\<lparr>ss_acked := n, ss_started := True\<rparr>)\<rparr>"
  using assms by (simp add: on_ack_def offset_unat)

text \<open>While bytes remain, a round moves at least one of them to the receiver's disk.\<close>

lemma round_chunk:
  assumes inv: "in_step sha tid k F final nxt l" and more: "nxt < length F"
  shows "\<exists>m > nxt. in_step sha tid k F final m (link_round sha l)"
proof -
  obtain sn a b ab ba where l: "l = \<lparr> lk_sn = sn, lk_a = a, lk_b = b, lk_ab = ab, lk_ba = ba \<rparr>"
    by (cases l)
  obtain i st where I: "sn_tid sn = tid" "sn_size sn = length F" "sn_shared sn = k"
    "sn_phase sn = SStream (sha F) i nxt" "ft_sends a tid = Some k" "\<not> ss_cancel (ft_shared a k)"
    "ss_acked (ft_shared a k) = rs_last_ack st" "no_faults (ft_disk a)" "dk_data (ft_disk a) i = F"
    "length F \<le> MAX_OFF" "ab = length (ft_out a)" "ba = length (ft_out b)"
    "ft_recvs b tid = Some st" "recv_ok (ft_disk b) st" "no_faults (ft_disk b)"
    "rs_hashed st = take nxt F" "rs_size st = length F" "rs_final st = final"
    "nxt - rs_last_ack st < ACK_EVERY"
    using inv unfolding in_step_def l by auto
  have "nxt - ss_acked (ft_shared a (sn_shared sn)) < WINDOW"
    using I(3,7,19) by (simp add: ACK_EVERY_def WINDOW_def)
  then obtain bs where bs: "bs \<noteq> []" "nxt + length bs \<le> length F"
      "take nxt F @ bs = take (nxt + length bs) F"
    and step: "send_step sha sn a =
       (sn\<lparr>sn_phase := SStream (sha F) i (nxt + length bs)\<rparr>,
        ft_event (Progress tid (nxt + length bs) (length F))
          (ft_emit (file_chunk tid (of_nat nxt) bs) (a\<lparr>ft_disk := tick (ft_disk a)\<rparr>)))"
    using send_step_chunk [OF I(4) _ _ _ I(8,9)] I(1-3,6) more by metis
  let ?a1 = "ft_event (Progress tid (nxt + length bs) (length F))
          (ft_emit (file_chunk tid (of_nat nxt) bs) (a\<lparr>ft_disk := tick (ft_disk a)\<rparr>))"
  have wr: "rs_written st = nxt" using I(14,16) more by (simp add: recv_ok_def)
  let ?st = "appended st bs"
  obtain d' where chunk: "on_chunk tid (of_nat nxt) bs b =
      (if acks_now st bs then ft_emit (file_ack tid (of_nat (nxt + length bs))) else id)
       (ft_event (Progress tid (nxt + length bs) (rs_size st))
         (b\<lparr>ft_disk := d', ft_recvs := (ft_recvs b)(tid \<mapsto> ?st)\<rparr>))"
    and d': "recv_ok d' ?st" "no_faults d'"
    using on_chunk_exact [OF I(13,14,15), of bs] bs(2) I(10) wr by auto
  let ?b1 = "on_chunk tid (of_nat nxt) bs b"
  have b1: "ft_recvs ?b1 tid = Some ?st" "ft_disk ?b1 = d'"
    "drop ba (ft_out ?b1) = (if acks_now st bs then [file_ack tid (of_nat (nxt + length bs))] else [])"
    unfolding chunk using I(12) by simp_all
  have nM: "nxt + length bs \<le> MAX_OFF" using bs(2) I(10) by simp
  let ?a2 = "if acks_now st bs
     then ?a1\<lparr>ft_shared := (ft_shared a)(k := (ft_shared a k)\<lparr>ss_acked := nxt + length bs, ss_started := True\<rparr>)\<rparr>
     else ?a1"
  have a2: "deliver sha (drop ba (ft_out ?b1)) ?a1 = ?a2"
    using on_ack_shared [of ?a1 tid k "nxt + length bs"] I(5) nM unfolding b1(3)
    by (simp add: file_ack_def)
  have ra: "link_round sha l = l\<lparr>lk_sn := sn\<lparr>sn_phase := SStream (sha F) i (nxt + length bs)\<rparr>,
      lk_a := ?a2, lk_b := ?b1, lk_ab := length (ft_out ?a1), lk_ba := length (ft_out ?b1)\<rparr>"
    using step a2 I(11) by (simp add: link_round_def l exchange_def Let_def file_chunk_def)
  have la: "rs_last_ack ?st = (if acks_now st bs then nxt + length bs else rs_last_ack st)"
    using wr by (simp add: appended_def)
  have "in_step sha tid k F final (nxt + length bs) (link_round sha l)"
    unfolding in_step_def ra
  proof (intro exI [of _ i] exI [of _ ?st] conjI)
    show "ss_acked (ft_shared (lk_a (l\<lparr>lk_sn := sn\<lparr>sn_phase := SStream (sha F) i (nxt + length bs)\<rparr>,
      lk_a := ?a2, lk_b := ?b1, lk_ab := length (ft_out ?a1), lk_ba := length (ft_out ?b1)\<rparr>)) k)
      = rs_last_ack ?st"
      using la I(7) by simp
    show "nxt + length bs - rs_last_ack ?st < ACK_EVERY"
      using la wr I(19) bs(2) by (auto simp: acks_now_def ACK_EVERY_def)
    show "nxt + length bs = length F \<longrightarrow> rs_last_ack ?st = length F"
      using la wr I(17) by (auto simp: acks_now_def)
    show "rs_hashed ?st = take (nxt + length bs) F"
      using bs(3) I(16) by (simp add: appended_def)
  qed (use I bs b1 d' in \<open>auto simp: l appended_def\<close>)
  moreover have "nxt < nxt + length bs" using bs(1) by simp
  ultimately show ?thesis by blast
qed

text \<open>At the end of the file a round verifies, publishes and reports the transfer.\<close>

lemma round_complete:
  assumes inv: "in_step sha tid k F final (length F) l"
  shows "file_view (ft_disk (lk_b (link_round sha l))) final = Some F"
    and "Completed tid (Some final) \<in> set (ft_events (lk_b (link_round sha l)))"
    and "Completed tid None \<in> set (ft_events (lk_a (link_round sha l)))"
    and "sn_phase (lk_sn (link_round sha l)) = SDone"
proof -
  obtain sn a b ab ba where l: "l = \<lparr> lk_sn = sn, lk_a = a, lk_b = b, lk_ab = ab, lk_ba = ba \<rparr>"
    by (cases l)
  obtain i st where I: "sn_tid sn = tid" "sn_size sn = length F" "sn_shared sn = k"
    "sn_phase sn = SStream (sha F) i (length F)" "\<not> ss_cancel (ft_shared a k)"
    "ss_acked (ft_shared a k) = rs_last_ack st" "ab = length (ft_out a)" "ba = length (ft_out b)"
    "ft_recvs b tid = Some st" "recv_ok (ft_disk b) st" "no_faults (ft_disk b)"
    "rs_hashed st = F" "rs_size st = length F" "rs_final st = final" "rs_last_ack st = length F"
    using inv unfolding in_step_def l by auto
  let ?a1 = "ft_event (Completed tid None) (ft_emit (file_complete tid (sha F)) a)"
  have step: "send_step sha sn a = (sn\<lparr>sn_phase := SDone\<rparr>, ?a1)"
    using I by (simp add: send_step_def Let_def)
  let ?b1 = "on_complete sha tid (sha F) b"
  have wr: "rs_written st = rs_size st" using I by (simp add: recv_ok_def)
  note c = on_complete_exact [OF I(9,10,11) wr, of sha "sha F", simplified I(12,14), OF refl]
  have ra: "link_round sha l = l\<lparr>lk_sn := sn\<lparr>sn_phase := SDone\<rparr>, lk_a := ?a1, lk_b := ?b1,
      lk_ab := length (ft_out ?a1), lk_ba := length (ft_out ?b1)\<rparr>"
    using step I(7,8) c(3) by (simp add: link_round_def l exchange_def Let_def file_complete_def)
  show "file_view (ft_disk (lk_b (link_round sha l))) final = Some F"
    and "Completed tid (Some final) \<in> set (ft_events (lk_b (link_round sha l)))"
    and "Completed tid None \<in> set (ft_events (lk_a (link_round sha l)))"
    and "sn_phase (lk_sn (link_round sha l)) = SDone"
    unfolding ra using c by simp_all
qed

definition delivered :: "string \<Rightarrow> bytes \<Rightarrow> string \<Rightarrow> link \<Rightarrow> bool" where
  "delivered tid F final l \<longleftrightarrow>
     file_view (ft_disk (lk_b l)) final = Some F
     \<and> Completed tid (Some final) \<in> set (ft_events (lk_b l))
     \<and> Completed tid None \<in> set (ft_events (lk_a l)) \<and> sn_phase (lk_sn l) = SDone"

lemma rounds_complete:
  assumes "in_step sha tid k F final nxt l"
  shows "\<exists>n. delivered tid F final ((link_round sha ^^ n) l)"
  using assms
proof (induction "length F - nxt" arbitrary: nxt l rule: less_induct)
  case less
  show ?case
  proof (cases "nxt < length F")
    case True
    then obtain m where m: "m > nxt" "in_step sha tid k F final m (link_round sha l)"
      using round_chunk [OF less.prems] by blast
    then have "length F - m < length F - nxt" using True by simp
    then obtain n where "delivered tid F final ((link_round sha ^^ n) (link_round sha l))"
      using less.hyps m(2) by blast
    then show ?thesis by (metis funpow_Suc_right o_apply)
  next
    case False
    then have "nxt = length F" using less.prems by (auto simp: in_step_def)
    then have "delivered tid F final (link_round sha l)"
      using round_complete [of sha tid k F final l] less.prems by (simp add: delivered_def)
    then show ?thesis by (intro exI [of _ 1]) simp
  qed
qed

section \<open>The whole transfer\<close>

lemma read_rest_exact:
  assumes "no_faults d" "pos \<le> length (dk_data d i)"
  shows "\<exists>d'. read_rest i pos acc d = (Some (acc @ drop pos (dk_data d i)), d') \<and> same_files d d'"
  using assms
proof (induction i pos acc d rule: read_rest.induct)
  case (1 i pos acc d)
  obtain bs d' where r: "d_read i pos CHUNK d = (Some bs, d')"
    using 1(2) by (simp add: d_read_def)
  have b: "bs = take (length bs) (drop pos (dk_data d i))" "d' = tick d"
    "pos + length bs \<le> max pos (length (dk_data d i))"
    using d_read_bounds [OF r] by auto
  show ?case
  proof (cases "bs = []")
    case True
    then have "pos = length (dk_data d i)"
      using d_read_bounds(5) [OF r] 1(3) by (fastforce simp: CHUNK_def)
    then show ?thesis using True r b(2) by (subst read_rest.simps) auto
  next
    case False
    have "\<exists>d''. read_rest i (pos + length bs) (acc @ bs) d'
        = (Some ((acc @ bs) @ drop (pos + length bs) (dk_data d' i)), d'') \<and> same_files d' d''"
      using 1(1) [OF r [symmetric] refl False] 1(2,3) b by auto
    moreover have "bs @ drop (pos + length bs) (dk_data d i) = drop pos (dk_data d i)"
      using b(1) by (metis append_take_drop_id drop_drop add.commute)
    ultimately show ?thesis using False r b(2)
      by (subst read_rest.simps) (auto simp: same_files_def)
  qed
qed

lemma hash_file_exact:
  assumes "no_faults d" "dk_names d p = Some i"
  shows "\<exists>d'. hash_file sha p d = (Some (sha (dk_data d i)), d') \<and> same_files d d'"
proof -
  have o: "d_open p d = (Some i, tick d)" using assms by (simp add: d_open_def)
  obtain d' where "read_rest i 0 [] (tick d) = (Some (dk_data d i), d')" "same_files (tick d) d'"
    using read_rest_exact [of "tick d" 0 i "[]"] assms(1) by auto
  then show ?thesis using o by (auto simp: hash_file_def same_files_def)
qed

text \<open>The two preparatory steps of the send thread say nothing to the peer.\<close>

lemma round_quiet:
  assumes "lk_ab l = length (ft_out (lk_a l))" "lk_ba l = length (ft_out (lk_b l))"
    "send_step sha (lk_sn l) (lk_a l) = (sn, a)" "ft_out a = ft_out (lk_a l)"
  shows "link_round sha l = l\<lparr>lk_sn := sn, lk_a := a\<rparr>"
  using assms by (simp add: link_round_def exchange_def Let_def)

definition sha_demo :: "bytes \<Rightarrow> bytes" where "sha_demo bs = bs"

lemma send_file_exact:
  assumes "no_faults (ft_disk a)" "dk_names (ft_disk a) path = Some i"
    "dk_data (ft_disk a) i = F"
  defines "name \<equiv> (case file_name path of Some n \<Rightarrow> n | None \<Rightarrow> ''file'')"
    and "k \<equiv> Suc (ft_seq a)"
  defines "tid \<equiv> ''tx-'' @ show_nat k @ ''-'' @ name"
  shows "\<exists>a1. send_file path a = (Some tid, a1)
    \<and> ft_out a1 = ft_out a @ [file_offer tid name (of_nat (length F)) (mime_for path)]
    \<and> same_files (ft_disk a) (ft_disk a1) \<and> ft_sends a1 tid = Some k
    \<and> ft_shared a1 k = \<lparr> ss_acked = 0, ss_started = False, ss_cancel = False \<rparr>
    \<and> last (ft_threads a1) = \<lparr> sn_path = path, sn_tid = tid, sn_size = length F,
         sn_shared = k, sn_phase = SHash \<rparr>"
  using assms by (simp add: send_file_def d_len_def Let_def)

text \<open>C7: End to end: over the ordered channel and without I/O faults, sending a file to a
  receiver whose \<open>.part\<close> file (if any) holds a prefix of it always completes, after
  finitely many rounds, whatever the file's size and however short the single reads are:
  the receiver's final file is the sender's file byte for byte, and both sides report
  completion.  No window or acknowledgement deadlock is possible.\<close>

theorem transfer_completes:
  assumes a: "no_faults (ft_disk a)" "dk_names (ft_disk a) path = Some i"
    "dk_data (ft_disk a) i = F" "length F \<le> MAX_OFF"
    and b: "no_faults (ft_disk b)" "disk_ok (ft_disk b)"
    and name: "name = (case file_name path of Some n \<Rightarrow> n | None \<Rightarrow> ''file'')"
    and prefix: "part_bytes (ft_disk b) (part_of b name) = take (length (part_bytes (ft_disk b) (part_of b name))) F"
    and tid: "fst (send_file path a) = Some tid"
  shows "\<exists>n. delivered tid F (final_of b name) ((link_round sha ^^ n) (link_start sha path a b))"
proof -
  define k where "k = Suc (ft_seq a)"
  obtain a1 where s: "send_file path a = (Some tid, a1)"
    and out1: "ft_out a1 = ft_out a @ [file_offer tid name (of_nat (length F)) (mime_for path)]"
    and sf1: "same_files (ft_disk a) (ft_disk a1)" and snd1: "ft_sends a1 tid = Some k"
    and sh1: "ft_shared a1 k = \<lparr> ss_acked = 0, ss_started = False, ss_cancel = False \<rparr>"
    and th1: "last (ft_threads a1) = \<lparr> sn_path = path, sn_tid = tid, sn_size = length F,
         sn_shared = k, sn_phase = SHash \<rparr>"
    using send_file_exact [OF a(1,2,3)] tid name by (auto simp: k_def)
  define P where "P = part_bytes (ft_disk b) (part_of b name)"
  define r where "r = min (length P) (length F)"
  have rM: "r \<le> MAX_OFF" using a(4) by (simp add: r_def)
  define m where "m = \<lparr> o_transfer_id = tid, o_name = name, o_size = of_nat (length F), o_mime = mime_for path \<rparr>"
  have sz: "unat (o_size m) = length F" using offset_unat [OF a(4)] by (simp add: m_def)
  obtain st d' where off: "on_offer m b = ft_emit (file_ack tid (of_nat r))
          (ft_event (Offered tid name (length F))
            (b\<lparr>ft_disk := d', ft_recvs := (ft_recvs b)(tid \<mapsto> st)\<rparr>))"
    and st: "recv_ok d' st" "no_faults d'" "rs_hashed st = take r P" "rs_last_ack st = r"
      "rs_size st = length F" "rs_final st = final_of b name"
    using on_offer_exact [OF b, of r m] sz by (auto simp: m_def r_def P_def)
  have PF: "take r P = take r F" using prefix unfolding r_def P_def [symmetric]
    by (metis min.commute min.idem min.left_commute take_take)
  let ?b1 = "on_offer m b"
  let ?a2 = "a1\<lparr>ft_shared := (ft_shared a1)(k := (ft_shared a1 k)\<lparr>ss_acked := r, ss_started := True\<rparr>)\<rparr>"
  let ?sn = "\<lparr> sn_path = path, sn_tid = tid, sn_size = length F, sn_shared = k, sn_phase = SHash \<rparr>"
  have l0: "link_start sha path a b = \<lparr> lk_sn = ?sn, lk_a = ?a2, lk_b = ?b1,
      lk_ab = length (ft_out ?a2), lk_ba = length (ft_out ?b1) \<rparr>"
  proof -
    have "deliver sha (drop (length (ft_out a)) (ft_out a1)) b = ?b1"
      using out1 by (simp add: file_offer_def m_def)
    moreover have "deliver sha (drop (length (ft_out b)) (ft_out ?b1)) a1 = ?a2"
      using on_ack_shared [OF snd1 rM] unfolding off by (simp add: file_ack_def)
    ultimately show ?thesis using s th1 by (simp add: link_start_def Let_def exchange_def)
  qed
  have d2: "no_faults (ft_disk ?a2)" "dk_names (ft_disk ?a2) path = Some i"
    "dk_data (ft_disk ?a2) i = F"
    using sf1 a by (auto simp: same_files_def no_faults_def)
  obtain d3 where h: "hash_file sha path (ft_disk ?a2) = (Some (sha F), d3)"
    and sf3: "same_files (ft_disk ?a2) d3"
    using hash_file_exact [OF d2(1,2)] d2(3) by auto
  have o3: "d_open path d3 = (Some i, tick d3)"
    using sf3 d2 by (auto simp: d_open_def same_files_def failing_def no_faults_def)
  let ?l1 = "(link_start sha path a b)\<lparr>lk_sn := ?sn\<lparr>sn_phase := SWait (sha F) i\<rparr>,
      lk_a := ?a2\<lparr>ft_disk := tick d3\<rparr>\<rparr>"
  have r1: "link_round sha (link_start sha path a b) = ?l1"
    unfolding l0 using h o3 by (subst round_quiet) (simp_all add: send_step_def Let_def)
  have nf3: "no_faults (tick d3)" and data3: "dk_data (tick d3) i = F"
    using sf3 d2 by (auto simp: same_files_def no_faults_def)
  let ?l2 = "?l1\<lparr>lk_sn := ?sn\<lparr>sn_phase := SStream (sha F) i r\<rparr>,
      lk_a := ?a2\<lparr>ft_disk := tick (tick d3)\<rparr>\<rparr>"
  have r2: "link_round sha ?l1 = ?l2"
    unfolding l0 using nf3 rM
    by (subst round_quiet) (simp_all add: send_step_def Let_def d_seek_def)
  have "in_step sha tid k F (final_of b name) r ?l2"
    unfolding in_step_def l0
    using d2 snd1 sh1 nf3 data3 a(4) st PF off
    by (intro exI [of _ i] exI [of _ st]) (auto simp: r_def ACK_EVERY_def)
  then obtain n where "delivered tid F (final_of b name) ((link_round sha ^^ n) ?l2)"
    using rounds_complete by blast
  then have "delivered tid F (final_of b name) ((link_round sha ^^ Suc (Suc n)) (link_start sha path a b))"
    using r1 r2 by (simp only: funpow_Suc_right o_apply)
  then show ?thesis by blast
qed

section \<open>Integrity under an arbitrary peer\<close>

text \<open>Two transfers clash when one's partial or final path is also used by the other.\<close>

definition clash_free :: "ft \<Rightarrow> bool" where
  "clash_free s \<longleftrightarrow> (\<forall>t u a b. ft_recvs s t = Some a \<longrightarrow> ft_recvs s u = Some b \<longrightarrow> t \<noteq> u \<longrightarrow>
     rs_part a \<noteq> rs_part b \<and> rs_part a \<noteq> rs_final b)"

text \<open>No file reaches the largest offset.\<close>

fun fits :: "ft \<Rightarrow> ft_input \<Rightarrow> bool" where
  "fits s (FMsg (P_FileChunk tid off data)) =
    (case ft_recvs s tid of None \<Rightarrow> True | Some st \<Rightarrow> rs_written st + length data \<le> MAX_OFF)"
| "fits s _ = True"

inductive clean_run :: "(bytes \<Rightarrow> bytes) \<Rightarrow> ft \<Rightarrow> ft \<Rightarrow> bool" for sha where
  clean_refl: "clean_run sha s s"
| clean_step: "clean_run sha s t \<Longrightarrow> fits t x \<Longrightarrow> clash_free (ft_step sha x t)
    \<Longrightarrow> clean_run sha s (ft_step sha x t)"

definition ft_good :: "ft \<Rightarrow> bool" where
  "ft_good s \<longleftrightarrow> disk_ok (ft_disk s) \<and> no_faults (ft_disk s) \<and> clash_free s
     \<and> (\<forall>tid st. ft_recvs s tid = Some st \<longrightarrow> recv_ok (ft_disk s) st)"

lemma ft_goodD:
  assumes "ft_good s"
  shows "disk_ok (ft_disk s)" "no_faults (ft_disk s)" "clash_free s"
    "ft_recvs s tid = Some st \<Longrightarrow> recv_ok (ft_disk s) st"
  using assms by (auto simp: ft_good_def)

lemma recv_ok_same: "same_files d d' \<Longrightarrow> recv_ok d st \<Longrightarrow> recv_ok d' st"
  by (simp add: recv_ok_def same_files_def)

lemma good_fewer:
  assumes "ft_good s" "same_files (ft_disk s) (ft_disk s')" "clash_free s'"
    "\<And>tid st. ft_recvs s' tid = Some st \<Longrightarrow> ft_recvs s tid = Some st"
  shows "ft_good s'"
proof -
  have "recv_ok (ft_disk s') st" if "ft_recvs s' tid = Some st" for tid st
    using recv_ok_same [OF assms(2)] assms(1) assms(4) [OF that] by (auto simp: ft_good_def)
  moreover have "disk_ok (ft_disk s')" "no_faults (ft_disk s')"
    using assms(1,2) by (auto simp: ft_good_def disk_ok_def no_faults_def same_files_def)
  ultimately show ?thesis using assms(3) by (simp add: ft_good_def)
qed

text \<open>The receive state of another transfer survives what happens to this one.\<close>

lemma other_ino:
  assumes "ft_good s" "ft_recvs s u = Some b" "dk_names (ft_disk s) q = Some i" "rs_part b \<noteq> q"
  shows "rs_ino b \<noteq> i"
  using assms unfolding ft_good_def recv_ok_def disk_ok_def by metis

lemma good_on_chunk:
  assumes g: "ft_good s" and f: "fits s (FMsg (P_FileChunk tid off data))"
    and c: "clash_free (on_chunk tid off data s)"
  shows "ft_good (on_chunk tid off data s)"
proof (cases "\<exists>st. ft_recvs s tid = Some st \<and> unat off = rs_written st")
  case False
  have "same_files (ft_disk s) (ft_disk (on_chunk tid off data s))"
    and "ft_recvs (on_chunk tid off data s) = ft_recvs s"
    using False by (auto simp: on_chunk_def ft_fail_def split: option.splits)
  then show ?thesis using good_fewer [OF g _ c] by simp
next
  case True
  then obtain st where st: "ft_recvs s tid = Some st" and o: "unat off = rs_written st" by blast
  have w: "rs_written st + length data \<le> MAX_OFF" using f st by simp
  have off: "off = of_nat (rs_written st)" unfolding o [symmetric] by simp
  note gd = ft_goodD [OF g]
  obtain d' where e: "on_chunk tid off data s =
      (if acks_now st data then ft_emit (file_ack tid (of_nat (rs_written st + length data))) else id)
       (ft_event (Progress tid (rs_written st + length data) (rs_size st))
         (s\<lparr>ft_disk := d', ft_recvs := (ft_recvs s)(tid \<mapsto> appended st data)\<rparr>))"
    and d': "recv_ok d' (appended st data)" "no_faults d'" "dk_names d' = dk_names (ft_disk s)"
      "dk_data d' = (dk_data (ft_disk s))(rs_ino st := rs_hashed st @ data)"
      "dk_next d' = dk_next (ft_disk s)"
    using on_chunk_exact [OF st gd(4) [OF st] gd(2) w] unfolding off by blast
  have ds: "ft_disk (on_chunk tid off data s) = d'"
    "ft_recvs (on_chunk tid off data s) = (ft_recvs s)(tid \<mapsto> appended st data)"
    unfolding e by auto
  have len: "length (rs_hashed st @ data) \<le> MAX_OFF"
    using w gd(4) [OF st] by (simp add: recv_ok_def)
  have ok: "disk_ok d'" using gd(1) d'(3-5) len by (auto simp: disk_ok_def)
  have "recv_ok d' b" if "u \<noteq> tid" "ft_recvs s u = Some b" for u b
  proof -
    have "rs_part b \<noteq> rs_part st" using gd(3) st that unfolding clash_free_def by blast
    then have "rs_ino b \<noteq> rs_ino st"
      using other_ino [OF g that(2), of "rs_part st" "rs_ino st"] gd(4) [OF st]
      by (simp add: recv_ok_def)
    then show ?thesis using gd(4) [OF that(2)] d'(3,4) by (simp add: recv_ok_def)
  qed
  then show ?thesis using ok d' c ds by (auto simp: ft_good_def split: if_splits)
qed

lemma good_on_complete:
  assumes g: "ft_good s" and c: "clash_free (on_complete sha tid dg s)"
  shows "ft_good (on_complete sha tid dg s)"
proof (cases "ft_recvs s tid")
  case None
  then show ?thesis using g by (simp add: on_complete_def)
next
  case (Some st)
  note gd = ft_goodD [OF g]
  define d where "d = tick (ft_disk s)"
  define d' where "d' = ft_disk (on_complete sha tid dg s)"
  have rv: "ft_recvs (on_complete sha tid dg s) = (ft_recvs s)(tid := None)"
    using Some by (auto simp: on_complete_def Let_def ft_fail_def split: prod.splits if_splits)
  have d': "d' = snd (d_remove (rs_part st) d) \<or> d' = snd (d_rename (rs_part st) (rs_final st) d)"
    using Some by (auto simp: d'_def d_def on_complete_def Let_def ft_fail_def split: prod.splits)
  have okd: "disk_ok d" "no_faults d" using gd(1,2) by (auto simp: d_def)
  have "disk_ok d'"
    using d' disk_ok_remove [OF okd(1)] disk_ok_rename [OF okd(1)] by metis
  moreover have "no_faults d' \<and> dk_data d' = dk_data d"
    using d' okd(2) by (auto simp: d_remove_def d_rename_def split: option.splits)
  ultimately have same: "no_faults d' \<and> dk_data d' = dk_data d \<and> disk_ok d'" by blast
  have "recv_ok d' b" if "u \<noteq> tid" "ft_recvs s u = Some b" for u b
  proof -
    have ne: "rs_part b \<noteq> rs_part st" "rs_part b \<noteq> rs_final st"
      using gd(3) Some that unfolding clash_free_def by blast+
    then have "dk_names d' (rs_part b) = dk_names d (rs_part b)"
      using d' by (auto simp: d_remove_def d_rename_def split: option.splits)
    then show ?thesis using gd(4) [OF that(2)] same by (simp add: recv_ok_def d_def)
  qed
  then show ?thesis using same c rv by (auto simp: ft_good_def d'_def split: if_splits)
qed

lemma good_on_offer:
  assumes g: "ft_good s" and c: "clash_free (on_offer m s)"
  shows "ft_good (on_offer m s)"
proof -
  note gd = ft_goodD [OF g]
  define resume where
    "resume = min (length (part_bytes (ft_disk s) (part_of s (o_name m)))) (unat (o_size m))"
  define d' where "d' = ft_disk (on_offer m s)"
  obtain st where rv: "ft_recvs (on_offer m s) = (ft_recvs s)(o_transfer_id m \<mapsto> st)"
    and st: "recv_ok d' st" "no_faults d'" "disk_ok d'" "rs_part st = part_of s (o_name m)"
    using on_offer_exact [OF gd(2,1) resume_def] by (auto simp: d'_def)
  have names: "dk_names d' q = dk_names (ft_disk s) q" if "q \<noteq> rs_part st" for q
    using on_offer_frame [OF gd(2,1), of _ m] that st(4) by (simp add: d'_def)
  have data: "dk_data d' j = dk_data (ft_disk s) j" if "q \<noteq> rs_part st" "dk_names (ft_disk s) q = Some j" for q j
    using on_offer_frame(2) [OF gd(2,1), of q m j] that st(4) by (simp add: d'_def)
  have "recv_ok d' b" if u: "u \<noteq> o_transfer_id m" "ft_recvs s u = Some b" for u b
  proof -
    have "rs_part b \<noteq> rs_part st" using c rv u unfolding clash_free_def by (metis fun_upd_apply)
    then show ?thesis using gd(4) [OF u(2)] names data by (auto simp: recv_ok_def)
  qed
  then show ?thesis using st c rv by (auto simp: ft_good_def d'_def split: if_splits)
qed

lemma good_step:
  assumes g: "ft_good s" and f: "fits s x" and c: "clash_free (ft_step sha x s)"
  shows "ft_good (ft_step sha x s)"
proof (cases x)
  case (FMsg p)
  show ?thesis
  proof (cases p)
    case (P_FileOffer m)
    then show ?thesis using good_on_offer [OF g] c FMsg by simp
  next
    case (P_FileChunk tid off data)
    then show ?thesis using good_on_chunk [OF g] f c FMsg by simp
  next
    case (P_FileAck tid off)
    then show ?thesis using FMsg c
      by (intro good_fewer [OF g]) (auto simp: on_ack_def split: option.splits)
  next
    case (P_FileComplete tid dg)
    then show ?thesis using good_on_complete [OF g] c FMsg by simp
  next
    case (P_FileCancel tid reason)
    then show ?thesis using g FMsg c
      by (intro good_fewer [OF g]) (auto simp: on_cancel_def ft_fail_def Let_def split: if_splits)
  qed (use g FMsg in auto)
next
  case (FSend path)
  then show ?thesis using send_file_disk [of s path] c by (intro good_fewer [OF g]) auto
next
  case (FCancel tid reason)
  then show ?thesis using c
    by (intro good_fewer [OF g]) (auto simp: cancel_transfer_def Let_def split: if_splits)
next
  case (FThread k)
  then show ?thesis using send_step_disk [of s sha "ft_threads s ! k"] c
    by (intro good_fewer [OF g]) (auto simp: run_thread_def split: prod.splits if_splits)
qed

lemma clean_good: "clean_run sha s t \<Longrightarrow> ft_good s \<Longrightarrow> ft_good t"
  by (induction rule: clean_run.induct) (auto intro: good_step)

text \<open>C6: Integrity against an arbitrary peer: in whatever state, a transfer is reported complete only if
  all its offered bytes were written and the hash kept over them is the digest the peer announced;
  and after a run from the start without I/O faults, of whatever envelopes and local actions, in
  which no two active transfers share a path and no file reaches the largest offset, the file
  published under its final name has exactly the offered size and hashes to that digest.\<close>

theorem completed_is_verified:
  assumes st: "ft_recvs s tid = Some st"
    and reported: "Completed tid (Some p) \<in> set (drop (length (ft_events s)) (ft_events (on_complete sha tid dg s)))"
  shows "rs_written st = rs_size st \<and> sha (rs_hashed st) = dg
    \<and> (\<forall>dir d. disk_ok d \<and> no_faults d \<and> clean_run sha (ft_new dir d) s \<longrightarrow>
        (\<exists>bs. file_view (ft_disk (on_complete sha tid dg s)) p = Some bs \<and> sha bs = dg \<and> length bs = rs_size st))"
proof -
  have w: "rs_written st = rs_size st" and h: "sha (rs_hashed st) = dg"
    using reported st by (auto simp: on_complete_def Let_def ft_fail_def split: if_splits prod.splits)
  have "\<exists>bs. file_view (ft_disk (on_complete sha tid dg s)) p = Some bs \<and> sha bs = dg \<and> length bs = rs_size st"
    if d: "disk_ok d" "no_faults d" and run: "clean_run sha (ft_new dir d) s" for dir d
  proof -
    have "ft_good (ft_new dir d)" using d by (auto simp: ft_good_def ft_new_def clash_free_def)
    then have g: "ft_good s" by (rule clean_good [OF run])
    note gd = ft_goodD [OF g]
    have ok: "recv_ok (ft_disk s) st" by (rule gd(4) [OF st])
    note c = on_complete_exact [OF st ok gd(2) w, of sha dg, OF h]
    have "p = rs_final st" using reported c(2) by simp
    then show ?thesis using c(1) h w ok by (auto simp: recv_ok_def)
  qed
  then show ?thesis using w h by blast
qed

section \<open>Examples\<close>

definition demo_sender :: ft where
  "demo_sender = ft_new ''/dl'' (demo_disk ''/home/a.txt'' [1, 2, 3])"

definition demo_receiver :: ft where
  "demo_receiver = ft_new ''/dl'' (demo_disk ''/dl/a.txt.part'' [1])"

lemma demo_tid: "fst (send_file ''/home/a.txt'' demo_sender) = Some ''tx-1-a.txt''"
  by code_simp

lemma demo_name:
  "''a.txt'' = (case file_name ''/home/a.txt'' of Some n \<Rightarrow> n | None \<Rightarrow> ''file'')"
  by (simp add: file_name_def)

lemma demo_part: "part_bytes (ft_disk demo_receiver) (part_of demo_receiver ''a.txt'') = [1]"
  by (simp add: part_bytes_def file_view_def demo_receiver_def ft_new_def demo_disk_def part_of_def
      sanitize_def last_segment_def trim_matches_def is_sep_def path_join_def with_ext_def Let_def)

lemma transfer_completes_witness:
  "\<exists>n. delivered ''tx-1-a.txt'' [1, 2, 3] (final_of demo_receiver ''a.txt'')
     ((link_round id ^^ n) (link_start id ''/home/a.txt'' demo_sender demo_receiver))"
  by (rule transfer_completes [where i = 0 and name = "''a.txt''"])
     (use demo_tid demo_name demo_part demo_disk_faults demo_disk_ok in
       \<open>simp_all add: demo_sender_def demo_receiver_def ft_new_def MAX_OFF_def\<close>,
      simp_all add: demo_disk_def)

definition demo_complete :: ft where
  "demo_complete =
    on_chunk ''t'' 0 [9] (on_offer (demo_offer\<lparr>o_name := ''b''\<rparr>) (ft_new ''/dl'' (demo_disk ''/x'' [])))"

text \<open>Two concurrent transfers of files with the same name write through the same partial file:
  both are accepted, each keeps its own digest, and the first one to finish is reported
  complete although the published file holds the other's bytes.\<close>

definition same_name_run :: ft where
  "same_name_run =
    fold (\<lambda>p s. snd (ft_handle id p s))
      [P_FileOffer (demo_offer\<lparr>o_transfer_id := ''a'', o_name := ''r''\<rparr>),
       P_FileOffer (demo_offer\<lparr>o_transfer_id := ''b'', o_name := ''r''\<rparr>),
       P_FileChunk ''a'' 0 [1], P_FileChunk ''b'' 0 [2], P_FileComplete ''a'' [1]]
      (ft_new ''/dl'' (demo_disk ''/x'' []))"


lemma same_name_corrupts:
  "Completed ''a'' (Some ''/dl/r'') \<in> set (ft_events same_name_run)
   \<and> file_view (ft_disk same_name_run) ''/dl/r'' = Some [2]"
  by code_simp

lemma clash_free_single: "(\<And>u st. ft_recvs s u = Some st \<Longrightarrow> u = t) \<Longrightarrow> clash_free s"
  unfolding clash_free_def by metis

lemma on_chunk_dom: "ft_recvs (on_chunk tid off data s) u = Some st \<Longrightarrow> u = tid \<or> ft_recvs s u \<noteq> None"
  by (auto simp: on_chunk_def Let_def ft_fail_def split: option.splits if_splits prod.splits)

lemma on_offer_dom:
  "no_faults (ft_disk s) \<Longrightarrow> disk_ok (ft_disk s) \<Longrightarrow> ft_recvs (on_offer m s) u = Some st
    \<Longrightarrow> u = o_transfer_id m \<or> ft_recvs s u \<noteq> None"
  using on_offer_exact [of s _ m, OF _ _ refl] by (fastforce split: if_splits)

lemma demo_run: "clean_run id (ft_new ''/dl'' (demo_disk ''/x'' [])) demo_complete"
proof -
  let ?s0 = "ft_new ''/dl'' (demo_disk ''/x'' [])"
  let ?o = "demo_offer\<lparr>o_name := ''b''\<rparr>"
  have nf: "no_faults (ft_disk ?s0)" and ok: "disk_ok (ft_disk ?s0)"
    by (simp_all add: ft_new_def demo_disk_faults demo_disk_ok)
  have d1: "u = ''t''" if "ft_recvs (on_offer ?o ?s0) u = Some st" for u st
    using on_offer_dom [OF nf ok that] by (auto simp: ft_new_def demo_offer_def)
  have d2: "u = ''t''" if "ft_recvs demo_complete u = Some st" for u st
    using on_chunk_dom [of "''t''" 0 "[9]" "on_offer ?o ?s0" u st] that d1
    by (auto simp: demo_complete_def)
  have r1: "clean_run id ?s0 (ft_step id (FMsg (P_FileOffer ?o)) ?s0)"
    by (rule clean_step [OF clean_refl]) (use d1 in \<open>auto intro: clash_free_single\<close>)
  have f: "fits (ft_step id (FMsg (P_FileOffer ?o)) ?s0) (FMsg (P_FileChunk ''t'' 0 [9]))"
    by code_simp
  have "clean_run id ?s0
      (ft_step id (FMsg (P_FileChunk ''t'' 0 [9])) (ft_step id (FMsg (P_FileOffer ?o)) ?s0))"
    by (rule clean_step [OF r1 f]) (use d2 in \<open>auto simp: demo_complete_def intro: clash_free_single\<close>)
  then show ?thesis by (simp add: demo_complete_def)
qed

lemma completed_is_verified_witness:
  "\<exists>bs. file_view (ft_disk (on_complete id ''t'' [9] demo_complete)) ''/dl/b'' = Some bs
    \<and> id bs = [9] \<and> length bs = 1"
proof -
  have st: "ft_recvs demo_complete ''t'' = Some (the (ft_recvs demo_complete ''t''))" by code_simp
  have r: "Completed ''t'' (Some ''/dl/b'') \<in> set (drop (length (ft_events demo_complete))
      (ft_events (on_complete id ''t'' [9] demo_complete)))" by code_simp
  have sz: "rs_size (the (ft_recvs demo_complete ''t'')) = 1" by code_simp
  have k: "disk_ok (demo_disk ''/x'' []) \<and> no_faults (demo_disk ''/x'' []) \<and> clean_run id (ft_new ''/dl'' (demo_disk ''/x'' [])) demo_complete"
    by (intro conjI demo_disk_ok demo_disk_faults demo_run) (simp_all add: MAX_OFF_def)
  from completed_is_verified [OF st r, THEN conjunct2, THEN conjunct2, rule_format, OF k] show ?thesis unfolding sz .
qed

end
