(* ===== verification/Viewer.thy ===== *)
theory Viewer
  imports Protocol Codec Identity Transport Clipboard FileTransfer HostSession
begin

text \<open>
  The viewer session (\<open>crates/session/src/viewer.rs\<close>): the Hello it introduces itself
  with, the pump thread's turn and its handling of every transport event and control
  message, and the decode thread's step.  The state gathers the pump's locals and what it has
  sent; the protobuf decoder, the SDP field of a session description and the H.264
  decoder are fields of \<open>viewer_env\<close>.
\<close>

section \<open>Configuration and updates\<close>

record viewer_config =
  vc_device_name :: string
  vc_ice_servers :: "ice_server list"
  vc_bind_addr :: string
  vc_enable_audio :: bool
  vc_identity :: "identity option"

definition viewer_config_default :: viewer_config where
  "viewer_config_default = \<lparr> vc_device_name = ''rmd-viewer'', vc_ice_servers = [], vc_bind_addr = ''0.0.0.0:0'',
     vc_enable_audio = False, vc_identity = None \<rparr>"

record decoded_frame =
  df_width :: nat
  df_height :: nat
  df_rgba :: bytes

datatype viewer_update =
    VuConnected
  | VuDisconnected
  | VuFrame decoded_frame
  | VuPaired bool
  | VuPasswordRequired string
  | VuLatency u64
  | VuFile file_event
  | VuDisplays "display_descriptor list"
  | VuHostIdentity bytes string bool

record viewer_env =
  ve_crypto :: crypto
  ve_decode :: "bytes \<Rightarrow> envelope_msg option"
  ve_sdp :: "string \<Rightarrow> string option"
  ve_h264 :: "bytes \<Rightarrow> decoded_frame option"

definition build_viewer_hello :: "crypto \<Rightarrow> string \<Rightarrow> identity option \<Rightarrow> string option \<Rightarrow> string option \<Rightarrow> envelope_msg" where
  "build_viewer_hello cx device_name ident local_fp password =
    (let base = (case ident of
                   Some i \<Rightarrow> hello_authenticated device_name RoleViewer 0 (public_key_bytes cx i)
                               (access_proof cx i (opt_bytes local_fp))
                 | None \<Rightarrow> hello device_name RoleViewer 0)
     in case password of
          Some pw \<Rightarrow> if pw \<noteq> [] then with_password base pw else base
        | None \<Rightarrow> base)"

section \<open>The pump\<close>

record viewer =
  vw_local_fp :: "string option"
  vw_host_fp :: "string option"
  vw_files :: ft
  vw_clip :: clip
  vw_updates :: "viewer_update list"
  vw_out :: "envelope_msg list"
  vw_fed :: "signal_msg list"
  vw_signals :: "signal_msg list"
  vw_video :: "bytes list"
  vw_audio :: nat

definition viewer_start :: "clip \<Rightarrow> ft \<Rightarrow> viewer" where
  "viewer_start clip files = \<lparr> vw_local_fp = None, vw_host_fp = None, vw_files = files, vw_clip = clip,
     vw_updates = [], vw_out = [], vw_fed = [], vw_signals = [], vw_video = [], vw_audio = 0 \<rparr>"

definition update :: "viewer_update \<Rightarrow> viewer \<Rightarrow> viewer" where
  "update u v = v\<lparr>vw_updates := vw_updates v @ [u]\<rparr>"

definition vw_send :: "envelope_msg \<Rightarrow> viewer \<Rightarrow> viewer" where
  "vw_send e v = v\<lparr>vw_out := vw_out v @ [e]\<rparr>"

definition say_hello :: "viewer_env \<Rightarrow> viewer_config \<Rightarrow> string option \<Rightarrow> viewer \<Rightarrow> viewer" where
  "say_hello ve vc pw v = vw_send (build_viewer_hello (ve_crypto ve) (vc_device_name vc) (vc_identity vc) (vw_local_fp v) pw) v"

text \<open>The answer to our Hello: the host's proof is checked when there is one.\<close>

definition handle_ack :: "viewer_env \<Rightarrow> hello_ack_msg \<Rightarrow> viewer \<Rightarrow> viewer" where
  "handle_ack ve ack v =
    (if a_password_required ack then update (VuPasswordRequired (a_reason ack)) v
     else if a_host_public_key ack \<noteq> [] \<and> a_host_proof ack \<noteq> [] then
       (case verify_access_proof (ve_crypto ve) (a_host_public_key ack) (a_host_proof ack) (opt_bytes (vw_host_fp v)) of
          Inr dev \<Rightarrow> update (VuPaired (a_accepted ack)) (update (VuHostIdentity (a_host_public_key ack) dev True) v)
        | Inl e \<Rightarrow> update (VuPaired False) (update (VuHostIdentity (a_host_public_key ack) [] False) v))
     else update (VuPaired (a_accepted ack)) v)"

fun vw_dispatch :: "viewer_env \<Rightarrow> u64 \<Rightarrow> payload \<Rightarrow> viewer \<Rightarrow> viewer" where
  "vw_dispatch ve now (P_HelloAck ack) v = handle_ack ve ack v"
| "vw_dispatch ve now (P_Pong t) v = update (VuLatency (sat_sub now t)) v"
| "vw_dispatch ve now (P_Clipboard u) v = v\<lparr>vw_clip := apply_remote u (vw_clip v)\<rparr>"
| "vw_dispatch ve now (P_DisplayList ds) v = update (VuDisplays ds) v"
| "vw_dispatch ve now (P_Audio opus seq) v = v\<lparr>vw_audio := Suc (vw_audio v)\<rparr>"
| "vw_dispatch ve now p v = v\<lparr>vw_files := snd (ft_handle (cx_sha256 (ve_crypto ve)) p (vw_files v))\<rparr>"

fun vw_event :: "viewer_env \<Rightarrow> viewer_config \<Rightarrow> u64 \<Rightarrow> transport_event \<Rightarrow> viewer \<Rightarrow> viewer" where
  "vw_event ve vc now (LocalSignal m) v =
     (let v1 = (case m of
                  Answer json \<Rightarrow> (case fingerprint_from_session_json (ve_sdp ve) json of
                                   Some fp \<Rightarrow> v\<lparr>vw_local_fp := Some fp\<rparr> | None \<Rightarrow> v)
                | _ \<Rightarrow> v)
      in v1\<lparr>vw_signals := vw_signals v1 @ [m]\<rparr>)"
| "vw_event ve vc now Connected v = update VuConnected (say_hello ve vc None v)"
| "vw_event ve vc now Disconnected v = update VuDisconnected v"
| "vw_event ve vc now (Video annexb ts) v = v\<lparr>vw_video := vw_video v @ [annexb]\<rparr>"
| "vw_event ve vc now (Data bs) v =
     (case ve_decode ve bs of
        None \<Rightarrow> v
      | Some env \<Rightarrow> (case e_payload env of None \<Rightarrow> v | Some p \<Rightarrow> vw_dispatch ve now p v))"
| "vw_event ve vc now KeyframeRequested v = v"

definition vw_feed :: "viewer_env \<Rightarrow> signal_msg \<Rightarrow> viewer \<Rightarrow> viewer" where
  "vw_feed ve m v =
    (let v1 = (case m of
                 Offer json \<Rightarrow> (case fingerprint_from_session_json (ve_sdp ve) json of
                                  Some fp \<Rightarrow> v\<lparr>vw_host_fp := Some fp\<rparr> | None \<Rightarrow> v)
               | _ \<Rightarrow> v)
     in v1\<lparr>vw_fed := vw_fed v1 @ [m]\<rparr>)"

record pump_turn =
  pm_signals :: "signal_msg list"
  pm_files :: "string list"
  pm_passwords :: "string list"
  pm_event :: "transport_event option"
  pm_now :: u64

definition forward_files :: "viewer \<Rightarrow> viewer" where
  "forward_files v = v\<lparr>vw_updates := vw_updates v @ map VuFile (ft_events (vw_files v)),
     vw_files := (vw_files v)\<lparr>ft_events := []\<rparr>\<rparr>"

definition pump :: "viewer_env \<Rightarrow> viewer_config \<Rightarrow> pump_turn \<Rightarrow> viewer \<Rightarrow> viewer" where
  "pump ve vc t v =
    (let v1 = fold (vw_feed ve) (pm_signals t) v;
         v2 = fold (\<lambda>path v. v\<lparr>vw_files := snd (send_file path (vw_files v))\<rparr>) (pm_files t) v1;
         v3 = fold (\<lambda>pw. say_hello ve vc (Some pw)) (pm_passwords t) v2;
         v4 = forward_files v3
     in case pm_event t of None \<Rightarrow> v4 | Some ev \<Rightarrow> vw_event ve vc (pm_now t) ev v4)"

text \<open>The decode thread takes the next access unit.\<close>

definition decode_next :: "viewer_env \<Rightarrow> viewer \<Rightarrow> viewer" where
  "decode_next ve v =
    (case vw_video v of
       [] \<Rightarrow> v
     | a # as \<Rightarrow> (case ve_h264 ve a of
                    Some f \<Rightarrow> update (VuFrame f) (v\<lparr>vw_video := as\<rparr>)
                  | None \<Rightarrow> v\<lparr>vw_video := as\<rparr>))"

section \<open>The user's commands\<close>

definition vw_select_display :: "u32 \<Rightarrow> viewer \<Rightarrow> viewer" where
  "vw_select_display i = vw_send (select_display i)"
definition vw_request_keyframe :: "viewer \<Rightarrow> viewer" where
  "vw_request_keyframe = vw_send request_keyframe"
definition vw_send_input :: "input_event \<Rightarrow> viewer \<Rightarrow> viewer" where
  "vw_send_input ev = vw_send (input ev)"
definition vw_send_ping :: "u64 \<Rightarrow> viewer \<Rightarrow> viewer" where
  "vw_send_ping now = vw_send (ping now)"

section \<open>What the viewer reports\<close>

lemma update_simps [simp]:
  "vw_updates (update u v) = vw_updates v @ [u]" "vw_host_fp (update u v) = vw_host_fp v"
  "vw_local_fp (update u v) = vw_local_fp v" "vw_out (update u v) = vw_out v"
  by (simp_all add: update_def)

lemma handle_ack_verified:
  assumes "handle_ack ve ack v = v'" "VuHostIdentity key dev True \<in> set (vw_updates v')" "VuHostIdentity key dev True \<notin> set (vw_updates v)"
  shows "key = a_host_public_key ack \<and> verify_access_proof (ve_crypto ve) key (a_host_proof ack) (opt_bytes (vw_host_fp v)) = Inr dev"
  using assms by (auto simp: handle_ack_def split: if_splits sum.splits)

text \<open>A host without a proof is not held against: the session counts as paired although no
  identity was ever reported.\<close>

lemma unproven_host_pairs:
  "let v = viewer_start (clip_spawn True None (\<lambda>_. True)) (ft_new ''/dl'' empty_disk);
       v' = handle_ack ve \<lparr> a_accepted = True, a_reason = [], a_device_name = [], a_features = 0, a_host_public_key = [],
              a_host_proof = [], a_video_codec = 1, a_password_required = False \<rparr> v
   in vw_updates v' = [VuPaired True]"
  by (simp add: Let_def handle_ack_def viewer_start_def)

end
