(* ===== verification/HostSafety.thy ===== *)
theory HostSafety
  imports HostSession
begin

text \<open>
  What the host session guarantees: an unauthorized peer is powerless, authorization takes
  the configured credentials, view-only and disconnection leave nothing held and nothing
  captured, the zoomed pointer stays on screen and guessing the password is slow.
\<close>

section \<open>The gate\<close>

lemma ft_handle_False: "ft_handle sha p f = (False, f') \<Longrightarrow> f' = f"
  by (cases p) auto

lemma ft_handle_hello [simp]: "ft_handle sha (P_Hello h) f = (False, f)"
  by simp

text \<open>The three ways a control message can go.\<close>

lemma handle_control_cases:
  obtains (dropped) "handle_control he hc vp now bs s = s"
  | (transfer) env p f where "he_decode he bs = Some env" "e_payload env = Some p" "hs_authorized s"
      "\<not> is_hello p" "handle_control he hc vp now bs s = s\<lparr>hs_files := f\<rparr>"
  | (dispatched) env p where "he_decode he bs = Some env" "e_payload env = Some p"
      "hs_authorized s \<or> is_hello p" "\<not> (hs_view_only s \<and> is_input p)"
      "handle_control he hc vp now bs s = dispatch he hc vp now (e_major env) p s"
proof (cases "he_decode he bs")
  case (Some env)
  show ?thesis
  proof (cases "e_payload env")
    case (Some p)
    note e = \<open>he_decode he bs = Some env\<close> \<open>e_payload env = Some p\<close>
    show ?thesis
    proof (cases "authorization_permits p (hs_authorized s) \<and> \<not> view_only_suppresses p (hs_view_only s)")
      case True
      obtain h f where f: "ft_handle (cx_sha256 (he_crypto he)) p (hs_files s) = (h, f)" by fastforce
      show ?thesis
      proof (cases h)
        case True
        then have "\<not> is_hello p" using f by (cases p) auto
        then show ?thesis
          using transfer [OF e] \<open>authorization_permits p _ \<and> _\<close> f True e
          by (auto simp: handle_control_def authorization_permits_def)
      next
        case False
        then have "f = hs_files s" using ft_handle_False [of _ p "hs_files s" f] f by simp
        then show ?thesis
          using dispatched [OF e] \<open>authorization_permits p _ \<and> _\<close> f False e
          by (auto simp: handle_control_def authorization_permits_def view_only_suppresses_def)
      qed
    qed (use dropped e in \<open>auto simp: handle_control_def\<close>)
  qed (use dropped Some in \<open>simp add: handle_control_def\<close>)
qed (use dropped in \<open>simp add: handle_control_def\<close>)

text \<open>A refusal: the session is left as it was but for the flag and the throttle.\<close>

definition refusal :: "envelope_msg \<Rightarrow> bool" where
  "refusal m \<longleftrightarrow> (\<exists>a. e_payload m = Some (P_HelloAck a) \<and> \<not> a_accepted a)"

definition same_but_refused :: "'v host \<Rightarrow> 'v host \<Rightarrow> bool" where
  "same_but_refused s s' \<longleftrightarrow> (\<exists>pw m. s' = s\<lparr>hs_authorized := False, hs_pw := pw, hs_out := hs_out s @ [m]\<rparr> \<and> refusal m)"

lemma refused_same [intro]:
  "refusal m \<Longrightarrow> same_but_refused s (send m (s\<lparr>hs_authorized := False\<rparr>))"
  "refusal m \<Longrightarrow> same_but_refused s (send m (s\<lparr>hs_pw := pw, hs_authorized := False\<rparr>))"
  unfolding same_but_refused_def
  by (rule exI [of _ "hs_pw s"], rule exI [of _ m], cases s, simp add: send_def,
      rule exI [of _ pw], rule exI [of _ m], cases s, simp add: send_def)

lemma refusals [simp]: "refusal (hello_ack_reject r)" "refusal (hello_ack_password_required r)"
  by (simp_all add: refusal_def hello_ack_reject_def hello_ack_password_required_def)

lemma handle_hello_cases:
  obtains (refused) "same_but_refused s (handle_hello he hc vp now major h s)"
  | (accepted) "hello_decision he hc (opt_bytes (hs_remote_fp s)) major h = Inr ()"
      "\<not> pt_locked now (hs_pw s)" "verify_connect_password (hc_connect_password hc) (h_password h)"
      "handle_hello he hc vp now major h s = accept_hello he hc vp h (s\<lparr>hs_pw := pt_reset (hs_pw s)\<rparr>)"
proof (cases "hello_decision he hc (opt_bytes (hs_remote_fp s)) major h")
  case (Inl r)
  then have "same_but_refused s (handle_hello he hc vp now major h s)"
    by (auto simp: handle_hello_def)
  then show ?thesis by (rule refused)
next
  case (Inr u)
  show ?thesis
  proof (cases "pt_locked now (hs_pw s) \<or> \<not> verify_connect_password (hc_connect_password hc) (h_password h)")
    case True
    then have "same_but_refused s (handle_hello he hc vp now major h s)"
      using Inr by (auto simp: handle_hello_def)
    then show ?thesis by (rule refused)
  next
    case False
    then show ?thesis using accepted Inr by (simp add: handle_hello_def)
  qed
qed

lemma accept_authorizes [simp]: "hs_authorized (accept_hello he hc vp h s)"
  by (simp add: accept_hello_def Let_def send_def)

lemma is_hello_iff: "is_hello p \<longleftrightarrow> (\<exists>h. p = P_Hello h)"
  by (cases p) auto

text \<open>A message that does not authorize changes nothing of an unauthorized session, but for one refusal.\<close>

lemma refused_unless_authorized:
  assumes "\<not> hs_authorized s" "\<not> hs_authorized (handle_control he hc vp now bs s)"
  shows "handle_control he hc vp now bs s = s \<or> same_but_refused s (handle_control he hc vp now bs s)"
proof (cases rule: handle_control_cases [of he hc vp now bs s])
  case (dispatched env p)
  then obtain h where h: "p = P_Hello h" using assms(1) is_hello_iff by blast
  show ?thesis
  proof (cases rule: handle_hello_cases [of s he hc vp now "e_major env" h])
    case accepted
    then show ?thesis using assms(2) dispatched(5) h by simp
  qed (use dispatched(5) h in simp)
qed (use assms(1) in simp_all)

text \<open>The step that turns authorization on.\<close>

lemma authorizing_hello:
  assumes "\<not> hs_authorized s" "hs_authorized (handle_control he hc vp now bs s)"
  shows "\<exists>env h. he_decode he bs = Some env \<and> e_payload env = Some (P_Hello h)
    \<and> e_major env = PROTOCOL_MAJOR
    \<and> codec_i32 (to_proto_codec (hc_video_codec hc)) \<in> set (if h_supported_video_codecs h = [] then [1] else h_supported_video_codecs h)
    \<and> (hc_require_authorization hc \<longrightarrow> (\<exists>dev\<in>set (hc_authorized_device_ids hc).
         verify_access_proof (he_crypto he) (h_public_key h) (h_signature h) (opt_bytes (hs_remote_fp s)) = Inr dev))
    \<and> (\<forall>pw. hc_connect_password hc = Some pw \<longrightarrow> h_password h = pw)
    \<and> \<not> pt_locked now (hs_pw s)"
proof (cases rule: handle_control_cases [of he hc vp now bs s])
  case (dispatched env p)
  then obtain h where h: "p = P_Hello h" using assms(1) is_hello_iff by blast
  show ?thesis
  proof (cases rule: handle_hello_cases [of s he hc vp now "e_major env" h])
    case refused
    then show ?thesis using assms(2) dispatched(5) h by (auto simp: same_but_refused_def)
  next
    case accepted
    have d: "check_compatibility (e_major env) = Inr ()"
      "check_codec_compatible h (to_proto_codec (hc_video_codec hc)) = Inr ()"
      "authorize (he_crypto he) (hc_require_authorization hc) (hc_authorized_device_ids hc) h (opt_bytes (hs_remote_fp s)) = Inr ()"
      using accepted(1) by (simp_all add: hello_decision_def split: sum.splits)
    have "codec_i32 (to_proto_codec (hc_video_codec hc)) \<in> set (if h_supported_video_codecs h = [] then [1] else h_supported_video_codecs h)"
      using d(2) by (auto simp: check_codec_compatible_def Let_def split: if_splits)
    moreover have "hc_require_authorization hc \<longrightarrow> (\<exists>dev\<in>set (hc_authorized_device_ids hc).
         verify_access_proof (he_crypto he) (h_public_key h) (h_signature h) (opt_bytes (hs_remote_fp s)) = Inr dev)"
      using d(3) by (auto simp: authorize_def split: if_splits sum.splits)
    moreover have "\<forall>pw. hc_connect_password hc = Some pw \<longrightarrow> h_password h = pw"
      using accepted(3) by (auto simp: verify_connect_password_def host_pw.eq_iff)
    ultimately show ?thesis using dispatched(1,2) d(1) accepted(2) h by auto
  qed
qed (use assms in simp_all)

text \<open>C2: Authorization takes the configured credentials: the step that turns it on is a
  Hello of this protocol version from a viewer that can decode the host's codec, that proved an
  allowed device identity over this session's own fingerprint when that is required, and
  that gave the connection password when one is set, outside any lock-out.\<close>

theorem authorization_needs_credentials:
  assumes "\<not> hs_authorized s" "hs_authorized (handle_control he hc vp now bs s)"
  shows "\<exists>env h. he_decode he bs = Some env \<and> e_payload env = Some (P_Hello h)
    \<and> e_major env = PROTOCOL_MAJOR
    \<and> codec_i32 (to_proto_codec (hc_video_codec hc)) \<in> set (if h_supported_video_codecs h = [] then [1] else h_supported_video_codecs h)
    \<and> (hc_require_authorization hc \<longrightarrow> (\<exists>dev\<in>set (hc_authorized_device_ids hc).
         verify_access_proof (he_crypto he) (h_public_key h) (h_signature h) (opt_bytes (hs_remote_fp s)) = Inr dev))
    \<and> (\<forall>pw. hc_connect_password hc = Some pw \<longrightarrow> h_password h = pw)
    \<and> \<not> pt_locked now (hs_pw s)"
  using assms by (rule authorizing_hello)

section \<open>The session invariant\<close>

text \<open>Transport events in the order a connection gives them: data only while it is up.\<close>

fun trace_ok :: "bool \<Rightarrow> transport_event list \<Rightarrow> bool" where
  "trace_ok up [] = True"
| "trace_ok up (Connected # es) = (\<not> up \<and> trace_ok True es)"
| "trace_ok up (Disconnected # es) = (up \<and> trace_ok False es)"
| "trace_ok up (Data b # es) = (up \<and> trace_ok up es)"
| "trace_ok up (_ # es) = trace_ok up es"

fun up_next :: "bool \<Rightarrow> transport_event \<Rightarrow> bool" where
  "up_next up Connected = True"
| "up_next up Disconnected = False"
| "up_next up _ = up"

definition turn_events :: "turn list \<Rightarrow> transport_event list" where
  "turn_events ts = List.map_filter tn_event ts"

lemma trace_ok_snoc: "trace_ok up (es @ [e]) \<longleftrightarrow> trace_ok up es \<and> trace_ok (foldl up_next up es) [e]"
  by (induction up es rule: trace_ok.induct) auto

definition held_by :: "injector option \<Rightarrow> held set" where
  "held_by i = (case i of None \<Rightarrow> {} | Some i \<Rightarrow> inj_held i)"

definition injectors_good :: "host_env \<Rightarrow> bool" where
  "injectors_good he \<longleftrightarrow> (\<forall>r i. he_injector he r = Some i \<longrightarrow> linux_good i \<and> inj_held i = {})"

lemma release_held_clears:
  "(\<forall>i. hs_injector s = Some i \<longrightarrow> linux_good i) \<Longrightarrow>
    held_by (hs_injector (release_held s)) = {} \<and> (\<forall>i. hs_injector (release_held s) = Some i \<longrightarrow> linux_good i)"
  by (cases "hs_injector s") (auto simp: release_held_def held_by_def linux.release_clears linux.good_release)

definition host_turns :: "host_env \<Rightarrow> host_config \<Rightarrow> 'v vplane \<Rightarrow> turn list \<Rightarrow> 'v host \<Rightarrow> 'v host" where
  "host_turns he hc vp ts s = fold (host_turn he hc vp) ts s"

section \<open>Before any accepted Hello\<close>

text \<open>What a Hello has to carry to be let in at some point of some session of this host.\<close>

definition credentials :: "host_env \<Rightarrow> host_config \<Rightarrow> u32 \<Rightarrow> hello_msg \<Rightarrow> bool" where
  "credentials he hc major h \<longleftrightarrow> major = PROTOCOL_MAJOR
     \<and> codec_i32 (to_proto_codec (hc_video_codec hc)) \<in> set (if h_supported_video_codecs h = [] then [1] else h_supported_video_codecs h)
     \<and> (hc_require_authorization hc \<longrightarrow> (\<exists>fp. \<exists>dev\<in>set (hc_authorized_device_ids hc).
          verify_access_proof (he_crypto he) (h_public_key h) (h_signature h) (opt_bytes fp) = Inr dev))
     \<and> (\<forall>pw. hc_connect_password hc = Some pw \<longrightarrow> h_password h = pw)"

text \<open>An injector that was opened, and only ever released.\<close>

inductive only_released :: "host_env \<Rightarrow> injector option \<Rightarrow> bool" for he where
  opened: "only_released he (he_injector he r)"
| released: "only_released he i \<Longrightarrow> only_released he (map_option inj_release_all i)"

text \<open>A plane of which no display was selected, no cursor mode set and no capture resumed.\<close>

inductive left_alone :: "'v vplane \<Rightarrow> 'v \<Rightarrow> 'v \<Rightarrow> bool" for vp v where
  start: "left_alone vp v v"
| polled: "left_alone vp v w \<Longrightarrow> left_alone vp v (snd (vp_poll_geometry vp w))"
| paused: "left_alone vp v w \<Longrightarrow> left_alone vp v (vp_pause vp w)"
| keyframe: "left_alone vp v w \<Longrightarrow> left_alone vp v (vp_request_keyframe vp w)"

definition powerless :: "host_env \<Rightarrow> 'v vplane \<Rightarrow> 'v \<Rightarrow> clip \<Rightarrow> ft \<Rightarrow> 'v host \<Rightarrow> bool" where
  "powerless he vp v clip files s \<longleftrightarrow> \<not> hs_authorized s \<and> \<not> hs_was_authorized s \<and> \<not> hs_view_only s \<and> hs_zoom s = FULL
     \<and> hs_clip s = clip \<and> hs_files s = files \<and> only_released he (hs_injector s) \<and> left_alone vp v (hs_video s)
     \<and> (\<forall>m\<in>set (hs_out s). refusal m) \<and> Active \<notin> set (hs_status s)"

lemma powerless_feed: "powerless he vp v clip files s \<Longrightarrow> powerless he vp v clip files (fold (feed_signal he) ms s)"
proof (induction ms arbitrary: s)
  case (Cons m ms)
  have "powerless he vp v clip files (feed_signal he m s)"
    using Cons.prems by (auto simp: feed_signal_def powerless_def Let_def split: signal_msg.split option.split)
  then show ?case using Cons.IH by simp
qed simp

lemma powerless_control:
  assumes p: "powerless he vp v clip files s"
    and c: "\<And>env h. he_decode he bs = Some env \<Longrightarrow> e_payload env = Some (P_Hello h) \<Longrightarrow> \<not> credentials he hc (e_major env) h"
  shows "powerless he vp v clip files (handle_control he hc vp now bs s)"
proof -
  have u: "\<not> hs_authorized s" using p by (simp add: powerless_def)
  have "\<not> hs_authorized (handle_control he hc vp now bs s)"
  proof
    assume "hs_authorized (handle_control he hc vp now bs s)"
    from authorizing_hello [OF u this] c show False unfolding credentials_def by blast
  qed
  from refused_unless_authorized [OF u this] p show ?thesis by (auto simp: same_but_refused_def powerless_def)
qed

lemma powerless_event:
  assumes p: "powerless he vp v clip files s"
    and c: "\<And>bs env h. e = Data bs \<Longrightarrow> he_decode he bs = Some env \<Longrightarrow> e_payload env = Some (P_Hello h) \<Longrightarrow> \<not> credentials he hc (e_major env) h"
  shows "powerless he vp v clip files (handle_event he hc vp now e s)"
proof (cases e)
  case (Data bs)
  have "powerless he vp v clip files (handle_control he hc vp now bs s)" using powerless_control [OF p] c Data by blast
  then show ?thesis by (auto simp: Data powerless_def)
next
  case Disconnected
  then show ?thesis using p by (auto simp: powerless_def release_held_def Let_def intro: only_released.released left_alone.paused)
next
  case (LocalSignal m)
  then show ?thesis using p by (auto simp: powerless_def Let_def split: signal_msg.split option.split)
qed (use p in \<open>auto simp: powerless_def intro: left_alone.keyframe\<close>)

lemma powerless_turn:
  assumes p: "powerless he vp v clip files s"
    and c: "\<And>bs env h. tn_event t = Some (Data bs) \<Longrightarrow> he_decode he bs = Some env \<Longrightarrow> e_payload env = Some (P_Hello h) \<Longrightarrow> \<not> credentials he hc (e_major env) h"
  shows "powerless he vp v clip files (host_turn he hc vp t s)"
proof -
  define s1 where "s1 = fold (feed_signal he) (tn_signals t) s"
  define s2 where "s2 = (if tn_switched t then s1\<lparr>hs_restarts := Suc (hs_restarts s1)\<rparr> else s1)"
  obtain geo w where g: "vp_poll_geometry vp (hs_video s2) = (geo, w)" by fastforce
  define s3 where "s3 = (case geo of None \<Rightarrow> s2\<lparr>hs_video := w\<rparr> | Some rect \<Rightarrow> s2\<lparr>hs_video := w, hs_injector := he_injector he rect\<rparr>)"
  have 2: "powerless he vp v clip files s2" using powerless_feed [OF p] by (auto simp: s1_def s2_def powerless_def)
  have "left_alone vp v w" using left_alone.polled [of vp v "hs_video s2"] 2 g by (simp add: powerless_def)
  then have 3: "powerless he vp v clip files s3"
    using 2 by (auto simp: s3_def powerless_def intro: only_released.opened split: option.split)
  have "host_turn he hc vp t s = (case tn_event t of None \<Rightarrow> s3 | Some e \<Rightarrow> handle_event he hc vp (tn_now t) e s3)"
    unfolding s3_def using g unfolding s2_def s1_def host_turn_def Let_def by (simp only: prod.case)
  then show ?thesis using 3 powerless_event [OF 3] c by (auto split: option.split)
qed

text \<open>C1: A peer without the credentials is powerless: in every run of the host from its start, over any
  signals and transport events, in which no Hello carries what this host asks for, nobody is
  authorized, no input was ever injected, files, clipboard, zoom and view-only are as at the start,
  no display was selected and no capture resumed, and all that was sent are refusals.\<close>

theorem unauthorized_peer_powerless:
  assumes "\<forall>t\<in>set ts. \<forall>bs env h. tn_event t = Some (Data bs) \<and> he_decode he bs = Some env \<and> e_payload env = Some (P_Hello h)
      \<longrightarrow> \<not> credentials he hc (e_major env) h"
  shows "powerless he vp v clip files (host_turns he hc vp ts (host_start he vp v clip files))"
  using assms
proof (induction ts rule: rev_induct)
  case Nil
  show ?case by (auto simp: host_turns_def host_start_def powerless_def intro: only_released.opened left_alone.start)
next
  case (snoc t ts)
  have "\<forall>t\<in>set ts. \<forall>bs env h. tn_event t = Some (Data bs) \<and> he_decode he bs = Some env \<and> e_payload env = Some (P_Hello h)
      \<longrightarrow> \<not> credentials he hc (e_major env) h" using snoc.prems by auto
  then have "powerless he vp v clip files (host_turns he hc vp ts (host_start he vp v clip files))" by (rule snoc.IH)
  then show ?case using powerless_turn [of he vp v clip files _ t hc] snoc.prems by (simp add: host_turns_def)
qed

context video_plane
begin

definition host_inv :: "bool \<Rightarrow> 'v host \<Rightarrow> bool" where
  "host_inv up s \<longleftrightarrow>
     hs_connected s = up
   \<and> (\<forall>i. hs_injector s = Some i \<longrightarrow> linux_good i)
   \<and> (hs_authorized s \<longrightarrow> hs_was_authorized s)
   \<and> (hs_was_authorized s \<longrightarrow> up)
   \<and> (capturing (hs_video s) \<longrightarrow> hs_was_authorized s)
   \<and> (held_by (hs_injector s) \<noteq> {} \<longrightarrow> hs_was_authorized s)
   \<and> (hs_view_only s \<longrightarrow> held_by (hs_injector s) = {} \<and> up)"

lemma host_invI [inv_intros]:
  "hs_connected s = up \<Longrightarrow> (\<And>i. hs_injector s = Some i \<Longrightarrow> linux_good i) \<Longrightarrow>
   (hs_authorized s \<Longrightarrow> hs_was_authorized s) \<Longrightarrow> (hs_was_authorized s \<Longrightarrow> up) \<Longrightarrow>
   (capturing (hs_video s) \<Longrightarrow> hs_was_authorized s) \<Longrightarrow>
   (held_by (hs_injector s) \<noteq> {} \<Longrightarrow> hs_was_authorized s) \<Longrightarrow>
   (hs_view_only s \<Longrightarrow> held_by (hs_injector s) = {} \<and> up) \<Longrightarrow> host_inv up s"
  by (simp add: host_inv_def)

text \<open>What a dispatched message leaves alone.\<close>

lemma dispatch_frame:
  assumes "\<forall>i. hs_injector s = Some i \<longrightarrow> linux_good i"
    and "hs_view_only s \<longrightarrow> held_by (hs_injector s) = {}" "\<not> (hs_view_only s \<and> is_input p)"
  shows "hs_connected (dispatch he hc ops now major p s) = hs_connected s"
    "hs_was_authorized (dispatch he hc ops now major p s) = hs_was_authorized s"
    "\<forall>i. hs_injector (dispatch he hc ops now major p s) = Some i \<longrightarrow> linux_good i"
    "hs_view_only (dispatch he hc ops now major p s) \<longrightarrow> held_by (hs_injector (dispatch he hc ops now major p s)) = {}"
proof -
  have *: "hs_connected (handle_hello he hc ops now major h s) = hs_connected s"
    "hs_was_authorized (handle_hello he hc ops now major h s) = hs_was_authorized s"
    "hs_injector (handle_hello he hc ops now major h s) = hs_injector s"
    "hs_view_only (handle_hello he hc ops now major h s) = hs_view_only s" for h
    by (cases rule: handle_hello_cases [of s he hc ops now major h];
        auto simp: same_but_refused_def accept_hello_def Let_def send_def)+
  have **: "\<forall>i. hs_injector (handle_input ev s) = Some i \<longrightarrow> linux_good i" for ev
    using assms(1) by (auto simp: handle_input_def linux.good_inject split: option.split)
  note r = release_held_clears [of "s\<lparr>hs_view_only := True\<rparr>", simplified, OF assms(1)]
  show "hs_connected (dispatch he hc ops now major p s) = hs_connected s"
    "hs_was_authorized (dispatch he hc ops now major p s) = hs_was_authorized s"
    by (cases p; simp add: * send_def handle_input_def release_held_def Let_def split: option.split)+
  show "\<forall>i. hs_injector (dispatch he hc ops now major p s) = Some i \<longrightarrow> linux_good i"
    using assms(1) r ** by (cases p) (auto simp: * send_def Let_def)
  show "hs_view_only (dispatch he hc ops now major p s) \<longrightarrow> held_by (hs_injector (dispatch he hc ops now major p s)) = {}"
  proof (cases p)
    case (P_Input ev)
    then show ?thesis using assms(3) by (auto simp: handle_input_def split: option.split)
  qed (use assms(2) r in \<open>auto simp: * send_def Let_def\<close>)
qed

lemma host_inv_data:
  assumes i: "host_inv True s"
  shows "host_inv True (handle_event he hc ops now (Data bs) s)"
proof -
  let ?c = "handle_control he hc ops now bs s"
  have a: "\<forall>i. hs_injector s = Some i \<longrightarrow> linux_good i" "hs_view_only s \<longrightarrow> held_by (hs_injector s) = {}"
    using i by (simp_all add: host_inv_def)
  have fr: "hs_connected ?c = hs_connected s" "hs_was_authorized ?c = hs_was_authorized s"
    "\<forall>i. hs_injector ?c = Some i \<longrightarrow> linux_good i"
    "hs_view_only ?c \<longrightarrow> held_by (hs_injector ?c) = {}"
    using a by (cases rule: handle_control_cases [of he hc ops now bs s]; simp add: dispatch_frame)+
  have un: "hs_authorized ?c \<or> hs_was_authorized s \<or>
      (hs_video ?c = hs_video s \<and> hs_injector ?c = hs_injector s)"
  proof (cases "hs_authorized s")
    case False
    then show ?thesis using refused_unless_authorized [of s he hc ops now bs]
      by (auto simp: same_but_refused_def)
  qed (use i in \<open>simp add: host_inv_def\<close>)
  have w: "hs_authorized ?c \<longrightarrow> hs_was_authorized (handle_event he hc ops now (Data bs) s)"
    by (simp add: Let_def)
  have v: "hs_was_authorized (handle_event he hc ops now (Data bs) s) = (hs_was_authorized s \<or> hs_authorized ?c)"
    "hs_video (handle_event he hc ops now (Data bs) s) = hs_video ?c"
    "hs_injector (handle_event he hc ops now (Data bs) s) = hs_injector ?c"
    "hs_connected (handle_event he hc ops now (Data bs) s) = hs_connected ?c"
    "hs_authorized (handle_event he hc ops now (Data bs) s) = hs_authorized ?c"
    "hs_view_only (handle_event he hc ops now (Data bs) s) = hs_view_only ?c"
    using fr(2) by (auto simp: Let_def)
  show ?thesis
    using i fr un unfolding host_inv_def v by auto
qed

lemma host_inv_event:
  assumes i: "host_inv up s" and t: "trace_ok up [e]"
  shows "host_inv (up_next up e) (handle_event he hc ops now e s)"
proof (cases e)
  case (LocalSignal m)
  then show ?thesis using i by (auto simp: host_inv_def Let_def split: signal_msg.split option.split)
next
  case Connected
  then have "\<not> up" using t by simp
  then show ?thesis using i Connected by (auto simp: host_inv_def)
next
  case Disconnected
  have "\<forall>i. hs_injector (s\<lparr>hs_connected := False, hs_authorized := False, hs_was_authorized := False,
      hs_view_only := False\<rparr>) = Some i \<longrightarrow> linux_good i"
    using i by (simp add: host_inv_def)
  note r = release_held_clears [OF this]
  have "hs_connected (release_held x) = hs_connected x" "hs_authorized (release_held x) = hs_authorized x"
    "hs_was_authorized (release_held x) = hs_was_authorized x" "hs_view_only (release_held x) = hs_view_only x"
    for x :: "'v host" by (simp_all add: release_held_def)
  then show ?thesis using r pause_stops by (auto simp: Disconnected host_inv_def Let_def)
next
  case (Data bs)
  then have up using t by simp
  then show ?thesis using host_inv_data i Data by (simp del: handle_event.simps)
next
  case KeyframeRequested
  then show ?thesis using i keyframe_keeps by (simp add: host_inv_def)
qed (use i in simp)

lemma host_inv_turn:
  assumes g: "injectors_good he" and i: "host_inv up s"
    and t: "trace_ok up (case tn_event t of None \<Rightarrow> [] | Some e \<Rightarrow> [e])"
  shows "host_inv (case tn_event t of None \<Rightarrow> up | Some e \<Rightarrow> up_next up e) (host_turn he hc ops t s)"
proof -
  have feed: "host_inv up (fold (feed_signal he) ms s)" for ms
    using i
  proof (induction ms arbitrary: s)
    case (Cons m ms)
    have "host_inv up (feed_signal he m s)"
      using Cons.prems by (auto simp: feed_signal_def host_inv_def Let_def split: signal_msg.split option.split)
    then show ?case using Cons.IH by simp
  qed simp
  obtain s2 where s2: "s2 = (let s1 = fold (feed_signal he) (tn_signals t) s in
      if tn_switched t then s1\<lparr>hs_restarts := Suc (hs_restarts s1)\<rparr> else s1)" by blast
  have i2: "host_inv up s2" using feed by (simp add: s2 Let_def host_inv_def)
  obtain geo v where p: "vp_poll_geometry ops (hs_video s2) = (geo, v)" by fastforce
  have c: "capturing v = capturing (hs_video s2)" using poll_keeps [of "hs_video s2"] p by simp
  obtain s3 where s3: "s3 = (case geo of None \<Rightarrow> s2\<lparr>hs_video := v\<rparr>
      | Some rect \<Rightarrow> s2\<lparr>hs_video := v, hs_injector := he_injector he rect\<rparr>)" by blast
  have "host_inv up s3"
    using i2 g c by (auto simp: s3 host_inv_def injectors_good_def held_by_def split: option.split)
  moreover have "host_turn he hc ops t s = (case tn_event t of None \<Rightarrow> s3 | Some ev \<Rightarrow> handle_event he hc ops (tn_now t) ev s3)"
    unfolding s3 using p unfolding s2 host_turn_def Let_def by (simp only: prod.case)
  ultimately show ?thesis using host_inv_event t by (auto split: option.split)
qed

lemma host_inv_turns:
  assumes "injectors_good he" "host_inv up s" "trace_ok up (turn_events ts)"
  shows "host_inv (foldl up_next up (turn_events ts)) (host_turns he hc ops ts s)"
  using assms(3)
proof (induction ts rule: rev_induct)
  case Nil
  then show ?case using assms(2) by (simp add: host_turns_def turn_events_def map_filter_def)
next
  case (snoc t ts)
  have e: "turn_events (ts @ [t]) = turn_events ts @ (case tn_event t of None \<Rightarrow> [] | Some e \<Rightarrow> [e])"
    by (simp add: turn_events_def map_filter_def split: option.split)
  have t: "trace_ok up (turn_events ts)"
    "trace_ok (foldl up_next up (turn_events ts)) (case tn_event t of None \<Rightarrow> [] | Some e \<Rightarrow> [e])"
    using snoc.prems unfolding e by (cases "tn_event t"; simp add: trace_ok_snoc del: trace_ok.simps(2-))+
  show ?case
    using host_inv_turn [OF assms(1) snoc.IH [OF t(1)] t(2), of hc]
    by (cases "tn_event t") (simp_all add: e host_turns_def)
qed

lemma host_inv_start:
  "injectors_good he \<Longrightarrow> \<not> capturing v \<Longrightarrow> host_inv False (host_start he ops v clip files)"
  by (auto simp: host_inv_def host_start_def injectors_good_def held_by_def split: option.split)

text \<open>The facts a session rests on, for every plane that keeps the contract.\<close>

lemma session_facts:
  assumes "injectors_good he" "\<not> capturing v" "trace_ok False (turn_events ts)"
    and "s = host_turns he hc ops ts (host_start he ops v clip files)"
  shows "\<not> hs_was_authorized s \<Longrightarrow> \<not> hs_authorized s \<and> \<not> capturing (hs_video s) \<and> held_by (hs_injector s) = {}"
    and "\<not> hs_connected s \<Longrightarrow> \<not> hs_was_authorized s"
    and "hs_view_only s \<Longrightarrow> held_by (hs_injector s) = {}"
  using host_inv_turns [OF assms(1) host_inv_start [OF assms(1,2)] assms(3), of hc clip files] assms(4)
  by (auto simp: host_inv_def)

end

section \<open>Sessions of either plane\<close>

text \<open>C4: Without an accepted viewer nothing is captured and nothing is held, on a host with the Linux
  injectors whose writes go through, over a transport that reports Connected and Disconnected in turn
  and delivers data only in between: after any run of the in-process host from its start, with any
  signals, messages and times, after a disconnect and as long as no Hello has been accepted on the
  current connection, the session is not authorized, the capture is stopped and the injector in use
  holds no key or button; and while view-only is on it holds none either.  (Not covered, and not true:
  a connection rebuilt without a Disconnected, and a refused Hello after an accepted one.)\<close>

theorem no_leak_without_viewer:
  assumes "injectors_good he" "\<not> is_capturing v" "trace_ok False (turn_events ts)"
    and "s = host_turns he hc (local_plane os rect) ts (host_start he (local_plane os rect) v clip files)"
  shows "(\<not> hs_connected s \<or> \<not> hs_was_authorized s \<longrightarrow>
      \<not> hs_authorized s \<and> \<not> is_capturing (hs_video s) \<and> held_by (hs_injector s) = {})
    \<and> (hs_view_only s \<longrightarrow> held_by (hs_injector s) = {})"
  using local.session_facts [OF assms] by blast

text \<open>The same in system mode: over the broker's plane, without an accepted viewer the
  session asks for no frames, so once the command queue is worked off the active agent has
  been told to stop capturing.\<close>

theorem no_leak_without_viewer_broker:
  assumes "injectors_good he" "\<not> wants_frames b" "trace_ok False (turn_events ts)"
    and "s = host_turns he hc broker_plane ts (host_start he broker_plane b clip files)"
    and "\<not> hs_connected s \<or> \<not> hs_was_authorized s"
  shows "\<not> hs_authorized s \<and> held_by (hs_injector s) = {} \<and> \<not> wanted (br_cmds (hs_video s)) (br_capturing (hs_video s))"
  using brokered.session_facts [OF assms(1-4)] assms(5) by (auto simp: wants_frames_def)

text \<open>C3: View-only is enforced on the host: while it is on, no message of the viewer injects an
  input event; at most everything held is released.\<close>

theorem view_only_enforced:
  assumes "hs_view_only s"
  shows "hs_injector (handle_control he hc vp now bs s) = hs_injector s
    \<or> hs_injector (handle_control he hc vp now bs s) = map_option inj_release_all (hs_injector s)"
proof (cases rule: handle_control_cases [of he hc vp now bs s])
  case (dispatched env p)
  have *: "hs_injector (handle_hello he hc vp now major h s) = hs_injector s" for major h
    by (cases rule: handle_hello_cases [of s he hc vp now major h];
        auto simp: same_but_refused_def accept_hello_def Let_def send_def)
  show ?thesis
    using dispatched(4,5) assms by (cases p) (auto simp: * send_def Let_def release_held_def)
qed simp_all

section \<open>Examples\<close>

definition demo_hello :: "string \<Rightarrow> hello_msg" where
  "demo_hello pw = \<lparr> h_device_name = ''v'', h_role = 2, h_features = 1, h_public_key = [], h_signature = [],
     h_supported_video_codecs = [1], h_password = pw \<rparr>"

definition demo_decode :: "bytes \<Rightarrow> envelope_msg option" where
  "demo_decode bs =
    (if bs = [1] then Some (envelope (P_Hello (demo_hello ''pw'')))
     else if bs = [2] then Some (envelope (P_Hello (demo_hello ''no'')))
     else if bs = [3] then Some (envelope (P_Input (Some (KeyEvent 0xE1 True 1))))
     else if bs = [4] then Some (envelope (P_ViewOnly True))
     else if bs = [5] then Some (envelope (P_SetZoom (Fin (1/2)) (Fin (1/2)) (Fin (1/2)) (Fin (1/2))))
     else if bs = [6] then Some (envelope (P_Input (Some (MouseMove (Fin 0) (Fin 0)))))
     else None)"

definition demo_he :: host_env where
  "demo_he = \<lparr> he_crypto = demo_crypto, he_decode = demo_decode, he_sdp = (\<lambda>_. None),
     he_injector = (\<lambda>r. Some (InjUinput (uinput_new r (\<lambda>_. False)))), he_text = (\<lambda>_. []) \<rparr>"

definition demo_hc :: host_config where
  "demo_hc = host_config_default\<lparr>hc_require_authorization := False, hc_connect_password := Some ''pw''\<rparr>"

definition demo_os :: cap_os where
  "demo_os = \<lparr> os_start = (\<lambda>_. True), os_token = (\<lambda>_. None), os_crypto = demo_crypto, os_json = demo_json,
     os_path = ''/c/settings.enc'' \<rparr>"

definition demo_ctl :: capture_ctl where
  "demo_ctl = ctl_start \<lparr> cc_width = 1920, cc_height = 1080, cc_fps = 30, cc_show_cursor = True, cc_restore_token = None \<rparr>
     0 None None demo_env"

definition ev_turn :: "transport_event \<Rightarrow> turn" where
  "ev_turn e = \<lparr> tn_signals = [], tn_switched = False, tn_event = Some e, tn_now = 0 \<rparr>"

definition demo_run :: "transport_event list \<Rightarrow> capture_ctl host" where
  "demo_run es = host_turns demo_he demo_hc (local_plane demo_os None) (map ev_turn es)
     (host_start demo_he (local_plane demo_os None) demo_ctl (clip_spawn True None (\<lambda>_. True)) (ft_new ''/dl'' empty_disk))"

lemma turn_events_ev [simp]: "turn_events (map ev_turn es) = es"
  by (induction es) (simp_all add: turn_events_def map_filter_def ev_turn_def)

lemma demo_he_good: "injectors_good demo_he"
  by (auto simp: injectors_good_def demo_he_def uinput_good_def uinput_new_def uinput_held_def)

lemma demo_ctl_idle: "\<not> is_capturing demo_ctl"
  by (simp add: demo_ctl_def ctl_start_def is_capturing_def)

lemma no_leak_without_viewer_witness:
  "\<not> is_capturing (hs_video (demo_run [Connected, Data [1], Data [3], Disconnected]))
   \<and> held_by (hs_injector (demo_run [Connected, Data [1], Data [3], Disconnected])) = {}"
proof -
  let ?es = "[Connected, Data [1], Data [3], Disconnected]"
  have c: "\<not> hs_connected (demo_run ?es)"
    by (simp add: demo_run_def host_turns_def ev_turn_def host_turn_def local_plane_def Let_def release_held_def)
  show ?thesis
    using no_leak_without_viewer [OF demo_he_good demo_ctl_idle, of "map ev_turn ?es" "demo_run ?es" demo_hc demo_os None,
        unfolded turn_events_ev, OF _ demo_run_def] c by simp
qed

lemma demo_run_values:
  "let s = demo_run [Connected, Data [1], Data [3]] in
     hs_authorized s \<and> is_capturing (hs_video s) \<and> held_by (hs_injector s) = {HeldKey 42}"
  by code_simp

lemma unauthorized_peer_powerless_witness:
  "powerless demo_he (local_plane demo_os None) demo_ctl (clip_spawn True None (\<lambda>_. True)) (ft_new ''/dl'' empty_disk)
     (demo_run [Connected, Data [3], Data [2], Data [5]])"
proof -
  have "\<forall>t\<in>set (map ev_turn [Connected, Data [3], Data [2], Data [5]]). \<forall>bs env h. tn_event t = Some (Data bs) \<and> he_decode demo_he bs = Some env
      \<and> e_payload env = Some (P_Hello h) \<longrightarrow> \<not> credentials demo_he demo_hc (e_major env) h"
    by (auto simp: ev_turn_def demo_he_def demo_decode_def envelope_def demo_hello_def credentials_def demo_hc_def)
  then show ?thesis unfolding demo_run_def by (rule unauthorized_peer_powerless)
qed

lemma authorization_needs_credentials_witness:
  "\<exists>h. h_password h = ''pw'' \<and> demo_decode [1] = Some (envelope (P_Hello h))"
proof -
  let ?s = "demo_run [Connected]"
  have "\<not> hs_authorized ?s" by code_simp
  moreover have "hs_authorized (handle_control demo_he demo_hc (local_plane demo_os None) 0 [1] ?s)" by code_simp
  ultimately have "\<exists>env h. he_decode demo_he [1] = Some env \<and> e_payload env = Some (P_Hello h)
      \<and> (\<forall>pw. hc_connect_password demo_hc = Some pw \<longrightarrow> h_password h = pw)"
    using authorization_needs_credentials [of ?s demo_he demo_hc "local_plane demo_os None" 0 "[1]"] by blast
  then have "\<exists>h. e_payload (envelope (P_Hello (demo_hello ''pw''))) = Some (P_Hello h) \<and> h_password h = ''pw''"
    by (auto simp: demo_he_def demo_decode_def demo_hc_def)
  then show ?thesis by (auto simp: demo_decode_def)
qed

lemma view_only_enforced_witness:
  "let s = demo_run [Connected, Data [1], Data [3], Data [4]];
       s' = handle_control demo_he demo_hc (local_plane demo_os None) 0 [3] s
   in hs_view_only s \<and> (hs_injector s' = hs_injector s \<or> hs_injector s' = map_option inj_release_all (hs_injector s))"
proof -
  have "hs_view_only (demo_run [Connected, Data [1], Data [3], Data [4]])" by code_simp
  with view_only_enforced [OF this] show ?thesis by (simp add: Let_def)
qed

lemma no_leak_without_viewer_broker_witness:
  "let s = host_turns demo_he demo_hc broker_plane (map ev_turn [Connected, Data [1], Disconnected])
      (host_start demo_he broker_plane broker_start (clip_spawn True None (\<lambda>_. True)) (ft_new ''/dl'' empty_disk))
   in \<not> wanted (br_cmds (hs_video s)) (br_capturing (hs_video s))"
  unfolding Let_def
proof -
  let ?es = "[Connected, Data [1], Disconnected]"
  let ?s = "host_turns demo_he demo_hc broker_plane (map ev_turn ?es)
      (host_start demo_he broker_plane broker_start (clip_spawn True None (\<lambda>_. True)) (ft_new ''/dl'' empty_disk))"
  have "\<not> wants_frames broker_start" by (simp add: wants_frames_def broker_start_def)
  moreover have "\<not> hs_connected ?s"
    by code_simp
  moreover have "trace_ok False (turn_events (map ev_turn ?es))" by code_simp
  ultimately show "\<not> wanted (br_cmds (hs_video ?s)) (br_capturing (hs_video ?s))"
    using no_leak_without_viewer_broker [OF demo_he_good _ _ refl, of broker_start "map ev_turn ?es" demo_hc
        "clip_spawn True None (\<lambda>_. True)" "ft_new ''/dl'' empty_disk"] by (metis (no_types))
qed

section \<open>Where a session leaks\<close>

text \<open>A rebuild that skips Disconnected (\<open>Transport.restart_hides_disconnect\<close>): the new
  connection starts with the old one's capture running and its keys held.\<close>

lemma rebuild_leaks_session:
  "let s = demo_run [Connected, Data [1], Data [3], Connected]
   in \<not> hs_authorized s \<and> is_capturing (hs_video s) \<and> held_by (hs_injector s) = {HeldKey 42}"
  by code_simp

text \<open>A second Hello that is refused takes the authorization away but neither stops the
  capture nor releases what is held.\<close>

lemma refused_rehello_leaks:
  "let s = demo_run [Connected, Data [1], Data [3], Data [2]]
   in \<not> hs_authorized s \<and> hs_was_authorized s \<and> is_capturing (hs_video s) \<and> held_by (hs_injector s) = {HeldKey 42}"
  by code_simp

text \<open>The zoom rectangle of one viewer outlives its connection: the next viewer's pointer is
  mapped through it until that viewer sends a zoom of its own.\<close>

lemma zoom_outlives_viewer:
  "let s = demo_run [Connected, Data [1], Data [5], Disconnected, Connected, Data [1]]
   in hs_zoom s = \<lparr> cr_x = Fin (1/2), cr_y = Fin (1/2), cr_w = Fin (1/2), cr_h = Fin (1/2) \<rparr>"
  by code_simp

text \<open>In system mode the frames are never cropped, yet the pointer is mapped through the
  zoom rectangle all the same.\<close>

lemma broker_zoom_moves_pointer:
  "let s = host_turns demo_he demo_hc broker_plane (map ev_turn [Connected, Data [1], Data [5]])
      (host_start demo_he broker_plane broker_start (clip_spawn True None (\<lambda>_. True)) (ft_new ''/dl'' empty_disk))
   in remap_event (sanitized (hs_zoom s)) (MouseMove (Fin 0) (Fin 0)) = MouseMove (Fin (1/2)) (Fin (1/2))"
  by code_simp

section \<open>The pointer under zoom\<close>

text \<open>The zoomed pointer stays on the screen: whatever rectangle the viewer sent, as long as
  its origin is a number, a position in the unit square is mapped to a position in the unit
  square, for moves and for button events alike, and nothing else of the event changes.\<close>

theorem zoomed_pointer_on_screen:
  assumes "x \<noteq> NaN" "y \<noteq> NaN" and p: "0 \<le> p" "p \<le> 1" "0 \<le> q" "q \<le> 1"
    and z: "hs_zoom (dispatch he hc vp now major (P_SetZoom x y w h) s) = z"
  shows "\<exists>p' q'. 0 \<le> p' \<and> p' \<le> 1 \<and> 0 \<le> q' \<and> q' \<le> 1
    \<and> remap_event (sanitized z) (MouseMove (Fin p) (Fin q)) = MouseMove (Fin p') (Fin q')
    \<and> remap_event (sanitized z) (MouseButton b d (Fin p) (Fin q)) = MouseButton b d (Fin p') (Fin q')"
proof -
  have zz: "z = sanitized \<lparr> cr_x = x, cr_y = y, cr_w = w, cr_h = h \<rparr>" using z by simp
  have 1: "on_screen z" unfolding zz using assms(1,2) by (intro sanitized_on_screen) simp_all
  then have nn: "cr_x z \<noteq> NaN" "cr_y z \<noteq> NaN" by (auto simp: on_screen_def)
  have o: "on_screen (sanitized z)" by (rule sanitized_on_screen [OF nn])
  show ?thesis
  proof (cases "is_full (sanitized z)")
    case True
    then show ?thesis using p by (simp add: remap_event_def)
  next
    case False
    then show ?thesis
      using on_screen_maps_inside(1) [OF o p(1,2)] on_screen_maps_inside(2) [OF o p(3,4)]
      by (auto simp: remap_event_def)
  qed
qed

lemma zoomed_pointer_on_screen_witness:
  "\<exists>p' q'. 0 \<le> p' \<and> p' \<le> 1 \<and> remap_event (sanitized (hs_zoom (demo_run [Connected, Data [1], Data [5]])))
      (MouseMove (Fin 1) (Fin 0)) = MouseMove (Fin p') (Fin q')"
proof -
  have "hs_zoom (demo_run [Connected, Data [1], Data [5]]) =
      hs_zoom (dispatch demo_he demo_hc (local_plane demo_os None) 0 1
        (P_SetZoom (Fin (1/2)) (Fin (1/2)) (Fin (1/2)) (Fin (1/2))) (demo_run [Connected]))"
    by code_simp
  from zoomed_pointer_on_screen [OF _ _ _ _ _ _ this [symmetric], of 1 0] show ?thesis by fastforce
qed

section \<open>Guessing the password\<close>



lemma unat_failures: "unat (sat_add (n :: u32) 1) = min (unat n + 1) (2 ^ 32 - 1)"
  by (simp add: unat_sat_add)






lemma decision_password [simp]: "hello_decision he hc b major (h\<lparr>h_password := pw\<rparr>) = hello_decision he hc b major h"
proof -
  have "check_codec_compatible (h\<lparr>h_password := pw\<rparr>) c = check_codec_compatible h c"
    "authorize cx r al (h\<lparr>h_password := pw\<rparr>) b = authorize cx r al h b" for c cx r al
    by (simp_all add: check_codec_compatible_def authorize_def)
  then show ?thesis unfolding hello_decision_def by presburger
qed






end
