(* ===== verification/Handshake.thy ===== *)
theory Handshake
  imports Viewer HostSafety
begin

text \<open>
  Host and viewer together: the viewer's Hello, the host's decision and the viewer's reading
  of the answer, over what the two learned from the signaling.
\<close>

lemma build_hello_payload:
  "build_viewer_hello cx name (Some i) fp (Some pw) = envelope (P_Hello \<lparr> h_device_name = name, h_role = role_i32 RoleViewer,
     h_features = 0, h_public_key = public_key_bytes cx i, h_signature = access_proof cx i (opt_bytes fp),
     h_supported_video_codecs = native_supported_codecs, h_password = pw \<rparr>)"
  by (simp add: build_viewer_hello_def hello_authenticated_def with_password_def envelope_def Let_def)

lemma identity_not_empty:
  assumes "crypto_ok cx" "length (id_seed i) = 32"
  shows "public_key_bytes cx i \<noteq> []" "access_proof cx i b \<noteq> []"
proof -
  note ok = crypto_okD [OF assms(1)]
  have "length (public_key_bytes cx i) = 32" "length (access_proof cx i b) = 64"
    using ok(2) [OF assms(2)] ok(4) by (simp_all add: public_key_bytes_def access_proof_def id_sign_def)
  then show "public_key_bytes cx i \<noteq> []" "access_proof cx i b \<noteq> []" by auto
qed

text \<open>What the host makes of a Hello it can decode, before the password.\<close>

lemma hello_reaches_host:
  assumes "he_decode he bs = Some (envelope (P_Hello h))"
  shows "handle_control he hc vp now bs s = handle_hello he hc vp now PROTOCOL_MAJOR h s"
  using assms by (simp add: handle_control_def envelope_def authorization_permits_def view_only_suppresses_def)

lemma viewer_hello_decision:
  assumes "crypto_ok cx" "he_crypto he = cx" "length (id_seed i) = 32" "hc_video_codec hc = H264"
    "h_public_key h = public_key_bytes cx i" "h_signature h = access_proof cx i b" "h_supported_video_codecs h = native_supported_codecs"
  shows "hello_decision he hc b PROTOCOL_MAJOR h =
      (if hc_require_authorization hc \<and> device_id cx i \<notin> set (hc_authorized_device_ids hc)
       then Inl (NotAuthorized (device_id cx i)) else Inr ())"
  using assms identity_not_empty [OF assms(1,3)] verify_own_proof [OF assms(1,3)]
  by (simp add: hello_decision_def check_compatibility_def check_codec_compatible_def native_supported_codecs_def authorize_def)

text \<open>C8: Mutual authentication completes: when nobody tampered with the signaling - each side
  knows the other's DTLS fingerprint as the other knows its own - a viewer on the host's
  list with the right password is let in, and on reading the host's answer it reports the
  host's verified identity and a paired session.\<close>

theorem handshake_completes:
  assumes cx: "crypto_ok cx" "he_crypto he = cx" "ve_crypto ve = cx"
    and ids: "vc_identity vc = Some i" "length (id_seed i) = 32" "hc_identity hc = Some j" "length (id_seed j) = 32"
    and bind: "hs_remote_fp s = vw_local_fp v" "vw_host_fp v = hs_local_fp s"
    and policy: "device_id cx i \<in> set (hc_authorized_device_ids hc)" "hc_video_codec hc = H264"
      "hc_connect_password hc = Some pw" "\<not> pt_locked now (hs_pw s)"
    and wire: "he_decode he bs = Some (build_viewer_hello cx (vc_device_name vc) (vc_identity vc) (vw_local_fp v) (Some pw))"
    and s': "handle_control he hc vp now bs s = s'"
  shows "hs_authorized s' \<and> (\<exists>ack. hs_out s' = hs_out s @ [ack, display_list (vp_descriptors vp (hs_video s'))]
    \<and> (\<forall>bs'. ve_decode ve bs' = Some ack \<longrightarrow> vw_updates (vw_event ve vc t (Data bs') v)
         = vw_updates v @ [VuHostIdentity (public_key_bytes cx j) (device_id cx j) True, VuPaired True]))"
proof -
  define h where "h = \<lparr> h_device_name = vc_device_name vc, h_role = role_i32 RoleViewer, h_features = 0,
     h_public_key = public_key_bytes cx i, h_signature = access_proof cx i (opt_bytes (vw_local_fp v)),
     h_supported_video_codecs = native_supported_codecs, h_password = pw \<rparr>"
  have d: "he_decode he bs = Some (envelope (P_Hello h))"
    using wire ids(1) by (simp add: build_hello_payload h_def)
  have "hello_decision he hc (opt_bytes (hs_remote_fp s)) PROTOCOL_MAJOR h = Inr ()"
    using viewer_hello_decision [OF cx(1,2) ids(2) policy(2), of h "opt_bytes (vw_local_fp v)"] bind(1) policy(1) by (simp add: h_def)
  then have e: "s' = accept_hello he hc vp h (s\<lparr>hs_pw := pt_reset (hs_pw s)\<rparr>)"
    using hello_reaches_host [OF d, of hc vp now s] s' policy(3,4)
    by (simp add: handle_hello_def verify_connect_password_def host_pw.eq_iff h_def)
  define ack where "ack = hello_ack_ok_signed (hc_device_name hc) 0 (public_key_bytes cx j)
     (access_proof cx j (opt_bytes (hs_local_fp s))) (to_proto_codec (hc_video_codec hc))"
  have out: "hs_out s' = hs_out s @ [ack, display_list (vp_descriptors vp (hs_video s'))]" "hs_authorized s'"
    unfolding e accept_hello_def Let_def by (simp_all add: send_def ids(3) cx(2) ack_def)
  have "vw_updates (vw_event ve vc t (Data bs') v) = vw_updates v @ [VuHostIdentity (public_key_bytes cx j) (device_id cx j) True, VuPaired True]"
    if "ve_decode ve bs' = Some ack" for bs'
    using that verify_own_proof [OF cx(1) ids(4)] identity_not_empty [OF cx(1) ids(4)] bind(2) cx(3)
    by (simp add: ack_def hello_ack_ok_signed_def envelope_def handle_ack_def)
  then show ?thesis using out by blast
qed

text \<open>The signatures at hand to a relay verify under a key for that message alone which its
  holder signed.\<close>

definition signed_alone :: "crypto \<Rightarrow> bytes set \<Rightarrow> bytes \<Rightarrow> bytes \<Rightarrow> bool" where
  "signed_alone cx known pk m \<longleftrightarrow> (\<forall>sig\<in>known. \<forall>m'. cx_verify cx pk m' sig \<longrightarrow> m' = m)"

lemma signed_elsewhere:
  assumes "signed_alone cx known pk (access_proof_message pk b)" "sig \<in> known" "b' \<noteq> b"
  shows "\<exists>e. verify_access_proof cx pk sig b' = Inl e"
proof -
  have "\<not> cx_verify cx pk (access_proof_message pk b') sig"
    using assms access_message_inject unfolding signed_alone_def by metis
  then show ?thesis by (auto simp: verify_access_proof_def)
qed

text \<open>C9: A man in the middle gets past neither end: between a host and a viewer that see other DTLS
  fingerprints than each other's, and with no signatures but of the two proofs they made (in
  whatever messages it puts them), a host that requires authorization rejects every Hello under the
  viewer's key; and whatever answer reaches the viewer, it does not report the host's key as verified:
  one with a proof under that key is reported as unverified and unpaired, and one without a proof
  (which the viewer lets pass) reports no identity.\<close>

theorem handshake_refuses_relay:
  assumes cx: "he_crypto he = cx" "ve_crypto ve = cx"
    and signed: "signed_alone cx known pki (access_proof_message pki (opt_bytes (vw_local_fp v)))"
      "signed_alone cx known pkj (access_proof_message pkj (opt_bytes fh))"
    and relay: "opt_bytes (hs_remote_fp s) \<noteq> opt_bytes (vw_local_fp v)" "opt_bytes (vw_host_fp v) \<noteq> opt_bytes fh"
    and policy: "hc_require_authorization hc"
    and hello: "he_decode he bs = Some env" "e_payload env = Some (P_Hello h)" "h_public_key h = pki" "h_signature h \<in> known"
    and answer: "ve_decode ve bs' = Some env'" "e_payload env' = Some (P_HelloAck a)" "a_host_proof a = [] \<or> a_host_proof a \<in> known"
  shows "\<not> hs_authorized (handle_control he hc vp now bs s)
    \<and> (\<exists>reason. hs_out (handle_control he hc vp now bs s) = hs_out s @ [hello_ack_reject reason])
    \<and> (\<exists>us. vw_updates (vw_event ve vc t (Data bs') v) = vw_updates v @ us
        \<and> (\<forall>dev. VuHostIdentity pkj dev True \<notin> set us)
        \<and> (a_host_public_key a = pkj \<and> pkj \<noteq> [] \<and> a_host_proof a \<noteq> [] \<and> \<not> a_password_required a
             \<longrightarrow> us = [VuHostIdentity pkj [] False, VuPaired False])
        \<and> (a_host_proof a = [] \<longrightarrow> (\<forall>pk dev ok. VuHostIdentity pk dev ok \<notin> set us)))"
proof -
  obtain e where "verify_access_proof cx pki (h_signature h) (opt_bytes (hs_remote_fp s)) = Inl e"
    using signed_elsewhere [OF signed(1) hello(4) relay(1)] by blast
  then have "\<exists>r. hello_decision he hc (opt_bytes (hs_remote_fp s)) (e_major env) h = Inl r"
    using policy cx(1) hello(3) by (auto simp: hello_decision_def authorize_def split: sum.split)
  then obtain r where r: "hello_decision he hc (opt_bytes (hs_remote_fp s)) (e_major env) h = Inl r" by blast
  have "handle_control he hc vp now bs s = send (hello_ack_reject (he_text he r)) (s\<lparr>hs_authorized := False\<rparr>)"
    using hello r by (simp add: handle_control_def authorization_permits_def view_only_suppresses_def handle_hello_def)
  then have host: "\<not> hs_authorized (handle_control he hc vp now bs s)"
    "hs_out (handle_control he hc vp now bs s) = hs_out s @ [hello_ack_reject (he_text he r)]" by (simp_all add: send_def)
  define us where "us = (if a_password_required a then [VuPasswordRequired (a_reason a)]
     else if a_host_public_key a \<noteq> [] \<and> a_host_proof a \<noteq> [] then
       (case verify_access_proof cx (a_host_public_key a) (a_host_proof a) (opt_bytes (vw_host_fp v)) of
          Inr dev \<Rightarrow> [VuHostIdentity (a_host_public_key a) dev True, VuPaired (a_accepted a)]
        | Inl e \<Rightarrow> [VuHostIdentity (a_host_public_key a) [] False, VuPaired False])
     else [VuPaired (a_accepted a)])"
  have u: "vw_updates (vw_event ve vc t (Data bs') v) = vw_updates v @ us"
    using answer(1,2) cx(2) by (simp add: handle_ack_def us_def split: sum.split)
  have bad: "\<exists>e. verify_access_proof cx pkj (a_host_proof a) (opt_bytes (vw_host_fp v)) = Inl e" if "a_host_proof a \<noteq> []"
    using signed_elsewhere [OF signed(2) _ relay(2)] answer(3) that by blast
  have "\<forall>dev. VuHostIdentity pkj dev True \<notin> set us"
    using bad by (auto simp: us_def split: sum.split)
  moreover have "us = [VuHostIdentity pkj [] False, VuPaired False]"
    if "a_host_public_key a = pkj" "pkj \<noteq> []" "a_host_proof a \<noteq> []" "\<not> a_password_required a"
    using bad [OF that(3)] that by (auto simp: us_def)
  moreover have "\<forall>pk dev ok. VuHostIdentity pk dev ok \<notin> set us" if "a_host_proof a = []" using that by (simp add: us_def)
  ultimately show ?thesis using host u by blast
qed

section \<open>Examples\<close>

definition demo_i :: identity where "demo_i = \<lparr> id_seed = replicate 32 5 \<rparr>"
definition demo_j :: identity where "demo_j = \<lparr> id_seed = replicate 32 6 \<rparr>"

definition demo_vc :: viewer_config where
  "demo_vc = viewer_config_default\<lparr>vc_identity := Some demo_i\<rparr>"

definition demo_viewer :: "string option \<Rightarrow> viewer" where
  "demo_viewer fp = (viewer_start (clip_spawn True None (\<lambda>_. True)) (ft_new ''/dl'' empty_disk))
     \<lparr>vw_local_fp := Some ''V'', vw_host_fp := fp\<rparr>"

definition demo_host :: "string option \<Rightarrow> capture_ctl host" where
  "demo_host fp = (host_start demo_he (local_plane demo_os None) demo_ctl (clip_spawn True None (\<lambda>_. True)) (ft_new ''/dl'' empty_disk))
     \<lparr>hs_local_fp := Some ''H'', hs_remote_fp := fp\<rparr>"

definition demo_policy :: "crypto \<Rightarrow> host_config" where
  "demo_policy cx = host_config_default\<lparr>hc_identity := Some demo_j, hc_connect_password := Some ''pw'',
     hc_authorized_device_ids := [device_id cx demo_i]\<rparr>"

text \<open>Both wires carry one message each.\<close>

definition one_wire :: "crypto \<Rightarrow> envelope_msg \<Rightarrow> host_env" where
  "one_wire cx m = demo_he\<lparr>he_crypto := cx, he_decode := (\<lambda>_. Some m)\<rparr>"

definition one_wire_back :: "crypto \<Rightarrow> envelope_msg \<Rightarrow> viewer_env" where
  "one_wire_back cx m = \<lparr> ve_crypto = cx, ve_decode = (\<lambda>_. Some m), ve_sdp = (\<lambda>_. None), ve_h264 = (\<lambda>_. None) \<rparr>"

lemma handshake_completes_witness:
  "let hi = build_viewer_hello demo_crypto ''rmd-viewer'' (Some demo_i) (Some ''V'') (Some ''pw'');
       s' = handle_control (one_wire demo_crypto hi) (demo_policy demo_crypto) (local_plane demo_os None) 0 [] (demo_host (Some ''V''))
   in hs_authorized s' \<and> (\<exists>ack. vw_updates (vw_event (one_wire_back demo_crypto ack) demo_vc 0 (Data []) (demo_viewer (Some ''H'')))
        = [VuHostIdentity (public_key_bytes demo_crypto demo_j) (device_id demo_crypto demo_j) True, VuPaired True])"
proof -
  let ?hi = "build_viewer_hello demo_crypto ''rmd-viewer'' (Some demo_i) (Some ''V'') (Some ''pw'')"
  let ?s' = "handle_control (one_wire demo_crypto ?hi) (demo_policy demo_crypto) (local_plane demo_os None) 0 [] (demo_host (Some ''V''))"
  have v: "vc_identity demo_vc = Some demo_i" "vc_device_name demo_vc = ''rmd-viewer''"
    by (simp_all add: demo_vc_def viewer_config_default_def)
  have p: "hc_identity (demo_policy demo_crypto) = Some demo_j" "hc_connect_password (demo_policy demo_crypto) = Some ''pw''"
      "hc_video_codec (demo_policy demo_crypto) = H264" "hc_authorized_device_ids (demo_policy demo_crypto) = [device_id demo_crypto demo_i]"
    by (simp_all add: demo_policy_def host_config_default_def)
  have f: "hs_remote_fp (demo_host (Some ''V'')) = Some ''V''" "hs_local_fp (demo_host (Some ''V'')) = Some ''H''"
      "hs_pw (demo_host (Some ''V'')) = pt_new" "vw_local_fp (demo_viewer (Some ''H'')) = Some ''V''"
      "vw_host_fp (demo_viewer (Some ''H'')) = Some ''H''" "vw_updates (demo_viewer (Some ''H'')) = []"
    by (simp_all add: demo_host_def host_start_def demo_viewer_def viewer_start_def)
  have i: "length (id_seed demo_i) = 32" "length (id_seed demo_j) = 32" by (simp_all add: demo_i_def demo_j_def)
  have l: "\<not> pt_locked 0 pt_new" by (simp add: pt_locked_def pt_new_def)
  have "he_decode (one_wire demo_crypto ?hi) [] = Some ?hi" by (simp add: one_wire_def)
  then have c: "hs_authorized ?s' \<and> (\<exists>ack. hs_out ?s' = hs_out (demo_host (Some ''V'')) @ [ack, display_list (vp_descriptors (local_plane demo_os None) (hs_video ?s'))]
    \<and> (\<forall>bs'. ve_decode (one_wire_back demo_crypto m) bs' = Some ack \<longrightarrow> vw_updates (vw_event (one_wire_back demo_crypto m) demo_vc 0 (Data bs') (demo_viewer (Some ''H'')))
         = [] @ [VuHostIdentity (public_key_bytes demo_crypto demo_j) (device_id demo_crypto demo_j) True, VuPaired True]))" for m
    using handshake_completes [OF demo_crypto_ok _ _ v(1) i(1) p(1) i(2), of "one_wire demo_crypto ?hi" "one_wire_back demo_crypto m"
        "demo_host (Some ''V'')" "demo_viewer (Some ''H'')" "''pw''" 0 "[]" "local_plane demo_os None" ?s' 0] f p l
    by (simp add: one_wire_def one_wire_back_def v)
  obtain ack where a: "hs_out ?s' = hs_out (demo_host (Some ''V'')) @ [ack, display_list (vp_descriptors (local_plane demo_os None) (hs_video ?s'))]"
    using c by blast
  from c [of ack] obtain ack' where b: "hs_out ?s' = hs_out (demo_host (Some ''V'')) @ [ack', display_list (vp_descriptors (local_plane demo_os None) (hs_video ?s'))]"
      "\<And>bs'. ve_decode (one_wire_back demo_crypto ack) bs' = Some ack' \<Longrightarrow> vw_updates (vw_event (one_wire_back demo_crypto ack) demo_vc 0 (Data bs') (demo_viewer (Some ''H'')))
         = [VuHostIdentity (public_key_bytes demo_crypto demo_j) (device_id demo_crypto demo_j) True, VuPaired True]"
    by auto
  have "ack' = ack" using a b(1) by (metis append_same_eq list.inject same_append_eq)
  then have "vw_updates (vw_event (one_wire_back demo_crypto ack) demo_vc 0 (Data []) (demo_viewer (Some ''H'')))
      = [VuHostIdentity (public_key_bytes demo_crypto demo_j) (device_id demo_crypto demo_j) True, VuPaired True]"
    by (intro b(2)) (simp add: one_wire_back_def)
  moreover have "hs_authorized ?s'" using c by blast
  ultimately show ?thesis unfolding Let_def by blast
qed

text \<open>An instance whose holders of two keys sign one message each.\<close>

definition two_messages :: "bytes \<Rightarrow> bytes \<Rightarrow> bytes \<Rightarrow> bytes \<Rightarrow> crypto" where
  "two_messages k1 m1 k2 m2 = demo_crypto\<lparr>
     cx_verify := (\<lambda>k m sig. sig = replicate 64 (if k = k1 \<and> m = m1 then 1 else if k = k2 \<and> m = m2 then 2 else 0)),
     cx_sign := (\<lambda>k m. replicate 64 (if k = k1 \<and> m = m1 then 1 else if k = k2 \<and> m = m2 then 2 else 0))\<rparr>"

definition relay_crypto :: crypto where
  "relay_crypto = two_messages (replicate 32 5) (access_proof_message (replicate 32 5) (str_bytes ''V''))
     (replicate 32 6) (access_proof_message (replicate 32 6) (str_bytes ''H''))"

lemma relay_proofs:
  "access_proof relay_crypto demo_i (str_bytes ''V'') = replicate 64 1" "access_proof relay_crypto demo_j (str_bytes ''H'') = replicate 64 2"
  "public_key_bytes relay_crypto demo_i = replicate 32 5" "public_key_bytes relay_crypto demo_j = replicate 32 6"
proof -
  show k: "public_key_bytes relay_crypto demo_i = replicate 32 5" "public_key_bytes relay_crypto demo_j = replicate 32 6"
    by (simp_all add: public_key_bytes_def relay_crypto_def two_messages_def demo_crypto_def demo_i_def demo_j_def)
  have ne: "access_proof_message (replicate 32 6) (str_bytes ''H'') \<noteq> access_proof_message (replicate 32 5) (str_bytes ''V'')"
    by (simp add: access_message_inject)
  show "access_proof relay_crypto demo_i (str_bytes ''V'') = replicate 64 1" "access_proof relay_crypto demo_j (str_bytes ''H'') = replicate 64 2"
    unfolding access_proof_def k using ne by (simp_all add: id_sign_def relay_crypto_def two_messages_def demo_i_def demo_j_def)
qed

definition demo_ack_of :: "bytes \<Rightarrow> hello_ack_msg" where
  "demo_ack_of proof = \<lparr> a_accepted = True, a_reason = [], a_device_name = ''h'', a_features = 0, a_host_public_key = replicate 32 6,
     a_host_proof = proof, a_video_codec = 1, a_password_required = False \<rparr>"

lemma handshake_refuses_relay_witness:
  "let hi = build_viewer_hello relay_crypto ''rmd-viewer'' (Some demo_i) (Some ''V'') (Some ''pw'');
       ack = envelope (P_HelloAck (demo_ack_of (access_proof relay_crypto demo_j (str_bytes ''H''))))
   in \<not> hs_authorized (handle_control (one_wire relay_crypto hi) (demo_policy relay_crypto) (local_plane demo_os None) 0 [] (demo_host (Some ''R'')))
    \<and> (\<exists>us. vw_updates (vw_event (one_wire_back relay_crypto ack) demo_vc 0 (Data []) (demo_viewer (Some ''R''))) = us
        \<and> VuHostIdentity (replicate 32 6) [] False \<in> set us)"
proof -
  define hi where "hi = build_viewer_hello relay_crypto ''rmd-viewer'' (Some demo_i) (Some ''V'') (Some ''pw'')"
  define ack where "ack = envelope (P_HelloAck (demo_ack_of (access_proof relay_crypto demo_j (str_bytes ''H''))))"
  let ?m1 = "access_proof_message (replicate 32 5) (str_bytes ''V'')" and ?m2 = "access_proof_message (replicate 32 6) (str_bytes ''H'')"
  have ne: "?m2 \<noteq> ?m1" by (simp add: access_message_inject)
  note k = relay_proofs
  have o: "opt_bytes (Some x) = str_bytes x" for x by (simp add: opt_bytes_def)
  obtain h where h: "e_payload hi = Some (P_Hello h)" "h_public_key h = replicate 32 5" "h_signature h = replicate 64 1"
    by (simp add: hi_def build_hello_payload k o)
  have hk: "h_signature h \<in> {replicate 64 1, replicate 64 2}" by (simp only: h(3) insert_iff simp_thms)
  have r12: "replicate 64 (1 :: 8 word) \<noteq> replicate 64 2" "replicate 64 (0 :: 8 word) \<noteq> replicate 64 1" "replicate 64 (0 :: 8 word) \<noteq> replicate 64 2"
    by (simp_all add: replicate_eq_replicate)
  have k56: "replicate 32 (5 :: 8 word) \<noteq> replicate 32 6" by (simp add: replicate_eq_replicate)
  let ?known = "{replicate 64 1, replicate 64 2} :: bytes set"
  have s1: "signed_alone relay_crypto ?known (replicate 32 5) ?m1"
    unfolding signed_alone_def relay_crypto_def two_messages_def using r12 k56 by (auto split: if_splits)
  have s2: "signed_alone relay_crypto ?known (replicate 32 6) ?m2"
    unfolding signed_alone_def relay_crypto_def two_messages_def using r12 k56 by (auto split: if_splits)
  have f: "opt_bytes (hs_remote_fp (demo_host (Some ''R''))) = str_bytes ''R''" "opt_bytes (vw_local_fp (demo_viewer (Some ''R''))) = str_bytes ''V''"
      "opt_bytes (vw_host_fp (demo_viewer (Some ''R''))) = str_bytes ''R''" "vw_updates (demo_viewer (Some ''R'')) = []"
    by (simp_all add: demo_host_def host_start_def demo_viewer_def viewer_start_def o)
  have w: "he_crypto (one_wire relay_crypto hi) = relay_crypto" "ve_crypto (one_wire_back relay_crypto ack) = relay_crypto"
      "he_decode (one_wire relay_crypto hi) [] = Some hi" "ve_decode (one_wire_back relay_crypto ack) [] = Some ack"
    by (simp_all add: one_wire_def one_wire_back_def)
  have a: "e_payload ack = Some (P_HelloAck (demo_ack_of (replicate 64 2)))" by (simp add: ack_def envelope_def k)
  have d: "a_host_proof (demo_ack_of p) = p" "a_host_public_key (demo_ack_of p) = replicate 32 6" "\<not> a_password_required (demo_ack_of p)" for p
    by (simp_all add: demo_ack_of_def)
  have pol: "hc_require_authorization (demo_policy relay_crypto)" by (simp add: demo_policy_def host_config_default_def)
  have "\<not> hs_authorized (handle_control (one_wire relay_crypto hi) (demo_policy relay_crypto) (local_plane demo_os None) 0 [] (demo_host (Some ''R'')))
    \<and> (\<exists>reason. hs_out (handle_control (one_wire relay_crypto hi) (demo_policy relay_crypto) (local_plane demo_os None) 0 [] (demo_host (Some ''R'')))
         = hs_out (demo_host (Some ''R'')) @ [hello_ack_reject reason])
    \<and> (\<exists>us. vw_updates (vw_event (one_wire_back relay_crypto ack) demo_vc 0 (Data []) (demo_viewer (Some ''R''))) = vw_updates (demo_viewer (Some ''R'')) @ us
        \<and> (\<forall>dev. VuHostIdentity (replicate 32 6) dev True \<notin> set us)
        \<and> (a_host_public_key (demo_ack_of (replicate 64 2)) = replicate 32 6 \<and> replicate 32 (6 :: 8 word) \<noteq> [] \<and> a_host_proof (demo_ack_of (replicate 64 2)) \<noteq> []
             \<and> \<not> a_password_required (demo_ack_of (replicate 64 2)) \<longrightarrow> us = [VuHostIdentity (replicate 32 6) [] False, VuPaired False])
        \<and> (a_host_proof (demo_ack_of (replicate 64 2)) = [] \<longrightarrow> (\<forall>pk dev ok. VuHostIdentity pk dev ok \<notin> set us)))"
    using handshake_refuses_relay [OF w(1,2), of ?known "replicate 32 5" "demo_viewer (Some ''R'')" "replicate 32 6" "Some ''H''"
        "demo_host (Some ''R'')", OF _ _ _ _ pol w(3) h(1,2) _ w(4) a] s1 s2 hk
    by (simp add: o f d)
  then show ?thesis unfolding Let_def hi_def [symmetric] ack_def [symmetric] by (auto simp: d f)
qed

end
