(* ===== verification/HostMain.thy ===== *)
theory HostMain
  imports HostSafety Account
begin

text \<open>
  The host daemon's start (\<open>apps/host/src/main.rs\<close>): which command the arguments ask for,
  the tunables, the ICE servers fetched with back-off and token refresh, the device token and its
  refresh, the host's configuration and the refusal to serve an open relay, the settings
  subcommands and the thread that restarts the host when its TURN credential has lapsed.  The
  environment gives the value of a variable that is set to UTF-8; the HTTP client's answers are an
  argument; times are milliseconds or, for credentials, unix seconds.  Parking and the restart in
  place are values.
\<close>

section \<open>Tunables\<close>

type_synonym env = "string \<Rightarrow> string option"

definition env_or :: "(string \<Rightarrow> 'a option) \<Rightarrow> env \<Rightarrow> string \<Rightarrow> 'a \<Rightarrow> 'a" where
  "env_or parse env key d = (case Option.bind (env key) parse of Some v \<Rightarrow> v | None \<Rightarrow> d)"

definition setting_or_env_or ::
  "(string \<Rightarrow> 'a option) \<Rightarrow> settings option \<Rightarrow> env \<Rightarrow> string \<Rightarrow> string \<Rightarrow> 'a \<Rightarrow> 'a" where
  "setting_or_env_or parse st env skey env_key d =
    (case Option.bind (Option.bind st (st_get skey)) parse of Some v \<Rightarrow> v | None \<Rightarrow> env_or parse env env_key d)"

definition KEY_RENDEZVOUS_URL :: string where "KEY_RENDEZVOUS_URL = ''rendezvous_url''"
definition KEY_FPS :: string where "KEY_FPS = ''fps''"
definition KEY_WIDTH :: string where "KEY_WIDTH = ''width''"
definition KEY_HEIGHT :: string where "KEY_HEIGHT = ''height''"
definition KEY_BITRATE :: string where "KEY_BITRATE = ''bitrate''"
definition KEY_CAPTURE_SOURCE :: string where "KEY_CAPTURE_SOURCE = ''capture_source''"

section \<open>ICE servers\<close>

text \<open>The server's JSON entry as the client deserialises it.\<close>

definition ice_of_entry :: "ice_entry \<Rightarrow> ice_server" where
  "ice_of_entry e = \<lparr> ice_urls = ie_urls e, ice_username = map_option fst (ie_creds e),
     ice_credential = map_option snd (ie_creds e) \<rparr>"

definition manual_ice :: "env \<Rightarrow> ice_server list" where
  "manual_ice env =
    (case env ''RMD_ICE'' of
       Some s \<Rightarrow> map (\<lambda>u. ice_server_urls [u]) (filter (\<lambda>x. x \<noteq> []) (map trim (split_on CHR '','' s)))
     | None \<Rightarrow> [])"

definition is_http_unauthorized :: "string + 'a \<Rightarrow> bool" where
  "is_http_unauthorized r = (case r of Inl e \<Rightarrow> contains_str ''HTTP 401'' e | Inr _ \<Rightarrow> False)"

text \<open>\<open>AccountClient::run\<close> on an error answer of the server.\<close>

definition status_error :: "nat \<Rightarrow> string \<Rightarrow> string" where
  "status_error code detail = ''server returned HTTP '' @ show_nat code @ '': '' @ detail"

record ice_client =
  ic_fetch :: "nat \<Rightarrow> string \<Rightarrow> (string + ice_server list) \<times> nat"
  ic_refresher :: "(nat \<Rightarrow> string option \<times> nat) option"

record ice_run =
  ir_now :: nat
  ir_calls :: nat
  ir_auth :: string
  ir_refreshed :: "string option"
  ir_backoff :: nat

text \<open>A request, its answer and the time it took; minting a new token takes time too (its request, the
  lock on the settings and their save); one turn of the loop up to the \<open>match\<close>.\<close>

definition ice_call :: "ice_client \<Rightarrow> string \<Rightarrow> ice_run \<Rightarrow> (string + ice_server list) \<times> ice_run" where
  "ice_call c token s =
    (fst (ic_fetch c (ir_calls s) token),
     s\<lparr>ir_calls := Suc (ir_calls s), ir_now := ir_now s + snd (ic_fetch c (ir_calls s) token)\<rparr>)"

definition ice_mint :: "ice_client \<Rightarrow> ice_run \<Rightarrow> string option \<times> ice_run" where
  "ice_mint c s =
    (case ic_refresher c of
       None \<Rightarrow> (None, s)
     | Some r \<Rightarrow> (fst (r (ir_calls s)), s\<lparr>ir_now := ir_now s + snd (r (ir_calls s))\<rparr>))"

definition ice_turn :: "ice_client \<Rightarrow> ice_run \<Rightarrow> (string + ice_server list) \<times> ice_run" where
  "ice_turn c s =
    (case ice_call c (ir_auth s) s of
       (fetched, s1) \<Rightarrow>
         if is_http_unauthorized fetched \<and> ir_refreshed s1 = None then
           (case ice_mint c s1 of
              (Some t, s2) \<Rightarrow> (case ice_call c t s2 of
                                (fetched', s3) \<Rightarrow> (fetched', s3\<lparr>ir_auth := t, ir_refreshed := Some t\<rparr>))
            | (None, s2) \<Rightarrow> (fetched, s2))
         else (fetched, s1))"

partial_function (option) ice_loop :: "ice_client \<Rightarrow> nat \<Rightarrow> ice_run \<Rightarrow> (ice_server list \<times> ice_run) option" where
  "ice_loop c deadline s =
    (case ice_turn c s of
       (Inr l, s1) \<Rightarrow> Some (l, s1)
     | (Inl e, s1) \<Rightarrow>
         if deadline \<le> ir_now s1 then Some ([], s1)
         else ice_loop c deadline (s1\<lparr>ir_now := ir_now s1 + ir_backoff s1, ir_backoff := min (ir_backoff s1 * 2) 15000\<rparr>))"

definition host_ice_servers ::
  "env \<Rightarrow> ice_client \<Rightarrow> nat \<Rightarrow> string option \<Rightarrow> string option \<Rightarrow> (ice_server list \<times> string option) option" where
  "host_ice_servers env c now url token =
    (case (url, token) of
       (Some u, Some tok) \<Rightarrow>
         map_option (\<lambda>(l, s). (manual_ice env @ l, ir_refreshed s))
           (ice_loop c (now + 1000 * env_or (parse_uint 64) env ''RMD_ICE_FETCH_MAX_WAIT'' 120)
              \<lparr> ir_now = now, ir_calls = 0, ir_auth = tok, ir_refreshed = None, ir_backoff = 1000 \<rparr>)
     | _ \<Rightarrow> Some (manual_ice env, None))"

section \<open>The device token\<close>

definition settings_path :: "string \<Rightarrow> string" where
  "settings_path dir = dir @ ''/settings.enc''"

definition identity_path :: "string \<Rightarrow> string" where
  "identity_path dir = dir @ ''/identity.key''"

text \<open>The answer of the refresh request is an argument; the new token is given back whether or not
  it could be stored.\<close>

definition refresh_and_persist_token ::
  "crypto \<Rightarrow> json \<Rightarrow> identity \<Rightarrow> string \<Rightarrow> string option \<Rightarrow> id_env \<Rightarrow> string option \<times> id_env" where
  "refresh_and_persist_token cx js i path answer e =
    (case answer of
       None \<Rightarrow> (None, e)
     | Some new \<Rightarrow>
         (case st_lock path e of
            (False, e1) \<Rightarrow> (Some new, e1)
          | (True, e1) \<Rightarrow>
              (case st_load cx js i path e1 of
                 (Inl _, e2) \<Rightarrow> (Some new, e2)
               | (Inr store, e2) \<Rightarrow> (Some new, snd (st_save cx js i (st_set KEY_TOKEN new store) path e2)))))"

definition nonempty_setting :: "string \<Rightarrow> settings option \<Rightarrow> string option" where
  "nonempty_setting k st = (case Option.bind st (st_get k) of Some v \<Rightarrow> if v \<noteq> [] then Some v else None | None \<Rightarrow> None)"

text \<open>\<open>read_to_string\<close> of a configuration file: None when it cannot be read as UTF-8.\<close>

definition read_text :: "string \<Rightarrow> disk \<Rightarrow> string option" where
  "read_text path d = (case fst (d_slurp path d) of Inr bs \<Rightarrow> from_utf8 bs | Inl _ \<Rightarrow> None)"

definition read_token :: "env \<Rightarrow> string \<Rightarrow> disk \<Rightarrow> settings option \<Rightarrow> string option" where
  "read_token env dir d st =
    (case nonempty_setting KEY_TOKEN st of
       Some tok \<Rightarrow> Some tok
     | None \<Rightarrow>
         let path = (case env ''RMD_TOKEN_FILE'' of Some p \<Rightarrow> p | None \<Rightarrow> dir @ ''/token'')
         in case read_text path d of
              Some s \<Rightarrow> Some (trim s)
            | None \<Rightarrow> env ''RMD_TOKEN'')"

definition key_line :: "string \<Rightarrow> string" where
  "key_line l = trim (hd (split_on CHR ''#'' l))"

definition authorized_device_ids :: "env \<Rightarrow> string \<Rightarrow> disk \<Rightarrow> string list" where
  "authorized_device_ids env dir d =
    (let path = (case env ''RMD_AUTHORIZED_KEYS'' of Some p \<Rightarrow> p | None \<Rightarrow> dir @ ''/authorized_keys'')
     in case read_text path d of
          Some s \<Rightarrow> filter (\<lambda>l. l \<noteq> []) (map key_line (lines s))
        | None \<Rightarrow> [])"

section \<open>Settings commands\<close>

datatype settings_reply =
    SetKey string
  | UnsetKey string
  | NoSuchKey string
  | Keys "string list"
  | SettingsUsage
  | SettingsFailed id_error
  | UnknownSub string

text \<open>\<open>load_or_create\<close>, the lock and the store; \<open>list\<close> prints the keys in the order of the
  \<open>BTreeMap\<close>, here for the keys the JSON object can hold.\<close>

definition run_settings_command ::
  "crypto \<Rightarrow> json \<Rightarrow> (settings \<Rightarrow> string list) \<Rightarrow> string \<Rightarrow> string list \<Rightarrow> id_env \<Rightarrow> settings_reply \<times> id_env" where
  "run_settings_command cx js keys_of dir args e =
    (case load_or_create cx (identity_path dir) e of
       (Inl err, e1) \<Rightarrow> (SettingsFailed err, e1)
     | (Inr i, e1) \<Rightarrow>
         let path = settings_path dir in
         (case st_lock path e1 of
            (False, e2) \<Rightarrow> (SettingsFailed Io, e2)
          | (True, e2) \<Rightarrow>
              (case st_load cx js i path e2 of
                 (Inl err, e3) \<Rightarrow> (SettingsFailed err, e3)
               | (Inr store, e3) \<Rightarrow>
                   (let saving = (\<lambda>m r. case st_save cx js i m path e3 of
                                          (Inl err, e4) \<Rightarrow> (SettingsFailed err, e4)
                                        | (Inr _, e4) \<Rightarrow> (r, e4))
                    in if hd args = ''set'' then
                         (case args of
                            _ # key # value # _ \<Rightarrow>
                              if key = [] then (SettingsUsage, e3) else saving (st_set key value store) (SetKey key)
                          | _ \<Rightarrow> (SettingsUsage, e3))
                       else if hd args = ''unset'' then
                         (case args of
                            _ # key # _ \<Rightarrow>
                              (case st_remove key store of
                                 (True, m) \<Rightarrow> saving m (UnsetKey key)
                               | (False, _) \<Rightarrow> (NoSuchKey key, e3))
                          | _ \<Rightarrow> (SettingsUsage, e3))
                       else if hd args = ''list'' then (Keys (keys_of store), e3)
                       else (UnknownSub (hd args), e3)))))"

section \<open>Commands\<close>

datatype command =
    ShowVersion
  | ShowHelp
  | SettingsCmd "string list"
  | ServiceCmd "string list"
  | SetupCmd "string list"
  | AgentCmd
  | UnknownCommand string
  | Daemon bool

definition flag_of :: "string \<Rightarrow> command option" where
  "flag_of a = (if a = ''--version'' \<or> a = ''-V'' then Some ShowVersion
                else if a = ''--help'' \<or> a = ''-h'' then Some ShowHelp else None)"

text \<open>The arguments without the program's name; \<open>linux\<close> is the target the binary is built for.\<close>

definition main_command :: "bool \<Rightarrow> string list \<Rightarrow> command" where
  "main_command linux args =
    (case find_map flag_of args of
       Some c \<Rightarrow> c
     | None \<Rightarrow>
         (case args of
            [] \<Rightarrow> Daemon False
          | a # _ \<Rightarrow>
              if a \<in> set [''set'', ''unset'', ''list''] then SettingsCmd args
              else if a \<in> set [''enable'', ''disable'', ''status'', ''start'', ''stop'', ''restart'', ''log''] then ServiceCmd args
              else if a \<in> set [''setup-linux'', ''setup-input''] then SetupCmd args
              else if linux \<and> a = ''agent'' then AgentCmd
              else if linux \<and> a = ''broker'' then Daemon True
              else UnknownCommand a))"

section \<open>Configuration of a host\<close>

definition video_codec_from_env :: "env \<Rightarrow> video_codec" where
  "video_codec_from_env env =
    (if map ascii_lower (case env ''RMD_CODEC'' of Some v \<Rightarrow> v | None \<Rightarrow> []) = ''av1'' then Av1 else H264)"

definition should_park_open_relay :: "bool \<Rightarrow> bool \<Rightarrow> bool \<Rightarrow> bool \<Rightarrow> bool" where
  "should_park_open_relay rendezvous require password allow \<longleftrightarrow> rendezvous \<and> \<not> require \<and> \<not> password \<and> \<not> allow"

definition rendezvous_url :: "env \<Rightarrow> settings option \<Rightarrow> string option" where
  "rendezvous_url env st =
    (case nonempty_setting KEY_RENDEZVOUS_URL st of Some u \<Rightarrow> Some u | None \<Rightarrow> env ''RMD_RENDEZVOUS_URL'')"

definition main_config ::
  "env \<Rightarrow> string \<Rightarrow> disk \<Rightarrow> identity option \<Rightarrow> settings option \<Rightarrow> ice_server list \<Rightarrow> host_config" where
  "main_config env dir d i st ice = \<lparr>
     hc_display_index = env_or (parse_uint 64) env ''RMD_DISPLAY'' 0,
     hc_width = setting_or_env_or (parse_uint 32) st env KEY_WIDTH ''RMD_WIDTH'' 1920,
     hc_height = setting_or_env_or (parse_uint 32) st env KEY_HEIGHT ''RMD_HEIGHT'' 1080,
     hc_fps = setting_or_env_or (parse_uint 32) st env KEY_FPS ''RMD_FPS'' 30,
     hc_bitrate_bps = setting_or_env_or (parse_uint 32) st env KEY_BITRATE ''RMD_BITRATE'' 8000000,
     hc_device_name = (case env ''RMD_NAME'' of Some n \<Rightarrow> n
                       | None \<Rightarrow> (case env ''HOSTNAME'' of Some n \<Rightarrow> n | None \<Rightarrow> ''rmd-host'')),
     hc_ice_servers = ice,
     hc_bind_addr = (case env ''RMD_BIND'' of Some a \<Rightarrow> a | None \<Rightarrow> ''0.0.0.0:0''),
     hc_enable_audio = (env ''RMD_AUDIO'' \<noteq> None),
     hc_video_codec = video_codec_from_env env,
     hc_require_authorization = (env ''RMD_REQUIRE_AUTH'' \<noteq> None \<or> authorized_device_ids env dir d \<noteq> []),
     hc_authorized_device_ids = authorized_device_ids env dir d,
     hc_identity = i,
     hc_connect_password = nonempty_setting KEY_PASSWORD st,
     hc_restore_token = nonempty_setting KEY_SCREENCAST_RESTORE_TOKEN st,
     hc_capture_source =
       (if map_option (\<lambda>v. map ascii_lower (trim v)) (Option.bind st (st_get KEY_CAPTURE_SOURCE)) = Some ''virtual''
        then Virtual else Monitor) \<rparr>"

datatype signaling = ViaRendezvous string string | ViaLan string

text \<open>\<open>build_signaling\<close>, without the connecting itself; None is its error.\<close>

definition build_signaling :: "env \<Rightarrow> string option \<Rightarrow> string option \<Rightarrow> signaling option" where
  "build_signaling env url token =
    (case url of
       Some u \<Rightarrow> map_option (ViaRendezvous u) token
     | None \<Rightarrow> Some (ViaLan (case env ''RMD_SIGNAL_ADDR'' of Some a \<Rightarrow> a | None \<Rightarrow> ''127.0.0.1:9000'')))"

datatype startup =
    ParkUnconfigured
  | ParkOpenRelay
  | StartFailed
  | Serve host_config signaling

text \<open>\<open>main\<close> from the opened settings on; a fetch that never ends gives None.\<close>

definition main_start ::
  "env \<Rightarrow> string \<Rightarrow> disk \<Rightarrow> identity option \<Rightarrow> settings option \<Rightarrow> ice_client \<Rightarrow> nat \<Rightarrow> startup option" where
  "main_start env dir d i st c now =
    (let url = rendezvous_url env st;
         token = (case url of
                    Some _ \<Rightarrow> map_option Some (read_token env dir d st)
                  | None \<Rightarrow> if env ''RMD_SIGNAL_ADDR'' \<noteq> None then Some None else None)
     in case token of
          None \<Rightarrow> Some ParkUnconfigured
        | Some tok \<Rightarrow>
            map_option (\<lambda>(ice, refreshed).
                let tok' = (case refreshed of Some t \<Rightarrow> Some t | None \<Rightarrow> tok);
                    cfg = main_config env dir d i st ice
                in if should_park_open_relay (url \<noteq> None) (hc_require_authorization cfg)
                        (hc_connect_password cfg \<noteq> None) (env ''RMD_ALLOW_OPEN_RELAY'' \<noteq> None)
                   then ParkOpenRelay
                   else (case build_signaling env url tok' of
                           None \<Rightarrow> StartFailed
                         | Some sg \<Rightarrow> Serve cfg sg))
              (host_ice_servers env (if url = None \<or> i = None then c\<lparr>ic_refresher := None\<rparr> else c) now url tok))"

section \<open>The TURN refresh thread\<close>

definition turn_expiry_of :: "ice_server \<Rightarrow> nat option" where
  "turn_expiry_of s =
    (if list_ex (starts_with ''turn:'') (ice_urls s)
     then Option.bind (ice_username s) (\<lambda>u. parse_uint 64 (hd (split_on CHR '':'' u))) else None)"

definition earliest_turn_expiry :: "ice_server list \<Rightarrow> nat option" where
  "earliest_turn_expiry servers =
    (case List.map_filter turn_expiry_of servers of [] \<Rightarrow> None | x # xs \<Rightarrow> Some (foldl min x xs))"

definition SETTLE :: nat where "SETTLE = 30"
definition MIN_RESTART_INTERVAL :: nat where "MIN_RESTART_INTERVAL = 600"

datatype turn_action = Nap nat | RestartInPlace

definition turn_refresh_turn :: "nat \<Rightarrow> nat \<Rightarrow> nat \<Rightarrow> bool \<Rightarrow> turn_action" where
  "turn_refresh_turn expiry started now active =
    (let restart_at = min (expiry + SETTLE) (2 ^ 64 - 1)
     in if now < restart_at then Nap (min (restart_at - now) 3600)
        else if now - started < MIN_RESTART_INTERVAL then Nap (MIN_RESTART_INTERVAL - (now - started))
        else if active then Nap 30
        else RestartInPlace)"

text \<open>The thread over what it reads at each turn, the time and whether a session is active, until
  it restarts the process: the time of the restart.\<close>

fun turn_refresh :: "nat \<Rightarrow> nat \<Rightarrow> (nat \<times> bool) list \<Rightarrow> nat option" where
  "turn_refresh expiry started [] = None"
| "turn_refresh expiry started ((now, active) # ws) =
    (if turn_refresh_turn expiry started now active = RestartInPlace then Some now
     else turn_refresh expiry started ws)"

definition spawn_turn_refresh :: "ice_server list \<Rightarrow> nat \<Rightarrow> (nat \<times> bool) list \<Rightarrow> nat option" where
  "spawn_turn_refresh servers started ws =
    (case earliest_turn_expiry servers of None \<Rightarrow> None | Some expiry \<Rightarrow> turn_refresh expiry started ws)"

section \<open>Fetching the ICE servers\<close>

definition takes_at_most :: "nat \<Rightarrow> ice_client \<Rightarrow> bool" where
  "takes_at_most D c \<longleftrightarrow> (\<forall>k t. snd (ic_fetch c k t) \<le> D) \<and> (\<forall>r k. ic_refresher c = Some r \<longrightarrow> snd (r k) \<le> D)"

lemma ice_call_facts:
  "ice_call c t s = (r, s1) \<Longrightarrow> takes_at_most D c \<Longrightarrow> ir_now s \<le> ir_now s1 \<and> ir_now s1 \<le> ir_now s + D
     \<and> ir_backoff s1 = ir_backoff s \<and> ir_refreshed s1 = ir_refreshed s \<and> (\<exists>k t. r = fst (ic_fetch c k t))"
  by (auto simp: ice_call_def takes_at_most_def)

lemma ice_mint_facts:
  "ice_mint c s = (r, s1) \<Longrightarrow> takes_at_most D c \<Longrightarrow> ir_now s \<le> ir_now s1 \<and> ir_now s1 \<le> ir_now s + D
     \<and> ir_backoff s1 = ir_backoff s \<and> ir_refreshed s1 = ir_refreshed s"
  by (auto simp: ice_mint_def takes_at_most_def split: option.splits)

lemma ice_turn_facts:
  assumes D: "takes_at_most D c" and t: "ice_turn c s = (r, s1)"
  shows "ir_now s \<le> ir_now s1 \<and> ir_now s1 \<le> ir_now s + 3 * D \<and> ir_backoff s1 = ir_backoff s
    \<and> (\<exists>k t. r = fst (ic_fetch c k t)) \<and> (\<forall>t. ir_refreshed s = Some t \<longrightarrow> ir_refreshed s1 = Some t)"
proof -
  obtain f1 a where 1: "ice_call c (ir_auth s) s = (f1, a)" by fastforce
  obtain m b where 2: "ice_mint c a = (m, b)" by fastforce
  note f = ice_call_facts [OF 1 D] ice_mint_facts [OF 2 D]
  show ?thesis
  proof (cases "is_http_unauthorized f1 \<and> ir_refreshed a = None")
    case False
    then have "r = f1" "s1 = a" using t 1 by (auto simp: ice_turn_def)
    then show ?thesis using f by auto
  next
    case unauthorized: True
    show ?thesis
    proof (cases m)
      case None
      then have "r = f1" "s1 = b" using t 1 2 unauthorized by (auto simp: ice_turn_def)
      then show ?thesis using f by auto
    next
      case (Some new)
      obtain f2 e where 3: "ice_call c new b = (f2, e)" by fastforce
      then have "r = f2" "s1 = e\<lparr>ir_auth := new, ir_refreshed := Some new\<rparr>"
        using t 1 2 unauthorized Some by (auto simp: ice_turn_def)
      then show ?thesis using f ice_call_facts [OF 3 D] unauthorized by auto
    qed
  qed
qed

text \<open>C39: Fetching the ICE servers comes to an end: whatever the server answers, with fetches and
  mintings of a token that take at most \<open>D\<close> milliseconds each, the loop is over at most one back-off
  of 15 seconds and three of them (a refused fetch, a minting, the fetch with the new token) after
  its deadline; its servers are those of an answer, or none and the deadline has passed; and a
  token once minted is not minted again.\<close>

theorem ice_fetch_ends:
  assumes "takes_at_most D c" "0 < ir_backoff s" "ir_backoff s \<le> 15000"
  shows "\<exists>l s'. ice_loop c deadline s = Some (l, s')
    \<and> ir_now s' \<le> max (ir_now s) (deadline + 15000) + 3 * D
    \<and> ((\<exists>k t. fst (ic_fetch c k t) = Inr l) \<or> l = [] \<and> deadline \<le> ir_now s')
    \<and> (\<forall>t. ir_refreshed s = Some t \<longrightarrow> ir_refreshed s' = Some t)"
  using assms(2,3)
proof (induction "deadline - ir_now s" arbitrary: s rule: less_induct)
  case less
  obtain r s1 where t: "ice_turn c s = (r, s1)" by fastforce
  note f = ice_turn_facts [OF assms(1) t]
  show ?case
  proof (cases r)
    case (Inr l)
    then have "\<exists>k t. fst (ic_fetch c k t) = Inr l" using f by metis
    moreover have "ice_loop c deadline s = Some (l, s1)" using t Inr by (subst ice_loop.simps) simp
    ultimately show ?thesis using f by auto
  next
    case (Inl e)
    show ?thesis
    proof (cases "deadline \<le> ir_now s1")
      case True
      then show ?thesis using t f Inl by (subst ice_loop.simps) auto
    next
      case False
      let ?s2 = "s1\<lparr>ir_now := ir_now s1 + ir_backoff s1, ir_backoff := min (ir_backoff s1 * 2) 15000\<rparr>"
      have "deadline - ir_now ?s2 < deadline - ir_now s"
        using False less.prems conjunct1 [OF f] conjunct1 [OF conjunct2 [OF conjunct2 [OF f]]] by simp
      moreover have "0 < ir_backoff ?s2" "ir_backoff ?s2 \<le> 15000" using f less.prems by simp_all
      ultimately obtain l s' where i: "ice_loop c deadline ?s2 = Some (l, s')"
        "ir_now s' \<le> max (ir_now ?s2) (deadline + 15000) + 3 * D"
        "(\<exists>k t. fst (ic_fetch c k t) = Inr l) \<or> l = [] \<and> deadline \<le> ir_now s'"
        "\<forall>t. ir_refreshed ?s2 = Some t \<longrightarrow> ir_refreshed s' = Some t"
        using less.hyps [of ?s2] by blast
      have "ir_now ?s2 \<le> deadline + 15000" using False f less.prems by simp
      then have "ir_now s' \<le> max (ir_now s) (deadline + 15000) + 3 * D" using i(2) by simp
      moreover have "ice_loop c deadline s = Some (l, s')"
        using t Inl False i(1) by (subst ice_loop.simps) simp
      ultimately show ?thesis using i(3,4) f by auto
    qed
  qed
qed

definition demo_ice :: ice_client where
  "demo_ice = \<lparr> ic_fetch = (\<lambda>k t. if t = ''new'' then (Inr [ice_server_urls [''stun:h'']], 40)
       else (Inl (status_error 401 ''unauthorized''), 40)),
     ic_refresher = Some (\<lambda>k. (Some ''new'', 40)) \<rparr>"

lemma ice_fetch_ends_witness:
  "\<exists>l s'. ice_loop demo_ice 120000 \<lparr> ir_now = 0, ir_calls = 0, ir_auth = ''old'', ir_refreshed = None, ir_backoff = 1000 \<rparr>
     = Some (l, s') \<and> ir_now s' \<le> 135120"
proof -
  let ?s = "\<lparr> ir_now = 0, ir_calls = 0, ir_auth = ''old'', ir_refreshed = None, ir_backoff = 1000 \<rparr>"
  have d: "takes_at_most 40 demo_ice" by (simp add: takes_at_most_def demo_ice_def)
  obtain l s' where "ice_loop demo_ice 120000 ?s = Some (l, s')"
    "ir_now s' \<le> max (ir_now ?s) (120000 + 15000) + 3 * 40"
    using ice_fetch_ends [OF d, of ?s 120000] by auto
  then show ?thesis by auto
qed

text \<open>The status is looked for anywhere in the error's text: another status whose body quotes a 401
  also mints a token.\<close>

lemma quoted_status_counts: "is_http_unauthorized (Inl (status_error 502 ''upstream: HTTP 401'') :: string + nat)"
  by code_simp

section \<open>No open host\<close>

text \<open>C22: A host never serves openly by accident: when \<open>main\<close> gets to serving over a
  rendezvous and the operator did not opt into an open relay, then a viewer's message that
  turns authorization on is a Hello that carries the stored, non-empty connection password, or
  that proves a device key whose identifier is a line of the authorized-keys file.\<close>

theorem never_serves_openly:
  assumes start: "main_start env dir d i st c now = Some (Serve hc (ViaRendezvous u t))"
    and "env ''RMD_ALLOW_OPEN_RELAY'' = None"
    and turn_on: "\<not> hs_authorized s" "hs_authorized (handle_control he hc vp ms bs s)"
  shows "\<exists>e h. he_decode he bs = Some e \<and> e_payload e = Some (P_Hello h)
    \<and> ((\<exists>pw. pw \<noteq> [] \<and> Option.bind st (st_get KEY_PASSWORD) = Some pw \<and> h_password h = pw)
       \<or> (\<exists>dev\<in>set (authorized_device_ids env dir d).
            verify_access_proof (he_crypto he) (h_public_key h) (h_signature h) (opt_bytes (hs_remote_fp s)) = Inr dev))"
proof -
  have url: "rendezvous_url env st \<noteq> None"
    using start by (auto simp: main_start_def Let_def build_signaling_def split: option.splits if_splits)
  then obtain ice where hc: "hc = main_config env dir d i st ice"
    "\<not> should_park_open_relay True (hc_require_authorization hc) (hc_connect_password hc \<noteq> None) False"
    using start assms(2) by (auto simp: main_start_def Let_def split: option.splits if_splits)
  then have gate: "hc_require_authorization hc \<or> hc_connect_password hc \<noteq> None"
    by (simp add: should_park_open_relay_def)
  have pw: "hc_connect_password hc = Some p \<Longrightarrow> p \<noteq> [] \<and> Option.bind st (st_get KEY_PASSWORD) = Some p" for p
    by (auto simp: hc(1) main_config_def nonempty_setting_def split: option.splits if_splits)
  have ids: "hc_authorized_device_ids hc = authorized_device_ids env dir d" by (simp add: hc(1) main_config_def)
  obtain e h where eh: "he_decode he bs = Some e" "e_payload e = Some (P_Hello h)"
    "hc_require_authorization hc \<longrightarrow> (\<exists>dev\<in>set (hc_authorized_device_ids hc).
         verify_access_proof (he_crypto he) (h_public_key h) (h_signature h) (opt_bytes (hs_remote_fp s)) = Inr dev)"
    "\<forall>p. hc_connect_password hc = Some p \<longrightarrow> h_password h = p"
    using authorizing_hello [OF turn_on] by blast
  show ?thesis
  proof (cases "hc_require_authorization hc")
    case True
    then show ?thesis using eh(1,2,3) unfolding ids by blast
  next
    case False
    then obtain p where "hc_connect_password hc = Some p" using gate by blast
    then show ?thesis using eh(1,2,4) pw by blast
  qed
qed

text \<open>The gate is the only reason for parking once there is a token, and parking is all a host
  without configuration does.\<close>

lemma parks_without_token:
  "rendezvous_url env st = Some u \<Longrightarrow> read_token env dir d st = None \<Longrightarrow>
     main_start env dir d i st c now = Some ParkUnconfigured"
  "rendezvous_url env st = None \<Longrightarrow> env ''RMD_SIGNAL_ADDR'' = None \<Longrightarrow>
     main_start env dir d i st c now = Some ParkUnconfigured"
  by (simp_all add: main_start_def)

section \<open>The TURN refresh\<close>

lemma restart_condition:
  "turn_refresh_turn expiry started now active = RestartInPlace \<longleftrightarrow>
     min (expiry + 30) (2 ^ 64 - 1) \<le> now \<and> started + 600 \<le> now \<and> \<not> active"
  by (auto simp: turn_refresh_turn_def SETTLE_def MIN_RESTART_INTERVAL_def Let_def)

lemma turn_refresh_when:
  "turn_refresh expiry started ws = Some t \<Longrightarrow>
     (t, False) \<in> set ws \<and> min (expiry + 30) (2 ^ 64 - 1) \<le> t \<and> started + 600 \<le> t"
proof (induction ws)
  case (Cons w ws)
  then show ?case by (cases w) (auto simp del: min_le_iff_disj simp: restart_condition split: if_splits)
qed simp

text \<open>A host over several restarts: the servers each process starts with and what its thread
  reads; the times of the restarts.\<close>

fun restarts :: "nat \<Rightarrow> (ice_server list \<times> (nat \<times> bool) list) list \<Rightarrow> nat list" where
  "restarts started [] = []"
| "restarts started ((servers, ws) # lives) =
    (case spawn_turn_refresh servers started ws of None \<Rightarrow> [] | Some t \<Rightarrow> t # restarts t lives)"

text \<open>The relay refresh never cuts a session and never spins: over any number of restarts, the
  \<open>i\<close>-th is at least \<open>600 (i + 1)\<close> seconds after the first start, at a moment when no
  session was active and half a minute after the credential of that process lapsed.\<close>

theorem turn_restarts_spaced:
  assumes "n < length (restarts started lives)"
  shows "started + 600 * (n + 1) \<le> restarts started lives ! n
    \<and> (restarts started lives ! n, False) \<in> set (snd (lives ! n))
    \<and> (\<exists>e. earliest_turn_expiry (fst (lives ! n)) = Some e \<and> min (e + 30) (2 ^ 64 - 1) \<le> restarts started lives ! n)"
  using assms
proof (induction lives arbitrary: started n)
  case (Cons life lives)
  obtain servers ws where life: "life = (servers, ws)" by fastforce
  then obtain t where t: "spawn_turn_refresh servers started ws = Some t"
    using Cons.prems by (auto split: option.splits)
  then obtain e where e: "earliest_turn_expiry servers = Some e" "turn_refresh e started ws = Some t"
    by (auto simp: spawn_turn_refresh_def split: option.splits)
  have f: "min (e + 30) (2 ^ 64 - 1) \<le> t" "started + 600 \<le> t" "(t, False) \<in> set ws"
    using turn_refresh_when [OF e(2)] by auto
  show ?case
  proof (cases n)
    case 0
    then show ?thesis using f e(1) t by (simp add: life)
  next
    case (Suc m)
    then have "m < length (restarts t lives)" using Cons.prems t by (simp add: life)
    from Cons.IH [OF this] show ?thesis using f(2) t Suc by (auto simp: life)
  qed
qed simp

text \<open>And it happens as soon as it may.\<close>

lemma turn_refresh_happens:
  assumes "earliest_turn_expiry servers = Some e" "(t, False) \<in> set ws"
    "min (e + 30) (2 ^ 64 - 1) \<le> t" "started + 600 \<le> t"
  shows "\<exists>t'. spawn_turn_refresh servers started ws = Some t'"
  using assms(2)
proof (induction ws)
  case (Cons w ws)
  then show ?case using assms(1,3,4)
    by (cases w) (auto simp: spawn_turn_refresh_def restart_condition)
qed simp

definition demo_turn :: "nat \<Rightarrow> ice_server list" where
  "demo_turn e = [\<lparr> ice_urls = [''turn:h:3478''], ice_username = Some (show_nat e @ '':7''), ice_credential = Some ''c'' \<rparr>]"

section \<open>The server's credential and the host's thread\<close>

lemma parse_show_nat: "n < 2 ^ w \<Longrightarrow> parse_uint w (show_nat n) = Some n"
proof -
  assume n: "n < 2 ^ w"
  obtain c r where s: "show_nat n = c # r" by (cases "show_nat n") auto
  then have "is_digit c" using show_nat_digits [of n] by simp
  then have "c \<noteq> CHR ''+''" by (auto simp: is_digit_def)
  then show ?thesis using n show_nat_digits [of n] show_nat_value [of n] by (simp add: parse_uint_def s Let_def)
qed

lemma expiry_read:
  assumes "0 \<le> e" "e < 2 ^ 64"
  shows "turn_expiry_of \<lparr> ice_urls = (''turn:'' @ a) # us, ice_username = Some (show_int e @ '':'' @ b), ice_credential = cr \<rparr>
    = Some (nat e)"
proof -
  have "CHR '':'' \<notin> set (show_nat (nat e))"
    using show_nat_digits [of "nat e"] by (auto simp: list_all_iff is_digit_def)
  then have "hd (split_on CHR '':'' (show_nat (nat e) @ CHR '':'' # b)) = show_nat (nat e)"
    by (simp add: split_on_append split_on_id)
  moreover have "nat e < 2 ^ 64" using assms(2) by (simp add: nat_less_iff assms(1))
  ultimately show ?thesis using assms(1) parse_show_nat [of "nat e" 64]
    by (simp add: turn_expiry_of_def starts_with_def show_int_def)
qed

definition ice_cache_ok :: "app \<Rightarrow> bool" where
  "ice_cache_ok s \<longleftrightarrow> (\<forall>u n c e. ap_ice_cache s u = Some (n, c, e) \<longrightarrow>
     n = show_int e @ '':'' @ show_int u \<and> 0 \<le> e \<and> e < 2 ^ 64)"

lemma turn_creds_read:
  assumes "ice_cache_ok s" "0 \<le> ck_unix ck" "ck_unix ck + int (tc_ttl turn) < 2 ^ 64"
    "turn_creds_for ae ck u turn s = ((n, c), s')"
  shows "ice_cache_ok s' \<and> (\<exists>e. n = show_int e @ '':'' @ show_int u \<and> 0 \<le> e \<and> e < 2 ^ 64
    \<and> (e = ck_unix ck + int (tc_ttl turn) \<or> ck_unix ck + 60 < e))"
proof -
  define e where "e = ck_unix ck + int (tc_ttl turn)"
  have e: "0 \<le> e" "e < 2 ^ 64" using assms(2,3) by (simp_all add: e_def)
  have "ice_cache_ok (s\<lparr>ap_ice_cache := (\<lambda>v. case ap_ice_cache s v of
      Some (n, c, e) \<Rightarrow> if ck_unix ck < e then Some (n, c, e) else None | None \<Rightarrow> None)
      (u \<mapsto> (show_int e @ '':'' @ show_int u, c', e))\<rparr>)" for c'
    using assms(1) e by (auto simp: ice_cache_ok_def split: option.splits if_splits)
  note stored = this
  let ?fresh = "((show_int e @ '':'' @ show_int u, mint_turn_credential ae (tc_secret turn) (show_int e @ '':'' @ show_int u)),
    s\<lparr>ap_ice_cache := (\<lambda>v. case ap_ice_cache s v of
      Some (n, c, e) \<Rightarrow> if ck_unix ck < e then Some (n, c, e) else None | None \<Rightarrow> None)
      (u \<mapsto> (show_int e @ '':'' @ show_int u, mint_turn_credential ae (tc_secret turn) (show_int e @ '':'' @ show_int u), e))\<rparr>)"
  have cases: "turn_creds_for ae ck u turn s =
     (case ap_ice_cache s u of Some (n, c, e') \<Rightarrow> if ck_unix ck + 60 < e' then ((n, c), s) else ?fresh | None \<Rightarrow> ?fresh)"
    by (simp only: turn_creds_for_def Let_def e_def)
  show ?thesis
  proof (cases "turn_creds_for ae ck u turn s = ?fresh")
    case True
    then have "n = show_int e @ '':'' @ show_int u" "ice_cache_ok s'" using assms(4) stored by auto
    then show ?thesis using e e_def by blast
  next
    case False
    then obtain e' where c: "ap_ice_cache s u = Some (n, c, e')" "ck_unix ck + 60 < e'" "s' = s"
      using cases assms(4) by (auto split: option.splits if_splits)
    then have "n = show_int e' @ '':'' @ show_int u \<and> 0 \<le> e' \<and> e' < 2 ^ 64" using assms(1) unfolding ice_cache_ok_def by blast
    then show ?thesis using c assms(1) by blast
  qed
qed

text \<open>The expiry the server mints is the one the host's thread waits for: in the ICE servers the API
  answers with, serialised and read by the client, the thread finds the credential's expiry, either a
  whole lifetime ahead or, for a credential kept from an earlier request of the account, more than a
  minute ahead.\<close>

theorem relay_expiry_agrees:
  assumes "ice_cache_ok s" "0 \<le> ck_unix ck" "rc_turn (ae_config ae) = Some turn"
    "ck_unix ck + int (tc_ttl turn) < 2 ^ 64" "\<And>u. rd_allowed (ae_allow_relay ae u)"
    and answer: "ice_servers ae (device_token_resolver ae) ck hdr q s = (Inr (l, r), s')"
  shows "ice_cache_ok s' \<and> (\<exists>e. earliest_turn_expiry (map ice_of_entry l) = Some (nat e)
    \<and> (e = ck_unix ck + int (tc_ttl turn) \<or> ck_unix ck + 60 < e))"
proof -
  have keep: "ap_ice_cache (snd (device_token_resolver ae ck t s)) = ap_ice_cache s" for t
    by (simp add: device_token_resolver_def resolve_device_token_def split: option.split)
  define who where "who = (case session_user ae ck hdr (ap_db s) of
      Some u \<Rightarrow> (Some u, s)
    | None \<Rightarrow> (case request_token hdr q of
                 None \<Rightarrow> (None, s)
               | Some t \<Rightarrow> map_prod (map_option cr_user) id (device_token_resolver ae ck t s)))"
  obtain ou s1 where who: "who = (ou, s1)" by fastforce
  have s1: "ap_ice_cache s1 = ap_ice_cache s"
    using who keep by (auto simp: who_def map_prod_def split: option.splits prod.splits) (metis snd_conv)+
  obtain u where ou: "ou = Some u" using answer unfolding ice_servers_def who_def [symmetric] who by (cases ou) auto
  obtain n c s2 where u2: "turn_creds_for ae ck u turn s1 = ((n, c), s2)" by (metis prod.exhaust)
  have u: "turn_creds_for ae ck u turn s1 = ((n, c), s')"
    and l: "l = [\<lparr> ie_urls = [''stun:'' @ tc_host turn @ '':'' @ show_nat (tc_port turn)], ie_creds = None \<rparr>,
      \<lparr> ie_urls = [''turn:'' @ (tc_host turn @ '':'' @ show_nat (tc_port turn)) @ ''?transport=udp'',
          ''turn:'' @ (tc_host turn @ '':'' @ show_nat (tc_port turn)) @ ''?transport=tcp''], ie_creds = Some (n, c) \<rparr>]"
    using answer u2 unfolding ice_servers_def who_def [symmetric] who ou by (simp_all add: assms(3,5) Let_def)
  have "ice_cache_ok s1" using assms(1) s1 by (simp add: ice_cache_ok_def)
  from turn_creds_read [OF this assms(2,4) u] obtain e where e: "ice_cache_ok s'"
    "n = show_int e @ '':'' @ show_int u" "0 \<le> e" "e < 2 ^ 64"
    "e = ck_unix ck + int (tc_ttl turn) \<or> ck_unix ck + 60 < e" by blast
  have "earliest_turn_expiry (map ice_of_entry l) = Some (nat e)"
    using expiry_read [OF e(3,4), of "(tc_host turn @ '':'' @ show_nat (tc_port turn)) @ ''?transport=udp''"
       "[''turn:'' @ (tc_host turn @ '':'' @ show_nat (tc_port turn)) @ ''?transport=tcp'']" "show_int u" "Some c"]
    by (simp add: earliest_turn_expiry_def l e(2) ice_of_entry_def map_filter_simps)
      (simp add: turn_expiry_of_def starts_with_def)
  then show ?thesis using e(1,5) by blast
qed

text \<open>A host that starts late in the life of a credential kept for its account is without a relay from
  then on until ten minutes after its start.\<close>

lemma late_fetch_loses_relay:
  assumes "earliest_turn_expiry servers = Some (started + 61)" "spawn_turn_refresh servers started ws = Some t"
  shows "(started + 61) + 539 \<le> t"
  using turn_refresh_when assms by (fastforce simp: spawn_turn_refresh_def)

section \<open>Examples\<close>

lemma demo_turn_expiry: "e < 2 ^ 64 \<Longrightarrow> earliest_turn_expiry (demo_turn e) = Some e"
  using expiry_read [of "int e" "''h:3478''" "[]" "''7''" "Some ''c''"]
  by (simp add: demo_turn_def earliest_turn_expiry_def map_filter_simps show_int_def)

lemma turn_restarts_spaced_witness:
  "restarts 1000 [(demo_turn 1600, [(1000, False), (1630, False)]), (demo_turn 2230, [(2260, True), (2290, False)])] = [1630, 2290]
   \<and> (2290, False) \<in> set [(2260 :: nat, True), (2290, False)]"
proof -
  let ?lives = "[(demo_turn 1600, [(1000, False), (1630, False)]), (demo_turn 2230, [(2260, True), (2290, False)])]"
  have r: "restarts 1000 ?lives = [1630, 2290]"
    by (simp add: spawn_turn_refresh_def demo_turn_expiry restart_condition)
  then have "1 < length (restarts 1000 ?lives)" by simp
  from turn_restarts_spaced [OF this] r show ?thesis by simp
qed

definition demo_env_vars :: env where
  "demo_env_vars = map_of [(''RMD_RENDEZVOUS_URL'', ''wss://h/ws''), (''RMD_TOKEN'', ''t'')]"

definition demo_settings :: settings where "demo_settings = [''password'' \<mapsto> ''pw'']"

definition quiet_ice :: ice_client where
  "quiet_ice = \<lparr> ic_fetch = (\<lambda>k t. (Inr [], 5)), ic_refresher = None \<rparr>"

lemma demo_start:
  "main_start demo_env_vars ''/c'' empty_disk None (Some demo_settings) quiet_ice 0
     = Some (Serve (host_config_default\<lparr>hc_require_authorization := False, hc_connect_password := Some ''pw''\<rparr>)
         (ViaRendezvous ''wss://h/ws'' ''t''))"
proof -
  have loop: "ice_loop quiet_ice n s = Some ([], s\<lparr>ir_calls := Suc (ir_calls s), ir_now := ir_now s + 5\<rparr>)" for n s
    by (subst ice_loop.simps) (simp add: ice_turn_def ice_call_def quiet_ice_def is_http_unauthorized_def)
  have q: "quiet_ice\<lparr>ic_refresher := None\<rparr> = quiet_ice" by (simp add: quiet_ice_def)
  have none: "read_text p empty_disk = None" for p
    by (simp add: read_text_def d_slurp_def failing_def empty_disk_def)
  show ?thesis
    by (simp add: main_start_def rendezvous_url_def nonempty_setting_def demo_env_vars_def demo_settings_def st_get_def
        read_token_def none KEY_TOKEN_def KEY_RENDEZVOUS_URL_def host_ice_servers_def q loop manual_ice_def
        main_config_def authorized_device_ids_def env_or_def setting_or_env_or_def KEY_WIDTH_def KEY_HEIGHT_def
        KEY_FPS_def KEY_BITRATE_def KEY_CAPTURE_SOURCE_def KEY_PASSWORD_def KEY_SCREENCAST_RESTORE_TOKEN_def
        video_codec_from_env_def should_park_open_relay_def build_signaling_def host_config_default_def Let_def)
qed

lemma never_serves_openly_witness:
  "\<exists>h. h_password h = ''pw'' \<and> demo_decode [1] = Some (envelope (P_Hello h))"
proof -
  let ?s = "demo_run [Connected]"
  note start = demo_start [folded demo_hc_def]
  have "\<not> hs_authorized ?s" by code_simp
  moreover have "hs_authorized (handle_control demo_he demo_hc (local_plane demo_os None) 0 [1] ?s)" by code_simp
  ultimately obtain e h where h: "he_decode demo_he [1] = Some e" "e_payload e = Some (P_Hello h)"
    "(\<exists>pw. pw \<noteq> [] \<and> Option.bind (Some demo_settings) (st_get KEY_PASSWORD) = Some pw \<and> h_password h = pw)
     \<or> (\<exists>dev\<in>set (authorized_device_ids demo_env_vars ''/c'' empty_disk).
          verify_access_proof (he_crypto demo_he) (h_public_key h) (h_signature h) (opt_bytes (hs_remote_fp ?s)) = Inr dev)"
    using never_serves_openly [OF start, of ?s demo_he "local_plane demo_os None" 0 "[1]"]
    by (auto simp: demo_env_vars_def)
  then have "e_payload (envelope (P_Hello (demo_hello ''pw''))) = Some (P_Hello h)" by (simp add: demo_he_def demo_decode_def)
  then have "h = demo_hello ''pw''" by simp
  then show ?thesis by (intro exI [of _ h]) (simp add: demo_hello_def demo_decode_def)
qed

definition demo_turn_api :: api_env where
  "demo_turn_api = demo_api\<lparr>ae_config := (config_from_env (\<lambda>k. None))\<lparr>rc_turn :=
     Some \<lparr> tc_secret = ''s'', tc_host = ''h'', tc_port = 1, tc_ttl = 600 \<rparr>\<rparr>\<rparr>"

definition demo_login :: app where
  "demo_login = demo_app\<lparr>ap_db := (ap_db demo_app)\<lparr>db_sessions :=
     [\<lparr> se_user = 1, se_hash = hash_token demo_crypto ''k'', se_created = 0, se_expires = 5000 \<rparr>]\<rparr>\<rparr>"

lemma relay_expiry_agrees_witness:
  "\<exists>l s' e. ice_servers demo_turn_api (device_token_resolver demo_turn_api) demo_clock (Some ''Bearer k'') None demo_login
      = (Inr (l, None), s') \<and> length l = 2 \<and> earliest_turn_expiry (map ice_of_entry l) = Some e"
proof -
  have "trim ''k'' = ''k''" by (rule trim_id) (simp_all add: graph_char_def)
  then have "session_user demo_turn_api demo_clock (Some ''Bearer k'') (ap_db demo_login) = Some 1"
    by (simp add: session_user_def bearer_token_def strip_prefix_def nonempty_def user_id_for_session_def demo_login_def
        demo_turn_api_def demo_api_def demo_clock_def)
  note user = this
  obtain creds s2 where c: "turn_creds_for demo_turn_api demo_clock 1 \<lparr> tc_secret = ''s'', tc_host = ''h'', tc_port = 1, tc_ttl = 600 \<rparr> demo_login
      = (creds, s2)" by fastforce
  have cfg: "rc_turn (ae_config demo_turn_api) = Some \<lparr> tc_secret = ''s'', tc_host = ''h'', tc_port = 1, tc_ttl = 600 \<rparr>"
    "rd_allowed (ae_allow_relay demo_turn_api u)" for u
    by (simp_all add: demo_turn_api_def demo_api_def rd_allowed_def)
  have "\<exists>l s'. ice_servers demo_turn_api (device_token_resolver demo_turn_api) demo_clock (Some ''Bearer k'') None demo_login
      = (Inr (l, None), s') \<and> length l = 2"
    unfolding ice_servers_def user option.case prod.case cfg(1) Let_def c by (simp add: cfg(2) del: show_nat.simps)
  then obtain l s' where a: "ice_servers demo_turn_api (device_token_resolver demo_turn_api) demo_clock (Some ''Bearer k'') None demo_login
      = (Inr (l, None), s')" "length l = 2" by blast
  have "ice_cache_ok demo_login" by (simp add: ice_cache_ok_def demo_login_def demo_app_def)
  then have "\<exists>e. earliest_turn_expiry (map ice_of_entry l) = Some e"
    using relay_expiry_agrees [OF _ _ cfg(1) _ cfg(2) a(1)] by (auto simp: demo_clock_def)
  then show ?thesis using a by blast
qed

section \<open>The stored token\<close>

text \<open>A refreshed token outlives the process: when the refresh answers a token, the hook gives it to
  the client whatever happens to the settings file; and on a disk that works, the settings then hold it
  beside everything they held before, and it is the token of the next start, whatever the token file and
  the environment say.\<close>

theorem refreshed_token_survives:
  assumes "crypto_ok cx" "seals cx" "env_ok path e" "paths_ok path" "fst (st_load cx js i path e) = Inr m"
    "json_ok js (m(KEY_TOKEN \<mapsto> new))" "length (to_json js (m(KEY_TOKEN \<mapsto> new))) + 44 \<le> MAX_OFF" "new \<noteq> []"
  shows "(\<forall>e0. fst (refresh_and_persist_token cx js i path (Some new) e0) = Some new)
    \<and> fst (st_load cx js i path (snd (refresh_and_persist_token cx js i path (Some new) e))) = Inr (m(KEY_TOKEN \<mapsto> new))
    \<and> read_token env dir d (Some (m(KEY_TOKEN \<mapsto> new))) = Some new"
proof -
  obtain e1 e2 where e: "st_lock path e = (True, e1)" "st_load cx js i path e1 = (Inr m, e2)" "env_ok path e2"
    using lock_then_load [OF assms(3,4), of cx js i] assms(5) by metis
  obtain e3 blob where s: "st_save cx js i (m(KEY_TOKEN \<mapsto> new)) path e2 = (Inr (), e3)"
    "fst (st_load cx js i path e3) = decrypt cx js i blob" "decrypt cx js i blob = Inr (m(KEY_TOKEN \<mapsto> new))"
    using st_save_blob [OF assms(1,2,6) e(3) assms(4,7), of i] by blast
  have "snd (refresh_and_persist_token cx js i path (Some new) e) = e3"
    using e s(1) by (simp add: refresh_and_persist_token_def st_set_def)
  moreover have "fst (refresh_and_persist_token cx js i path (Some new) e0) = Some new" for e0
    by (simp add: refresh_and_persist_token_def split: prod.split bool.split sum.split)
  moreover have "read_token env dir d (Some (m(KEY_TOKEN \<mapsto> new))) = Some new"
    using assms(8) by (simp add: read_token_def nonempty_setting_def st_get_def)
  ultimately show ?thesis using s by simp
qed

lemma demo_settings_paths: "paths_ok ''/c/settings.enc''"
  by (simp add: paths_ok_def tmp_path_def with_extension_def base_name_def last_segment_def file_stem_def Let_def
      key_env_path_def path_parent_def)

lemma demo_settings_env: "env_ok ''/c/settings.enc'' demo_env"
  using empty_disk_ok by (simp add: env_ok_def demo_env_def rand_ok_def empty_disk_def)

lemma refreshed_token_survives_witness:
  "fst (st_load demo_crypto demo_json demo_identity ''/c/settings.enc''
      (snd (refresh_and_persist_token demo_crypto demo_json demo_identity ''/c/settings.enc'' (Some ''new'') demo_env)))
    = Inr [''token'' \<mapsto> ''new'']"
proof -
  have "fst (st_load demo_crypto demo_json demo_identity ''/c/settings.enc'' demo_env) = Inr (\<lambda>_. None)"
    by (simp add: st_load_view [OF demo_settings_env]) (simp add: demo_env_def empty_disk_def dview_def)
  from refreshed_token_survives [OF demo_crypto_ok demo_seals demo_settings_env demo_settings_paths this, of "''new''"]
  show ?thesis by (simp add: json_ok_def demo_json_def MAX_OFF_def KEY_TOKEN_def)
qed

text \<open>C23: The settings command does what it says: on a disk that works, with an identity that loads, \<open>set\<close>
  and \<open>unset\<close> change that key and no other in what the next command or host reads; an empty key,
  a missing argument, a key that is not there and an unknown subcommand are answered as such and leave the
  stored settings alone.\<close>

theorem settings_command_edits:
  assumes "crypto_ok cx" "seals cx" "env_ok path e1" "paths_ok path" "path = settings_path dir"
    and load: "load_or_create cx (identity_path dir) e = (Inr i, e1)" "fst (st_load cx js i path e1) = Inr m"
    and fits: "\<And>v. v \<in> {Some (args ! 2), None} \<Longrightarrow>
      json_ok js (m(args ! 1 := v)) \<and> length (to_json js (m(args ! 1 := v))) + 44 \<le> MAX_OFF"
    and run: "run_settings_command cx js keys_of dir args e = (reply, e')"
  shows "fst (st_load cx js i path e') =
      Inr (case reply of SetKey k \<Rightarrow> m(k \<mapsto> args ! 2) | UnsetKey k \<Rightarrow> m(k := None) | _ \<Rightarrow> m)
    \<and> (case reply of SetKey k \<Rightarrow> hd args = ''set'' \<and> k = args ! 1 \<and> k \<noteq> []
         | UnsetKey k \<Rightarrow> hd args = ''unset'' \<and> k = args ! 1 \<and> m k \<noteq> None
         | NoSuchKey k \<Rightarrow> hd args = ''unset'' \<and> k = args ! 1 \<and> m k = None
         | Keys ks \<Rightarrow> hd args = ''list'' \<and> ks = keys_of m
         | SettingsUsage \<Rightarrow> hd args = ''set'' \<and> (length args < 3 \<or> args ! 1 = []) \<or> hd args = ''unset'' \<and> length args < 2
         | SettingsFailed _ \<Rightarrow> False
         | UnknownSub w \<Rightarrow> w = hd args \<and> w \<notin> {''set'', ''unset'', ''list''})"
proof -
  obtain e2 e3 where l: "st_lock path e1 = (True, e2)" "st_load cx js i path e2 = (Inr m, e3)" "env_ok path e3"
    "dview (ie_disk e3) path = dview (ie_disk e1) path"
    using lock_then_load [OF assms(3,4), of cx js i] load(2) by metis
  have same: "fst (st_load cx js i path e3) = Inr m"
    using load(2) l(4) by (simp add: st_load_view [OF assms(3)] st_load_view [OF l(3)])
  have saved: "\<exists>e4. st_save cx js i (m(args ! 1 := v)) path e3 = (Inr (), e4)
      \<and> fst (st_load cx js i path e4) = Inr (m(args ! 1 := v))"
    if v: "v \<in> {Some (args ! 2), None}" for v
    using st_save_blob [OF assms(1,2) _ l(3) assms(4), of js "m(args ! 1 := v)" i] fits [OF v] by metis
  note start = load(1) l(1,2) assms(5) [symmetric]
  show ?thesis
  proof (cases "hd args = ''set''")
    case True
    consider k v r where "args = ''set'' # k # v # r" | "\<forall>k v r. args \<noteq> hd args # k # v # r"
      using True by (metis list.sel(1))
    then show ?thesis
    proof cases
      case 1
      obtain e4 where "st_save cx js i (st_set k v m) path e3 = (Inr (), e4)" "fst (st_load cx js i path e4) = Inr (m(k \<mapsto> v))"
        using saved [of "Some v"] 1 by (auto simp: st_set_def)
      then show ?thesis using run same 1 by (auto simp: run_settings_command_def start Let_def split: if_splits)
    next
      case 2
      then have "(reply, e') = (SettingsUsage, e3)"
        using run True by (auto simp: run_settings_command_def start Let_def split: list.splits)
      moreover have "length args < 3"
      proof (rule ccontr)
        assume "\<not> length args < 3"
        then have "args = hd args # args ! 1 # args ! 2 # drop 3 args" by (cases args; cases "tl args"; cases "tl (tl args)") auto
        then show False using 2 by blast
      qed
      ultimately show ?thesis using same True by simp
    qed
  next
    case not_set: False
    show ?thesis
    proof (cases "hd args = ''unset''")
      case True
      consider k r where "args = ''unset'' # k # r" | "\<forall>k r. args \<noteq> hd args # k # r"
        using True by (metis list.sel(1))
      then show ?thesis
      proof cases
        case 1
        obtain e4 where "st_save cx js i (m(k := None)) path e3 = (Inr (), e4)" "fst (st_load cx js i path e4) = Inr (m(k := None))"
          using saved [of None] 1 by auto
        then show ?thesis using run same 1
          by (cases "m k") (auto simp: run_settings_command_def start Let_def st_remove_def)
      next
        case 2
        then have "(reply, e') = (SettingsUsage, e3)"
          using run True by (auto simp: run_settings_command_def start Let_def split: list.splits)
        moreover have "length args < 2"
        proof (rule ccontr)
          assume "\<not> length args < 2"
          then have "args = hd args # args ! 1 # drop 2 args" by (cases args; cases "tl args") auto
          then show False using 2 by blast
        qed
        ultimately show ?thesis using same True by simp
      qed
    next
      case False
      then show ?thesis using run not_set same by (auto simp: run_settings_command_def start Let_def split: if_splits)
    qed
  qed
qed

definition demo_json_cmd :: json where
  "demo_json_cmd = \<lparr> to_json = (\<lambda>m. case m ''fps'' of None \<Rightarrow> [] | Some v \<Rightarrow> 1 # str_bytes v),
     of_json = (\<lambda>b. Some (case b of [] \<Rightarrow> (\<lambda>_. None) | _ # v \<Rightarrow> [''fps'' \<mapsto> bytes_str v])) \<rparr>"

definition demo_seed :: bytes where "demo_seed = replicate 32 7"

text \<open>A machine without a keyring, its key stored as hexadecimal text.\<close>

definition key_disk :: disk where
  "key_disk = empty_disk\<lparr>dk_names := [''/c/identity.key'' \<mapsto> 0],
     dk_data := (\<lambda>_. [])(0 := str_bytes (cx_hex demo_crypto demo_seed)), dk_next := 1\<rparr>"

definition key_env_demo :: id_env where
  "key_env_demo = demo_env\<lparr>ie_disk := key_disk,
     ie_keyring := \<lparr> kr_available = False, kr_entry = None, kr_accepts = False, kr_keeps = False \<rparr>\<rparr>"

lemma key_disk_ok: "disk_ok key_disk" "no_faults key_disk"
proof -
  have "length (cx_hex demo_crypto demo_seed) = 64"
    using crypto_okD(9) [OF demo_crypto_ok] by (simp add: demo_seed_def)
  then show "disk_ok key_disk" by (auto simp: key_disk_def empty_disk_def disk_ok_def MAX_OFF_def)
  show "no_faults key_disk" by (simp add: key_disk_def empty_disk_def no_faults_def)
qed

lemma demo_loads:
  "\<exists>d. load_or_create demo_crypto ''/c/identity.key'' key_env_demo = (Inr \<lparr> id_seed = demo_seed \<rparr>, key_env_demo\<lparr>ie_disk := d\<rparr>)
     \<and> disk_ok d \<and> no_faults d \<and> dom (dk_names d) = {''/c/identity.key'', ''/c/identity.lock''}"
proof -
  let ?d = "snd (d_open_create ''/c/identity.lock'' key_disk)"
  have names: "dk_names ?d = [''/c/identity.key'' \<mapsto> 0, ''/c/identity.lock'' \<mapsto> 1]"
    "dk_data ?d 0 = str_bytes (cx_hex demo_crypto demo_seed)" "no_faults ?d"
    using key_disk_ok(2) by (simp_all add: d_open_create_def key_disk_def empty_disk_def failing_def no_faults_def tick_def)
  have ok: "disk_ok ?d" by (rule disk_ok_open_create [OF key_disk_ok(1)])
  have view: "dview ?d ''/c/identity.key'' = Some (str_bytes (cx_hex demo_crypto demo_seed))" "dview ?d ''/c/key.env'' = None"
    by (simp_all add: dview_def names)
  have len: "length demo_seed = 32" by (simp add: demo_seed_def)
  note h = hex_seed_file [OF demo_crypto_ok len]
  have "load_or_create demo_crypto ''/c/identity.key'' key_env_demo
      = (Inr \<lparr> id_seed = demo_seed \<rparr>, key_env_demo\<lparr>ie_disk := tick (tick ?d)\<rparr>)"
    using slurp_exists [OF names(3) view(1)] h len names(3) view(2)
    by (simp add: load_or_create_def take_lock_def demo_lock key_env_demo_def demo_env_def Let_def
        resolve_wrap_passphrase_def explicit_passphrase_def demo_key_env d_slurp_view
        keyring_get_or_create_def keyring_read_def)
  then show ?thesis using ok names(1,3) by (intro exI [of _ "tick (tick ?d)"]) (auto simp: dom_def)
qed

lemma settings_command_edits_witness:
  "\<exists>e'. run_settings_command demo_crypto demo_json_cmd (\<lambda>m. []) ''/c'' [''set'', ''fps'', ''9''] key_env_demo = (SetKey ''fps'', e')
    \<and> fst (st_load demo_crypto demo_json_cmd \<lparr> id_seed = demo_seed \<rparr> ''/c/settings.enc'' e') = Inr [''fps'' \<mapsto> ''9'']"
proof -
  let ?args = "[''set'', ''fps'', ''9'']" and ?i = "\<lparr> id_seed = demo_seed \<rparr>"
  obtain d where d: "load_or_create demo_crypto ''/c/identity.key'' key_env_demo = (Inr ?i, key_env_demo\<lparr>ie_disk := d\<rparr>)"
    "disk_ok d" "no_faults d" "dom (dk_names d) = {''/c/identity.key'', ''/c/identity.lock''}"
    using demo_loads by blast
  let ?e = "key_env_demo\<lparr>ie_disk := d\<rparr>"
  have absent: "dk_names d p = None" if "p \<noteq> ''/c/identity.key''" "p \<noteq> ''/c/identity.lock''" for p
  proof -
    have "p \<notin> dom (dk_names d)" unfolding d(4) using that by simp
    then show ?thesis by (simp add: domIff)
  qed
  have tmp: "tmp_path ''/c/settings.enc'' pid n = ''/c/settings.tmp.'' @ show_nat pid @ ''.'' @ show_nat n" for pid n
    by (simp add: tmp_path_def with_extension_def base_name_def last_segment_def file_stem_def Let_def)
  have e: "env_ok ''/c/settings.enc'' ?e"
    using d(2,3) by (simp add: env_ok_def tmp absent) (simp add: key_env_demo_def demo_env_def rand_ok_def)
  have m: "fst (st_load demo_crypto demo_json_cmd ?i ''/c/settings.enc'' ?e) = Inr (\<lambda>_. None)"
    by (simp add: st_load_view [OF e] dview_def absent)
  have path: "identity_path ''/c'' = ''/c/identity.key''" "settings_path ''/c'' = ''/c/settings.enc''"
    by (simp_all add: identity_path_def settings_path_def)
  obtain reply e' where run: "run_settings_command demo_crypto demo_json_cmd (\<lambda>m. []) ''/c'' ?args key_env_demo = (reply, e')"
    by fastforce
  have js: "json_ok demo_json_cmd [''fps'' \<mapsto> ''9''] \<and> length (to_json demo_json_cmd [''fps'' \<mapsto> ''9'']) + 44 \<le> MAX_OFF"
    "json_ok demo_json_cmd ((\<lambda>_. None)(''fps'' := None)) \<and> length (to_json demo_json_cmd ((\<lambda>_. None)(''fps'' := None))) + 44 \<le> MAX_OFF"
    by (simp_all add: json_ok_def demo_json_cmd_def MAX_OFF_def fun_upd_idem)
  have fits: "json_ok demo_json_cmd ((\<lambda>_. None)(?args ! 1 := v))
      \<and> length (to_json demo_json_cmd ((\<lambda>_. None)(?args ! 1 := v))) + 44 \<le> MAX_OFF"
    if "v \<in> {Some (?args ! 2), None}" for v
    using that js by auto
  have id: "load_or_create demo_crypto (identity_path ''/c'') key_env_demo = (Inr ?i, ?e)" using d(1) path(1) by simp
  note edits = settings_command_edits [OF demo_crypto_ok demo_seals e demo_settings_paths path(2) [symmetric] id m fits run]
  then show ?thesis using run by (cases reply) simp_all
qed

end
