(* ===== verification/Pairing.thy ===== *)
theory Pairing
  imports Identity "HOL-Library.List_Lexorder"
begin

text \<open>
  Direct device pairing (\<open>crates/session/src/pairing.rs\<close>, \<open>pairing_client.rs\<close>): the QR
  ticket and its binary layout, the key derivation bound to both identity keys, the
  directional confirmation tags, the human-transferable code, and the client's exchange
  over the relay mailbox.  SPAKE2 is a parameter: \<open>pk_start\<close> makes the state and the first
  message from the password and a random seed, \<open>pk_finish\<close> the shared key from the peer's
  message.
\<close>

section \<open>Tickets\<close>

definition TICKET_MAGIC :: bytes where "TICKET_MAGIC = str_bytes ''ORP1''"
definition PAIR_TAG :: bytes where "PAIR_TAG = str_bytes ''rmd-pairing-v1''"

record pairing_ticket =
  identity_pubkey :: bytes
  tk_seed :: bytes
  tk_relay :: string
  expiry_unix :: u64

definition ticket_new :: "bytes \<Rightarrow> string \<Rightarrow> u64 \<Rightarrow> id_env \<Rightarrow> pairing_ticket option \<times> id_env" where
  "ticket_new pubkey relay expiry e =
    (case getrandom 32 e of
       (None, e1) \<Rightarrow> (None, e1)
     | (Some seed, e1) \<Rightarrow>
         (Some \<lparr> identity_pubkey = pubkey, tk_seed = seed, tk_relay = relay, expiry_unix = expiry \<rparr>, e1))"

text \<open>\<open>relay.len() as u16\<close> keeps the low 16 bits of the length.\<close>

definition encode :: "pairing_ticket \<Rightarrow> bytes" where
  "encode t = TICKET_MAGIC @ identity_pubkey t @ tk_seed t @ le_bytes 8 (unat (expiry_unix t))
     @ le_bytes 2 (length (tk_relay t) mod 2 ^ 16) @ str_bytes (tk_relay t)"

datatype ticket_error = NotATicket | Truncated | RelayNotUtf8 | BadHex

definition decode :: "bytes \<Rightarrow> ticket_error + pairing_ticket" where
  "decode bs =
    (let fixed = 4 + 32 + 32 + 8 + 2
     in if \<not> (length bs \<ge> fixed \<and> take 4 bs = TICKET_MAGIC) then Inl NotATicket
        else
          let identity_pubkey = take 32 (drop 4 bs);
              seed = take 32 (drop 36 bs);
              expiry = word_of_nat (le_value (take 8 (drop 68 bs)));
              rlen = le_value (take 2 (drop 76 bs))
          in if \<not> length bs \<ge> 78 + rlen then Inl Truncated
             else (case from_utf8 (take rlen (drop 78 bs)) of
                     None \<Rightarrow> Inl RelayNotUtf8
                   | Some relay \<Rightarrow>
                       Inr \<lparr> identity_pubkey = identity_pubkey, tk_seed = seed, tk_relay = relay,
                             expiry_unix = expiry \<rparr>))"

definition to_code :: "crypto \<Rightarrow> pairing_ticket \<Rightarrow> string" where
  "to_code cx t = cx_hex cx (encode t)"

definition from_code :: "crypto \<Rightarrow> string \<Rightarrow> ticket_error + pairing_ticket" where
  "from_code cx s = (case cx_unhex cx (trim s) of None \<Rightarrow> Inl BadHex | Some b \<Rightarrow> decode b)"

definition is_expired :: "pairing_ticket \<Rightarrow> u64 \<Rightarrow> bool" where
  "is_expired t now_unix \<longleftrightarrow> now_unix > expiry_unix t"

section \<open>Keys and confirmation\<close>

definition kdf :: "crypto \<Rightarrow> bytes \<Rightarrow> bytes \<Rightarrow> bytes \<Rightarrow> bytes" where
  "kdf cx ikm pubkey_a pubkey_b =
    (let keys = sort [pubkey_a, pubkey_b];
         info = keys ! 0 @ keys ! 1
     in cx_hkdf cx (Some PAIR_TAG) ikm info 32)"

definition derive_key_from_seed :: "crypto \<Rightarrow> bytes \<Rightarrow> bytes \<Rightarrow> bytes \<Rightarrow> bytes" where
  "derive_key_from_seed cx seed a b = kdf cx seed a b"

definition confirmation :: "crypto \<Rightarrow> bytes \<Rightarrow> bytes \<Rightarrow> bytes" where
  "confirmation cx key role = cx_hkdf cx (Some (str_bytes ''rmd-pairing-confirm-v2'')) key role 16"

definition initiator :: bytes where "initiator = str_bytes ''initiator''"
definition responder :: bytes where "responder = str_bytes ''responder''"

definition role_labels :: "bytes \<Rightarrow> bytes \<Rightarrow> bytes \<times> bytes" where
  "role_labels our peer = (if our < peer then (initiator, responder) else (responder, initiator))"

definition tags_equal :: "bytes \<Rightarrow> bytes \<Rightarrow> bool" where
  "tags_equal a b = (if length a \<noteq> length b then False else diff_bits a b = 0)"

interpretation tags: ct_equality tags_equal
  by unfold_locales (auto simp: tags_equal_def diff_bits_zero)

section \<open>Pairing codes\<close>

definition CODE_ALPHABET :: string where "CODE_ALPHABET = ''abcdefghjkmnpqrstvwxyz23456789''"

definition generate_pairing_code :: "id_env \<Rightarrow> string option \<times> id_env" where
  "generate_pairing_code e =
    (case getrandom 10 e of
       (None, e1) \<Rightarrow> (None, e1)
     | (Some raw, e1) \<Rightarrow>
         let channel = (unat (raw ! 0) * 256 + unat (raw ! 1)) mod 1000;
             secret = map (\<lambda>b. CODE_ALPHABET ! (unat b mod length CODE_ALPHABET)) (drop 2 raw)
         in (Some (show_nat channel @ ''-'' @ secret), e1))"

definition split_code :: "string \<Rightarrow> (string \<times> string) option" where
  "split_code code =
    (case split_once CHR ''-'' (trim code) of
       None \<Rightarrow> None
     | Some (channel, secret) \<Rightarrow>
         if channel \<noteq> [] \<and> secret \<noteq> [] then Some (channel, secret) else None)"

section \<open>SPAKE2 and the exchange over the mailbox\<close>

record 's spake =
  pk_start :: "string \<Rightarrow> bytes \<Rightarrow> bytes \<Rightarrow> 's \<times> bytes"
  pk_finish :: "'s \<Rightarrow> bytes \<Rightarrow> bytes option"

definition pake_start :: "'s spake \<Rightarrow> string \<Rightarrow> bytes \<Rightarrow> 's \<times> bytes" where
  "pake_start sp code rnd = pk_start sp code PAIR_TAG rnd"

definition pake_finish :: "crypto \<Rightarrow> 's spake \<Rightarrow> 's \<Rightarrow> bytes \<Rightarrow> bytes \<Rightarrow> bytes \<Rightarrow> bytes option" where
  "pake_finish cx sp st peer_msg a b = map_option (\<lambda>key. kdf cx key a b) (pk_finish sp st peer_msg)"

datatype pair_msg = Hello string string string | Confirm string

text \<open>One frame of the mailbox socket: a socket error, a frame that is not text, text that is
  not JSON, or an object seen through the fields the client looks at (\<open>peer\<close>, \<open>payload\<close>,
  where Some None is a payload that is no \<open>PairMsg\<close>, and the presence of \<open>error\<close>).\<close>

datatype relay_frame =
    WsFail
  | NotText
  | NotJson
  | Obj "string option" "pair_msg option option" bool

datatype pair_error =
    BadCode | Socket | Json | PeerLeft | RelayError | SocketClosed | BadPayload | BadHexMsg
  | KeyLength | PakeFailed | ConfirmationFailed

record paired_peer =
  pp_device_id :: string
  pp_public_key :: bytes
  pp_name :: string

fun wait_for_peer :: "relay_frame list \<Rightarrow> pair_error + relay_frame list" where
  "wait_for_peer [] = Inl SocketClosed"
| "wait_for_peer (WsFail # fs) = Inl Socket"
| "wait_for_peer (NotText # fs) = wait_for_peer fs"
| "wait_for_peer (NotJson # fs) = Inl Json"
| "wait_for_peer (Obj peer payload err # fs) =
    (if peer = Some ''joined'' then Inr fs
     else if peer = Some ''left'' then Inl PeerLeft
     else if err then Inl RelayError
     else wait_for_peer fs)"

fun recv :: "relay_frame list \<Rightarrow> pair_error + (pair_msg \<times> relay_frame list)" where
  "recv [] = Inl SocketClosed"
| "recv (WsFail # fs) = Inl Socket"
| "recv (NotText # fs) = recv fs"
| "recv (NotJson # fs) = Inl Json"
| "recv (Obj peer payload err # fs) =
    (case payload of
       Some None \<Rightarrow> Inl BadPayload
     | Some (Some m) \<Rightarrow> Inr (m, fs)
     | None \<Rightarrow> if err then Inl RelayError else recv fs)"

lemma recv_shorter: "recv fs = Inr (m, fs') \<Longrightarrow> length fs' < length fs"
  by (induction fs rule: recv.induct) (fastforce split: option.splits if_splits)+

text \<open>The two receive loops: the first skips tags, the second skips greetings.\<close>

function recv_hello :: "relay_frame list \<Rightarrow> pair_error + (string \<times> string \<times> string \<times> relay_frame list)" where
  "recv_hello fs =
    (case recv fs of
       Inl err \<Rightarrow> Inl err
     | Inr (Hello m pubkey name, fs') \<Rightarrow> Inr (m, pubkey, name, fs')
     | Inr (Confirm _, fs') \<Rightarrow> recv_hello fs')"
  by pat_completeness auto
termination by (relation "measure length") (auto dest: recv_shorter)

function recv_confirm :: "relay_frame list \<Rightarrow> pair_error + (string \<times> relay_frame list)" where
  "recv_confirm fs =
    (case recv fs of
       Inl err \<Rightarrow> Inl err
     | Inr (Confirm tag, fs') \<Rightarrow> Inr (tag, fs')
     | Inr (Hello _ _ _, fs') \<Rightarrow> recv_confirm fs')"
  by pat_completeness auto
termination by (relation "measure length") (auto dest: recv_shorter)

declare recv_hello.simps [simp del] recv_confirm.simps [simp del]

definition pair_url :: "string \<Rightarrow> string \<Rightarrow> string" where
  "pair_url base channel = rev (dropWhile ((=) CHR ''/'') (rev base)) @ ''/pair?code='' @ channel"

text \<open>\<open>pair_pake\<close>: the result and the messages sent, on the frames the socket delivers;
  every send of the socket succeeds.\<close>

definition pair_pake ::
  "crypto \<Rightarrow> 's spake \<Rightarrow> string \<Rightarrow> identity \<Rightarrow> string \<Rightarrow> bytes \<Rightarrow> relay_frame list
   \<Rightarrow> (pair_error + paired_peer) \<times> pair_msg list" where
  "pair_pake cx sp code i name rnd fs =
    (case split_code code of
       None \<Rightarrow> (Inl BadCode, [])
     | Some (channel, secret) \<Rightarrow>
    (case wait_for_peer fs of
       Inl err \<Rightarrow> (Inl err, [])
     | Inr fs1 \<Rightarrow>
         let (exchange, pake_msg) = pake_start sp secret rnd;
             our_pubkey = public_key_bytes cx i;
             hello = Hello (cx_hex cx pake_msg) (cx_hex cx our_pubkey) name
         in (case recv_hello fs1 of
               Inl err \<Rightarrow> (Inl err, [hello])
             | Inr (m, pubkey, peer_name, fs2) \<Rightarrow>
                 (case cx_unhex cx pubkey of
                    None \<Rightarrow> (Inl BadHexMsg, [hello])
                  | Some peer_pubkey \<Rightarrow>
                      if length peer_pubkey \<noteq> 32 then (Inl KeyLength, [hello])
                      else (case cx_unhex cx m of
                              None \<Rightarrow> (Inl BadHexMsg, [hello])
                            | Some peer_msg \<Rightarrow>
                      (case pake_finish cx sp exchange peer_msg our_pubkey peer_pubkey of
                         None \<Rightarrow> (Inl PakeFailed, [hello])
                       | Some key \<Rightarrow>
                           let (our_role, peer_role) = role_labels our_pubkey peer_pubkey;
                               our_tag = confirmation cx key our_role;
                               expected_peer_tag = confirmation cx key peer_role;
                               sent = [hello, Confirm (cx_hex cx our_tag)]
                           in (case recv_confirm fs2 of
                                 Inl err \<Rightarrow> (Inl err, sent)
                               | Inr (tag, fs3) \<Rightarrow>
                                   (case cx_unhex cx tag of
                                      None \<Rightarrow> (Inl BadHexMsg, sent)
                                    | Some peer_tag \<Rightarrow>
                                        if tags_equal peer_tag expected_peer_tag
                                        then (Inr \<lparr> pp_device_id = device_id_from_public_key cx peer_pubkey,
                                                    pp_public_key = peer_pubkey, pp_name = peer_name \<rparr>, sent)
                                        else (Inl ConfirmationFailed, sent)))))))))"

section \<open>Tickets survive the trip\<close>

lemma encode_parts:
  assumes "length (identity_pubkey t) = 32" "length (tk_seed t) = 32"
  shows "take 4 (encode t) = TICKET_MAGIC" "take 32 (drop 4 (encode t)) = identity_pubkey t"
    "take 32 (drop 36 (encode t)) = tk_seed t" "take 8 (drop 68 (encode t)) = le_bytes 8 (unat (expiry_unix t))"
    "take 2 (drop 76 (encode t)) = le_bytes 2 (length (tk_relay t) mod 2 ^ 16)"
    "drop 78 (encode t) = str_bytes (tk_relay t)" "length (encode t) = 78 + length (tk_relay t)"
  using assms by (simp_all add: encode_def TICKET_MAGIC_def)

lemma decode_encode:
  assumes l: "length (identity_pubkey t) = 32" "length (tk_seed t) = 32"
    and u: "utf8_valid (str_bytes (tk_relay t))" and r: "length (tk_relay t) < 2 ^ 16"
  shows "decode (encode t) = Inr t"
proof -
  note p = encode_parts [OF l]
  have e: "word_of_nat (le_value (le_bytes 8 (unat (expiry_unix t)))) = expiry_unix t"
  proof -
    have "unat (expiry_unix t) < 2 ^ LENGTH(64)" by (rule unsigned_less)
    then show ?thesis by (simp add: le_value_le_bytes)
  qed
  have n: "le_value (le_bytes 2 (length (tk_relay t) mod 2 ^ 16)) = length (tk_relay t)"
    using r by (simp add: le_value_le_bytes)
  show ?thesis
    unfolding decode_def Let_def p n e using u by (simp add: from_utf8_def)
qed

text \<open>A pairing ticket survives its binary layout and its hexadecimal code: every ticket
  whose relay locator is shorter than 65536 bytes decodes to itself.\<close>

theorem ticket_roundtrip:
  assumes "crypto_ok cx" "length (identity_pubkey t) = 32" "length (tk_seed t) = 32"
    "utf8_valid (str_bytes (tk_relay t))" "length (tk_relay t) < 2 ^ 16"
  shows "decode (encode t) = Inr t \<and> from_code cx (to_code cx t) = Inr t"
proof -
  have d: "decode (encode t) = Inr t" by (rule decode_encode [OF assms(2-5)])
  have "hex_char c \<Longrightarrow> graph_char c" for c
    by (auto simp: hex_char_def graph_char_def is_digit_def)
  then have "trim (cx_hex cx (encode t)) = cx_hex cx (encode t)"
    using crypto_okD(10) [OF assms(1)] by (blast intro: trim_graph)
  then show ?thesis using d crypto_okD(8) [OF assms(1)] by (simp add: to_code_def from_code_def)
qed

lemma ticket_roundtrip_witness:
  "decode (encode \<lparr> identity_pubkey = replicate 32 1, tk_seed = replicate 32 2, tk_relay = ''wss://r'', expiry_unix = 9 \<rparr>)
     = Inr \<lparr> identity_pubkey = replicate 32 1, tk_seed = replicate 32 2, tk_relay = ''wss://r'', expiry_unix = 9 \<rparr>"
proof -
  have "utf8_valid (str_bytes ''wss://r'')" by code_simp
  then show ?thesis
    using ticket_roundtrip [OF demo_crypto_ok, of "\<lparr> identity_pubkey = replicate 32 1, tk_seed = replicate 32 2, tk_relay = ''wss://r'', expiry_unix = 9 \<rparr>"]
    by simp
qed

text \<open>The length field has 16 bits: a longer locator is cut short without an error.\<close>

lemma long_relay_truncated:
  assumes l: "length (identity_pubkey t) = 32" "length (tk_seed t) = 32" and r: "2 ^ 16 \<le> length (tk_relay t)"
  shows "decode (encode t) \<noteq> Inr t"
proof
  assume d: "decode (encode t) = Inr t"
  note p = encode_parts [OF l]
  have n: "le_value (le_bytes 2 (length (tk_relay t) mod 2 ^ 16)) = length (tk_relay t) mod 2 ^ 16"
    by (simp add: le_value_le_bytes)
  have "from_utf8 (take (length (tk_relay t) mod 2 ^ 16) (str_bytes (tk_relay t))) = Some (tk_relay t)"
    using d unfolding decode_def Let_def p n
    by (auto simp: p split: option.splits if_splits) (metis pairing_ticket.simps(3))
  then have "length (take (length (tk_relay t) mod 2 ^ 16) (str_bytes (tk_relay t))) = length (tk_relay t)"
    by (auto simp: from_utf8_def simp del: length_take split: if_splits dest: arg_cong [of _ _ length])
  moreover have "length (tk_relay t) mod 2 ^ 16 < 2 ^ 16" by simp
  ultimately show False using r by simp
qed

section \<open>Codes\<close>

lemma code_alphabet:
  "n < length CODE_ALPHABET \<Longrightarrow> graph_char (CODE_ALPHABET ! n) \<and> CODE_ALPHABET ! n \<noteq> CHR ''-''"
proof -
  assume "n < length CODE_ALPHABET"
  then have "CODE_ALPHABET ! n \<in> set CODE_ALPHABET" by simp
  moreover have "list_all (\<lambda>c. graph_char c \<and> c \<noteq> CHR ''-'') CODE_ALPHABET"
    by (simp add: CODE_ALPHABET_def graph_char_def)
  ultimately show ?thesis by (auto simp: list_all_iff)
qed

lemma show_nat_graph: "c \<in> set (show_nat n) \<Longrightarrow> graph_char c \<and> c \<noteq> CHR ''-''"
  using show_nat_digits [of n] by (auto simp: list_all_iff is_digit_def graph_char_def)

text \<open>A generated pairing code splits back into its public channel, a number below 1000,
  and its secret of eight symbols, all from the alphabet; nothing of the secret ends up in
  the channel.\<close>

theorem generated_code_splits:
  assumes "ie_rand e (ie_draws e) 10 = Some raw" "length raw = 10"
    and "fst (generate_pairing_code e) = Some code"
  shows "\<exists>ch secret. ch < 1000 \<and> split_code code = Some (show_nat ch, secret)
    \<and> length secret = 8 \<and> set secret \<subseteq> set CODE_ALPHABET
    \<and> secret = map (\<lambda>b. CODE_ALPHABET ! (unat b mod length CODE_ALPHABET)) (drop 2 raw)"
proof -
  let ?ch = "(unat (raw ! 0) * 256 + unat (raw ! 1)) mod 1000"
  let ?s = "map (\<lambda>b. CODE_ALPHABET ! (unat b mod length CODE_ALPHABET)) (drop 2 raw)"
  have ne: "0 < length CODE_ALPHABET" by (simp add: CODE_ALPHABET_def)
  have code: "code = show_nat ?ch @ CHR ''-'' # ?s"
    using assms by (auto simp: generate_pairing_code_def getrandom_def Let_def)
  have in_s: "c \<in> set ?s \<Longrightarrow> c \<in> set CODE_ALPHABET \<and> graph_char c" for c
    using code_alphabet ne by fastforce
  have "graph_char c" if "c \<in> set code" for c
  proof -
    have "graph_char CHR ''-''" by (simp add: graph_char_def)
    moreover have "c \<in> set (show_nat ?ch) \<or> c = CHR ''-'' \<or> c \<in> set ?s"
      using that unfolding code by (simp only: set_append set_simps Un_iff insert_iff)
    ultimately show ?thesis using in_s [of c] show_nat_graph [of c ?ch] by blast
  qed
  then have "trim code = code" by (rule trim_graph)
  moreover have "CHR ''-'' \<notin> set (show_nat ?ch)" using show_nat_graph by blast
  moreover have "length ?s = 8" using assms(2) by simp
  ultimately have "split_code code = Some (show_nat ?ch, ?s)"
    unfolding split_code_def by (simp add: code split_once_append)
  then show ?thesis using in_s assms(2) by (intro exI [of _ ?ch] exI [of _ ?s]) auto
qed

lemma generated_code_splits_witness:
  "\<exists>ch secret. ch < 1000
     \<and> split_code ''1-aaaaaaaa'' = Some (show_nat ch, secret) \<and> length secret = 8"
proof -
  let ?e = "demo_env\<lparr>ie_rand := (\<lambda>k n. Some [0, 1, 0, 0, 0, 0, 0, 0, 0, 0])\<rparr>"
  have s: "show_nat (Suc 0) = ''1''" by code_simp
  have "fst (generate_pairing_code ?e) = Some ''1-aaaaaaaa''"
    by (simp add: generate_pairing_code_def getrandom_def Let_def s CODE_ALPHABET_def)
  then show ?thesis
    using generated_code_splits [of ?e "[0, 1, 0, 0, 0, 0, 0, 0, 0, 0]" "''1-aaaaaaaa''"] by fastforce
qed

section \<open>The exchange\<close>

text \<open>What a successful run of the client has seen: after the join signal, a greeting with the
  peer's key and a tag that is the peer-role confirmation of the key it derived itself.\<close>

lemma recv_mem: "recv fs = Inr (m, fs') \<Longrightarrow> \<exists>p e. Obj p (Some (Some m)) e \<in> set fs \<and> set fs' \<subseteq> set fs"
proof (induction fs rule: recv.induct)
  case (5 p pl e fs)
  then show ?case
    by (cases pl) (auto split: option.splits if_splits)
qed auto

lemma recv_hello_mem:
  "recv_hello fs = Inr (m, k, n, fs') \<Longrightarrow>
    (\<exists>p e. Obj p (Some (Some (Hello m k n))) e \<in> set fs) \<and> set fs' \<subseteq> set fs"
proof (induction fs rule: recv_hello.induct)
  case (1 fs)
  show ?case
  proof (cases "recv fs")
    case (Inr a)
    obtain x gs where a: "a = (x, gs)" by (cases a)
    have r: "recv fs = Inr (x, gs)" using Inr a by simp
    note mem = recv_mem [OF r]
    show ?thesis
    proof (cases x)
      case (Hello m' k' n')
      then show ?thesis using 1(2) mem r by (subst (asm) recv_hello.simps) auto
    next
      case (Confirm t)
      then have "recv_hello gs = Inr (m, k, n, fs')" using 1(2) r by (subst (asm) recv_hello.simps) simp
      from 1(1) [OF r [unfolded Confirm] refl refl this] mem show ?thesis by blast
    qed
  qed (use 1(2) in \<open>subst (asm) recv_hello.simps; simp\<close>)
qed

lemma recv_confirm_mem:
  "recv_confirm fs = Inr (t, fs') \<Longrightarrow> \<exists>p e. Obj p (Some (Some (Confirm t))) e \<in> set fs"
proof (induction fs rule: recv_confirm.induct)
  case (1 fs)
  show ?case
  proof (cases "recv fs")
    case (Inr a)
    obtain x gs where a: "a = (x, gs)" by (cases a)
    have r: "recv fs = Inr (x, gs)" using Inr a by simp
    note mem = recv_mem [OF r]
    show ?thesis
    proof (cases x)
      case (Hello m' k' n')
      then have "recv_confirm gs = Inr (t, fs')" using 1(2) r by (subst (asm) recv_confirm.simps) simp
      from 1(1) [OF r [unfolded Hello] refl refl this] mem show ?thesis by blast
    next
      case (Confirm t')
      then show ?thesis using 1(2) mem r by (subst (asm) recv_confirm.simps) auto
    qed
  qed (use 1(2) in \<open>subst (asm) recv_confirm.simps; simp\<close>)
qed

lemma wait_for_peer_mem: "wait_for_peer fs = Inr fs' \<Longrightarrow> set fs' \<subseteq> set fs"
  by (induction fs rule: wait_for_peer.induct) (auto split: if_splits)

text \<open>C27: Pairing succeeds only for a peer that holds the key: when the client accepts, the
  frames contained the accepted public key in a greeting and, in a tag, the peer-role
  confirmation of the very key this side derived bound to that public key; the tag this
  side sent itself is a different one, so reflecting it is refused.\<close>

theorem pairing_needs_the_key:
  assumes cx: "crypto_ok cx"
    and roles: "\<And>key. confirmation cx key initiator \<noteq> confirmation cx key responder"
    and run: "pair_pake cx sp code i name rnd fs = (Inr peer, sent)"
  shows "\<exists>ch secret m key pub tag p e p' e'. split_code code = Some (ch, secret)
    \<and> Obj p (Some (Some (Hello m pub (pp_name peer)))) e \<in> set fs \<and> cx_unhex cx pub = Some (pp_public_key peer)
    \<and> Option.bind (cx_unhex cx m) (\<lambda>pm. pake_finish cx sp (fst (pake_start sp secret rnd)) pm
          (public_key_bytes cx i) (pp_public_key peer)) = Some key
    \<and> Obj p' (Some (Some (Confirm tag))) e' \<in> set fs
    \<and> cx_unhex cx tag = Some (confirmation cx key (snd (role_labels (public_key_bytes cx i) (pp_public_key peer))))
    \<and> Confirm tag \<notin> set sent \<and> pp_device_id peer = device_id_from_public_key cx (pp_public_key peer)"
proof -
  obtain ch secret where c: "split_code code = Some (ch, secret)"
    using run by (auto simp: pair_pake_def Let_def split: option.splits)
  obtain fs1 where w: "wait_for_peer fs = Inr fs1"
    using run c by (auto simp: pair_pake_def Let_def split: sum.splits)
  obtain ex pm where s: "pake_start sp secret rnd = (ex, pm)" by fastforce
  obtain m pub nm fs2 where h: "recv_hello fs1 = Inr (m, pub, nm, fs2)"
    using run c w s by (auto simp: pair_pake_def Let_def split: sum.splits)
  obtain ppk peer_msg key where k: "cx_unhex cx pub = Some ppk" "length ppk = 32" "cx_unhex cx m = Some peer_msg"
    "pake_finish cx sp ex peer_msg (public_key_bytes cx i) ppk = Some key"
    using run c w s h by (auto simp: pair_pake_def Let_def split: option.splits if_splits)
  obtain our pr where r: "role_labels (public_key_bytes cx i) ppk = (our, pr)" by fastforce
  obtain tag fs3 where t: "recv_confirm fs2 = Inr (tag, fs3)"
    using run c w s h k r by (auto simp: pair_pake_def Let_def split: sum.splits)
  have fin: "cx_unhex cx tag = Some (confirmation cx key pr)" "pp_public_key peer = ppk" "pp_name peer = nm"
      "pp_device_id peer = device_id_from_public_key cx ppk"
      "sent = [Hello (cx_hex cx pm) (cx_hex cx (public_key_bytes cx i)) name, Confirm (cx_hex cx (confirmation cx key our))]"
    using run c w s h k r t by (auto simp: pair_pake_def Let_def tags.eq_iff split: option.splits if_splits)
  have "confirmation cx key our \<noteq> confirmation cx key pr"
    using r roles [of key] by (auto simp: role_labels_def split: if_splits)
  then have "tag \<noteq> cx_hex cx (confirmation cx key our)"
    using fin(1) crypto_okD(8) [OF cx] by auto
  then have 1: "Confirm tag \<notin> set sent" using fin(5) by simp
  obtain p e where 2: "Obj p (Some (Some (Hello m pub (pp_name peer)))) e \<in> set fs" "set fs2 \<subseteq> set fs"
    using recv_hello_mem [OF h] wait_for_peer_mem [OF w] fin(3) by blast
  obtain p' e' where 3: "Obj p' (Some (Some (Confirm tag))) e' \<in> set fs"
    using recv_confirm_mem [OF t] 2(2) by blast
  have 4: "Option.bind (cx_unhex cx m) (\<lambda>pm. pake_finish cx sp (fst (pake_start sp secret rnd)) pm
      (public_key_bytes cx i) (pp_public_key peer)) = Some key"
    "cx_unhex cx tag = Some (confirmation cx key (snd (role_labels (public_key_bytes cx i) (pp_public_key peer))))"
    "cx_unhex cx pub = Some (pp_public_key peer)"
    "pp_device_id peer = device_id_from_public_key cx (pp_public_key peer)"
    using k s r fin by simp_all
  show ?thesis using c 2(1) 4(3,1) 3 4(2) 1 4(4) by blast
qed

text \<open>The frames the mailbox delivers in an undisturbed exchange.\<close>

definition joined :: relay_frame where "joined = Obj (Some ''joined'') None False"

definition pay :: "pair_msg \<Rightarrow> relay_frame" where "pay m = Obj None (Some (Some m)) False"

text \<open>Each side first sees what the other sends on the join signal, then what the other
  sends on seeing that.\<close>

definition exchange_with ::
  "(relay_frame list \<Rightarrow> (pair_error + paired_peer) \<times> pair_msg list)
   \<Rightarrow> (relay_frame list \<Rightarrow> (pair_error + paired_peer) \<times> pair_msg list) \<Rightarrow> pair_error + paired_peer" where
  "exchange_with a b = fst (a (joined # map pay (snd (b (joined # map pay (snd (a [joined])))))))"

definition spake_agrees :: "'s spake \<Rightarrow> string \<Rightarrow> bytes \<Rightarrow> bytes \<Rightarrow> bool" where
  "spake_agrees sp secret r1 r2 \<longleftrightarrow>
    (\<exists>k. pk_finish sp (fst (pk_start sp secret PAIR_TAG r1)) (snd (pk_start sp secret PAIR_TAG r2)) = Some k
       \<and> pk_finish sp (fst (pk_start sp secret PAIR_TAG r2)) (snd (pk_start sp secret PAIR_TAG r1)) = Some k)"

lemma kdf_sym: "kdf cx k a b = kdf cx k b a"
  by (auto simp: kdf_def)

lemma role_labels_sym: "a \<noteq> b \<Longrightarrow> role_labels b a = (snd (role_labels a b), fst (role_labels a b))"
  by (auto simp: role_labels_def)

lemma honest_frames:
  "wait_for_peer (joined # fs) = Inr fs"
  "recv_hello (pay (Hello m k n) # fs) = Inr (m, k, n, fs)"
  "recv_confirm (pay (Confirm t) # fs) = Inr (t, fs)"
  "recv_hello [] = Inl SocketClosed" "recv_confirm [] = Inl SocketClosed"
  by (simp_all add: joined_def pay_def recv_hello.simps recv_confirm.simps)

lemma pake_pair:
  assumes "spake_agrees sp secret r1 r2"
  shows "\<exists>k. pake_finish cx sp (fst (pake_start sp secret r1)) (snd (pake_start sp secret r2)) a b = Some k
    \<and> pake_finish cx sp (fst (pake_start sp secret r2)) (snd (pake_start sp secret r1)) b a = Some k"
  using assms by (auto simp: spake_agrees_def pake_finish_def pake_start_def kdf_sym [of cx _ a b])

lemma pair_pake_hello:
  "split_code code = Some (ch, secret) \<Longrightarrow> snd (pair_pake cx sp code i name rnd [joined])
    = [Hello (cx_hex cx (snd (pake_start sp secret rnd))) (cx_hex cx (public_key_bytes cx i)) name]"
  by (simp add: pair_pake_def honest_frames split: prod.splits)

lemma pair_pake_confirm:
  assumes cx: "crypto_ok cx" and c: "split_code code = Some (ch, secret)" and l: "length pk = 32"
    and k: "pake_finish cx sp (fst (pake_start sp secret rnd)) pm (public_key_bytes cx i) pk = Some key"
    and r: "role_labels (public_key_bytes cx i) pk = (our, pr)"
  shows "snd (pair_pake cx sp code i name rnd [joined, pay (Hello (cx_hex cx pm) (cx_hex cx pk) nm)])
      = [Hello (cx_hex cx (snd (pake_start sp secret rnd))) (cx_hex cx (public_key_bytes cx i)) name,
         Confirm (cx_hex cx (confirmation cx key our))]"
    and "fst (pair_pake cx sp code i name rnd [joined, pay (Hello (cx_hex cx pm) (cx_hex cx pk) nm),
        pay (Confirm (cx_hex cx (confirmation cx key pr)))])
      = Inr \<lparr> pp_device_id = device_id_from_public_key cx pk, pp_public_key = pk, pp_name = nm \<rparr>"
proof -
  obtain ex m where s: "pake_start sp secret rnd = (ex, m)" by fastforce
  show "snd (pair_pake cx sp code i name rnd [joined, pay (Hello (cx_hex cx pm) (cx_hex cx pk) nm)])
      = [Hello (cx_hex cx (snd (pake_start sp secret rnd))) (cx_hex cx (public_key_bytes cx i)) name,
         Confirm (cx_hex cx (confirmation cx key our))]"
    using c l k r s crypto_okD(8) [OF cx] by (simp add: pair_pake_def Let_def honest_frames)
  show "fst (pair_pake cx sp code i name rnd [joined, pay (Hello (cx_hex cx pm) (cx_hex cx pk) nm),
        pay (Confirm (cx_hex cx (confirmation cx key pr)))])
      = Inr \<lparr> pp_device_id = device_id_from_public_key cx pk, pp_public_key = pk, pp_name = nm \<rparr>"
    using c l k r s crypto_okD(8) [OF cx] by (simp add: pair_pake_def Let_def honest_frames)
qed

lemma exchange_succeeds:
  assumes cx: "crypto_ok cx" and c: "split_code code = Some (ch, secret)"
    and l: "length (id_seed i) = 32" "length (id_seed j) = 32"
    and ne: "public_key_bytes cx i \<noteq> public_key_bytes cx j"
    and sp: "spake_agrees sp secret r1 r2"
  shows "exchange_with (pair_pake cx sp code i n1 r1) (pair_pake cx sp code j n2 r2)
    = Inr \<lparr> pp_device_id = device_id_from_public_key cx (public_key_bytes cx j),
            pp_public_key = public_key_bytes cx j, pp_name = n2 \<rparr>"
proof -
  let ?pi = "public_key_bytes cx i" let ?pj = "public_key_bytes cx j"
  have lp: "length ?pi = 32" "length ?pj = 32"
    using l crypto_okD(2) [OF cx] by (simp_all add: public_key_bytes_def)
  obtain key where k: "pake_finish cx sp (fst (pake_start sp secret r1)) (snd (pake_start sp secret r2)) ?pi ?pj = Some key"
     "pake_finish cx sp (fst (pake_start sp secret r2)) (snd (pake_start sp secret r1)) ?pj ?pi = Some key"
    using pake_pair [OF sp] by blast
  obtain our pr where r: "role_labels ?pi ?pj = (our, pr)" by fastforce
  have r': "role_labels ?pj ?pi = (pr, our)" using role_labels_sym [OF ne] r by simp
  show ?thesis
    by (simp add: exchange_with_def pair_pake_hello [OF c] pair_pake_confirm [OF cx c lp(1) k(2) r']
        pair_pake_confirm [OF cx c lp(2) k(1) r])
qed

text \<open>C28: An undisturbed exchange pairs both devices: two different identities that type the
  same code each accept the other, with the other's public key, device id and name, because
  both derive one key whatever side they are on and take complementary roles.\<close>

theorem honest_pairing_succeeds:
  assumes "crypto_ok cx" "split_code code = Some (ch, secret)"
    "length (id_seed i) = 32" "length (id_seed j) = 32"
    "public_key_bytes cx i \<noteq> public_key_bytes cx j" "spake_agrees sp secret r1 r2"
  shows "exchange_with (pair_pake cx sp code i n1 r1) (pair_pake cx sp code j n2 r2)
      = Inr \<lparr> pp_device_id = device_id_from_public_key cx (public_key_bytes cx j),
              pp_public_key = public_key_bytes cx j, pp_name = n2 \<rparr>
    \<and> exchange_with (pair_pake cx sp code j n2 r2) (pair_pake cx sp code i n1 r1)
      = Inr \<lparr> pp_device_id = device_id_from_public_key cx (public_key_bytes cx i),
              pp_public_key = public_key_bytes cx i, pp_name = n1 \<rparr>"
proof -
  have "spake_agrees sp secret r2 r1" using assms(6) by (auto simp: spake_agrees_def)
  then show ?thesis using exchange_succeeds assms by metis
qed

text \<open>An instance whose key is the password and both messages in order.\<close>

definition demo_spake :: "(string \<times> bytes) spake" where
  "demo_spake = \<lparr> pk_start = (\<lambda>pw tag rnd. ((pw, rnd), rnd)),
     pk_finish = (\<lambda>(pw, rnd) m. Some (str_bytes pw @ concat (sort [rnd, m]))) \<rparr>"

lemma demo_spake_agrees: "spake_agrees demo_spake s a b"
  by (auto simp: spake_agrees_def demo_spake_def)

lemma honest_pairing_succeeds_witness:
  "exchange_with (pair_pake demo_crypto demo_spake ''7-abc'' \<lparr>id_seed = replicate 32 1\<rparr> ''desk'' [1])
     (pair_pake demo_crypto demo_spake ''7-abc'' \<lparr>id_seed = replicate 32 2\<rparr> ''phone'' [2])
   = Inr \<lparr> pp_device_id = device_id_from_public_key demo_crypto (replicate 32 2),
           pp_public_key = replicate 32 2, pp_name = ''phone'' \<rparr>"
proof -
  have c: "split_code ''7-abc'' = Some (''7'', ''abc'')" by code_simp
  have p: "public_key_bytes demo_crypto \<lparr>id_seed = s\<rparr> = s" for s
    by (simp add: public_key_bytes_def demo_crypto_def)
  have "replicate 32 (1 :: u8) \<noteq> replicate 32 2" by (simp add: numeral_eq_Suc)
  then show ?thesis
    using honest_pairing_succeeds [OF demo_crypto_ok c, of "\<lparr>id_seed = replicate 32 1\<rparr>" "\<lparr>id_seed = replicate 32 2\<rparr>",
        OF _ _ _ demo_spake_agrees] by (simp add: p)
qed

lemma pairing_needs_the_key_witness:
  "\<exists>fs peer sent tag p e. pair_pake demo_crypto demo_spake ''7-abc'' \<lparr>id_seed = replicate 32 1\<rparr> ''desk'' [1] fs = (Inr peer, sent)
     \<and> pp_name peer = ''phone'' \<and> Obj p (Some (Some (Confirm tag))) e \<in> set fs \<and> Confirm tag \<notin> set sent"
proof -
  have c: "split_code ''7-abc'' = Some (''7'', ''abc'')" by code_simp
  have p: "public_key_bytes demo_crypto \<lparr>id_seed = s\<rparr> = s" for s
    by (simp add: public_key_bytes_def demo_crypto_def)
  have "replicate 32 (1 :: u8) \<noteq> replicate 32 2" by (simp add: numeral_eq_Suc)
  then obtain fs peer sent where
    r: "pair_pake demo_crypto demo_spake ''7-abc'' \<lparr>id_seed = replicate 32 1\<rparr> ''desk'' [1] fs = (Inr peer, sent)"
      "pp_name peer = ''phone''"
    using exchange_succeeds [OF demo_crypto_ok c, of "\<lparr>id_seed = replicate 32 1\<rparr>" "\<lparr>id_seed = replicate 32 2\<rparr>",
        OF _ _ _ demo_spake_agrees, of "''desk''" "[1]" "''phone''" "[2]"]
    by (simp add: p exchange_with_def) (metis paired_peer.select_convs(3) prod.collapse)
  have "confirmation demo_crypto key initiator \<noteq> confirmation demo_crypto key responder" for key
    by (simp add: confirmation_def demo_crypto_def fit_def initiator_def responder_def str_bytes_def)
  from pairing_needs_the_key [OF demo_crypto_ok this r(1)] show ?thesis using r by blast
qed

end
