(* ===== verification/RelayRegistry.thy ===== *)
theory RelayRegistry
  imports RelayRules
begin

text \<open>
  The device tables refine a registry: an abstract map from device ids to accounts, on which an
  account claims an id no one has and releases one of its own.  Every run of the rendezvous API is
  the run of that registry on what its requests ask, so what holds of the registry - an id
  changes hands only after its owner released it - holds of the server.
\<close>

section \<open>The registry\<close>

type_synonym registry = "string \<Rightarrow> int option"

datatype registry_event = Claim int string | Release int string

fun registry_step :: "registry_event \<Rightarrow> registry \<Rightarrow> registry" where
  "registry_step (Claim u dev) m = (if m dev = None then m(dev \<mapsto> u) else m)"
| "registry_step (Release u dev) m = (if m dev = Some u then m(dev := None) else m)"

definition registry_run :: "registry_event list \<Rightarrow> registry \<Rightarrow> registry" where
  "registry_run es m = fold registry_step es m"

lemma registry_run_simps [simp]:
  "registry_run [] m = m" "registry_run (es @ fs) m = registry_run fs (registry_run es m)"
  "registry_run (e # es) m = registry_run es (registry_step e m)"
  by (simp_all add: registry_run_def)

lemma registry_keeps_owner:
  assumes "m dev = Some u" "Release u dev \<notin> set es"
  shows "registry_run es m dev = Some u"
  using assms
proof (induction es arbitrary: m)
  case (Cons e es)
  have "registry_step e m dev = Some u" using Cons.prems by (cases e) auto
  then show ?case using Cons.IH [of "registry_step e m"] Cons.prems(2) by simp
qed simp

section \<open>The tables as a registry\<close>

definition owners :: "db \<Rightarrow> registry" where
  "owners d = map_of (map (\<lambda>r. (dv_id r, dv_user r)) (db_devices d))"

text \<open>What a request asks of the registry, given the account it authenticates as.\<close>

fun asks :: "api_env \<Rightarrow> clock \<Rightarrow> api_request \<Rightarrow> app \<Rightarrow> registry_event list" where
  "asks ae ck (RegisterDevice hdr b) s =
     (case fst (register_caller ae ck hdr b s) of Inr u \<Rightarrow> [Claim u (rb_device_id b)] | Inl e \<Rightarrow> [])"
| "asks ae ck (DeleteDevice hdr dev) s = (case fst (authed_user ae ck hdr s) of Inr u \<Rightarrow> [Release u dev] | Inl e \<Rightarrow> [])"
| "asks ae ck req s = []"

fun api_run :: "api_env \<Rightarrow> (clock \<times> api_request) list \<Rightarrow> app \<Rightarrow> registry_event list \<times> app" where
  "api_run ae [] s = ([], s)"
| "api_run ae ((ck, req) # reqs) s =
    (case api_run ae reqs (api_step ae ck req s) of (es, s') \<Rightarrow> (asks ae ck req s @ es, s'))"

lemma owners_cong:
  "map dv_id (db_devices d') = map dv_id (db_devices d) \<Longrightarrow> map dv_user (db_devices d') = map dv_user (db_devices d) \<Longrightarrow> owners d' = owners d"
proof -
  have e: "map (\<lambda>r. (dv_id r, dv_user r)) rs = zip (map dv_id rs) (map dv_user rs)" for rs by (induction rs) simp_all
  show "map dv_id (db_devices d') = map dv_id (db_devices d) \<Longrightarrow> map dv_user (db_devices d') = map dv_user (db_devices d) \<Longrightarrow> owners d' = owners d"
    by (simp add: owners_def e)
qed

lemma owners_devices: "db_devices d' = db_devices d \<Longrightarrow> owners d' = owners d"
  by (simp add: owners_def)

lemma owners_mapped:
  "(\<And>r. dv_id (f r) = dv_id r \<and> dv_user (f r) = dv_user r) \<Longrightarrow> owners (d\<lparr>db_devices := map f (db_devices d)\<rparr>) = owners d"
  by (rule owners_cong) simp_all

lemma owners_touch: "owners (touch now sel d) = owners d"
  unfolding touch_def by (rule owners_mapped) simp

lemma find_assoc: "map_option dv_user (find (\<lambda>r. dv_id r = dev) rs) = map_of (map (\<lambda>r. (dv_id r, dv_user r)) rs) dev"
  by (induction rs) auto

lemma owners_find: "owners d dev = map_option dv_user (find_device dev d)"
  by (simp add: owners_def find_device_def find_assoc)

lemma owners_upsert:
  assumes "upsert_device ck user b d = (r, d')"
  shows "owners d' = registry_step (Claim user (rb_device_id b)) (owners d)"
proof (cases "find_device (rb_device_id b) d")
  case None
  then have "owners d (rb_device_id b) = None" by (simp add: owners_find)
  moreover have "owners d' = (owners d)(rb_device_id b \<mapsto> user)"
    using assms None \<open>owners d (rb_device_id b) = None\<close>
    by (auto simp: upsert_device_def Let_def owners_def fun_eq_iff map_add_def split: option.split)
  ultimately show ?thesis by simp
next
  case (Some x)
  then have "owners d (rb_device_id b) = Some (dv_user x)" by (simp add: owners_find)
  moreover have "owners d' = owners d"
  proof (cases "dv_user x = user")
    case True
    have "d' = d\<lparr>db_devices := map (\<lambda>y. if dv_pk y = dv_pk x
                 then y\<lparr>dv_name := rb_name b, dv_key := rb_key b, dv_role := rb_role b\<rparr> else y) (db_devices d)\<rparr>"
      using assms Some True by (simp add: upsert_device_def)
    then show ?thesis by (simp only:) (rule owners_mapped, simp)
  qed (use assms Some in \<open>simp add: upsert_device_def\<close>)
  ultimately show ?thesis by simp
qed

lemma owners_register:
  "owners (ap_db (snd (register_device ae ck hdr b s))) = registry_run (asks ae ck (RegisterDevice hdr b) s) (owners (ap_db s))"
proof -
  obtain c s1 where c: "register_caller ae ck hdr b s = (c, s1)" by fastforce
  have s1: "ap_db s1 = ap_db s" using caller_db [of ae ck hdr b s] c by simp
  show ?thesis
  proof (cases c)
    case (Inr user)
    obtain r d where u: "upsert_device ck user b (ap_db s1) = (r, d)" by fastforce
    have e: "db_devices (ap_db s2) = db_devices d" if "issue_device_token ae ck pk (s1\<lparr>ap_db := d\<rparr>) = (a, s2)" for pk a s2
      using issue_token_devices [of ae ck pk "s1\<lparr>ap_db := d\<rparr>"] that by simp
    have "db_devices (ap_db (snd (register_device ae ck hdr b s))) = db_devices d"
      using c Inr u e by (auto simp: register_device_def split: sum.split prod.split)
    from owners_devices [OF this] show ?thesis using owners_upsert [OF u] c Inr s1 by simp
  qed (use c s1 in \<open>simp add: register_device_def\<close>)
qed

lemma map_of_without:
  assumes "distinct (map dv_id rs)"
  shows "map_of (map (\<lambda>r. (dv_id r, dv_user r)) (filter (\<lambda>r. \<not> (dv_user r = u \<and> dv_id r = dev)) rs))
    = registry_step (Release u dev) (map_of (map (\<lambda>r. (dv_id r, dv_user r)) rs))"
  using assms
proof (induction rs)
  case (Cons r rs)
  have "map_of (map (\<lambda>r. (dv_id r, dv_user r)) rs) (dv_id r) = None" using Cons.prems by (auto simp: map_of_eq_None_iff)
  then show ?case using Cons by (auto simp: fun_eq_iff)
qed simp

lemma owners_delete:
  assumes "db_ok (ap_db s)"
  shows "owners (ap_db (snd (delete_device ae ck hdr dev s))) = registry_run (asks ae ck (DeleteDevice hdr dev) s) (owners (ap_db s))"
proof -
  obtain c s1 where c: "authed_user ae ck hdr s = (c, s1)" by fastforce
  have s1: "ap_db s1 = ap_db s" using authed_db [of ae ck hdr s] c by simp
  show ?thesis
  proof (cases c)
    case (Inr u)
    let ?ds = "db_devices (ap_db s)"
    let ?kept = "filter (\<lambda>r. \<not> (dv_user r = u \<and> dv_id r = dev)) ?ds"
    have "distinct (map dv_id ?ds)" using assms by (simp add: db_ok_def)
    note w = map_of_without [OF this, of u dev]
    have "db_devices (ap_db (snd (delete_device ae ck hdr dev s))) = ?kept"
    proof (cases "filter (\<lambda>r. dv_user r = u \<and> dv_id r = dev) ?ds = []")
      case True
      then have "?kept = ?ds" by (simp add: filter_empty_conv)
      then show ?thesis using c Inr s1 True by (simp add: delete_device_def)
    qed (use c Inr s1 in \<open>simp add: delete_device_def Let_def\<close>)
    then show ?thesis using c Inr w by (simp add: owners_def)
  qed (use c s1 in \<open>simp add: delete_device_def\<close>)
qed

lemma owners_rename: "owners (ap_db (snd (rename_device ae ck hdr dev name s))) = owners (ap_db s)"
proof -
  obtain c s1 where c: "authed_user ae ck hdr s = (c, s1)" by fastforce
  have s1: "ap_db s1 = ap_db s" using authed_db [of ae ck hdr s] c by simp
  have "owners ((ap_db s)\<lparr>db_devices := map (\<lambda>r. if dv_user r = u \<and> dv_id r = dev then r\<lparr>dv_name := trim name\<rparr> else r) (db_devices (ap_db s))\<rparr>)
    = owners (ap_db s)" for u by (rule owners_mapped) simp
  then show ?thesis using c s1 by (auto simp: rename_device_def split: sum.split)
qed

lemma owners_step:
  assumes "db_ok (ap_db s)"
  shows "owners (ap_db (api_step ae ck req s)) = registry_run (asks ae ck req s) (owners (ap_db s))"
proof (cases req)
  case (RegisterDevice hdr b)
  then show ?thesis using owners_register by simp
next
  case (DeleteDevice hdr dev)
  then show ?thesis using owners_delete [OF assms] by simp
next
  case (IceServers hdr q)
  then show ?thesis using ice_db [of ae ck hdr q s] by (auto simp: owners_touch)
next
  case (WsTicket hdr q)
  then show ?thesis using ticket_db [of ae ck hdr q s] by (auto simp: owners_touch)
next
  case (ResolveToken t)
  then show ?thesis using resolve_db [of ae ck t s] by (auto simp: owners_touch)
next
  case (SetRegistration hdr b)
  then show ?thesis by (simp add: set_registration_def set_setting_def owners_def)
next
  case (RenameDevice hdr dev name)
  then show ?thesis by (simp add: owners_rename)
next
  case (Heartbeat dev)
  then show ?thesis by (simp add: owners_touch touch_last_seen_def)
qed (simp_all add: owners_def register_user_devices login_devices refresh_devices revoke_user_session_def)

lemma api_run_state: "snd (api_run ae reqs s) = fold (\<lambda>(ck, req). api_step ae ck req) reqs s"
  by (induction reqs arbitrary: s) (auto split: prod.split, metis snd_conv)

lemma owners_of_run:
  assumes "db_ok (ap_db s)"
  shows "owners (ap_db (snd (api_run ae reqs s))) = registry_run (fst (api_run ae reqs s)) (owners (ap_db s))"
  using assms
proof (induction reqs arbitrary: s)
  case (Cons r reqs)
  then show ?case by (cases r) (simp add: split_beta owners_step step_ok)
qed simp

text \<open>An id stays with its owner over any run in which the owner did not ask to delete it.\<close>

lemma id_changes_hands_by_release:
  assumes "db_ok (ap_db s)" "owners (ap_db s) dev = Some u" "Release u dev \<notin> set (fst (api_run ae reqs s))"
  shows "owners (ap_db (snd (api_run ae reqs s))) dev = Some u"
  using registry_keeps_owner [of "owners (ap_db s)", OF assms(2,3)] by (simp add: owners_of_run assms(1))

text \<open>C13: The rendezvous API refines the registry of devices: read through the map from device ids to the
  accounts that own them, any run of requests does exactly what the claims and releases in it do
  to the abstract registry, whatever else the requests do.\<close>

theorem api_refines_registry:
  assumes "db_ok (ap_db s)" "api_run ae reqs s = (es, s')"
  shows "s' = fold (\<lambda>(ck, req). api_step ae ck req) reqs s \<and> owners (ap_db s') = registry_run es (owners (ap_db s))"
proof -
  have "es = fst (api_run ae reqs s)" "s' = snd (api_run ae reqs s)" using assms(2) by simp_all
  then show ?thesis using api_run_state owners_of_run [OF assms(1)] by simp
qed

lemma api_refines_registry_witness:
  "owners (ap_db (api_step demo_api demo_clock (RegisterDevice None demo_register) demo_app)) =
    registry_run (asks demo_api demo_clock (RegisterDevice None demo_register) demo_app) (owners (ap_db demo_app))"
proof -
  let ?run = "api_run demo_api [(demo_clock, RegisterDevice None demo_register)] demo_app"
  from api_refines_registry [OF demo_db_ok, of demo_api "[(demo_clock, RegisterDevice None demo_register)]" "fst ?run" "snd ?run"]
  show ?thesis by simp
qed

lemma demo_claims: "asks demo_api demo_clock (RegisterDevice None demo_register) demo_app \<noteq> []"
  by code_simp

end
