(* ===== verification/RzClient.thy ===== *)
theory RzClient
  imports Transport
begin

text \<open>
  The rendezvous signaling client (\<open>crates/session/src/rendezvous.rs\<close>): the state of the
  reconnecting loop \<open>run\<close> and one step for each of its events.  The socket's writes succeed or
  fail as an oracle numbered by the write decides; a failed write, like the end of the
  socket, drops the connection and keeps the rest of the state.  Time is in milliseconds;
  JSON is left out, a text frame is its parsed content or a bad frame.
\<close>

section \<open>State\<close>

datatype rz_payload = Hello | Signal signal_msg

text \<open>What reads from the socket: a parsed text frame, a text that does not parse, any other
  frame, an error, or the end of the stream.\<close>

datatype rz_frame = Inbound string rz_payload | BadText | OtherFrame | ReadError | EndOfStream

record rz =
  rz_viewer :: bool
  rz_token :: string
  rz_peer :: "string option"
  rz_pending :: "signal_msg list"
  rz_last_offer :: "signal_msg option"
  rz_candidates :: "signal_msg list"
  rz_backoff :: nat
  rz_first_fail :: "nat option"
  rz_up :: bool
  rz_received_any :: bool
  rz_last_recv :: nat
  rz_inbound :: "signal_msg list"
  rz_switched :: bool
  rz_written :: "(string \<times> rz_payload) list"
  rz_writes :: nat
  rz_pings :: nat
  rz_ended :: bool
  rz_restarts :: nat

definition WATCHDOG :: nat where "WATCHDOG = 150000"
definition LIVENESS :: nat where "LIVENESS = 90000"

definition rz_start :: "string \<Rightarrow> string option \<Rightarrow> rz" where
  "rz_start token peer = \<lparr> rz_viewer = (peer \<noteq> None), rz_token = token, rz_peer = peer, rz_pending = [],
     rz_last_offer = None, rz_candidates = [], rz_backoff = 1000, rz_first_fail = None, rz_up = False,
     rz_received_any = False, rz_last_recv = 0, rz_inbound = [], rz_switched = False, rz_written = [],
     rz_writes = 0, rz_pings = 0, rz_ended = False, rz_restarts = 0 \<rparr>"

definition rz_url :: "string \<Rightarrow> rz \<Rightarrow> string" where
  "rz_url ws_url s = ws_url @ ''?token='' @ rz_token s"

section \<open>Connecting\<close>

datatype connect_result = ConnOk | Unauthorized "string option" | ConnError | ConnTimeout

text \<open>A connect attempt and its outcome at \<open>now\<close>; \<open>Unauthorized\<close> carries what the token
  refresher returned.  \<open>active\<close> is the session flag the host passes, if any.  The result of a
  watchdog restart is a new process, of which only the count is kept.\<close>

definition connect_step :: "connect_result \<Rightarrow> bool option \<Rightarrow> nat \<Rightarrow> rz \<Rightarrow> rz" where
  "connect_step r active now s =
    (case r of
       ConnOk \<Rightarrow> s\<lparr>rz_first_fail := None, rz_backoff := 1000, rz_up := True, rz_received_any := False, rz_last_recv := now\<rparr>
     | Unauthorized (Some t) \<Rightarrow> s\<lparr>rz_token := t, rz_first_fail := None\<rparr>
     | _ \<Rightarrow>
         let since = (case rz_first_fail s of None \<Rightarrow> now | Some t \<Rightarrow> t);
             s1 = s\<lparr>rz_first_fail := Some since\<rparr>
         in if active = Some False \<and> now - since \<ge> WATCHDOG then s1\<lparr>rz_restarts := Suc (rz_restarts s1)\<rparr>
            else s1\<lparr>rz_backoff := min (rz_backoff s1 * 2) 30000\<rparr>)"

section \<open>The relay loop\<close>

definition rz_close :: "rz \<Rightarrow> rz" where
  "rz_close s = s\<lparr>rz_up := False\<rparr>"

definition rz_write :: "(nat \<Rightarrow> bool) \<Rightarrow> string \<Rightarrow> rz_payload \<Rightarrow> rz \<Rightarrow> bool \<times> rz" where
  "rz_write ok to p s =
    (if ok (rz_writes s) then (True, s\<lparr>rz_writes := Suc (rz_writes s), rz_written := rz_written s @ [(to, p)]\<rparr>)
     else (False, s\<lparr>rz_writes := Suc (rz_writes s)\<rparr>))"

fun rz_write_all :: "(nat \<Rightarrow> bool) \<Rightarrow> string \<Rightarrow> signal_msg list \<Rightarrow> rz \<Rightarrow> bool \<times> rz" where
  "rz_write_all ok to [] s = (True, s)"
| "rz_write_all ok to (m # ms) s =
     (case rz_write ok to (Signal m) s of
        (True, s1) \<Rightarrow> rz_write_all ok to ms s1
      | (False, s1) \<Rightarrow> (False, s1))"

definition or_close :: "bool \<times> rz \<Rightarrow> rz" where
  "or_close r = (if fst r then snd r else rz_close (snd r))"

definition on_announce :: "(nat \<Rightarrow> bool) \<Rightarrow> rz \<Rightarrow> rz" where
  "on_announce ok s =
    (if rz_viewer s \<and> \<not> rz_received_any s then
       (case rz_peer s of Some to \<Rightarrow> or_close (rz_write ok to Hello s) | None \<Rightarrow> s)
     else s)"

definition on_keepalive :: "(nat \<Rightarrow> bool) \<Rightarrow> nat \<Rightarrow> rz \<Rightarrow> rz" where
  "on_keepalive ok now s =
    (if now - rz_last_recv s \<ge> LIVENESS then rz_close s
     else if ok (rz_writes s) then s\<lparr>rz_writes := Suc (rz_writes s), rz_pings := Suc (rz_pings s)\<rparr>
     else rz_close (s\<lparr>rz_writes := Suc (rz_writes s)\<rparr>))"

definition remember :: "signal_msg \<Rightarrow> rz \<Rightarrow> rz" where
  "remember m s =
    (case m of
       Offer j \<Rightarrow> s\<lparr>rz_last_offer := Some m, rz_candidates := []\<rparr>
     | Candidate j \<Rightarrow> s\<lparr>rz_candidates := rz_candidates s @ [m]\<rparr>
     | _ \<Rightarrow> s)"

definition on_outbound :: "(nat \<Rightarrow> bool) \<Rightarrow> signal_msg \<Rightarrow> rz \<Rightarrow> rz" where
  "on_outbound ok m s =
    (let s1 = remember m s
     in case rz_peer s1 of
          Some to \<Rightarrow> or_close (rz_write ok to (Signal m) s1)
        | None \<Rightarrow> s1\<lparr>rz_pending := rz_pending s1 @ [m]\<rparr>)"

text \<open>A frame from the relay.  \<open>gone\<close>: the session has dropped its end of the inbound
  channel.\<close>

definition learn_peer :: "string \<Rightarrow> rz \<Rightarrow> bool \<times> rz" where
  "learn_peer from s =
    (let first_contact = (rz_peer s \<noteq> Some from);
         switched = (\<not> rz_viewer s \<and> first_contact \<and> rz_peer s \<noteq> None)
     in (first_contact, if switched then s\<lparr>rz_last_offer := None, rz_candidates := [], rz_switched := True\<rparr> else s))"

definition rz_deliver :: "(nat \<Rightarrow> bool) \<Rightarrow> bool \<Rightarrow> bool \<Rightarrow> rz_payload \<Rightarrow> rz \<Rightarrow> rz" where
  "rz_deliver ok gone first_contact p s =
    (case p of
       Signal m \<Rightarrow> if gone then s\<lparr>rz_ended := True, rz_up := False\<rparr> else s\<lparr>rz_inbound := rz_inbound s @ [m]\<rparr>
     | Hello \<Rightarrow>
         if first_contact then s
         else (case (rz_peer s, rz_last_offer s) of
                 (Some to, Some offer) \<Rightarrow> or_close (rz_write_all ok to (offer # rz_candidates s) s)
               | _ \<Rightarrow> s))"

definition on_frame :: "(nat \<Rightarrow> bool) \<Rightarrow> bool \<Rightarrow> rz_frame \<Rightarrow> nat \<Rightarrow> rz \<Rightarrow> rz" where
  "on_frame ok gone f now s =
    (case f of
       EndOfStream \<Rightarrow> rz_close s
     | ReadError \<Rightarrow> rz_close (s\<lparr>rz_last_recv := now\<rparr>)
     | OtherFrame \<Rightarrow> s\<lparr>rz_last_recv := now\<rparr>
     | BadText \<Rightarrow> s\<lparr>rz_last_recv := now\<rparr>
     | Inbound from p \<Rightarrow>
         (case learn_peer from (s\<lparr>rz_last_recv := now, rz_received_any := True\<rparr>) of
            (False, s1) \<Rightarrow> rz_deliver ok gone False p s1
          | (True, s1) \<Rightarrow>
              let s2 = s1\<lparr>rz_peer := Some from, rz_pending := []\<rparr>
              in (case rz_write_all ok from (rz_pending s1) s2 of
                    (True, s3) \<Rightarrow> rz_deliver ok gone True p s3
                  | (False, s3) \<Rightarrow> rz_close s3)))"

text \<open>The session took the switch flag.\<close>

definition take_peer_switched :: "rz \<Rightarrow> bool \<times> rz" where
  "take_peer_switched s = (rz_switched s, s\<lparr>rz_switched := False\<rparr>)"

datatype rz_input =
    Connect connect_result "bool option" nat
  | Announce
  | Keepalive nat
  | Outbound signal_msg
  | Frame bool rz_frame nat
  | TakeSwitched
  | SessionGone

text \<open>The loop is connecting or relaying, and stops for good when the session has dropped its
  end of either channel.\<close>

fun rz_step :: "(nat \<Rightarrow> bool) \<Rightarrow> rz_input \<Rightarrow> rz \<Rightarrow> rz" where
  "rz_step ok TakeSwitched s = snd (take_peer_switched s)"
| "rz_step ok SessionGone s = (if rz_up s then s\<lparr>rz_ended := True, rz_up := False\<rparr> else s)"
| "rz_step ok (Connect r active now) s = (if rz_up s \<or> rz_ended s then s else connect_step r active now s)"
| "rz_step ok Announce s = (if rz_up s then on_announce ok s else s)"
| "rz_step ok (Keepalive now) s = (if rz_up s then on_keepalive ok now s else s)"
| "rz_step ok (Outbound m) s = (if rz_up s then on_outbound ok m s else s)"
| "rz_step ok (Frame gone f now) s = (if rz_up s then on_frame ok gone f now s else s)"

section \<open>What a viewer is told\<close>

text \<open>The messages the session has sent since the loop started or the viewer was last
  switched.\<close>

fun rz_history :: "rz_input \<Rightarrow> rz \<Rightarrow> signal_msg list \<Rightarrow> signal_msg list" where
  "rz_history (Outbound m) s h = (if rz_up s then h @ [m] else h)"
| "rz_history (Frame gone (Inbound from p) now) s h =
     (if rz_up s \<and> \<not> rz_viewer s \<and> rz_peer s \<noteq> Some from \<and> rz_peer s \<noteq> None then [] else h)"
| "rz_history _ s h = h"

inductive rz_reach :: "(nat \<Rightarrow> bool) \<Rightarrow> signal_msg list \<Rightarrow> rz \<Rightarrow> bool" for ok where
  start: "rz_reach ok [] (rz_start token peer)"
| step: "rz_reach ok h s \<Longrightarrow> rz_reach ok (rz_history x s h) (rz_step ok x s)"

text \<open>The offer in force and its candidates.\<close>

fun current_offer :: "signal_msg list \<Rightarrow> (signal_msg option \<times> signal_msg list) \<Rightarrow> signal_msg option \<times> signal_msg list" where
  "current_offer [] r = r"
| "current_offer (Offer j # ms) r = current_offer ms (Some (Offer j), [])"
| "current_offer (Candidate j # ms) r = current_offer ms (fst r, snd r @ [Candidate j])"
| "current_offer (_ # ms) r = current_offer ms r"

definition rz_inv :: "signal_msg list \<Rightarrow> rz \<Rightarrow> bool" where
  "rz_inv h s \<longleftrightarrow> (rz_last_offer s, rz_candidates s) = current_offer h (None, [])
     \<and> (rz_peer s = None \<longrightarrow> rz_pending s = h) \<and> (rz_peer s \<noteq> None \<longrightarrow> rz_pending s = [])"

lemma current_offer_append: "current_offer (a @ b) r = current_offer b (current_offer a r)"
  by (induction a r rule: current_offer.induct) auto

lemma current_offer_set:
  "current_offer h r = (o', cs) \<Longrightarrow> set cs \<subseteq> set h \<union> set (snd r) \<and> (\<forall>m. o' = Some m \<longrightarrow> m \<in> set h \<or> fst r = Some m)"
  by (induction h r rule: current_offer.induct) auto

lemma current_offer_suffix:
  assumes "current_offer h (None, []) = (Some m, cs)" "\<And>j. Answer j \<notin> set h"
  shows "\<exists>pre. h = pre @ m # cs"
  using assms
proof (induction h arbitrary: m cs rule: rev_induct)
  case (snoc x h)
  show ?case
  proof (cases x)
    case (Candidate j)
    obtain m' cs' where c: "current_offer h (None, []) = (m', cs')" by fastforce
    then have "m' = Some m" "cs = cs' @ [x]" using snoc.prems(1) Candidate by (auto simp: current_offer_append)
    then show ?thesis using snoc.IH [of m cs'] c snoc.prems(2) by auto
  qed (use snoc.prems in \<open>auto simp: current_offer_append\<close>)
qed simp

text \<open>Writing.\<close>

lemma rz_write_fields:
  assumes "rz_write ok to p s = (b, s1)"
  shows "rz_peer s1 = rz_peer s" "rz_pending s1 = rz_pending s" "rz_last_offer s1 = rz_last_offer s"
    "rz_candidates s1 = rz_candidates s" "rz_viewer s1 = rz_viewer s"
    "rz_written s1 = rz_written s @ (if b then [(to, p)] else [])" "rz_writes s1 = Suc (rz_writes s)" "rz_up s1 = rz_up s"
    "b = ok (rz_writes s)"
  using assms by (auto simp: rz_write_def split: if_splits)

lemma rz_write_all_fields:
  assumes "rz_write_all ok to ms s = (b, s1)"
  shows "rz_peer s1 = rz_peer s \<and> rz_pending s1 = rz_pending s \<and> rz_last_offer s1 = rz_last_offer s
    \<and> rz_candidates s1 = rz_candidates s \<and> rz_viewer s1 = rz_viewer s \<and> rz_up s1 = rz_up s
    \<and> (\<exists>n. rz_written s1 = rz_written s @ map (\<lambda>m. (to, Signal m)) (take n ms))"
  using assms
proof (induction ms arbitrary: s)
  case (Cons m ms)
  obtain b1 s2 where w: "rz_write ok to (Signal m) s = (b1, s2)" by fastforce
  note f = rz_write_fields [OF w]
  show ?case
  proof (cases b1)
    case True
    then have "rz_write_all ok to ms s2 = (b, s1)" using Cons.prems w by simp
    from Cons.IH [OF this] obtain n where "rz_written s1 = rz_written s2 @ map (\<lambda>m. (to, Signal m)) (take n ms)"
        "rz_peer s1 = rz_peer s2" "rz_pending s1 = rz_pending s2" "rz_last_offer s1 = rz_last_offer s2"
        "rz_candidates s1 = rz_candidates s2" "rz_viewer s1 = rz_viewer s2" "rz_up s1 = rz_up s2" by blast
    then show ?thesis using f True by (intro conjI exI [of _ "Suc n"]) simp_all
  next
    case False
    then show ?thesis using Cons.prems w f by (intro conjI exI [of _ 0]) simp_all
  qed
qed (auto intro: exI [of _ 0])

lemma rz_write_all_ok:
  "(\<And>n. rz_writes s \<le> n \<Longrightarrow> ok n) \<Longrightarrow> \<exists>s1. rz_write_all ok to ms s = (True, s1)
     \<and> rz_written s1 = rz_written s @ map (\<lambda>m. (to, Signal m)) ms \<and> rz_writes s \<le> rz_writes s1"
proof (induction ms arbitrary: s)
  case (Cons m ms)
  obtain b1 s2 where w: "rz_write ok to (Signal m) s = (b1, s2)" by fastforce
  note f = rz_write_fields [OF w]
  have b: "b1" using f(9) Cons.prems by simp
  from Cons.IH [of s2] Cons.prems f(7) obtain s1 where "rz_write_all ok to ms s2 = (True, s1)"
      "rz_written s1 = rz_written s2 @ map (\<lambda>m. (to, Signal m)) ms" "rz_writes s2 \<le> rz_writes s1"
    using Suc_leD by (metis (no_types))
  then show ?case using w b f by simp
qed simp

text \<open>A step keeps the bookkeeping, writes only to the peer it then has, and only what the
  session has sent since the last switch.\<close>

definition rz_good :: "signal_msg list \<Rightarrow> rz \<Rightarrow> rz \<Rightarrow> bool" where
  "rz_good h s s' \<longleftrightarrow> rz_inv h s' \<and> rz_viewer s' = rz_viewer s
     \<and> (\<exists>ws. rz_written s' = rz_written s @ ws
          \<and> (\<forall>to p. (to, p) \<in> set ws \<longrightarrow> rz_peer s' = Some to \<and> (\<forall>m. p = Signal m \<longrightarrow> m \<in> set h)))"

lemma rz_inv_set:
  assumes "rz_inv h s"
  shows "set (rz_candidates s) \<subseteq> set h" "rz_last_offer s = Some m \<Longrightarrow> m \<in> set h" "set (rz_pending s) \<subseteq> set h"
proof -
  have c: "current_offer h (None, []) = (rz_last_offer s, rz_candidates s)" using assms by (simp add: rz_inv_def)
  from current_offer_set [OF c] show "set (rz_candidates s) \<subseteq> set h" "rz_last_offer s = Some m \<Longrightarrow> m \<in> set h" by auto
  show "set (rz_pending s) \<subseteq> set h" using assms by (cases "rz_peer s") (auto simp: rz_inv_def)
qed

lemma rz_good_same:
  "rz_inv h s \<Longrightarrow> rz_peer s' = rz_peer s \<Longrightarrow> rz_pending s' = rz_pending s \<Longrightarrow> rz_last_offer s' = rz_last_offer s \<Longrightarrow>
   rz_candidates s' = rz_candidates s \<Longrightarrow> rz_viewer s' = rz_viewer s \<Longrightarrow> rz_written s' = rz_written s \<Longrightarrow> rz_good h s s'"
  by (simp add: rz_good_def rz_inv_def)

lemma rz_good_write:
  assumes "rz_inv h s" "rz_write ok to p s = (b, s1)" "rz_peer s = Some to" "\<And>m. p = Signal m \<Longrightarrow> m \<in> set h"
  shows "rz_good h s (or_close (b, s1))"
  using assms(1,3,4) rz_write_fields [OF assms(2)] by (auto simp: rz_good_def rz_inv_def or_close_def rz_close_def)

lemma rz_good_write_all:
  assumes "rz_inv h s" "rz_write_all ok to ms s = (b, s1)" "rz_peer s = Some to" "set ms \<subseteq> set h"
  shows "rz_good h s s1"
proof -
  obtain n where "rz_written s1 = rz_written s @ map (\<lambda>m. (to, Signal m)) (take n ms)"
      "rz_peer s1 = rz_peer s" "rz_pending s1 = rz_pending s" "rz_last_offer s1 = rz_last_offer s"
      "rz_candidates s1 = rz_candidates s" "rz_viewer s1 = rz_viewer s"
    using rz_write_all_fields [OF assms(2)] by blast
  then show ?thesis using assms(1,3,4) set_take_subset [of n ms] by (auto simp: rz_good_def rz_inv_def)
qed

lemma rz_good_trans: "rz_good h s s1 \<Longrightarrow> rz_good h s1 s2 \<Longrightarrow> rz_peer s2 = rz_peer s1 \<Longrightarrow> rz_good h s s2"
  by (auto simp: rz_good_def)

lemma rz_good_close: "rz_good h s s1 \<Longrightarrow> rz_good h s (rz_close s1)"
  by (simp add: rz_good_def rz_inv_def rz_close_def)

lemma rz_deliver_good:
  assumes "rz_inv h s"
  shows "rz_good h s (rz_deliver ok gone first p s)" "rz_peer (rz_deliver ok gone first p s) = rz_peer s"
proof -
  have "rz_good h s (rz_deliver ok gone first p s) \<and> rz_peer (rz_deliver ok gone first p s) = rz_peer s"
  proof (cases "\<exists>to offer. p = Hello \<and> \<not> first \<and> rz_peer s = Some to \<and> rz_last_offer s = Some offer")
    case True
    then obtain to offer where t: "p = Hello" "\<not> first" "rz_peer s = Some to" "rz_last_offer s = Some offer" by blast
    obtain b s1 where w: "rz_write_all ok to (offer # rz_candidates s) s = (b, s1)" by fastforce
    have e: "rz_deliver ok gone first p s = or_close (b, s1)" unfolding rz_deliver_def using t w by simp
    have "rz_good h s s1" using rz_good_write_all [OF assms w t(3)] rz_inv_set [OF assms] t(4) by simp
    moreover have "rz_peer s1 = rz_peer s" using rz_write_all_fields [OF w] by blast
    ultimately show ?thesis using rz_good_close by (cases b) (simp_all add: e or_close_def rz_close_def)
  next
    case False
    show ?thesis
    proof (cases p)
      case Hello
      then have "rz_deliver ok gone first p s = s"
        using False unfolding rz_deliver_def by (cases "rz_peer s"; cases "rz_last_offer s") auto
      then show ?thesis using assms by (simp add: rz_good_same)
    next
      case (Signal m)
      then show ?thesis using assms by (cases gone) (auto simp: rz_deliver_def intro!: rz_good_same)
    qed
  qed
  then show "rz_good h s (rz_deliver ok gone first p s)" "rz_peer (rz_deliver ok gone first p s) = rz_peer s" by auto
qed

lemma remember_inv:
  assumes "rz_inv h s"
  shows "(rz_last_offer (remember m s), rz_candidates (remember m s)) = current_offer (h @ [m]) (None, [])"
    "rz_peer (remember m s) = rz_peer s" "rz_pending (remember m s) = rz_pending s" "rz_viewer (remember m s) = rz_viewer s"
    "rz_written (remember m s) = rz_written s" "rz_up (remember m s) = rz_up s"
proof -
  have c: "current_offer h (None, []) = (rz_last_offer s, rz_candidates s)" using assms by (simp add: rz_inv_def)
  then show "(rz_last_offer (remember m s), rz_candidates (remember m s)) = current_offer (h @ [m]) (None, [])"
    by (cases m) (simp_all add: remember_def current_offer_append)
  show "rz_peer (remember m s) = rz_peer s" "rz_pending (remember m s) = rz_pending s" "rz_viewer (remember m s) = rz_viewer s"
    "rz_written (remember m s) = rz_written s" "rz_up (remember m s) = rz_up s"
    by (cases m; simp add: remember_def)+
qed

lemma on_outbound_good:
  assumes "rz_inv h s"
  shows "rz_good (h @ [m]) s (on_outbound ok m s)"
proof (cases "rz_peer s")
  case None
  then show ?thesis
    using assms remember_inv [OF assms, of m] unfolding on_outbound_def Let_def by (simp add: rz_good_def rz_inv_def)
next
  case (Some to)
  obtain b s1 where w: "rz_write ok to (Signal m) (remember m s) = (b, s1)" by fastforce
  have "rz_inv (h @ [m]) (remember m s)" using assms Some remember_inv [OF assms, of m] by (simp add: rz_inv_def)
  from rz_good_write [OF this w] have "rz_good (h @ [m]) (remember m s) (or_close (b, s1))"
    using Some remember_inv(2) [OF assms] by simp
  moreover have "on_outbound ok m s = or_close (b, s1)"
    using Some remember_inv(2) [OF assms, of m] w by (simp add: on_outbound_def)
  ultimately show ?thesis using remember_inv(4,5) [OF assms, of m] by (simp add: rz_good_def)
qed

text \<open>The history after an inbound frame from \<open>from\<close>.\<close>

definition history_from :: "string \<Rightarrow> rz \<Rightarrow> signal_msg list \<Rightarrow> signal_msg list" where
  "history_from from s h = (if \<not> rz_viewer s \<and> rz_peer s \<noteq> Some from \<and> rz_peer s \<noteq> None then [] else h)"

lemma on_inbound_good:
  assumes i: "rz_inv h s"
  shows "rz_good (history_from who s h) s (on_frame ok gone (Inbound who p) now s)"
proof -
  let ?h = "history_from who s h"
  define s0 where "s0 = s\<lparr>rz_last_recv := now, rz_received_any := True\<rparr>"
  have i0: "rz_inv h s0" using i by (simp add: s0_def rz_inv_def)
  have same: "rz_peer s0 = rz_peer s" "rz_viewer s0 = rz_viewer s" "rz_written s0 = rz_written s" "rz_pending s0 = rz_pending s"
    by (simp_all add: s0_def)
  show ?thesis
  proof (cases "rz_peer s = Some who")
    case True
    then have h: "?h = h" and l: "learn_peer who s0 = (False, s0)"
      using same by (simp_all add: history_from_def learn_peer_def Let_def)
    have "on_frame ok gone (Inbound who p) now s = rz_deliver ok gone False p s0"
      by (simp add: on_frame_def l flip: s0_def)
    then show ?thesis using rz_deliver_good(1) [OF i0, of ok gone False p] same(2,3) by (simp add: h rz_good_def)
  next
    case False
    define s1 where "s1 = snd (learn_peer who s0)"
    have l: "learn_peer who s0 = (True, s1)" using False same by (simp add: learn_peer_def Let_def s1_def)
    have s1: "rz_pending s1 = rz_pending s" "rz_viewer s1 = rz_viewer s" "rz_written s1 = rz_written s"
        "(rz_last_offer s1, rz_candidates s1) = current_offer ?h (None, [])" "set (rz_pending s1) \<subseteq> set ?h"
      using i i0 False same rz_inv_set(3) [OF i] by (auto simp: s1_def learn_peer_def Let_def history_from_def rz_inv_def)
    define s2 where "s2 = s1\<lparr>rz_peer := Some who, rz_pending := []\<rparr>"
    have i2: "rz_inv ?h s2" using s1 by (simp add: s2_def rz_inv_def)
    obtain b s3 where w: "rz_write_all ok who (rz_pending s1) s2 = (b, s3)" by fastforce
    have g: "rz_good ?h s2 s3" using rz_good_write_all [OF i2 w] s1(5) by (simp add: s2_def)
    have e: "on_frame ok gone (Inbound who p) now s = (if b then rz_deliver ok gone True p s3 else rz_close s3)"
      using l w by (simp add: on_frame_def Let_def flip: s0_def s2_def)
    have "rz_good ?h s2 (on_frame ok gone (Inbound who p) now s)"
    proof (cases b)
      case True
      have "rz_inv ?h s3" using g by (simp add: rz_good_def)
      from rz_deliver_good [OF this, of ok gone True p] show ?thesis using True by (simp add: e rz_good_trans [OF g])
    qed (simp add: e rz_good_close [OF g])
    then show ?thesis using s1(2,3) by (simp add: rz_good_def s2_def)
  qed
qed

lemma rz_step_good:
  assumes i: "rz_inv h s"
  shows "rz_good (rz_history x s h) s (rz_step ok x s)"
proof (cases x)
  case (Connect r active now)
  have "rz_good h s (connect_step r active now s)"
    using i by (auto simp: connect_step_def Let_def rz_good_same split: connect_result.split option.split)
  then show ?thesis using i Connect by (simp add: rz_good_same)
next
  case Announce
  show ?thesis
  proof (cases "rz_up s \<and> rz_viewer s \<and> \<not> rz_received_any s \<and> rz_peer s \<noteq> None")
    case True
    then obtain to where t: "rz_peer s = Some to" by blast
    obtain b s1 where w: "rz_write ok to Hello s = (b, s1)" by fastforce
    show ?thesis using rz_good_write [OF i w t] True t w Announce by (simp add: on_announce_def)
  next
    case False
    then have "rz_step ok x s = s" using Announce by (auto simp: on_announce_def)
    then show ?thesis using i Announce by (simp add: rz_good_same)
  qed
next
  case (Keepalive now)
  then show ?thesis using i by (simp add: on_keepalive_def rz_close_def rz_good_same)
next
  case (Outbound m)
  then show ?thesis using i on_outbound_good [OF i, of m ok] by (simp add: rz_good_same)
next
  case (Frame gone f now)
  have "rz_good h s s" using i by (simp add: rz_good_same)
  then show ?thesis
    using i on_inbound_good [OF i] Frame
    by (cases f) (auto simp: on_frame_def rz_close_def rz_good_same history_from_def simp del: not_None_eq)
next
  case TakeSwitched
  then show ?thesis using i by (simp add: take_peer_switched_def rz_good_same)
next
  case SessionGone
  then show ?thesis using i by (simp add: rz_good_same)
qed

lemma rz_reach_inv: "rz_reach ok h s \<Longrightarrow> rz_inv h s"
proof (induction rule: rz_reach.induct)
  case (start token peer)
  then show ?case by (simp add: rz_start_def rz_inv_def)
next
  case (step h s x)
  then show ?case using rz_step_good by (simp add: rz_good_def)
qed

text \<open>Signaling goes to the current viewer and is never stale: whatever the loop does next,
  every frame it writes is addressed to the peer it then knows and carries a message the
  session has sent since the viewer was last switched.\<close>

theorem signaling_is_current:
  assumes "rz_reach ok h s"
  shows "\<exists>ws. rz_written (rz_step ok x s) = rz_written s @ ws
    \<and> (\<forall>to p. (to, p) \<in> set ws \<longrightarrow> rz_peer (rz_step ok x s) = Some to
          \<and> (\<forall>m. p = Signal m \<longrightarrow> m \<in> set (rz_history x s h)))"
  using rz_step_good [OF rz_reach_inv [OF assms], of x ok] unfolding rz_good_def by blast

text \<open>A viewer that announces itself gets the offer in force with all its candidates, in
  order, whether it is the first one or comes back after any number of lost connections, as
  long as the writes to it go through.\<close>

theorem announcing_viewer_gets_offer:
  assumes "rz_reach ok h s" "rz_up s" "\<not> rz_viewer s" "rz_peer s = None \<or> rz_peer s = Some v"
    and "\<And>n. rz_writes s \<le> n \<Longrightarrow> ok n"
    and "current_offer h (None, []) = (Some offer, cs)" "\<And>j. Answer j \<notin> set h"
  shows "\<exists>pre. rz_written (rz_step ok (Frame False (Inbound v Hello) now) s)
      = rz_written s @ pre @ map (\<lambda>m. (v, Signal m)) (offer # cs)
    \<and> rz_up (rz_step ok (Frame False (Inbound v Hello) now) s)"
proof -
  have i: "rz_inv h s" by (rule rz_reach_inv [OF assms(1)])
  then have c: "rz_last_offer s = Some offer" "rz_candidates s = cs" using assms(6) by (simp_all add: rz_inv_def)
  define s0 where "s0 = s\<lparr>rz_last_recv := now, rz_received_any := True\<rparr>"
  show ?thesis
  proof (cases "rz_peer s = None")
    case True
    obtain pre where p: "h = pre @ offer # cs" using current_offer_suffix [OF assms(6,7)] by blast
    have l: "learn_peer v s0 = (True, s0)" using True by (simp add: learn_peer_def s0_def)
    define s2 where "s2 = s0\<lparr>rz_peer := Some v, rz_pending := []\<rparr>"
    have "rz_pending s0 = h" using i True by (simp add: s0_def rz_inv_def)
    moreover obtain s3 where w: "rz_write_all ok v h s2 = (True, s3)" "rz_written s3 = rz_written s2 @ map (\<lambda>m. (v, Signal m)) h"
      using rz_write_all_ok [of s2 ok v h] assms(5) by (auto simp: s2_def s0_def)
    ultimately have e: "rz_step ok (Frame False (Inbound v Hello) now) s = s3"
      using assms(2) l by (simp add: on_frame_def rz_deliver_def flip: s0_def s2_def)
    have "rz_up s3" using rz_write_all_fields [OF w(1)] assms(2) by (simp add: s2_def s0_def)
    moreover have "rz_written s2 = rz_written s" by (simp add: s2_def s0_def)
    ultimately show ?thesis unfolding e w(2) using p by auto
  next
    case False
    with assms(4) have v: "rz_peer s = Some v" by (elim disjE) simp_all
    then have l: "learn_peer v s0 = (False, s0)" by (simp add: learn_peer_def s0_def)
    obtain s3 where w: "rz_write_all ok v (offer # cs) s0 = (True, s3)" "rz_written s3 = rz_written s0 @ map (\<lambda>m. (v, Signal m)) (offer # cs)"
      using rz_write_all_ok [of s0 ok v "offer # cs"] assms(5) unfolding s0_def by auto
    have s0: "rz_peer s0 = Some v" "rz_last_offer s0 = Some offer" "rz_candidates s0 = cs" "rz_up s0" "rz_written s0 = rz_written s"
      using v c assms(2) by (simp_all add: s0_def)
    have "rz_deliver ok False False Hello s0 = s3"
      unfolding rz_deliver_def s0 using w(1) by (simp add: or_close_def del: rz_write_all.simps)
    then have e: "rz_step ok (Frame False (Inbound v Hello) now) s = s3"
      using assms(2) l by (simp add: on_frame_def flip: s0_def)
    have "rz_up s3" using rz_write_all_fields [OF w(1)] s0(4) by simp
    then show ?thesis unfolding e w(2) using s0(5) by (metis append_Nil)
  qed
qed

section \<open>Examples\<close>

definition demo_rz :: "rz_input list \<Rightarrow> signal_msg list \<times> rz" where
  "demo_rz xs = fold (\<lambda>x (h, s). (rz_history x s h, rz_step (\<lambda>_. True) x s)) xs ([], rz_start ''tok'' None)"

lemma demo_rz_reach: "demo_rz xs = (h, s) \<Longrightarrow> rz_reach (\<lambda>_. True) h s"
proof (induction xs arbitrary: h s rule: rev_induct)
  case Nil
  then show ?case by (auto simp: demo_rz_def intro: rz_reach.start)
next
  case (snoc x xs)
  obtain h0 s0 where p: "demo_rz xs = (h0, s0)" by fastforce
  then show ?case using snoc.prems rz_reach.step [OF snoc.IH [OF p], of x] by (auto simp: demo_rz_def)
qed

text \<open>The host sends its offer, a viewer appears, the socket drops, and a late candidate goes
  out on the next one.\<close>

definition demo_rz_run :: "rz_input list" where
  "demo_rz_run = [Connect ConnOk (Some False) 0, Outbound (Offer ''o''), Frame False (Inbound ''v'' Hello) 5,
     Frame False EndOfStream 9, Connect ConnError (Some False) 9, Connect ConnOk (Some False) 10, Outbound (Candidate ''c'')]"

lemma announcing_viewer_gets_offer_witness:
  "rz_written (rz_step (\<lambda>_. True) (Frame False (Inbound ''v'' Hello) 11) (snd (demo_rz demo_rz_run)))
    = [(''v'', Signal (Offer ''o'')), (''v'', Signal (Candidate ''c'')), (''v'', Signal (Offer ''o'')), (''v'', Signal (Candidate ''c''))]"
proof -
  obtain h s where p: "demo_rz demo_rz_run = (h, s)" by fastforce
  have h: "h = [Offer ''o'', Candidate ''c'']"
  proof -
    have "fst (demo_rz demo_rz_run) = [Offer ''o'', Candidate ''c'']" by code_simp
    then show ?thesis by (simp add: p)
  qed
  have s: "rz_up s" "\<not> rz_viewer s" "rz_peer s = Some ''v''"
      "rz_written s = [(''v'', Signal (Offer ''o'')), (''v'', Signal (Candidate ''c''))]"
  proof -
    have "rz_up (snd (demo_rz demo_rz_run))" "\<not> rz_viewer (snd (demo_rz demo_rz_run))"
        "rz_peer (snd (demo_rz demo_rz_run)) = Some ''v''"
        "rz_written (snd (demo_rz demo_rz_run)) = [(''v'', Signal (Offer ''o'')), (''v'', Signal (Candidate ''c''))]"
      by code_simp+
    then show "rz_up s" "\<not> rz_viewer s" "rz_peer s = Some ''v''"
      "rz_written s = [(''v'', Signal (Offer ''o'')), (''v'', Signal (Candidate ''c''))]" by (simp_all add: p)
  qed
  have c: "current_offer h (None, []) = (Some (Offer ''o''), [Candidate ''c''])" by (simp add: h)
  obtain pre where r: "rz_written (rz_step (\<lambda>_. True) (Frame False (Inbound ''v'' Hello) 11) s)
      = rz_written s @ pre @ map (\<lambda>m. (''v'', Signal m)) [Offer ''o'', Candidate ''c'']"
    using announcing_viewer_gets_offer [OF demo_rz_reach [OF p] s(1,2) _ _ c, of "''v''" 11] s(3) by (auto simp: h)
  have "length (rz_written (rz_step (\<lambda>_. True) (Frame False (Inbound ''v'' Hello) 11) (snd (demo_rz demo_rz_run)))) = 4" by code_simp
  then have "pre = []" using r s(4) by (simp add: p)
  then show ?thesis using r s(4) by (simp add: p)
qed

lemma signaling_is_current_witness:
  "let (h, s) = demo_rz demo_rz_run; s' = rz_step (\<lambda>_. True) (Frame False (Inbound ''w'' Hello) 11) s
   in rz_peer s' = Some ''w'' \<and> rz_history (Frame False (Inbound ''w'' Hello) 11) s h = [] \<and> rz_written s' = rz_written s"
proof -
  obtain h s where p: "demo_rz demo_rz_run = (h, s)" by fastforce
  let ?x = "Frame False (Inbound ''w'' Hello) 11"
  have "rz_history ?x (snd (demo_rz demo_rz_run)) (fst (demo_rz demo_rz_run)) = []" by code_simp
  moreover have "rz_peer (rz_step (\<lambda>_. True) ?x (snd (demo_rz demo_rz_run))) = Some ''w''" by code_simp
  moreover have "list_all (\<lambda>(to, p). case p of Hello \<Rightarrow> False | Signal m \<Rightarrow> True)
      (rz_written (rz_step (\<lambda>_. True) ?x (snd (demo_rz demo_rz_run))))" by code_simp
  ultimately have *: "rz_history ?x s h = []" "rz_peer (rz_step (\<lambda>_. True) ?x s) = Some ''w''"
      "list_all (\<lambda>(to, p). case p of Hello \<Rightarrow> False | Signal m \<Rightarrow> True) (rz_written (rz_step (\<lambda>_. True) ?x s))"
    by (simp_all add: p)
  obtain ws where w: "rz_written (rz_step (\<lambda>_. True) ?x s) = rz_written s @ ws"
      "\<And>to q. (to, q) \<in> set ws \<Longrightarrow> (\<forall>m. q = Signal m \<longrightarrow> m \<in> set (rz_history ?x s h))"
    using signaling_is_current [OF demo_rz_reach [OF p], of ?x] by blast
  have "ws = []"
  proof (cases ws)
    case (Cons a as)
    then show ?thesis using *(1,3) w(1) w(2) [of "fst a" "snd a"] by (auto split: rz_payload.splits prod.splits)
  qed
  then show ?thesis using * w(1) by (simp add: p)
qed

text \<open>The viewer's client believes any sender of its account: a frame from another device
  makes that device the one its answers and candidates go to.\<close>

lemma viewer_retargets:
  "let s = fold (rz_step (\<lambda>_. True)) [Connect ConnOk None 0, Frame False (Inbound ''other'' Hello) 1, Outbound (Answer ''a'')]
       (rz_start ''tok'' (Some ''host''))
   in rz_written s = [(''other'', Signal (Answer ''a''))]"
  by code_simp

text \<open>The watchdog spares a running session, and the viewer's client has none.\<close>

lemma watchdog_spares_session:
  "active \<noteq> Some False \<Longrightarrow> rz_restarts (rz_step ok (Connect r active now) s) = rz_restarts s"
  by (auto simp: connect_step_def Let_def split: connect_result.split option.split)

end
