(* ===== verification/Signaling.thy ===== *)
theory Signaling
  imports RelayAuth
begin

text \<open>
  The rendezvous server's signaling relay (\<open>apps/rendezvous/src/signaling.rs\<close>): the
  per-socket rate limiter, the hub of connected peers and pairing rooms, and the socket
  handlers as steps of the server.  An unbounded channel is a number; \<open>ch_open\<close> says whether
  its receiver lives and \<open>ch_log\<close> is everything sent into it.  JSON is a parameter: \<open>js_frame\<close>
  and \<open>js_pair\<close> parse a client's frame, \<open>js_relayed\<close> and \<open>js_paired\<close> print the server's.
  A relay step runs under the hub's mutex, so the steps interleave whole.
\<close>

section \<open>The rate limiter\<close>

definition RELAY_FRAMES_PER_SEC :: rat where "RELAY_FRAMES_PER_SEC = 16"
definition RELAY_BURST :: rat where "RELAY_BURST = 64"

record limiter =
  lm_tokens :: rat
  lm_last :: nat
  lm_rate :: rat
  lm_burst :: rat

definition with_limits :: "rat \<Rightarrow> rat \<Rightarrow> nat \<Rightarrow> limiter" where
  "with_limits rate burst now = \<lparr> lm_tokens = burst, lm_last = now, lm_rate = rate, lm_burst = burst \<rparr>"

definition limiter_new :: "nat \<Rightarrow> limiter" where
  "limiter_new = with_limits RELAY_FRAMES_PER_SEC RELAY_BURST"

definition allow_at :: "nat \<Rightarrow> limiter \<Rightarrow> bool \<times> limiter" where
  "allow_at now l =
    (let elapsed = now - lm_last l;
         tokens = min (lm_tokens l + of_nat elapsed / 1000 * lm_rate l) (lm_burst l);
         l1 = l\<lparr>lm_last := now, lm_tokens := tokens\<rparr>
     in if tokens \<ge> 1 then (True, l1\<lparr>lm_tokens := tokens - 1\<rparr>) else (False, l1))"

section \<open>Channels\<close>

record chans =
  ch_open :: "nat \<Rightarrow> bool"
  ch_log :: "nat \<Rightarrow> string list"
  ch_next :: nat

definition chan_send :: "nat \<Rightarrow> string \<Rightarrow> chans \<Rightarrow> bool \<times> chans" where
  "chan_send c text ch =
    (if ch_open ch c then (True, ch\<lparr>ch_log := (ch_log ch)(c := ch_log ch c @ [text])\<rparr>) else (False, ch))"

definition chan_close :: "nat \<Rightarrow> chans \<Rightarrow> chans" where
  "chan_close c ch = ch\<lparr>ch_open := (ch_open ch)(c := False)\<rparr>"

definition chan_new :: "chans \<Rightarrow> nat \<times> chans" where
  "chan_new ch = (ch_next ch, ch\<lparr>ch_next := Suc (ch_next ch), ch_open := (ch_open ch)(ch_next ch := True)\<rparr>)"

section \<open>The hub\<close>

record peer =
  p_user :: int
  p_tx :: nat

datatype relay_error = Offline | CrossAccount

record hub =
  hub_peers :: "string \<rightharpoonup> peer"
  hub_rooms :: "string \<rightharpoonup> (nat \<times> nat) list"
  hub_next_member :: nat

definition hub_new :: hub where
  "hub_new = \<lparr> hub_peers = Map.empty, hub_rooms = Map.empty, hub_next_member = 0 \<rparr>"

definition PEER_JOINED :: string where "PEER_JOINED = ''{\"peer\":\"joined\"}''"
definition PEER_LEFT :: string where "PEER_LEFT = ''{\"peer\":\"left\"}''"

definition send_all :: "nat list \<Rightarrow> string \<Rightarrow> chans \<Rightarrow> chans" where
  "send_all cs text ch = fold (\<lambda>c ch. snd (chan_send c text ch)) cs ch"

definition join_room :: "string \<Rightarrow> nat \<Rightarrow> hub \<Rightarrow> chans \<Rightarrow> nat option \<times> hub \<times> chans" where
  "join_room code tx h ch =
    (let members = (case hub_rooms h code of None \<Rightarrow> [] | Some ms \<Rightarrow> ms);
         h1 = h\<lparr>hub_rooms := (hub_rooms h)(code \<mapsto> members)\<rparr>
     in if length members \<ge> 2 then (None, h1, ch)
        else
          let i = hub_next_member h1;
              ch1 = send_all (map snd members) PEER_JOINED ch;
              ch2 = (if members \<noteq> [] then snd (chan_send tx PEER_JOINED ch1) else ch1)
          in (Some i, h1\<lparr>hub_next_member := Suc i, hub_rooms := (hub_rooms h1)(code \<mapsto> members @ [(i, tx)])\<rparr>, ch2))"

definition relay_room :: "string \<Rightarrow> nat \<Rightarrow> string \<Rightarrow> hub \<Rightarrow> chans \<Rightarrow> chans" where
  "relay_room code from_id text h ch =
    (case hub_rooms h code of
       None \<Rightarrow> ch
     | Some members \<Rightarrow> send_all (map snd (filter (\<lambda>(i, tx). i \<noteq> from_id) members)) text ch)"

definition leave_room :: "string \<Rightarrow> nat \<Rightarrow> hub \<Rightarrow> chans \<Rightarrow> hub \<times> chans" where
  "leave_room code i h ch =
    (case hub_rooms h code of
       None \<Rightarrow> (h, ch)
     | Some members \<Rightarrow>
         let rest = filter (\<lambda>(m, tx). m \<noteq> i) members
         in (h\<lparr>hub_rooms := (hub_rooms h)(code := (if rest = [] then None else Some rest))\<rparr>,
             send_all (map snd rest) PEER_LEFT ch))"

definition register :: "string \<Rightarrow> int \<Rightarrow> nat \<Rightarrow> hub \<Rightarrow> hub" where
  "register dev user tx h = h\<lparr>hub_peers := (hub_peers h)(dev \<mapsto> \<lparr> p_user = user, p_tx = tx \<rparr>)\<rparr>"

definition unregister :: "string \<Rightarrow> nat \<Rightarrow> hub \<Rightarrow> hub" where
  "unregister dev tx h =
    (case hub_peers h dev of
       None \<Rightarrow> h
     | Some p \<Rightarrow> if p_tx p = tx then h\<lparr>hub_peers := (hub_peers h)(dev := None)\<rparr> else h)"

definition relay :: "int \<Rightarrow> string \<Rightarrow> string \<Rightarrow> hub \<Rightarrow> chans \<Rightarrow> (relay_error + unit) \<times> chans" where
  "relay from_user to text h ch =
    (case hub_peers h to of
       None \<Rightarrow> (Inl Offline, ch)
     | Some p \<Rightarrow>
         if p_user p \<noteq> from_user then (Inl CrossAccount, ch)
         else (case chan_send (p_tx p) text ch of
                 (True, ch1) \<Rightarrow> (Inr (), ch1)
               | (False, ch1) \<Rightarrow> (Inl Offline, ch1)))"

definition is_online :: "string \<Rightarrow> hub \<Rightarrow> bool" where
  "is_online dev h \<longleftrightarrow> hub_peers h dev \<noteq> None"

section \<open>The sockets\<close>

record 'v relay_env =
  re_crypto :: crypto
  js_frame :: "string \<Rightarrow> (string \<times> 'v) option"
  js_pair :: "string \<Rightarrow> 'v option"
  js_relayed :: "string \<Rightarrow> 'v \<Rightarrow> string"
  js_paired :: "'v \<Rightarrow> string"
  re_resolve :: "string \<Rightarrow> credential option"

record conn =
  cn_id :: string
  cn_user :: int
  cn_limiter :: limiter

record server =
  sv_hub :: hub
  sv_ch :: chans
  sv_conns :: "nat \<rightharpoonup> conn"
  sv_pairs :: "nat \<rightharpoonup> string \<times> nat"
  sv_tickets :: tickets

definition server_start :: server where
  "server_start = \<lparr> sv_hub = hub_new, sv_ch = \<lparr> ch_open = (\<lambda>_. False), ch_log = (\<lambda>_. []), ch_next = 0 \<rparr>,
     sv_conns = Map.empty, sv_pairs = Map.empty, sv_tickets = Map.empty \<rparr>"

text \<open>The credential of an upgrade request, and the tickets left.\<close>

definition ws_credential :: "'v relay_env \<Rightarrow> string option \<Rightarrow> string option \<Rightarrow> nat \<Rightarrow> tickets \<Rightarrow> credential option \<times> tickets" where
  "ws_credential re ticket token now m =
    (case ticket of
       Some t \<Rightarrow> redeem t now m
     | None \<Rightarrow> (case token of Some t \<Rightarrow> (re_resolve re t, m) | None \<Rightarrow> (None, m)))"

text \<open>An accepted upgrade: a fresh channel, registered under the credential.\<close>

definition ws_handler :: "'v relay_env \<Rightarrow> string option \<Rightarrow> string option \<Rightarrow> nat \<Rightarrow> server \<Rightarrow> server" where
  "ws_handler re ticket token now s =
    (case ws_credential re ticket token now (sv_tickets s) of
       (None, m) \<Rightarrow> s\<lparr>sv_tickets := m\<rparr>
     | (Some c, m) \<Rightarrow>
         (case chan_new (sv_ch s) of
            (tx, ch) \<Rightarrow> s\<lparr>sv_tickets := m, sv_ch := ch,
              sv_hub := register (cr_signaling c) (cr_user c) tx (sv_hub s),
              sv_conns := (sv_conns s)(tx \<mapsto> \<lparr> cn_id = cr_signaling c, cn_user = cr_user c,
                                              cn_limiter = limiter_new now \<rparr>)\<rparr>))"

text \<open>A text frame read from a device's socket.\<close>

definition recv_frame :: "'v relay_env \<Rightarrow> nat \<Rightarrow> string \<Rightarrow> nat \<Rightarrow> server \<Rightarrow> server" where
  "recv_frame re tx text now s =
    (case sv_conns s tx of
       None \<Rightarrow> s
     | Some k \<Rightarrow>
         (case allow_at now (cn_limiter k) of
            (ok, l) \<Rightarrow>
              let s1 = s\<lparr>sv_conns := (sv_conns s)(tx \<mapsto> k\<lparr>cn_limiter := l\<rparr>)\<rparr>
              in if \<not> ok then s1
                 else (case js_frame re text of
                         None \<Rightarrow> s1
                       | Some (to, payload) \<Rightarrow>
                           s1\<lparr>sv_ch := snd (relay (cn_user k) to (js_relayed re (cn_id k) payload) (sv_hub s1) (sv_ch s1))\<rparr>)))"

text \<open>The socket's sending half fails first and drops the receiver; then, or on a close, the
  handler unregisters and ends.\<close>

definition send_fails :: "nat \<Rightarrow> server \<Rightarrow> server" where
  "send_fails tx s = s\<lparr>sv_ch := chan_close tx (sv_ch s)\<rparr>"

definition socket_ends :: "nat \<Rightarrow> server \<Rightarrow> server" where
  "socket_ends tx s =
    (case sv_conns s tx of
       None \<Rightarrow> s
     | Some k \<Rightarrow> s\<lparr>sv_hub := unregister (cn_id k) tx (sv_hub s), sv_ch := chan_close tx (sv_ch s),
                   sv_conns := (sv_conns s)(tx := None)\<rparr>)"

definition ws_pair_handler :: "string \<Rightarrow> server \<Rightarrow> server" where
  "ws_pair_handler code s =
    (if code = [] \<or> length code > 128 then s
     else
       (case chan_new (sv_ch s) of
          (tx, ch) \<Rightarrow>
            (case join_room code tx (sv_hub s) ch of
               (None, h, ch1) \<Rightarrow> s\<lparr>sv_hub := h, sv_ch := chan_close tx ch1\<rparr>
             | (Some i, h, ch1) \<Rightarrow> s\<lparr>sv_hub := h, sv_ch := ch1, sv_pairs := (sv_pairs s)(tx \<mapsto> (code, i))\<rparr>)))"

definition recv_pair_frame :: "'v relay_env \<Rightarrow> nat \<Rightarrow> string \<Rightarrow> server \<Rightarrow> server" where
  "recv_pair_frame re tx text s =
    (case (sv_pairs s tx, js_pair re text) of
       (Some (code, i), Some payload) \<Rightarrow>
         s\<lparr>sv_ch := relay_room code i (js_paired re payload) (sv_hub s) (sv_ch s)\<rparr>
     | _ \<Rightarrow> s)"

definition pair_socket_ends :: "nat \<Rightarrow> server \<Rightarrow> server" where
  "pair_socket_ends tx s =
    (case sv_pairs s tx of
       None \<Rightarrow> s
     | Some (code, i) \<Rightarrow>
         (case leave_room code i (sv_hub s) (chan_close tx (sv_ch s)) of
            (h, ch) \<Rightarrow> s\<lparr>sv_hub := h, sv_ch := ch, sv_pairs := (sv_pairs s)(tx := None)\<rparr>))"

datatype server_input =
    Upgrade "string option" "string option" nat
  | Frame nat string nat
  | SendFails nat
  | SocketEnds nat
  | PairUpgrade string
  | PairFrame nat string
  | PairEnds nat
  | IssueTicket bytes credential nat

fun server_step :: "'v relay_env \<Rightarrow> nat \<Rightarrow> server_input \<Rightarrow> server \<Rightarrow> server" where
  "server_step re ttl (Upgrade ticket token now) s = ws_handler re ticket token now s"
| "server_step re ttl (Frame tx text now) s = recv_frame re tx text now s"
| "server_step re ttl (SendFails tx) s = send_fails tx s"
| "server_step re ttl (SocketEnds tx) s = socket_ends tx s"
| "server_step re ttl (PairUpgrade code) s = ws_pair_handler code s"
| "server_step re ttl (PairFrame tx text) s = recv_pair_frame re tx text s"
| "server_step re ttl (PairEnds tx) s = pair_socket_ends tx s"
| "server_step re ttl (IssueTicket r c now) s = s\<lparr>sv_tickets := snd (issue (re_crypto re) ttl r c now (sv_tickets s))\<rparr>"

inductive server_reach :: "'v relay_env \<Rightarrow> nat \<Rightarrow> server \<Rightarrow> bool" for re ttl where
  start: "server_reach re ttl server_start"
| step: "server_reach re ttl s \<Longrightarrow> server_reach re ttl (server_step re ttl x s)"

section \<open>Channels\<close>

lemma chan_send_log: "ch_log (snd (chan_send c text ch)) d = ch_log ch d @ (if d = c \<and> ch_open ch c then [text] else [])"
  by (simp add: chan_send_def)

lemma chan_send_open [simp]: "ch_open (snd (chan_send c text ch)) = ch_open ch"
  and chan_send_next [simp]: "ch_next (snd (chan_send c text ch)) = ch_next ch"
  by (simp_all add: chan_send_def)

lemma chan_close_log [simp]: "ch_log (chan_close c ch) = ch_log ch"
  and chan_close_next [simp]: "ch_next (chan_close c ch) = ch_next ch"
  by (simp_all add: chan_close_def)

lemma send_all_simps [simp]:
  "send_all [] text ch = ch" "send_all (c # cs) text ch = send_all cs text (snd (chan_send c text ch))"
  by (simp_all add: send_all_def)

lemma send_all_open [simp]: "ch_open (send_all cs text ch) = ch_open ch"
  and send_all_next [simp]: "ch_next (send_all cs text ch) = ch_next ch"
  by (induction cs arbitrary: ch) auto

lemma send_all_other: "d \<notin> set cs \<Longrightarrow> ch_log (send_all cs text ch) d = ch_log ch d"
  by (induction cs arbitrary: ch) (auto simp: chan_send_log)

lemma send_all_log: "distinct cs \<Longrightarrow> d \<in> set cs \<Longrightarrow>
    ch_log (send_all cs text ch) d = ch_log ch d @ (if ch_open ch d then [text] else [])"
  by (induction cs arbitrary: ch) (auto simp: chan_send_log send_all_other)

lemma relay_log: "ch_log (snd (relay u to text h ch)) d =
    ch_log ch d @ (case hub_peers h to of
       Some p \<Rightarrow> if p_user p = u \<and> p_tx p = d \<and> ch_open ch d then [text] else []
     | None \<Rightarrow> [])"
  by (auto simp: relay_def chan_send_def split: option.split)

lemma relay_next [simp]: "ch_next (snd (relay u to text h ch)) = ch_next ch"
  by (auto simp: relay_def chan_send_def split: option.split)

section \<open>What the server maintains\<close>

text \<open>The hub knows a peer by a connection that is up and was authenticated as that address of
  that account; a room has at most two members, each a pairing socket that joined it.\<close>

definition peers_ok :: "server \<Rightarrow> bool" where
  "peers_ok s \<longleftrightarrow> (\<forall>dev p. hub_peers (sv_hub s) dev = Some p \<longrightarrow>
     (\<exists>k. sv_conns s (p_tx p) = Some k \<and> cn_id k = dev \<and> cn_user k = p_user p))"

definition rooms_ok :: "server \<Rightarrow> bool" where
  "rooms_ok s \<longleftrightarrow>
     (\<forall>code ms. hub_rooms (sv_hub s) code = Some ms \<longrightarrow> length ms \<le> 2 \<and> distinct (map fst ms)
        \<and> (\<forall>(i, tx)\<in>set ms. sv_pairs s tx = Some (code, i) \<and> i < hub_next_member (sv_hub s)))
   \<and> (\<forall>tx code i. sv_pairs s tx = Some (code, i) \<longrightarrow>
        (\<exists>ms. hub_rooms (sv_hub s) code = Some ms \<and> (i, tx) \<in> set ms))"

definition chans_ok :: "server \<Rightarrow> bool" where
  "chans_ok s \<longleftrightarrow> (\<forall>tx. (sv_conns s tx \<noteq> None \<or> sv_pairs s tx \<noteq> None) \<longrightarrow> tx < ch_next (sv_ch s))
     \<and> (\<forall>tx. sv_conns s tx \<noteq> None \<longrightarrow> sv_pairs s tx = None)"

lemmas server_ok = peers_ok_def rooms_ok_def chans_ok_def

lemma ws_handler_ok:
  assumes "peers_ok s" "rooms_ok s" "chans_ok s"
  shows "peers_ok (ws_handler re ticket token now s) \<and> rooms_ok (ws_handler re ticket token now s)
    \<and> chans_ok (ws_handler re ticket token now s)"
proof (cases "ws_credential re ticket token now (sv_tickets s)")
  case (Pair c m)
  show ?thesis
  proof (cases c)
    case None
    then show ?thesis using assms Pair by (simp add: ws_handler_def server_ok)
  next
    case (Some c')
    let ?n = "ch_next (sv_ch s)"
    have n: "sv_conns s ?n = None" "sv_pairs s ?n = None"
      using assms(3) unfolding chans_ok_def by (metis less_irrefl)+
    have p: "p_tx p \<noteq> ?n" if "hub_peers (sv_hub s) dev = Some p" for dev p
      using assms(1) that n by (force simp: peers_ok_def)
    have e: "ws_handler re ticket token now s = s\<lparr>sv_tickets := m,
        sv_ch := (sv_ch s)\<lparr>ch_next := Suc ?n, ch_open := (ch_open (sv_ch s))(?n := True)\<rparr>,
        sv_hub := register (cr_signaling c') (cr_user c') ?n (sv_hub s),
        sv_conns := (sv_conns s)(?n \<mapsto> \<lparr> cn_id = cr_signaling c', cn_user = cr_user c', cn_limiter = limiter_new now \<rparr>)\<rparr>"
      using Some Pair by (simp add: ws_handler_def chan_new_def)
    have "peers_ok (ws_handler re ticket token now s)"
      using assms(1) p by (simp add: e register_def peers_ok_def)
    moreover have "rooms_ok (ws_handler re ticket token now s)"
      using assms(2) by (simp add: e register_def rooms_ok_def)
    moreover have "chans_ok (ws_handler re ticket token now s)"
      using assms(3) n by (auto simp: e chans_ok_def less_SucI)
    ultimately show ?thesis by blast
  qed
qed

lemma recv_frame_ok:
  assumes "peers_ok s" "rooms_ok s" "chans_ok s"
  shows "peers_ok (recv_frame re tx text now s) \<and> rooms_ok (recv_frame re tx text now s) \<and> chans_ok (recv_frame re tx text now s)"
proof (cases "sv_conns s tx")
  case (Some k)
  obtain ok l where a: "allow_at now (cn_limiter k) = (ok, l)" by fastforce
  have *: "peers_ok (s\<lparr>sv_conns := (sv_conns s)(tx \<mapsto> k\<lparr>cn_limiter := l\<rparr>), sv_ch := ch\<rparr>)
      \<and> rooms_ok (s\<lparr>sv_conns := (sv_conns s)(tx \<mapsto> k\<lparr>cn_limiter := l\<rparr>), sv_ch := ch\<rparr>)
      \<and> chans_ok (s\<lparr>sv_conns := (sv_conns s)(tx \<mapsto> k\<lparr>cn_limiter := l\<rparr>), sv_ch := ch\<rparr>)"
    if "ch_next ch = ch_next (sv_ch s)" for ch
    using assms Some that by (fastforce simp: server_ok)
  show ?thesis
    using * [of "sv_ch s"] * Some a by (simp add: recv_frame_def Let_def split: option.split)
qed (use assms in \<open>simp add: recv_frame_def\<close>)

lemma socket_ends_ok:
  assumes "peers_ok s" "rooms_ok s" "chans_ok s"
  shows "peers_ok (socket_ends tx s) \<and> rooms_ok (socket_ends tx s) \<and> chans_ok (socket_ends tx s)"
proof (cases "sv_conns s tx")
  case (Some k)
  have old: "hub_peers (sv_hub s) dev = Some p" if "hub_peers (unregister (cn_id k) tx (sv_hub s)) dev = Some p" for dev p
    using that by (auto simp: unregister_def split: option.splits if_splits)
  moreover have "p_tx p \<noteq> tx" if "hub_peers (unregister (cn_id k) tx (sv_hub s)) dev = Some p" for dev p
  proof
    assume "p_tx p = tx"
    then have "dev = cn_id k" using assms(1) old [OF that] Some unfolding peers_ok_def by (metis option.inject)
    then show False using that \<open>p_tx p = tx\<close> by (auto simp: unregister_def split: option.splits if_splits)
  qed
  moreover have "hub_rooms (unregister (cn_id k) tx (sv_hub s)) = hub_rooms (sv_hub s)"
      "hub_next_member (unregister (cn_id k) tx (sv_hub s)) = hub_next_member (sv_hub s)"
    by (auto simp: unregister_def split: option.splits)
  ultimately show ?thesis
    using assms Some by (simp add: socket_ends_def server_ok)
qed (use assms in \<open>simp add: socket_ends_def\<close>)

text \<open>The rooms.\<close>

lemma join_room_SomeD:
  assumes "join_room code tx h ch = (Some i, h', ch')" "ms = (case hub_rooms h code of None \<Rightarrow> [] | Some ms \<Rightarrow> ms)"
  shows "length ms < 2 \<and> i = hub_next_member h \<and> ch_next ch' = ch_next ch
    \<and> h' = h\<lparr>hub_next_member := Suc i, hub_rooms := (hub_rooms h)(code \<mapsto> ms @ [(i, tx)])\<rparr>"
proof -
  have "length ms < 2" using assms(1) unfolding join_room_def Let_def assms(2) [symmetric] by (simp split: if_splits)
  then show ?thesis
    using assms(1) unfolding join_room_def Let_def assms(2) [symmetric] by (auto split: if_splits)
qed

lemma join_room_NoneD:
  assumes "join_room code tx h ch = (None, h', ch')"
  shows "h' = h \<and> ch' = ch"
proof -
  have "2 \<le> length (case hub_rooms h code of None \<Rightarrow> [] | Some ms \<Rightarrow> ms)"
    "h' = h\<lparr>hub_rooms := (hub_rooms h)(code \<mapsto> (case hub_rooms h code of None \<Rightarrow> [] | Some ms \<Rightarrow> ms))\<rparr>" "ch' = ch"
    using assms by (auto simp: join_room_def Let_def split: if_splits)
  then show ?thesis by (cases "hub_rooms h code") (auto simp: fun_upd_idem)
qed

lemma ws_pair_handler_ok:
  assumes "peers_ok s" "rooms_ok s" "chans_ok s"
  shows "peers_ok (ws_pair_handler code s) \<and> rooms_ok (ws_pair_handler code s) \<and> chans_ok (ws_pair_handler code s)"
proof (cases "code = [] \<or> length code > 128")
  case False
  let ?n = "ch_next (sv_ch s)"
  obtain ch where c: "chan_new (sv_ch s) = (?n, ch)" "ch_next ch = Suc ?n" by (simp add: chan_new_def)
  obtain r h ch1 where j: "join_room code ?n (sv_hub s) ch = (r, h, ch1)" by (metis prod_cases3)
  have n: "sv_conns s ?n = None" "sv_pairs s ?n = None"
    using assms(3) unfolding chans_ok_def by (metis less_irrefl)+
  show ?thesis
  proof (cases r)
    case None
    then show ?thesis
      using assms False c j join_room_NoneD [OF j [unfolded None]]
      by (simp add: ws_pair_handler_def server_ok less_SucI)
  next
    case (Some i)
    define ms where ms: "ms = (case hub_rooms (sv_hub s) code of None \<Rightarrow> [] | Some ms \<Rightarrow> ms)"
    have m: "ms = (case hub_rooms (sv_hub s) code of None \<Rightarrow> [] | Some ms \<Rightarrow> ms)" "length ms < 2"
        "i = hub_next_member (sv_hub s)" "ch_next ch1 = ch_next ch"
        "h = (sv_hub s)\<lparr>hub_next_member := Suc i, hub_rooms := (hub_rooms (sv_hub s))(code \<mapsto> ms @ [(i, ?n)])\<rparr>"
      using join_room_SomeD [OF j [unfolded Some] ms] ms by simp_all
    have mem: "distinct (map fst ms)" "\<And>i' tx. (i', tx) \<in> set ms \<Longrightarrow> sv_pairs s tx = Some (code, i') \<and> i' < i \<and> tx \<noteq> ?n"
      using assms(2) m(1,3) n unfolding rooms_ok_def by (fastforce split: option.splits)+
    have e: "ws_pair_handler code s = s\<lparr>sv_hub := h, sv_ch := ch1, sv_pairs := (sv_pairs s)(?n \<mapsto> (code, i))\<rparr>"
      using False c j Some by (simp add: ws_pair_handler_def)
    have "peers_ok (ws_pair_handler code s)" using assms(1) by (simp add: e m(5) peers_ok_def)
    moreover have "chans_ok (ws_pair_handler code s)"
      using assms(3) n c m(4) by (auto simp: e chans_ok_def less_SucI)
    moreover have "rooms_ok (ws_pair_handler code s)"
    proof -
      have "\<exists>ms'. hub_rooms h c' = Some ms' \<and> (i', tx) \<in> set ms'" if p: "((sv_pairs s)(?n \<mapsto> (code, i))) tx = Some (c', i')" for tx c' i'
      proof (cases "tx = ?n")
        case True
        then show ?thesis using p m(5) by auto
      next
        case False
        then have "sv_pairs s tx = Some (c', i')" using p by simp
        then obtain ms' where "hub_rooms (sv_hub s) c' = Some ms'" "(i', tx) \<in> set ms'"
          using assms(2) unfolding rooms_ok_def by blast
        then show ?thesis using m(1,5) by (cases "c' = code") auto
      qed
      moreover have "length ms' \<le> 2 \<and> distinct (map fst ms')
          \<and> (\<forall>(i', tx)\<in>set ms'. ((sv_pairs s)(?n \<mapsto> (code, i))) tx = Some (c', i') \<and> i' < hub_next_member h)"
        if "hub_rooms h c' = Some ms'" for c' ms'
      proof (cases "c' = code")
        case True
        then show ?thesis using that m(2,5) mem by fastforce
      next
        case False
        then have "hub_rooms (sv_hub s) c' = Some ms'" using that m(5) by simp
        then show ?thesis using assms(2) n(2) m(3,5) unfolding rooms_ok_def by fastforce
      qed
      ultimately show ?thesis unfolding e rooms_ok_def by simp
    qed
    ultimately show ?thesis by blast
  qed
qed (use assms in \<open>simp add: ws_pair_handler_def\<close>)

lemma pair_socket_ends_ok:
  assumes "peers_ok s" "rooms_ok s" "chans_ok s"
  shows "peers_ok (pair_socket_ends tx s) \<and> rooms_ok (pair_socket_ends tx s) \<and> chans_ok (pair_socket_ends tx s)"
proof (cases "sv_pairs s tx")
  case (Some q)
  obtain code i where q: "q = (code, i)" by fastforce
  obtain ms where m: "hub_rooms (sv_hub s) code = Some ms" "(i, tx) \<in> set ms"
    using assms(2) Some q unfolding rooms_ok_def by blast
  define rest where rest: "rest = filter (\<lambda>(m, tx). m \<noteq> i) ms"
  have e: "pair_socket_ends tx s = s\<lparr>
      sv_hub := (sv_hub s)\<lparr>hub_rooms := (hub_rooms (sv_hub s))(code := (if rest = [] then None else Some rest))\<rparr>,
      sv_ch := send_all (map snd rest) PEER_LEFT (chan_close tx (sv_ch s)), sv_pairs := (sv_pairs s)(tx := None)\<rparr>"
    using Some q m(1) by (simp add: pair_socket_ends_def leave_room_def Let_def rest)
  have ok: "length ms \<le> 2" "distinct (map fst ms)" "\<And>i' tx'. (i', tx') \<in> set ms \<Longrightarrow> sv_pairs s tx' = Some (code, i') \<and> i' < hub_next_member (sv_hub s)"
    using assms(2) m(1) unfolding rooms_ok_def by fastforce+
  have r: "length rest \<le> 2" "distinct (map fst rest)" "\<And>i' tx'. (i', tx') \<in> set rest \<Longrightarrow> (i', tx') \<in> set ms \<and> i' \<noteq> i"
    using ok(1,2) le_trans [OF length_filter_le ok(1)] by (auto simp: rest distinct_map_filter)
  have "rooms_ok (pair_socket_ends tx s)"
  proof -
    have 1: "length ms' \<le> 2 \<and> distinct (map fst ms')
        \<and> (\<forall>(i', tx')\<in>set ms'. ((sv_pairs s)(tx := None)) tx' = Some (c', i') \<and> i' < hub_next_member (sv_hub s))"
      if "((hub_rooms (sv_hub s))(code := (if rest = [] then None else Some rest))) c' = Some ms'" for c' ms'
    proof (cases "c' = code")
      case True
      then have "ms' = rest" using that by (simp split: if_splits)
      then show ?thesis using r ok(3) Some q True by fastforce
    next
      case False
      then show ?thesis using that assms(2) Some q unfolding rooms_ok_def by fastforce
    qed
    have 2: "\<exists>ms'. ((hub_rooms (sv_hub s))(code := (if rest = [] then None else Some rest))) c' = Some ms' \<and> (i', tx') \<in> set ms'"
      if p: "((sv_pairs s)(tx := None)) tx' = Some (c', i')" for tx' c' i'
    proof -
      have t: "tx' \<noteq> tx" "sv_pairs s tx' = Some (c', i')" using p by (auto split: if_splits)
      then obtain ms' where ms': "hub_rooms (sv_hub s) c' = Some ms'" "(i', tx') \<in> set ms'"
        using assms(2) unfolding rooms_ok_def by blast
      show ?thesis
      proof (cases "c' = code")
        case True
        then have in_ms: "(i', tx') \<in> set ms" using ms' m(1) by simp
        have "i' \<noteq> i" using eq_key_imp_eq_value [OF ok(2) _ m(2), of tx'] in_ms t(1) by blast
        then have "(i', tx') \<in> set rest" using in_ms by (simp add: rest)
        then show ?thesis using True by auto
      qed (use ms' in simp)
    qed
    show ?thesis using 1 2 unfolding e rooms_ok_def by simp
  qed
  moreover have "peers_ok (pair_socket_ends tx s)" using assms(1) by (simp add: e peers_ok_def)
  moreover have "chans_ok (pair_socket_ends tx s)" using assms(3) by (auto simp: e chans_ok_def)
  ultimately show ?thesis by blast
qed (use assms in \<open>simp add: pair_socket_ends_def\<close>)

lemma recv_pair_ok:
  assumes "peers_ok s" "rooms_ok s" "chans_ok s"
  shows "peers_ok (recv_pair_frame re tx text s) \<and> rooms_ok (recv_pair_frame re tx text s) \<and> chans_ok (recv_pair_frame re tx text s)"
proof -
  have "ch_next (relay_room code i t h ch) = ch_next ch" for code i t h ch
    by (simp add: relay_room_def split: option.split)
  then show ?thesis
    using assms by (auto simp: recv_pair_frame_def server_ok split: option.split)
qed

lemma server_step_ok:
  assumes "peers_ok s" "rooms_ok s" "chans_ok s"
  shows "peers_ok (server_step re ttl x s) \<and> rooms_ok (server_step re ttl x s) \<and> chans_ok (server_step re ttl x s)"
proof (cases x)
  case (SendFails tx)
  then show ?thesis using assms by (simp add: send_fails_def server_ok)
next
  case (IssueTicket r c now)
  then show ?thesis using assms by (simp add: server_ok)
qed (use assms ws_handler_ok recv_frame_ok socket_ends_ok ws_pair_handler_ok recv_pair_ok pair_socket_ends_ok in simp_all)

lemma server_reach_ok:
  "server_reach re ttl s \<Longrightarrow> peers_ok s \<and> rooms_ok s \<and> chans_ok s"
proof (induction rule: server_reach.induct)
  case start
  then show ?case by (simp add: server_start_def hub_new_def server_ok)
next
  case (step s x)
  then show ?case using server_step_ok by blast
qed

section \<open>Who hears what\<close>

lemma leave_room_log:
  "ch_log (snd (leave_room code i h ch)) c \<noteq> ch_log ch c \<Longrightarrow> \<exists>ms j. hub_rooms h code = Some ms \<and> (j, c) \<in> set ms"
proof -
  assume a: "ch_log (snd (leave_room code i h ch)) c \<noteq> ch_log ch c"
  obtain ms where ms: "hub_rooms h code = Some ms" using a by (auto simp: leave_room_def split: option.splits)
  define cs where "cs = map snd (filter (\<lambda>(m, tx). m \<noteq> i) ms)"
  have "snd (leave_room code i h ch) = send_all cs PEER_LEFT ch"
    by (simp add: leave_room_def ms Let_def cs_def)
  then have "c \<in> set cs" using a send_all_other [of c cs PEER_LEFT ch] by auto
  then show ?thesis using ms by (auto simp: cs_def)
qed

lemma join_room_log:
  "ch_log (snd (snd (join_room code tx h ch))) c \<noteq> ch_log ch c \<Longrightarrow> c = tx \<or> (\<exists>ms j. hub_rooms h code = Some ms \<and> (j, c) \<in> set ms)"
proof -
  assume a: "ch_log (snd (snd (join_room code tx h ch))) c \<noteq> ch_log ch c"
  define ms where "ms = (case hub_rooms h code of None \<Rightarrow> [] | Some ms \<Rightarrow> ms)"
  have "c = tx \<or> c \<in> set (map snd ms)"
    using a send_all_other [of c "map snd ms" PEER_JOINED ch]
    unfolding join_room_def Let_def ms_def [symmetric] by (auto simp: chan_send_log split: if_splits)
  then show ?thesis by (auto simp: ms_def split: option.splits)
qed

lemma relay_room_log:
  "ch_log (relay_room code i msg h ch) c \<noteq> ch_log ch c \<Longrightarrow> \<exists>ms j. hub_rooms h code = Some ms \<and> (j, c) \<in> set ms"
proof -
  assume a: "ch_log (relay_room code i msg h ch) c \<noteq> ch_log ch c"
  obtain ms where ms: "hub_rooms h code = Some ms" using a by (auto simp: relay_room_def split: option.splits)
  define cs where "cs = map snd (filter (\<lambda>(m, tx). m \<noteq> i) ms)"
  have "relay_room code i msg h ch = send_all cs msg ch" by (simp add: relay_room_def ms cs_def)
  then have "c \<in> set cs" using a send_all_other [of c cs msg ch] by auto
  then show ?thesis using ms by (auto simp: cs_def)
qed

text \<open>A step that puts something into a channel: a relay frame, a pairing frame, or a notice to
  a pairing room.\<close>

lemma step_log_cases:
  assumes "ch_log (sv_ch (server_step re ttl x s)) c \<noteq> ch_log (sv_ch s) c"
  obtains (Relay) tx msg now k l to payload p where "x = Frame tx msg now" "sv_conns s tx = Some k"
      "allow_at now (cn_limiter k) = (True, l)" "js_frame re msg = Some (to, payload)" "hub_peers (sv_hub s) to = Some p"
      "p_user p = cn_user k" "p_tx p = c" "ch_open (sv_ch s) c"
      "ch_log (sv_ch (server_step re ttl x s)) c = ch_log (sv_ch s) c @ [js_relayed re (cn_id k) payload]"
    | (Pair) tx msg code i payload where "x = PairFrame tx msg" "sv_pairs s tx = Some (code, i)" "js_pair re msg = Some payload"
      "sv_ch (server_step re ttl x s) = relay_room code i (js_paired re payload) (sv_hub s) (sv_ch s)"
    | (Notice) code ms j where "hub_rooms (sv_hub s) code = Some ms" "(j, c) \<in> set ms" "(\<exists>code. x = PairUpgrade code) \<or> (\<exists>tx. x = PairEnds tx)"
    | (New) code where "x = PairUpgrade code" "c = ch_next (sv_ch s)"
proof (cases x)
  case (Upgrade ticket token now)
  then show thesis using assms by (auto simp: ws_handler_def chan_new_def split: prod.splits option.splits)
next
  case (Frame tx msg now)
  show thesis
  proof (cases "sv_conns s tx")
    case None
    then show thesis using assms Frame by (simp add: recv_frame_def)
  next
    case (Some k)
    obtain ok l where a: "allow_at now (cn_limiter k) = (ok, l)" by fastforce
    show thesis
    proof (cases "ok \<and> js_frame re msg \<noteq> None")
      case True
      then obtain to payload where f: "js_frame re msg = Some (to, payload)" by fastforce
      have e: "sv_ch (server_step re ttl x s) = snd (relay (cn_user k) to (js_relayed re (cn_id k) payload) (sv_hub s) (sv_ch s))"
        using True Frame Some a f by (simp add: recv_frame_def Let_def)
      obtain p where "hub_peers (sv_hub s) to = Some p" "p_user p = cn_user k" "p_tx p = c" "ch_open (sv_ch s) c"
        using assms unfolding e relay_log by (auto split: option.splits if_splits)
      then show thesis using Relay [OF Frame Some _ f] a True by (simp add: e relay_log)
    next
      case False
      then show thesis using assms Frame Some a by (auto simp: recv_frame_def Let_def split: if_splits option.splits)
    qed
  qed
next
  case (PairUpgrade code)
  obtain tx ch where n: "chan_new (sv_ch s) = (tx, ch)" by fastforce
  then have n': "tx = ch_next (sv_ch s)" "ch_log ch = ch_log (sv_ch s)" by (auto simp: chan_new_def)
  obtain r h ch1 where j: "join_room code tx (sv_hub s) ch = (r, h, ch1)" by (metis prod_cases3)
  have "\<not> (code = [] \<or> length code > 128)" using assms PairUpgrade by (auto simp: ws_pair_handler_def)
  then have "ch_log (sv_ch (server_step re ttl x s)) = ch_log ch1"
    using PairUpgrade n j by (cases r) (simp_all add: ws_pair_handler_def)
  then have "ch_log (snd (snd (join_room code (ch_next (sv_ch s)) (sv_hub s) ch))) c \<noteq> ch_log ch c"
    using assms n' j by simp
  from join_room_log [OF this] show thesis
  proof
    assume "\<exists>ms j. hub_rooms (sv_hub s) code = Some ms \<and> (j, c) \<in> set ms"
    then obtain ms j where "hub_rooms (sv_hub s) code = Some ms" "(j, c) \<in> set ms" by blast
    with PairUpgrade show thesis by (intro Notice) auto
  qed (rule New [OF PairUpgrade])
next
  case (PairFrame tx msg)
  then show thesis using assms Pair by (auto simp: recv_pair_frame_def split: option.splits prod.splits)
next
  case (PairEnds tx)
  obtain code i where q: "sv_pairs s tx = Some (code, i)"
    using assms PairEnds by (auto simp: pair_socket_ends_def split: option.splits)
  have "ch_log (snd (leave_room code i (sv_hub s) (chan_close tx (sv_ch s)))) c \<noteq> ch_log (chan_close tx (sv_ch s)) c"
    using assms PairEnds q by (simp add: pair_socket_ends_def split: prod.splits)
  from leave_room_log [OF this] obtain ms j where "hub_rooms (sv_hub s) code = Some ms" "(j, c) \<in> set ms" by blast
  with PairEnds show thesis by (intro Notice) auto
qed (use assms in \<open>auto simp: send_fails_def socket_ends_def split: option.splits\<close>)

text \<open>C11: Signaling stays inside the account: whatever the server does next, what it puts into
  the channel of a device's connection is the payload of a frame addressed to that very
  device, stamped with the address under which the sender's own socket was authenticated,
  and the sender belongs to the same account.\<close>

theorem relay_scoped:
  assumes "server_reach re ttl s" "sv_conns s c = Some k"
    and "ch_log (sv_ch (server_step re ttl x s)) c \<noteq> ch_log (sv_ch s) c"
  shows "\<exists>tx msg now k' payload. x = Frame tx msg now \<and> sv_conns s tx = Some k' \<and> cn_user k' = cn_user k
    \<and> js_frame re msg = Some (cn_id k, payload)
    \<and> ch_log (sv_ch (server_step re ttl x s)) c = ch_log (sv_ch s) c @ [js_relayed re (cn_id k') payload]"
proof -
  have ok: "peers_ok s" "rooms_ok s" "chans_ok s" using server_reach_ok [OF assms(1)] by auto
  have np: "sv_pairs s c = None" using ok(3) assms(2) unfolding chans_ok_def by blast
  have nr: "(j, c) \<notin> set ms" if "hub_rooms (sv_hub s) code = Some ms" for code ms j
    using ok(2) that np unfolding rooms_ok_def by fastforce
  show ?thesis
    using assms(3)
  proof (cases rule: step_log_cases)
    case (Relay tx msg now k' l to payload p)
    then have "cn_id k = to" using ok(1) assms(2) unfolding peers_ok_def by fastforce
    moreover have "cn_user k = p_user p" using ok(1) assms(2) Relay(5,7) unfolding peers_ok_def by fastforce
    ultimately show ?thesis using Relay by auto
  next
    case (Pair tx msg code i payload)
    then show ?thesis using assms(3) relay_room_log nr by metis
  next
    case (New code)
    then show ?thesis using ok(3) assms(2) unfolding chans_ok_def by blast
  qed (use nr in blast)
qed

text \<open>C25: A pairing room is for two: a pairing frame is heard by the other member of the
  sender's room only, unchanged, and no third socket is in that room.\<close>

theorem pairing_room_private:
  assumes "server_reach re ttl s" "ch_log (sv_ch (server_step re ttl (PairFrame tx msg) s)) c \<noteq> ch_log (sv_ch s) c"
  shows "\<exists>code i j payload. sv_pairs s tx = Some (code, i) \<and> sv_pairs s c = Some (code, j) \<and> c \<noteq> tx
    \<and> js_pair re msg = Some payload
    \<and> ch_log (sv_ch (server_step re ttl (PairFrame tx msg) s)) c = ch_log (sv_ch s) c @ [js_paired re payload]
    \<and> (\<forall>d l. sv_pairs s d = Some (code, l) \<longrightarrow> d = tx \<or> d = c)"
proof -
  have ok: "rooms_ok s" using server_reach_ok [OF assms(1)] by auto
  obtain code i payload where p: "sv_pairs s tx = Some (code, i)" "js_pair re msg = Some payload"
    using assms(2) by (auto simp: recv_pair_frame_def split: option.splits)
  have e: "sv_ch (server_step re ttl (PairFrame tx msg) s) = relay_room code i (js_paired re payload) (sv_hub s) (sv_ch s)"
    using p by (simp add: recv_pair_frame_def)
  obtain ms where ms: "hub_rooms (sv_hub s) code = Some ms" "(i, tx) \<in> set ms"
    using ok p(1) unfolding rooms_ok_def by blast
  have m: "length ms \<le> 2" "distinct (map fst ms)" "\<And>j d. (j, d) \<in> set ms \<Longrightarrow> sv_pairs s d = Some (code, j)"
    using ok ms(1) unfolding rooms_ok_def by fastforce+
  define others where "others = map snd (filter (\<lambda>(j, d). j \<noteq> i) ms)"
  have r: "ch_log (sv_ch (server_step re ttl (PairFrame tx msg) s)) = ch_log (send_all others (js_paired re payload) (sv_ch s))"
    unfolding e by (simp add: relay_room_def ms others_def)
  have c: "c \<in> set others" using assms(2) send_all_other [of c others] unfolding r by metis
  then obtain j where j: "(j, c) \<in> set ms" "j \<noteq> i" by (auto simp: others_def)
  have two: "set ms \<subseteq> {(i, tx), (j, c)}"
  proof -
    have "card (set ms) \<le> 2" using card_length [of ms] m(1) by linarith
    moreover have "card {(i, tx), (j, c)} = 2" using j(2) by simp
    moreover have "{(i, tx), (j, c)} \<subseteq> set ms" using ms(2) j(1) by simp
    ultimately have "{(i, tx), (j, c)} = set ms" by (metis card_seteq finite_set)
    then show ?thesis by simp
  qed
  have d: "distinct others"
  proof -
    have "distinct (map snd ms)"
      using m(2,3) unfolding distinct_map inj_on_def by (metis (no_types) Pair_inject option.inject prod.collapse)
    then show ?thesis unfolding others_def by (rule distinct_map_filter)
  qed
  have "ch_log (send_all others (js_paired re payload) (sv_ch s)) c = ch_log (sv_ch s) c @ [js_paired re payload]"
    using send_all_log [OF d c, of "js_paired re payload" "sv_ch s"] assms(2) unfolding r by (auto split: if_splits)
  moreover have "c \<noteq> tx" using m(3) [OF j(1)] m(3) [OF ms(2)] j(2) by auto
  moreover have "d = tx \<or> d = c" if "sv_pairs s d = Some (code, l)" for d l
    using ok that ms(1) two unfolding rooms_ok_def by fastforce
  ultimately show ?thesis using p m(3) [OF j(1)] unfolding r by blast
qed

section \<open>How fast a socket may talk\<close>

fun allow_run :: "nat list \<Rightarrow> limiter \<Rightarrow> bool list \<times> limiter" where
  "allow_run [] l = ([], l)"
| "allow_run (now # ts) l =
     (case allow_at now l of (ok, l1) \<Rightarrow> (case allow_run ts l1 of (oks, l2) \<Rightarrow> (ok # oks, l2)))"

definition allowed :: "nat list \<Rightarrow> limiter \<Rightarrow> nat" where
  "allowed ts l = length (filter id (fst (allow_run ts l)))"

lemma allow_at_fields:
  assumes "allow_at now l = (ok, l1)"
  shows "lm_rate l1 = lm_rate l" "lm_burst l1 = lm_burst l" "lm_last l1 = now"
    "lm_tokens l1 + of_bool ok = min (lm_tokens l + of_nat (now - lm_last l) / 1000 * lm_rate l) (lm_burst l)"
    "ok \<longleftrightarrow> 1 \<le> min (lm_tokens l + of_nat (now - lm_last l) / 1000 * lm_rate l) (lm_burst l)"
  using assms by (auto simp: allow_at_def Let_def split: if_splits)

lemma snd_allow_run_Cons: "snd (allow_run (now # ts) l) = snd (allow_run ts (snd (allow_at now l)))"
  by (simp split: prod.split)

lemma allow_run_fields:
  "lm_rate (snd (allow_run ts l)) = lm_rate l \<and> lm_burst (snd (allow_run ts l)) = lm_burst l"
proof (induction ts arbitrary: l)
  case (Cons now ts)
  show ?case using Cons [of "snd (allow_at now l)"] allow_at_fields(1,2) [of now l] by (cases "allow_at now l") (simp add: snd_allow_run_Cons del: allow_run.simps)
qed simp

lemma allowed_Cons:
  "allow_at now l = (ok, l1) \<Longrightarrow> allowed (now # ts) l = of_bool ok + allowed ts l1"
  by (auto simp: allowed_def split: prod.split)

lemma allowed_bound:
  assumes "0 \<le> lm_tokens l" "0 \<le> lm_rate l" "sorted (lm_last l # ts)" "0 \<le> lm_burst l"
  shows "of_nat (allowed ts l) \<le> lm_tokens l + of_nat (last (lm_last l # ts) - lm_last l) / 1000 * lm_rate l"
  using assms
proof (induction ts arbitrary: l)
  case (Cons now ts)
  obtain ok l1 where a: "allow_at now l = (ok, l1)" by fastforce
  note f = allow_at_fields [OF a]
  have tok: "0 \<le> lm_tokens l1"
    using f(4,5) Cons.prems(1,2,4) by (cases ok) (auto simp: min_def split: if_splits)
  have le: "lm_last l \<le> now" "now \<le> last (now # ts)" using Cons.prems(3) by (auto simp: last_ConsR)
  have "of_nat (allowed ts l1) \<le> lm_tokens l1 + of_nat (last (now # ts) - now) / 1000 * lm_rate l"
    using Cons.IH [of l1] tok f(1-3) Cons.prems by simp
  moreover have "lm_tokens l1 + of_bool ok \<le> lm_tokens l + of_nat (now - lm_last l) / 1000 * lm_rate l"
    using f(4) by simp
  ultimately have "of_nat (allowed (now # ts) l) \<le> lm_tokens l + (of_nat (now - lm_last l) + of_nat (last (now # ts) - now)) / 1000 * lm_rate l"
    by (simp add: allowed_Cons [OF a] add_divide_distrib distrib_right)
  moreover have "(of_nat (now - lm_last l) + of_nat (last (now # ts) - now) :: rat) = of_nat (last (lm_last l # now # ts) - lm_last l)"
    using le by (simp flip: of_nat_add)
  ultimately show ?case by simp
qed (simp add: allowed_def)

lemma allow_at_window:
  assumes "allow_at now l = (ok, l1)"
  shows "lm_tokens l1 + of_bool ok \<le> lm_burst l"
  using allow_at_fields(4) [OF assms] by simp

lemma allow_at_nonneg: "allow_at now l = (ok, l1) \<Longrightarrow> 0 \<le> lm_tokens l \<Longrightarrow> 0 \<le> lm_rate l \<Longrightarrow> 0 \<le> lm_burst l \<Longrightarrow> 0 \<le> lm_tokens l1"
  by (auto simp: allow_at_def Let_def split: if_splits)

lemma allow_run_nonneg: "0 \<le> lm_tokens l \<Longrightarrow> 0 \<le> lm_rate l \<Longrightarrow> 0 \<le> lm_burst l \<Longrightarrow> 0 \<le> lm_tokens (snd (allow_run ts l))"
proof (induction ts arbitrary: l)
  case (Cons now ts)
  obtain ok l1 where a: "allow_at now l = (ok, l1)" by fastforce
  show ?case using Cons allow_at_nonneg [OF a] allow_at_fields(1,2) [OF a] by (simp add: snd_allow_run_Cons a del: allow_run.simps)
qed simp

text \<open>C26: A socket cannot flood the relay: of the frames it sends in any stretch of time, the
  server lets through at most 64 plus 16 for each second, whatever it sent before.\<close>

theorem relay_rate_bounded:
  assumes "sorted (us @ now # ts)"
  shows "of_nat (allowed (now # ts) (snd (allow_run us (limiter_new t0)))) \<le> 64 + of_nat (last (now # ts) - now) / 1000 * (16 :: rat)"
proof -
  define l where "l = snd (allow_run us (limiter_new t0))"
  have l: "lm_rate l = 16" "lm_burst l = 64" "0 \<le> lm_tokens l"
    using allow_run_fields [of us "limiter_new t0"] allow_run_nonneg [of "limiter_new t0" us]
    by (simp_all add: l_def limiter_new_def with_limits_def RELAY_FRAMES_PER_SEC_def RELAY_BURST_def)
  obtain ok l1 where a: "allow_at now l = (ok, l1)" by fastforce
  note f = allow_at_fields [OF a]
  have "of_nat (allowed ts l1) \<le> lm_tokens l1 + of_nat (last (now # ts) - now) / 1000 * lm_rate l1"
    using allowed_bound [of l1 ts] allow_at_nonneg [OF a] assms f(1-3) l by (simp add: sorted_append)
  then show ?thesis
    using allow_at_window [OF a] f l by (simp add: allowed_Cons [OF a] flip: l_def)
qed

lemma relay_rate_bounded_witness:
  "of_nat (allowed (5 # [6, 7]) (snd (allow_run [1, 2] (limiter_new 0)))) \<le> (64 + 2 / 1000 * 16 :: rat)"
  using relay_rate_bounded [of "[1, 2]" 5 "[6, 7]" 0] by simp

section \<open>Examples\<close>

definition demo_re :: "string relay_env" where
  "demo_re = \<lparr> re_crypto = demo_crypto, js_frame = split_once CHR '':'', js_pair = Some,
     js_relayed = (\<lambda>from v. from @ '':'' @ v), js_paired = id,
     re_resolve = (\<lambda>t. if t = ''h'' then Some \<lparr> cr_user = 1, cr_signaling = ''host'' \<rparr>
        else if t = ''v'' then Some \<lparr> cr_user = 1, cr_signaling = ''view'' \<rparr>
        else if t = ''x'' then Some \<lparr> cr_user = 2, cr_signaling = ''evil'' \<rparr> else None) \<rparr>"

definition demo_server :: "server_input list \<Rightarrow> server" where
  "demo_server xs = fold (server_step demo_re 120) xs server_start"

lemma demo_server_reach: "server_reach demo_re 120 (demo_server xs)"
proof -
  have "server_reach demo_re 120 s \<Longrightarrow> server_reach demo_re 120 (fold (server_step demo_re 120) xs s)" for s
    by (induction xs arbitrary: s) (simp_all add: server_reach.step)
  then show ?thesis by (simp add: demo_server_def server_reach.start)
qed

lemma relay_scoped_witness:
  "let s = demo_server [Upgrade None (Some ''h'') 0, Upgrade None (Some ''v'') 0, Upgrade None (Some ''x'') 0]
   in ch_log (sv_ch (server_step demo_re 120 (Frame 1 ''host:hi'' 1) s)) 0 = [''view:hi'']
    \<and> ch_log (sv_ch (server_step demo_re 120 (Frame 2 ''host:hi'' 1) s)) 0 = []"
proof -
  let ?s = "demo_server [Upgrade None (Some ''h'') 0, Upgrade None (Some ''v'') 0, Upgrade None (Some ''x'') 0]"
  have k: "sv_conns ?s 0 = Some \<lparr> cn_id = ''host'', cn_user = 1, cn_limiter = limiter_new 0 \<rparr>" by code_simp
  have l: "ch_log (sv_ch ?s) 0 = []" by code_simp
  have n: "ch_log (sv_ch (server_step demo_re 120 (Frame 1 ''host:hi'' 1) ?s)) 0 \<noteq> ch_log (sv_ch ?s) 0" by code_simp
  have "js_frame demo_re ''host:hi'' = Some (''host'', ''hi'')" by code_simp
  moreover have "sv_conns ?s 1 = Some \<lparr> cn_id = ''view'', cn_user = 1, cn_limiter = limiter_new 0 \<rparr>" by code_simp
  ultimately have "ch_log (sv_ch (server_step demo_re 120 (Frame 1 ''host:hi'' 1) ?s)) 0 = [''view:hi'']"
    using relay_scoped [OF demo_server_reach k n] l by (auto simp: demo_re_def)
  moreover have "ch_log (sv_ch (server_step demo_re 120 (Frame 2 ''host:hi'' 1) ?s)) 0 = []" by code_simp
  ultimately show ?thesis by (simp add: Let_def)
qed

lemma pairing_room_private_witness:
  "let s = demo_server [PairUpgrade ''c'', PairUpgrade ''c'', PairUpgrade ''c'']
   in ch_log (sv_ch (server_step demo_re 120 (PairFrame 0 ''hi'') s)) 1 = [PEER_JOINED, ''hi''] \<and> sv_pairs s 2 = None"
proof -
  let ?s = "demo_server [PairUpgrade ''c'', PairUpgrade ''c'', PairUpgrade ''c'']"
  have l: "ch_log (sv_ch ?s) 1 = [PEER_JOINED]" by code_simp
  have n: "ch_log (sv_ch (server_step demo_re 120 (PairFrame 0 ''hi'') ?s)) 1 \<noteq> ch_log (sv_ch ?s) 1" by code_simp
  have "ch_log (sv_ch (server_step demo_re 120 (PairFrame 0 ''hi'') ?s)) 1 = [PEER_JOINED, ''hi'']"
    using pairing_room_private [OF demo_server_reach n] l by (auto simp: demo_re_def)
  moreover have "sv_pairs ?s 2 = None" by code_simp
  ultimately show ?thesis by (simp add: Let_def)
qed

end
