(* ===== verification/Swipe.thy ===== *)
theory Swipe
  imports Rmd_Prelude
begin

text \<open>
  Word gestures of the browser viewer's on-screen keyboard (\<open>apps/web-viewer/src/swipe.rs\<close>): the
  dictionary with its buckets, the two keys nearest to a point, resampling a path to 32 points by
  arc length, normalisation, and the ranked decoding.  Coordinates are rationals, and the Euclidean
  length of a vector, the square root in \<open>dist\<close>, is an argument with the laws of a norm in
  \<open>hyp_ok\<close>.  The resampling loop inserts points into the list that it walks, so it runs on fuel;
  the length of the path plus 32 is shown to be enough.
\<close>

type_synonym point = "rat \<times> rat"

section \<open>The dictionary\<close>

definition N_POINTS :: nat where "N_POINTS = 32"
definition FREQ_WEIGHT :: rat where "FREQ_WEIGHT = 12 / 100"

definition letter :: "char \<Rightarrow> nat" where "letter c = of_char c - 97"
definition is_lower :: "char \<Rightarrow> bool" where "is_lower c \<longleftrightarrow> 97 \<le> (of_char c :: nat) \<and> (of_char c :: nat) \<le> 122"

record decoder =
  sw_words :: "string list"
  sw_buckets :: "nat list list"

definition bucket_of :: "string \<Rightarrow> nat" where
  "bucket_of w = letter (hd w) * 26 + letter (last w)"

definition add_word :: "string \<Rightarrow> decoder \<Rightarrow> decoder" where
  "add_word line d =
    (let w = trim line in
     if length w < 2 \<or> \<not> list_all is_lower w then d
     else d\<lparr>sw_buckets := (sw_buckets d)[bucket_of w := sw_buckets d ! bucket_of w @ [length (sw_words d)]],
            sw_words := sw_words d @ [w]\<rparr>)"

definition decoder_new :: "string \<Rightarrow> decoder" where
  "decoder_new raw = fold add_word (lines raw) \<lparr> sw_words = [], sw_buckets = replicate (26 * 26) [] \<rparr>"

section \<open>Nearest keys\<close>

definition dist2 :: "point \<Rightarrow> point \<Rightarrow> rat" where
  "dist2 p k = (fst p - fst k)\<^sup>2 + (snd p - snd k)\<^sup>2"

text \<open>\<open>f64::MAX\<close> is None: every distance is below it.\<close>

definition below :: "rat \<Rightarrow> rat option \<Rightarrow> bool" where
  "below d m = (case m of None \<Rightarrow> True | Some x \<Rightarrow> d < x)"

fun nearest2_from :: "point \<Rightarrow> nat \<Rightarrow> point list \<Rightarrow> nat \<times> rat option \<Rightarrow> nat \<times> rat option \<Rightarrow> nat \<times> nat" where
  "nearest2_from p i [] (b0, d0) (b1, d1) = (b0, b1)"
| "nearest2_from p i (k # ks) (b0, d0) (b1, d1) =
    (let d = dist2 p k in
     if below d d0 then nearest2_from p (Suc i) ks (i, Some d) (b0, d0)
     else if below d d1 then nearest2_from p (Suc i) ks (b0, d0) (i, Some d)
     else nearest2_from p (Suc i) ks (b0, d0) (b1, d1))"

definition nearest2 :: "point \<Rightarrow> point list \<Rightarrow> nat \<times> nat" where
  "nearest2 p key_xy = nearest2_from p 0 key_xy (0, None) (1, None)"

definition nearest_letter :: "point \<Rightarrow> point list \<Rightarrow> nat" where
  "nearest_letter p key_xy = fst (nearest2 p key_xy)"

section \<open>Paths\<close>

type_synonym hyp = "rat \<Rightarrow> rat \<Rightarrow> rat"

definition dist :: "hyp \<Rightarrow> point \<Rightarrow> point \<Rightarrow> rat" where
  "dist hyp a b = hyp (fst a - fst b) (snd a - snd b)"

fun path_length :: "hyp \<Rightarrow> point list \<Rightarrow> rat" where
  "path_length hyp (a # b # ps) = dist hyp a b + path_length hyp (b # ps)"
| "path_length hyp _ = 0"

definition between :: "rat \<Rightarrow> point \<Rightarrow> point \<Rightarrow> point" where
  "between t a b = (fst a + t * (fst b - fst a), snd a + t * (snd b - snd a))"

text \<open>The walk: the point left behind, those ahead, the arc since the last point put out, and the
  points put out, newest first.\<close>

fun walk :: "hyp \<Rightarrow> rat \<Rightarrow> nat \<Rightarrow> point \<Rightarrow> point list \<Rightarrow> rat \<Rightarrow> point list \<Rightarrow> point list option" where
  "walk hyp interval n prev [] d out = Some (rev out)"
| "walk hyp interval 0 prev (c # cs) d out = None"
| "walk hyp interval (Suc n) prev (c # cs) d out =
    (let dd = dist hyp prev c in
     if d + dd \<ge> interval then
       (let q = between ((interval - d) / dd) prev c
        in walk hyp interval n q (c # cs) 0 (q # out))
     else walk hyp interval n c cs (d + dd) out)"

definition resample :: "hyp \<Rightarrow> point list \<Rightarrow> point list option" where
  "resample hyp points =
    (if length points < 2 then
       Some (replicate N_POINTS (case points of [] \<Rightarrow> (0, 0) | p # _ \<Rightarrow> p))
     else
       let total = path_length hyp points in
       if total \<le> 1 / 10 ^ 9 then Some (replicate N_POINTS (hd points))
       else
         let interval = total / (of_nat N_POINTS - 1) in
         map_option
           (\<lambda>out. take N_POINTS (out @ replicate (N_POINTS - length out) (last points)))
           (walk hyp interval (length points + N_POINTS) (hd points) (tl points) 0 [hd points]))"

definition normalize :: "point list \<Rightarrow> point list" where
  "normalize pts =
    (let n = of_nat (length pts);
         cx = sum_list (map fst pts) / n;
         cy = sum_list (map snd pts) / n;
         xs = map (\<lambda>p. fst p - cx) pts;
         ys = map (\<lambda>p. snd p - cy) pts;
         width = fold max (tl xs) (hd xs) - fold min (tl xs) (hd xs);
         height = fold max (tl ys) (hd ys) - fold min (tl ys) (hd ys);
         scale = max (max width height) (1 / 10 ^ 6)
     in map (\<lambda>p. ((fst p - cx) / scale, (snd p - cy) / scale)) pts)"

definition mean_dist :: "hyp \<Rightarrow> point list \<Rightarrow> point list \<Rightarrow> rat" where
  "mean_dist hyp a b = sum_list (map (\<lambda>(p, q). dist hyp p q) (zip a b)) / of_nat (length a)"

section \<open>Decoding\<close>

text \<open>The words that begin near the start of the gesture and end near its end, by rank.\<close>

definition candidates :: "decoder \<Rightarrow> point list \<Rightarrow> point list \<Rightarrow> nat list" where
  "candidates d gesture key_xy =
    (let (s0, s1) = nearest2 (hd gesture) key_xy;
         (e0, e1) = nearest2 (last gesture) key_xy
     in remdups_adj (sort (concat (map (\<lambda>f. concat (map (\<lambda>l. sw_buckets d ! (f * 26 + l)) [e0, e1])) [s0, s1]))))"

definition score :: "hyp \<Rightarrow> decoder \<Rightarrow> point list \<Rightarrow> point list \<Rightarrow> nat \<Rightarrow> rat option" where
  "score hyp d key_xy g ci =
    map_option
      (\<lambda>t. mean_dist hyp g (normalize t) + FREQ_WEIGHT * (of_nat ci / of_nat (length (sw_words d))))
      (resample hyp (map (\<lambda>b. key_xy ! letter b) (sw_words d ! ci)))"

fun traverse :: "('a \<Rightarrow> 'b option) \<Rightarrow> 'a list \<Rightarrow> 'b list option" where
  "traverse f [] = Some []"
| "traverse f (x # xs) = Option.bind (f x) (\<lambda>y. map_option ((#) y) (traverse f xs))"

definition decode_swipe :: "hyp \<Rightarrow> decoder \<Rightarrow> point list \<Rightarrow> point list \<Rightarrow> nat \<Rightarrow> string list option" where
  "decode_swipe hyp d gesture key_xy k =
    (if length gesture < 2 then Some []
     else
       let cand = candidates d gesture key_xy in
       if cand = [] then Some []
       else
         Option.bind (resample hyp gesture) (\<lambda>r.
           let g = normalize r in
           map_option
             (\<lambda>scored. map (\<lambda>(s, ci). sw_words d ! ci) (take k (sort_key fst scored)))
             (traverse (\<lambda>ci. map_option (\<lambda>s. (s, ci)) (score hyp d key_xy g ci)) cand)))"

section \<open>The walk ends, with 32 points\<close>

definition hyp_ok :: "hyp \<Rightarrow> bool" where
  "hyp_ok hyp \<longleftrightarrow> (\<forall>x y. 0 \<le> hyp x y) \<and> (\<forall>t x y. 0 \<le> t \<longrightarrow> hyp (t * x) (t * y) = t * hyp x y)"

lemma path_length_nonneg: "hyp_ok hyp \<Longrightarrow> 0 \<le> path_length hyp ps"
  by (induction hyp ps rule: path_length.induct) (auto simp: dist_def hyp_ok_def)

lemma between_splits:
  assumes "hyp_ok hyp" "0 \<le> t" "t \<le> 1"
  shows "dist hyp (between t a b) b = (1 - t) * dist hyp a b"
proof -
  have "hyp ((1 - t) * (fst a - fst b)) ((1 - t) * (snd a - snd b)) = (1 - t) * hyp (fst a - fst b) (snd a - snd b)"
    using assms by (simp add: hyp_ok_def)
  moreover have "fst (between t a b) - fst b = (1 - t) * (fst a - fst b)" "snd (between t a b) - snd b = (1 - t) * (snd a - snd b)"
    by (simp_all add: between_def algebra_simps)
  ultimately show ?thesis by (simp add: dist_def)
qed

lemma walk_ends:
  assumes "hyp_ok hyp" "0 < interval" "0 \<le> d" "d < interval"
    "length cs + nat \<lfloor>(d + path_length hyp (prev # cs)) / interval\<rfloor> \<le> n"
  shows "\<exists>new. walk hyp interval n prev cs d out = Some (rev out @ new)
    \<and> length new = nat \<lfloor>(d + path_length hyp (prev # cs)) / interval\<rfloor>"
  using assms
proof (induction hyp interval n prev cs d out rule: walk.induct)
  case (1 hyp interval n prev d out)
  then have "\<lfloor>d / interval\<rfloor> = 0" by (simp add: floor_eq_iff field_simps)
  then show ?case by simp
next
  case (2 hyp interval prev c cs d out)
  then show ?case by simp
next
  case (3 hyp interval n prev c cs d out)
  let ?dd = "dist hyp prev c" and ?P = "path_length hyp (c # cs)"
  have P: "0 \<le> ?P" and dd: "0 \<le> ?dd" using 3(3) by (simp_all add: path_length_nonneg dist_def hyp_ok_def)
  show ?case
  proof (cases "d + ?dd \<ge> interval")
    case True
    define t where "t = (interval - d) / ?dd"
    have dd: "0 < ?dd" using True 3(6) by simp
    then have t: "0 \<le> t" "t \<le> 1" using True 3(6) by (simp_all add: t_def)
    let ?q = "between t prev c"
    have "dist hyp ?q c = ?dd - (interval - d)"
    proof -
      have "t * ?dd = interval - d" using dd by (simp add: t_def)
      then show ?thesis using between_splits [OF 3(3) t, of prev c] by (simp add: left_diff_distrib)
    qed
    then have len: "0 + path_length hyp (?q # c # cs) = (d + path_length hyp (prev # c # cs)) - interval" by simp
    have "(d + path_length hyp (prev # c # cs) - interval) / interval = (d + path_length hyp (prev # c # cs)) / interval - 1"
      using 3(4) by (simp add: field_simps)
    then have fl: "\<lfloor>(0 + path_length hyp (?q # c # cs)) / interval\<rfloor> = \<lfloor>(d + path_length hyp (prev # c # cs)) / interval\<rfloor> - 1"
      unfolding len by simp
    have pos: "1 \<le> \<lfloor>(d + path_length hyp (prev # c # cs)) / interval\<rfloor>"
      using True P 3(4) by (simp add: le_floor_iff field_simps)
    have k: "nat \<lfloor>(d + path_length hyp (prev # c # cs)) / interval\<rfloor>
        = Suc (nat \<lfloor>(0 + path_length hyp (?q # c # cs)) / interval\<rfloor>)"
      using pos unfolding fl by linarith
    have fuel: "length (c # cs) + nat \<lfloor>(0 + path_length hyp (?q # c # cs)) / interval\<rfloor> \<le> n"
      using 3(7) k by simp
    obtain new where "walk hyp interval n ?q (c # cs) 0 (?q # out) = Some (rev (?q # out) @ new)"
        "length new = nat \<lfloor>(0 + path_length hyp (?q # c # cs)) / interval\<rfloor>"
      using 3(1) [OF refl True refl 3(3,4) _ _ fuel [unfolded t_def]] 3(4) unfolding t_def by auto
    then show ?thesis using True k by (intro exI [of _ "?q # new"]) (simp add: t_def)
  next
    case False
    have "d + ?dd + path_length hyp (c # cs) = d + path_length hyp (prev # c # cs)" by simp
    then have e: "d + dist hyp prev c + path_length hyp (c # cs) = d + path_length hyp (prev # c # cs)" .
    have "length cs + nat \<lfloor>(d + ?dd + path_length hyp (c # cs)) / interval\<rfloor> \<le> n" using 3(7) unfolding e by simp
    from 3(2) [OF refl False 3(3,4) _ _ this] show ?thesis
      unfolding e using False 3(5) dd by simp
  qed
qed

lemma walk_of_total:
  assumes "hyp_ok hyp" "2 \<le> length ps" "0 < path_length hyp ps"
  shows "\<exists>new. walk hyp (path_length hyp ps / (of_nat N_POINTS - 1)) (length ps + N_POINTS) (hd ps) (tl ps) 0 [hd ps]
      = Some (hd ps # new) \<and> length new = 31"
proof -
  let ?i = "path_length hyp ps / (of_nat N_POINTS - 1)"
  obtain a cs where ps: "ps = a # cs" using assms(2) by (cases ps) auto
  have i: "0 < ?i" "path_length hyp ps / ?i = 31" using assms(3) by (simp_all add: N_POINTS_def)
  have "\<lfloor>(0 + path_length hyp (a # cs)) / ?i\<rfloor> = 31" using i(2) ps by simp
  moreover have "length cs + nat (31 :: int) \<le> length ps + N_POINTS" by (simp add: ps N_POINTS_def)
  ultimately show ?thesis using walk_ends [OF assms(1) i(1), of 0 cs a "length ps + N_POINTS" "[a]"] i(1) ps by simp
qed

text \<open>Resampling ends with 32 points: for any path and any norm, the loop - which keeps inserting
  points into the list that it walks - is over within its fuel, and what it gives are 32 points
  that begin where the path begins; on a path of some length the walk itself puts out all 32, so
  the padding and the cut after it change nothing.\<close>

theorem resample_ends:
  assumes "hyp_ok hyp"
  shows "\<exists>out. resample hyp ps = Some out \<and> length out = 32 \<and> (ps \<noteq> [] \<longrightarrow> hd out = hd ps)
    \<and> (2 \<le> length ps \<and> 1 / 10 ^ 9 < path_length hyp ps \<longrightarrow>
        walk hyp (path_length hyp ps / 31) (length ps + 32) (hd ps) (tl ps) 0 [hd ps] = Some out)"
proof (cases "length ps < 2")
  case True
  then show ?thesis by (cases ps) (simp_all add: resample_def N_POINTS_def)
next
  case long: False
  show ?thesis
  proof (cases "path_length hyp ps \<le> 1 / 10 ^ 9")
    case True
    then show ?thesis using long by (auto simp: resample_def N_POINTS_def Let_def)
  next
    case False
    then have "0 < path_length hyp ps" by (metis (no_types) divide_pos_pos less_trans not_le zero_less_one zero_less_power zero_less_numeral)
    from walk_of_total [OF assms _ this] long obtain new where
      w: "walk hyp (path_length hyp ps / (of_nat N_POINTS - 1)) (length ps + N_POINTS) (hd ps) (tl ps) 0 [hd ps]
        = Some (hd ps # new)" "length new = 31" by fastforce
    have "resample hyp ps = Some (hd ps # new)"
      using long False w by (simp add: resample_def Let_def N_POINTS_def)
    moreover have "walk hyp (path_length hyp ps / 31) (length ps + 32) (hd ps) (tl ps) 0 [hd ps] = Some (hd ps # new)"
      using w(1) by (simp add: N_POINTS_def)
    ultimately show ?thesis using w(2) by simp
  qed
qed

definition taxicab :: hyp where "taxicab x y = \<bar>x\<bar> + \<bar>y\<bar>"

lemma taxicab_ok: "hyp_ok taxicab"
  by (simp add: hyp_ok_def taxicab_def abs_mult distrib_left)

lemma resample_ends_witness:
  "\<exists>out. resample taxicab [(0, 0), (3, 0), (3, 4)] = Some out \<and> length out = 32 \<and> hd out = (0, 0)"
  using resample_ends [OF taxicab_ok, of "[(0, 0), (3, 0), (3, 4)]"] by auto

section \<open>The nearest two keys\<close>

definition best :: "point \<Rightarrow> point list \<Rightarrow> nat \<Rightarrow> rat option \<Rightarrow> bool" where
  "best p xs b m \<longleftrightarrow> (if xs = [] then m = None
     else b < length xs \<and> m = Some (dist2 p (xs ! b)) \<and> (\<forall>i<length xs. dist2 p (xs ! b) \<le> dist2 p (xs ! i)))"

definition second :: "point \<Rightarrow> point list \<Rightarrow> nat \<Rightarrow> nat \<Rightarrow> rat option \<Rightarrow> bool" where
  "second p xs a b m \<longleftrightarrow> (if length xs < 2 then m = None
     else b < length xs \<and> b \<noteq> a \<and> m = Some (dist2 p (xs ! b))
        \<and> (\<forall>i<length xs. i \<noteq> a \<longrightarrow> dist2 p (xs ! b) \<le> dist2 p (xs ! i)))"

lemma nth_snoc: "i < length (xs @ [k]) \<Longrightarrow> (xs @ [k]) ! i = (if i < length xs then xs ! i else k)"
  by (auto simp: nth_append)

lemma nearest2_from_correct:
  assumes "best p xs b0 d0" "second p xs b0 b1 d1" "2 \<le> length (xs @ ks)"
  shows "(\<exists>m. best p (xs @ ks) (fst (nearest2_from p (length xs) ks (b0, d0) (b1, d1))) m)
    \<and> (\<exists>m. second p (xs @ ks) (fst (nearest2_from p (length xs) ks (b0, d0) (b1, d1)))
          (snd (nearest2_from p (length xs) ks (b0, d0) (b1, d1))) m)"
  using assms
proof (induction ks arbitrary: xs b0 d0 b1 d1)
  case Nil
  then show ?case by auto
next
  case (Cons k ks)
  let ?d = "dist2 p k" and ?xs = "xs @ [k]"
  have two: "2 \<le> length (?xs @ ks)" using Cons.prems(3) by simp
  note IH = Cons.IH [OF _ _ two]
  consider (first) "below ?d d0" | (runner) "\<not> below ?d d0" "below ?d d1" | (far) "\<not> below ?d d0" "\<not> below ?d d1" by blast
  then show ?case
  proof cases
    case first
    have "best p ?xs (length xs) (Some ?d)"
      using Cons.prems(1) first by (force simp: best_def below_def nth_append split: if_splits)
    moreover have "second p ?xs (length xs) b0 d0"
      using Cons.prems(1) by (auto simp: best_def second_def nth_append less_Suc_eq split: if_splits)
    ultimately show ?thesis using IH [of "length xs" "Some ?d" b0 d0] first by (simp add: Let_def)
  next
    case runner
    have "best p ?xs b0 d0"
      using Cons.prems(1) runner by (auto simp: best_def below_def nth_append less_Suc_eq split: if_splits)
    moreover have "second p ?xs b0 (length xs) (Some ?d)"
    proof -
      have ne: "xs \<noteq> []" using Cons.prems(1) runner(1) by (auto simp: best_def below_def)
      then have b0: "b0 < length xs" using Cons.prems(1) by (simp add: best_def)
      have "?d \<le> dist2 p (xs ! i)" if i: "i < length xs" and "i \<noteq> b0" for i
      proof (cases "length xs < 2")
        case True
        then have "length xs = 1" using ne by (cases xs) auto
        then show ?thesis using i b0 \<open>i \<noteq> b0\<close> by simp
      next
        case False
        then have "d1 = Some (dist2 p (xs ! b1))" "dist2 p (xs ! b1) \<le> dist2 p (xs ! i)"
          using Cons.prems(2) i \<open>i \<noteq> b0\<close> by (simp_all add: second_def)
        then show ?thesis using runner(2) by (simp add: below_def)
      qed
      moreover have "\<not> length ?xs < 2" using ne by (simp add: not_less Suc_le_eq)
      ultimately show ?thesis using b0 by (auto simp: second_def nth_append less_Suc_eq)
    qed
    ultimately show ?thesis using IH [of b0 d0 "length xs" "Some ?d"] runner by (simp add: Let_def)
  next
    case far
    have "best p ?xs b0 d0"
      using Cons.prems(1) far by (auto simp: best_def below_def nth_append less_Suc_eq split: if_splits)
    moreover have "second p ?xs b0 b1 d1"
      using Cons.prems(2) far by (auto simp: second_def below_def nth_append less_Suc_eq split: if_splits)
    ultimately show ?thesis using IH [of b0 d0 b1 d1] far by (simp add: Let_def)
  qed
qed

lemma nearest2_correct:
  assumes "nearest2 p ks = (a, b)" "2 \<le> length ks"
  shows "a < length ks" "b < length ks" "b \<noteq> a"
    "\<And>i. i < length ks \<Longrightarrow> dist2 p (ks ! a) \<le> dist2 p (ks ! i)"
    "\<And>i. i < length ks \<Longrightarrow> i \<noteq> a \<Longrightarrow> dist2 p (ks ! b) \<le> dist2 p (ks ! i)"
proof -
  have "best p [] 0 None" "second p [] 0 1 None" by (simp_all add: best_def second_def)
  from nearest2_from_correct [OF this, of ks] assms
  obtain m m' where "best p ks a m" "second p ks a b m'" by (auto simp: nearest2_def)
  then show "a < length ks" "b < length ks" "b \<noteq> a"
    "\<And>i. i < length ks \<Longrightarrow> dist2 p (ks ! a) \<le> dist2 p (ks ! i)"
    "\<And>i. i < length ks \<Longrightarrow> i \<noteq> a \<Longrightarrow> dist2 p (ks ! b) \<le> dist2 p (ks ! i)"
    using assms(2) by (auto simp: best_def second_def split: if_splits)
qed

section \<open>Decoding is sound\<close>

lemma is_lower_letter: "is_lower c \<Longrightarrow> letter c < 26"
  by (auto simp: is_lower_def letter_def)

definition buckets_ok :: "decoder \<Rightarrow> bool" where
  "buckets_ok d \<longleftrightarrow> length (sw_buckets d) = 26 * 26
     \<and> (\<forall>w\<in>set (sw_words d). 2 \<le> length w \<and> list_all is_lower w)
     \<and> (\<forall>k<26 * 26. \<forall>i\<in>set (sw_buckets d ! k). i < length (sw_words d) \<and> bucket_of (sw_words d ! i) = k)"

lemma word_letters:
  assumes "2 \<le> length w" "list_all is_lower w"
  shows "letter (hd w) < 26" "letter (last w) < 26" "bucket_of w < 26 * 26"
proof -
  have "w \<noteq> []" using assms(1) by auto
  then show 1: "letter (hd w) < 26" "letter (last w) < 26"
    using assms(2) by (simp_all add: list_all_iff is_lower_letter)
  have "letter (hd w) * 26 + letter (last w) < 26 * 26" using 1 by linarith
  then show "bucket_of w < 26 * 26" by (simp add: bucket_of_def)
qed

lemma add_word_ok:
  assumes "buckets_ok d"
  shows "buckets_ok (add_word line d)"
proof (cases "length (trim line) < 2 \<or> \<not> list_all is_lower (trim line)")
  case True
  then show ?thesis using assms by (simp add: add_word_def Let_def)
next
  case False
  then have "bucket_of (trim line) < 26 * 26" using word_letters(3) [of "trim line"] by simp
  then show ?thesis
    using assms False by (auto simp: add_word_def Let_def buckets_ok_def nth_append nth_list_update less_Suc_eq)
qed

lemma decoder_new_ok: "buckets_ok (decoder_new raw)"
proof -
  have "buckets_ok (fold add_word ls d)" if "buckets_ok d" for ls d
    using that by (induction ls arbitrary: d) (simp_all add: add_word_ok)
  moreover have "buckets_ok \<lparr> sw_words = [], sw_buckets = replicate (26 * 26) [] \<rparr>" by (simp add: buckets_ok_def)
  ultimately show ?thesis by (simp add: decoder_new_def)
qed

lemma traverse_Some:
  assumes "\<And>x. x \<in> set xs \<Longrightarrow> f x \<noteq> None"
  shows "\<exists>ys. traverse f xs = Some ys \<and> list_all2 (\<lambda>x y. f x = Some y) xs ys"
  using assms
proof (induction xs)
  case (Cons x xs)
  obtain y where "f x = Some y" using Cons.prems [of x] by auto
  moreover obtain ys where "traverse f xs = Some ys" "list_all2 (\<lambda>x y. f x = Some y) xs ys"
    using Cons.IH Cons.prems by auto
  ultimately show ?case by auto
qed simp

lemma candidate_letters:
  assumes "buckets_ok d" "length keys = 26" "ci \<in> set (candidates d g keys)"
  shows "ci < length (sw_words d)
    \<and> letter (hd (sw_words d ! ci)) \<in> {fst (nearest2 (hd g) keys), snd (nearest2 (hd g) keys)}
    \<and> letter (last (sw_words d ! ci)) \<in> {fst (nearest2 (last g) keys), snd (nearest2 (last g) keys)}"
proof -
  obtain s0 s1 e0 e1 where n: "nearest2 (hd g) keys = (s0, s1)" "nearest2 (last g) keys = (e0, e1)" by fastforce
  have "s0 < 26" "s1 < 26" "e0 < 26" "e1 < 26"
    using nearest2_correct(1,2) [OF n(1)] nearest2_correct(1,2) [OF n(2)] assms(2) by auto
  moreover obtain f l where fl: "f \<in> {s0, s1}" "l \<in> {e0, e1}" "ci \<in> set (sw_buckets d ! (f * 26 + l))"
    using assms(3) n by (auto simp: candidates_def)
  ultimately have b: "f < 26" "l < 26" by auto
  then have k: "f * 26 + l < 26 * 26" by linarith
  have c: "ci < length (sw_words d)" "bucket_of (sw_words d ! ci) = f * 26 + l"
    using assms(1) k fl(3) unfolding buckets_ok_def by blast+
  have "sw_words d ! ci \<in> set (sw_words d)" using c(1) by simp
  then have "letter (last (sw_words d ! ci)) < 26" using assms(1) word_letters(2) unfolding buckets_ok_def by blast
  then have "letter (hd (sw_words d ! ci)) = f \<and> letter (last (sw_words d ! ci)) = l"
  proof -
    let ?h = "letter (hd (sw_words d ! ci))" and ?t = "letter (last (sw_words d ! ci))"
    assume t: "?t < 26"
    have e: "?h * 26 + ?t = f * 26 + l" using c(2) by (simp add: bucket_of_def)
    have "(?h * 26 + ?t) div 26 = ?h" "(f * 26 + l) div 26 = f" using t b(2) by simp_all
    then have "?h = f" unfolding e by simp
    then show ?thesis using e by simp
  qed
  then show ?thesis using c(1) fl(1,2) n by simp
qed

text \<open>A swipe is decoded to words that it can stand for: decoding always ends, gives at most as
  many words as asked for, all from the dictionary, and each begins with one of the two keys
  nearest to where the swipe began and ends with one of the two nearest to where it ended.\<close>

theorem swipe_decodes_soundly:
  assumes "hyp_ok hyp" "length keys = 26"
  shows "\<exists>ws. decode_swipe hyp (decoder_new raw) g keys k = Some ws \<and> length ws \<le> k
    \<and> (\<forall>w\<in>set ws. w \<in> set (sw_words (decoder_new raw))
        \<and> letter (hd w) \<in> {fst (nearest2 (hd g) keys), snd (nearest2 (hd g) keys)}
        \<and> letter (last w) \<in> {fst (nearest2 (last g) keys), snd (nearest2 (last g) keys)})"
proof -
  let ?d = "decoder_new raw" and ?cand = "candidates (decoder_new raw) g keys"
  have ends: "resample hyp ps \<noteq> None" for ps using resample_ends [OF assms(1), of ps] by auto
  show ?thesis
  proof (cases "length g < 2 \<or> ?cand = []")
    case True
    then show ?thesis by (auto simp: decode_swipe_def Let_def)
  next
    case False
    obtain r where r: "resample hyp g = Some r" using ends [of g] by auto
    let ?f = "\<lambda>ci. map_option (\<lambda>s. (s, ci)) (score hyp ?d keys (normalize r) ci)"
    have "?f ci \<noteq> None" for ci using ends by (simp add: score_def)
    then obtain scored where sc: "traverse ?f ?cand = Some scored" "list_all2 (\<lambda>x y. ?f x = Some y) ?cand scored"
      using traverse_Some [of ?cand ?f] by blast
    let ?ws = "map (\<lambda>(s, ci). sw_words ?d ! ci) (take k (sort_key fst scored))"
    have "decode_swipe hyp ?d g keys k = Some ?ws"
      using False r sc(1) by (simp add: decode_swipe_def Let_def)
    moreover have "ci \<in> set ?cand" if p: "(s, ci) \<in> set scored" for s ci
      using sc(2) p by (auto simp: list_all2_conv_all_nth in_set_conv_nth) (metis prod.inject)
    then have "\<exists>ci\<in>set ?cand. w = sw_words ?d ! ci" if w: "w \<in> set ?ws" for w
      using w by (auto dest!: in_set_takeD)
    ultimately show ?thesis
      using candidate_letters [OF decoder_new_ok assms(2)] by (intro exI [of _ ?ws]) fastforce
  qed
qed

text \<open>The keys in a row, one apart.\<close>

definition demo_keys :: "point list" where "demo_keys = map (\<lambda>i. (of_nat i, 0)) [0..<26]"

lemma swipe_decodes_soundly_witness:
  "\<exists>ws. decode_swipe taxicab (decoder_new ''to'') [(19, 0), (14, 0)] demo_keys 3 = Some ws \<and> length ws \<le> 3
    \<and> set ws \<subseteq> set (sw_words (decoder_new ''to''))"
proof -
  have "length demo_keys = 26" by (simp add: demo_keys_def)
  from swipe_decodes_soundly [OF taxicab_ok this, of "''to''" "[(19, 0), (14, 0)]" 3] show ?thesis by blast
qed

end
