(* ===== verification/WebInput.thy ===== *)
theory WebInput
  imports Protocol Keymap InputModel
begin

text \<open>
  The browser viewer's input encoding (\<open>apps/web-viewer/src/input.rs\<close>): pointer, scroll and key
  events as the protocol's messages, and the tables from browser key codes and typed characters
  to USB HID usages.
\<close>

section \<open>Events\<close>

text \<open>\<open>clamp(0.0, 1.0)\<close> on both coordinates.\<close>

definition unit_clamp :: "f64 \<Rightarrow> f64" where
  "unit_clamp x = f_clamp x (Fin 0) (Fin 1)"

definition mouse_move :: "f64 \<Rightarrow> f64 \<Rightarrow> input_event" where
  "mouse_move x y = MouseMove (unit_clamp x) (unit_clamp y)"

definition mouse_button :: "int \<Rightarrow> bool \<Rightarrow> f64 \<Rightarrow> f64 \<Rightarrow> input_event" where
  "mouse_button button pressed x y = MouseButton button pressed (unit_clamp x) (unit_clamp y)"

definition mouse_scroll :: "f64 \<Rightarrow> f64 \<Rightarrow> input_event" where
  "mouse_scroll dx dy = MouseScroll dx dy"

definition key :: "u32 \<Rightarrow> bool \<Rightarrow> u32 \<Rightarrow> input_event" where
  "key hid_usage pressed modifiers = KeyEvent hid_usage pressed modifiers"

section \<open>Tables\<close>

definition mod_bit :: "string \<Rightarrow> u32" where
  "mod_bit name =
    (if name = ''ctrl'' then mod_CONTROL
     else if name = ''alt'' then mod_ALT
     else if name = ''super'' \<or> name = ''meta'' then mod_META
     else if name = ''shift'' then mod_SHIFT
     else 0)"

text \<open>A Rust \<open>char\<close> here is one of the first 256; no other is in the table.\<close>

definition char_table :: "(char \<times> nat \<times> bool) list" where
  "char_table = [
    (CHR ''1'', 0x1E, False), (CHR ''2'', 0x1F, False), (CHR ''3'', 0x20, False),
    (CHR ''4'', 0x21, False), (CHR ''5'', 0x22, False), (CHR ''6'', 0x23, False),
    (CHR ''7'', 0x24, False), (CHR ''8'', 0x25, False), (CHR ''9'', 0x26, False),
    (CHR ''0'', 0x27, False), (CHR ''!'', 0x1E, True), (CHR ''@'', 0x1F, True),
    (CHR ''#'', 0x20, True), (CHR ''$'', 0x21, True), (CHR ''%'', 0x22, True),
    (CHR ''^'', 0x23, True), (CHR ''&'', 0x24, True), (CHR ''*'', 0x25, True),
    (CHR ''('', 0x26, True), (CHR '')'', 0x27, True), (CHR '' '', 0x2C, False),
    (CHR 0x0A, 0x28, False), (CHR 0x0D, 0x28, False), (CHR 0x09, 0x2B, False),
    (CHR ''-'', 0x2D, False), (CHR ''_'', 0x2D, True), (CHR ''='', 0x2E, False),
    (CHR ''+'', 0x2E, True), (CHR ''['', 0x2F, False), (CHR ''{'', 0x2F, True),
    (CHR '']'', 0x30, False), (CHR ''}'', 0x30, True), (CHR 0x5C, 0x31, False),
    (CHR ''|'', 0x31, True), (CHR '';'', 0x33, False), (CHR '':'', 0x33, True),
    (CHR 0x27, 0x34, False), (CHR 0x22, 0x34, True), (CHR 0x60, 0x35, False),
    (CHR ''~'', 0x35, True), (CHR '','', 0x36, False), (CHR ''<'', 0x36, True),
    (CHR ''.'', 0x37, False), (CHR ''>'', 0x37, True), (CHR ''/'', 0x38, False),
    (CHR ''?'', 0x38, True)]"

definition char_to_hid :: "char \<Rightarrow> (u32 \<times> bool) option" where
  "char_to_hid c =
    (let n = (of_char c :: nat) in
     if 97 \<le> n \<and> n \<le> 122 then Some (0x04 + of_nat (n - 97), False)
     else if 65 \<le> n \<and> n \<le> 90 then Some (0x04 + of_nat (n - 65), True)
     else map_option (\<lambda>(usage, shift). (of_nat usage, shift)) (map_of char_table c))"

definition dom_button_to_proto :: "int \<Rightarrow> int" where
  "dom_button_to_proto dom_button =
    (if dom_button = 0 then 1 else if dom_button = 1 then 3 else if dom_button = 2 then 2 else 0)"

definition modifier_mask :: "bool \<Rightarrow> bool \<Rightarrow> bool \<Rightarrow> bool \<Rightarrow> bool \<Rightarrow> u32" where
  "modifier_mask shift ctrl alt meta caps =
    (let m = 0;
         m = (if shift then m OR mod_SHIFT else m);
         m = (if ctrl then m OR mod_CONTROL else m);
         m = (if alt then m OR mod_ALT else m);
         m = (if meta then m OR mod_META else m);
         m = (if caps then m OR mod_CAPS_LOCK else m)
     in m)"

definition code_table :: "(string \<times> nat) list" where
  "code_table = [
    (''KeyA'', 0x04), (''KeyB'', 0x05), (''KeyC'', 0x06), (''KeyD'', 0x07),
    (''KeyE'', 0x08), (''KeyF'', 0x09), (''KeyG'', 0x0A), (''KeyH'', 0x0B),
    (''KeyI'', 0x0C), (''KeyJ'', 0x0D), (''KeyK'', 0x0E), (''KeyL'', 0x0F),
    (''KeyM'', 0x10), (''KeyN'', 0x11), (''KeyO'', 0x12), (''KeyP'', 0x13),
    (''KeyQ'', 0x14), (''KeyR'', 0x15), (''KeyS'', 0x16), (''KeyT'', 0x17),
    (''KeyU'', 0x18), (''KeyV'', 0x19), (''KeyW'', 0x1A), (''KeyX'', 0x1B),
    (''KeyY'', 0x1C), (''KeyZ'', 0x1D), (''Digit1'', 0x1E), (''Digit2'', 0x1F),
    (''Digit3'', 0x20), (''Digit4'', 0x21), (''Digit5'', 0x22), (''Digit6'', 0x23),
    (''Digit7'', 0x24), (''Digit8'', 0x25), (''Digit9'', 0x26), (''Digit0'', 0x27),
    (''Enter'', 0x28), (''Escape'', 0x29), (''Backspace'', 0x2A), (''Tab'', 0x2B),
    (''Space'', 0x2C), (''Minus'', 0x2D), (''Equal'', 0x2E), (''BracketLeft'', 0x2F),
    (''BracketRight'', 0x30), (''Backslash'', 0x31), (''Semicolon'', 0x33),
    (''Quote'', 0x34), (''Backquote'', 0x35), (''Comma'', 0x36), (''Period'', 0x37),
    (''Slash'', 0x38), (''CapsLock'', 0x39), (''F1'', 0x3A), (''F2'', 0x3B),
    (''F3'', 0x3C), (''F4'', 0x3D), (''F5'', 0x3E), (''F6'', 0x3F), (''F7'', 0x40),
    (''F8'', 0x41), (''F9'', 0x42), (''F10'', 0x43), (''F11'', 0x44), (''F12'', 0x45),
    (''PrintScreen'', 0x46), (''ScrollLock'', 0x47), (''Pause'', 0x48), (''Insert'', 0x49),
    (''Home'', 0x4A), (''PageUp'', 0x4B), (''Delete'', 0x4C), (''End'', 0x4D),
    (''PageDown'', 0x4E), (''ArrowRight'', 0x4F), (''ArrowLeft'', 0x50),
    (''ArrowDown'', 0x51), (''ArrowUp'', 0x52), (''ControlLeft'', 0xE0),
    (''ShiftLeft'', 0xE1), (''AltLeft'', 0xE2), (''MetaLeft'', 0xE3),
    (''ControlRight'', 0xE4), (''ShiftRight'', 0xE5), (''AltRight'', 0xE6),
    (''MetaRight'', 0xE7)]"

definition code_to_hid :: "string \<Rightarrow> u32 option" where
  "code_to_hid code = map_option of_nat (map_of code_table code)"

section \<open>The tables agree with the hosts'\<close>

lemma code_keys_distinct: "distinct (map fst code_table)" "distinct (map snd code_table)"
  by code_simp+

lemma code_reaches_table:
  "list_all (\<lambda>(c, h). h < 256 \<and> map_of macos_table h \<noteq> None \<and> map_of evdev_table h \<noteq> None) code_table"
  by code_simp

lemma map_of_inj_snd:
  assumes "distinct (map snd xs)" "map_of xs a = Some v" "map_of xs b = Some v"
  shows "a = b"
  using map_of_SomeD [OF assms(2)] map_of_SomeD [OF assms(3)] assms(1)
  by (metis distinct_map inj_onD prod.inject snd_conv)

lemma code_lookup:
  assumes "code_to_hid c = Some h"
  obtains n where "map_of code_table c = Some n" "h = of_nat n" "n < 256" "unat h = n"
proof -
  obtain n where n: "map_of code_table c = Some n" "h = of_nat n" using assms by (auto simp: code_to_hid_def)
  have "n < 256" using map_of_SomeD [OF n(1)] code_reaches_table by (auto simp: list_all_iff)
  then have "unat h = n" using n(2) by (simp add: unat_of_nat take_bit_nat_eq_self)
  then show thesis using that n \<open>n < 256\<close> by blast
qed

text \<open>C38: Every key that the browser viewer sends is a key on every host: each key code of the table
  has a HID usage that the macOS, uinput and X11 injectors all map, and different key codes have
  different usages, so no two keys become one.\<close>

theorem browser_keys_reach_hosts:
  assumes "code_to_hid c = Some h"
  shows "hid_to_macos h \<noteq> None \<and> hid_to_evdev h \<noteq> None \<and> hid_to_x_keycode h \<noteq> None
    \<and> (\<forall>c'. code_to_hid c' = Some h \<longrightarrow> c' = c)"
proof -
  obtain n where n: "map_of code_table c = Some n" "h = of_nat n" "unat h = n" using code_lookup [OF assms] by blast
  have t: "map_of macos_table n \<noteq> None" "map_of evdev_table n \<noteq> None"
    using map_of_SomeD [OF n(1)] code_reaches_table by (auto simp: list_all_iff)
  have "hid_to_evdev h \<noteq> None" using t(2) n(3) by (simp add: hid_to_evdev_def)
  moreover from this have "hid_to_x_keycode h \<noteq> None" using x_keycode_exact by fastforce
  moreover have "c' = c" if c': "code_to_hid c' = Some h" for c'
  proof -
    obtain n' where "map_of code_table c' = Some n'" "unat h = n'" using code_lookup [OF c'] by blast
    then show ?thesis using map_of_inj_snd [OF code_keys_distinct(2)] n(1,3) by blast
  qed
  ultimately show ?thesis using t(1) n(3) by (simp add: hid_to_macos_def)
qed

lemma browser_keys_reach_hosts_witness: "hid_to_macos 0x04 \<noteq> None \<and> hid_to_x_keycode 0x04 \<noteq> None"
proof -
  have "code_to_hid ''KeyA'' = Some 0x04" by (simp add: code_to_hid_def code_table_def)
  from browser_keys_reach_hosts [OF this] show ?thesis by blast
qed

text \<open>The Linux injectors take nothing from the modifier mask of a key event, so a key that carries
  its Shift there only is injected without it.\<close>

lemma linux_ignores_mask:
  "uinput_inject (key h p m) u = uinput_inject (key h p 0) u"
  "x11_inject (key h p m) x = x11_inject (key h p 0) x"
  by (simp_all add: key_def)

end
