(* ===== verification/ViewerApp.thy ===== *)
theory ViewerApp
  imports Viewer Account WebInput
begin

text \<open>
  The desktop viewer application (\<open>apps/viewer/src/main.rs\<close>): its screens and what the
  buttons of each do, the background jobs, starting and leaving a session, what a session's
  updates do, and the translation of window events into input.  What lies outside - the HTTP client,
  the signaling and session start, the code generator, the clock - is \<open>app_env\<close> or comes with an
  event; a session is the list of commands given to it.  The drawing (egui, wgpu) is left out
  but for the letterbox.
\<close>

section \<open>Helpers\<close>

definition ELL :: string where "ELL = map char_of [0xE2 :: nat, 0x80, 0xA6]"
definition CHECK :: string where "CHECK = map char_of [0xE2 :: nat, 0x9C, 0x93]"
definition DASH :: string where "DASH = map char_of [0xE2 :: nat, 0x80, 0x94]"

definition va_config_dir :: "string option \<Rightarrow> string option \<Rightarrow> string" where
  "va_config_dir xdg home =
    (case xdg of Some x \<Rightarrow> x @ ''/rmd'' | None \<Rightarrow> (case home of Some h \<Rightarrow> h @ ''/.config/rmd'' | None \<Rightarrow> ''.rmd''))"

text \<open>The loop of \<open>human_bytes\<close>, the value exact and shown with one decimal, ties to even.\<close>

fun human_scale :: "nat \<Rightarrow> rat \<Rightarrow> nat \<Rightarrow> rat \<times> nat" where
  "human_scale 0 v u = (v, u)"
| "human_scale (Suc n) v u = (if 1024 \<le> v then human_scale n (v / 1024) (Suc u) else (v, u))"

definition round_half_even :: "rat \<Rightarrow> nat" where
  "round_half_even r = (let f = nat \<lfloor>r\<rfloor>; d = r - of_nat f
     in if d < 1/2 then f else if 1/2 < d then Suc f else if even f then f else Suc f)"

definition human_bytes :: "nat \<Rightarrow> string" where
  "human_bytes n =
    (case human_scale 4 (of_nat n) 0 of
       (v, u) \<Rightarrow> if u = 0 then show_nat n @ '' B''
                 else (let t = round_half_even (v * 10)
                       in show_nat (t div 10) @ ''.'' @ show_nat (t mod 10) @ '' '' @ [''B'', ''KB'', ''MB'', ''GB'', ''TB''] ! u))"

definition ws_base :: "string \<Rightarrow> string" where
  "ws_base server_url =
    (let s0 = trim_end_char CHR ''/'' (trim server_url);
         s = (case strip_suffix ''/ws'' s0 of Some r \<Rightarrow> r | None \<Rightarrow> s0)
     in case strip_prefix ''https://'' s of
          Some rest \<Rightarrow> ''wss://'' @ rest
        | None \<Rightarrow>
            (case strip_prefix ''http://'' s of
               Some rest \<Rightarrow> ''ws://'' @ rest
             | None \<Rightarrow> if starts_with ''ws://'' s \<or> starts_with ''wss://'' s then s else ''wss://'' @ s))"

text \<open>A slice of a \<open>str\<close> panics inside a character: None.\<close>

definition char_boundary :: "nat \<Rightarrow> string \<Rightarrow> bool" where
  "char_boundary i s = (i = 0 \<or> i = length s \<or> (i < length s \<and> \<not> (0x80 \<le> (of_char (s ! i) :: nat) \<and> (of_char (s ! i) :: nat) < 0xC0)))"

definition short :: "string \<Rightarrow> string option" where
  "short s =
    (if length s \<le> 20 then Some s
     else if char_boundary 12 s \<and> char_boundary (length s - 6) s
     then Some (take 12 s @ ELL @ drop (length s - 6) s) else None)"

definition fmt_last_seen :: "int \<Rightarrow> int option \<Rightarrow> string" where
  "fmt_last_seen now ts =
    (case ts of
       None \<Rightarrow> ''never''
     | Some t \<Rightarrow>
         let secs = nat (max (now - t) 0)
         in if secs < 60 then show_nat secs @ ''s ago''
            else if secs < 3600 then show_nat (secs div 60) @ ''m ago''
            else if secs < 86400 then show_nat (secs div 3600) @ ''h ago''
            else show_nat (secs div 86400) @ ''d ago'')"

definition letterbox_scale :: "nat \<Rightarrow> nat \<Rightarrow> nat \<Rightarrow> nat \<Rightarrow> rat \<times> rat" where
  "letterbox_scale win_w win_h img_w img_h =
    (let win_aspect = of_nat win_w / of_nat (max win_h 1);
         img_aspect = of_nat img_w / of_nat (max img_h 1)
     in if win_aspect > img_aspect then (img_aspect / win_aspect, 1) else (1, win_aspect / img_aspect))"

datatype winit_button = WbLeft | WbRight | WbMiddle | WbOther

fun map_mouse_button :: "winit_button \<Rightarrow> int option" where
  "map_mouse_button WbLeft = Some 1"
| "map_mouse_button WbRight = Some 2"
| "map_mouse_button WbMiddle = Some 3"
| "map_mouse_button WbOther = None"

definition map_modifiers :: "bool \<Rightarrow> bool \<Rightarrow> bool \<Rightarrow> bool \<Rightarrow> u32" where
  "map_modifiers shift ctrl alt super =
    (let m = 0;
         m = (if shift then m OR mod_SHIFT else m);
         m = (if ctrl then m OR mod_CONTROL else m);
         m = (if alt then m OR mod_ALT else m)
     in if super then m OR mod_META else m)"

text \<open>winit's key codes by name.\<close>

definition winit_table :: "(string \<times> nat) list" where
  "winit_table = [
    (''KeyA'', 0x04), (''KeyB'', 0x05), (''KeyC'', 0x06), (''KeyD'', 0x07),
    (''KeyE'', 0x08), (''KeyF'', 0x09), (''KeyG'', 0x0A), (''KeyH'', 0x0B),
    (''KeyI'', 0x0C), (''KeyJ'', 0x0D), (''KeyK'', 0x0E), (''KeyL'', 0x0F),
    (''KeyM'', 0x10), (''KeyN'', 0x11), (''KeyO'', 0x12), (''KeyP'', 0x13),
    (''KeyQ'', 0x14), (''KeyR'', 0x15), (''KeyS'', 0x16), (''KeyT'', 0x17),
    (''KeyU'', 0x18), (''KeyV'', 0x19), (''KeyW'', 0x1A), (''KeyX'', 0x1B),
    (''KeyY'', 0x1C), (''KeyZ'', 0x1D), (''Digit1'', 0x1E), (''Digit2'', 0x1F),
    (''Digit3'', 0x20), (''Digit4'', 0x21), (''Digit5'', 0x22), (''Digit6'', 0x23),
    (''Digit7'', 0x24), (''Digit8'', 0x25), (''Digit9'', 0x26), (''Digit0'', 0x27),
    (''Enter'', 0x28), (''Escape'', 0x29), (''Backspace'', 0x2A), (''Tab'', 0x2B),
    (''Space'', 0x2C), (''Minus'', 0x2D), (''Equal'', 0x2E), (''BracketLeft'', 0x2F),
    (''BracketRight'', 0x30), (''Backslash'', 0x31), (''Semicolon'', 0x33),
    (''Quote'', 0x34), (''Backquote'', 0x35), (''Comma'', 0x36), (''Period'', 0x37),
    (''Slash'', 0x38), (''CapsLock'', 0x39), (''F1'', 0x3A), (''F2'', 0x3B),
    (''F3'', 0x3C), (''F4'', 0x3D), (''F5'', 0x3E), (''F6'', 0x3F), (''F7'', 0x40),
    (''F8'', 0x41), (''F9'', 0x42), (''F10'', 0x43), (''F11'', 0x44), (''F12'', 0x45),
    (''Home'', 0x4A), (''PageUp'', 0x4B), (''Delete'', 0x4C), (''End'', 0x4D),
    (''PageDown'', 0x4E), (''ArrowRight'', 0x4F), (''ArrowLeft'', 0x50),
    (''ArrowDown'', 0x51), (''ArrowUp'', 0x52), (''ControlLeft'', 0xE0),
    (''ShiftLeft'', 0xE1), (''AltLeft'', 0xE2), (''SuperLeft'', 0xE3),
    (''ControlRight'', 0xE4), (''ShiftRight'', 0xE5), (''AltRight'', 0xE6),
    (''SuperRight'', 0xE7)]"

definition winit_keycode_to_hid :: "string \<Rightarrow> u32 option" where
  "winit_keycode_to_hid code = map_option of_nat (map_of winit_table code)"

section \<open>State\<close>

datatype screen = Login | Devices | Connecting | InSession | PairScreen

datatype trust = FirstUse | Trusted | Changed

datatype connecting = Confirm trust | Establishing | NeedPassword bool

text \<open>A background job by what its closure asks, and its result.\<close>

datatype job_request =
    AskSignIn string string | AskRegister string string | AskDevices | AskThisDevice | AskDelete string | AskPair string string

datatype job =
    SignedIn "string + device_info list"
  | Registered "string + unit"
  | DevicesJob "string + device_info list"
  | ThisDevice "string + string"
  | Deleted "string + string"
  | Paired "string + string \<times> string \<times> string"

datatype session_cmd =
    SendInput input_event | SendFile string | SubmitPassword string | SendPing | RequestKeyframe | SelectDisplay u32

datatype viewer_signaling = VsRendezvous string string string | VsLan string

record session =
  vs_cfg :: viewer_config
  vs_signaling :: viewer_signaling
  vs_cmds :: "session_cmd list"

record app_env =
  ax_crypto :: crypto
  ax_ice :: "string \<Rightarrow> string \<Rightarrow> string + ice_server list"
  ax_connect :: "viewer_signaling \<Rightarrow> string option"
  ax_start :: "viewer_config \<Rightarrow> string option"
  ax_env :: "string \<Rightarrow> string option"

record viewer_app =
  va_screen :: screen
  va_server :: string
  va_user :: string
  va_pass :: string
  va_account :: "string option"
  va_creds :: "(string \<times> string) option"
  va_devices :: "device_info list"
  va_identity :: identity
  va_this_id :: string
  va_name :: string
  va_token :: "string option"
  va_peers :: string
  va_disk :: disk
  va_ice :: "ice_server list"
  va_pair_code :: string
  va_pair_generated :: bool
  va_pair_status :: "string option"
  va_bind :: string
  va_selected :: "device_info option"
  va_conn :: connecting
  va_session :: "session option"
  va_paired :: "bool option"
  va_host_pw :: string
  va_pw_submitted :: bool
  va_verified :: "bool option"
  va_latency :: "u64 option"
  va_last_ping :: nat
  va_view_only :: bool
  va_hud :: bool
  va_file_status :: "string option"
  va_displays :: "display_descriptor list"
  va_active :: u32
  va_audio :: bool
  va_mods :: u32
  va_cursor :: "f64 \<times> f64"
  va_job :: "job_request option"
  va_busy :: "string option"
  va_error :: "string option"
  va_info :: "string option"
  va_fullscreen :: bool

section \<open>The session's life\<close>

definition home_screen :: "viewer_app \<Rightarrow> screen" where
  "home_screen s = (if va_account s \<noteq> None then Devices else Login)"

definition leave_session :: "viewer_app \<Rightarrow> viewer_app" where
  "leave_session s = s\<lparr>va_session := None, va_selected := None, va_paired := None, va_verified := None, va_latency := None,
     va_view_only := False, va_hud := True, va_file_status := None, va_displays := [], va_active := 0,
     va_fullscreen := False, va_screen := home_screen s\<rparr>"

definition start_session :: "app_env \<Rightarrow> nat \<Rightarrow> viewer_signaling \<Rightarrow> viewer_app \<Rightarrow> viewer_app" where
  "start_session ax now sg s =
    (let ice = va_ice s @
           (case (va_account s, va_token s) of
              (Some account, Some token) \<Rightarrow> (case ax_ice ax account token of Inr fetched \<Rightarrow> fetched | Inl e \<Rightarrow> [])
            | _ \<Rightarrow> []);
         cfg = \<lparr> vc_device_name = va_name s, vc_ice_servers = ice, vc_bind_addr = va_bind s,
                 vc_enable_audio = va_audio s, vc_identity = Some (va_identity s) \<rparr>
     in case ax_start ax cfg of
          None \<Rightarrow> s\<lparr>va_session := Some \<lparr> vs_cfg = cfg, vs_signaling = sg, vs_cmds = [] \<rparr>, va_paired := None,
                    va_host_pw := [], va_pw_submitted := False, va_latency := None, va_last_ping := now,
                    va_conn := Establishing, va_screen := Connecting, va_error := None\<rparr>
        | Some e \<Rightarrow> leave_session (s\<lparr>va_error := Some (''failed to start session: '' @ e)\<rparr>))"

definition peer_key :: "string \<Rightarrow> viewer_app \<Rightarrow> string option \<times> viewer_app" where
  "peer_key dev s = (case kp_get (va_peers s) dev (va_disk s) of (k, d) \<Rightarrow> (k, s\<lparr>va_disk := d\<rparr>))"

text \<open>\<open>checked_mul\<close> at 64 bits, \<open>checked_div\<close>.\<close>

definition percent :: "nat \<Rightarrow> nat \<Rightarrow> nat" where
  "percent transferred whole = (if transferred * 100 < 2 ^ 64 \<and> whole \<noteq> 0 then transferred * 100 div whole else 0)"

fun file_status :: "file_event \<Rightarrow> string" where
  "file_status (Offered i name n) = ''receiving '' @ name @ '' ('' @ human_bytes n @ '')''"
| "file_status (Progress i t n) = ''transfer '' @ show_nat (percent t n) @ ''%''"
| "file_status (Completed i (Some p)) = ''received '' @ p"
| "file_status (Completed i None) = ''file sent''"
| "file_status (file_event.Failed i reason) = ''transfer failed: '' @ reason"

definition check_host :: "crypto \<Rightarrow> bytes \<Rightarrow> string \<Rightarrow> bool \<Rightarrow> viewer_app \<Rightarrow> viewer_app" where
  "check_host cx pk dev verified s =
    (case peer_key dev s of
       (pin, s1) \<Rightarrow>
         let dialed_ok = (case va_selected s1 of Some h \<Rightarrow> di_device_id h = dev | None \<Rightarrow> False);
             pin_ok = (pin = Some (cx_hex cx pk));
             ok = (verified \<and> dialed_ok \<and> pin_ok);
             s2 = s1\<lparr>va_verified := Some ok\<rparr>
         in if ok then s2
            else leave_session (s2\<lparr>va_error := Some (''host verification failed ('' @
                   (if \<not> verified then ''proof invalid''
                    else if \<not> dialed_ok then ''identity does not match the device you selected''
                    else ''key does not match the one pinned for this host'')
                   @ '') '' @ DASH @ '' refusing (possible MITM)'')\<rparr>))"

fun handle_session_update :: "app_env \<Rightarrow> viewer_update \<Rightarrow> viewer_app \<Rightarrow> viewer_app" where
  "handle_session_update ax (VuFrame f) s = s"
| "handle_session_update ax VuConnected s = s\<lparr>va_screen := InSession\<rparr>"
| "handle_session_update ax (VuPaired accepted) s =
     (if accepted then s\<lparr>va_paired := Some True, va_screen := InSession\<rparr>
      else leave_session (s\<lparr>va_paired := Some False, va_error := Some ''host rejected pairing (protocol version mismatch)''\<rparr>))"
| "handle_session_update ax (VuPasswordRequired reason) s =
     s\<lparr>va_host_pw := [], va_conn := NeedPassword (va_pw_submitted s), va_screen := Connecting\<rparr>"
| "handle_session_update ax (VuHostIdentity pk dev verified) s = check_host (ax_crypto ax) pk dev verified s"
| "handle_session_update ax (VuLatency rtt) s = s\<lparr>va_latency := Some rtt\<rparr>"
| "handle_session_update ax (VuFile ev) s = s\<lparr>va_file_status := Some (file_status ev)\<rparr>"
| "handle_session_update ax (VuDisplays ds) s = s\<lparr>va_displays := ds\<rparr>"
| "handle_session_update ax VuDisconnected s =
     leave_session (if va_screen s = InSession then s\<lparr>va_info := Some ''session ended (host disconnected)''\<rparr>
                    else s\<lparr>va_error := Some ''disconnected before the session was established''\<rparr>)"

text \<open>The updates are drained while there is a session.\<close>

fun drain_updates :: "app_env \<Rightarrow> viewer_update list \<Rightarrow> viewer_app \<Rightarrow> viewer_app" where
  "drain_updates ax [] s = s"
| "drain_updates ax (u # us) s = (if va_session s = None then s else drain_updates ax us (handle_session_update ax u s))"

section \<open>Jobs\<close>

definition spawn :: "string \<Rightarrow> job_request \<Rightarrow> viewer_app \<Rightarrow> viewer_app" where
  "spawn label f s =
    (if va_busy s \<noteq> None then s
     else s\<lparr>va_error := None, va_info := None, va_busy := Some label, va_job := Some f\<rparr>)"

definition refresh_devices :: "viewer_app \<Rightarrow> viewer_app" where
  "refresh_devices s =
    (if va_account s \<noteq> None \<and> va_creds s \<noteq> None then spawn (''Loading devices'' @ ELL) AskDevices s else s)"

definition or_empty :: "string option \<Rightarrow> string" where "or_empty s = (case s of Some x \<Rightarrow> x | None \<Rightarrow> [])"

fun apply_job :: "job \<Rightarrow> viewer_app \<Rightarrow> viewer_app" where
  "apply_job (SignedIn (Inr ds)) s = s\<lparr>va_devices := ds, va_screen := Devices, va_info := Some ''signed in'', va_pass := []\<rparr>"
| "apply_job (SignedIn (Inl e)) s = s\<lparr>va_account := None, va_creds := None, va_error := Some e\<rparr>"
| "apply_job (Registered (Inr u)) s = s\<lparr>va_info := Some (''account created '' @ DASH @ '' you can sign in now'')\<rparr>"
| "apply_job (Registered (Inl e)) s = s\<lparr>va_error := Some e\<rparr>"
| "apply_job (DevicesJob (Inr ds)) s = s\<lparr>va_devices := ds\<rparr>"
| "apply_job (DevicesJob (Inl e)) s = s\<lparr>va_error := Some e\<rparr>"
| "apply_job (ThisDevice (Inr token)) s =
     refresh_devices (s\<lparr>va_token := Some token, va_info := Some (''this device is registered '' @ DASH @ '' you can connect'')\<rparr>)"
| "apply_job (ThisDevice (Inl e)) s = s\<lparr>va_error := Some e\<rparr>"
| "apply_job (Deleted (Inr i)) s =
     s\<lparr>va_devices := filter (\<lambda>d. di_device_id d \<noteq> i) (va_devices s), va_info := Some ''device removed''\<rparr>"
| "apply_job (Deleted (Inl e)) s = s\<lparr>va_error := Some e\<rparr>"
| "apply_job (Paired (Inr (dev, pk, name))) s =
     (case trust_on_first_use (va_peers s) dev pk (va_disk s) of
        (t, d) \<Rightarrow>
          if t = TofuNew \<or> t = TofuKnown
          then s\<lparr>va_disk := d, va_pair_status := Some (CHECK @ '' paired with '' @ name @ '' ('' @ or_empty (short dev) @ '')''),
                 va_info := Some (''paired with '' @ name)\<rparr>
          else s\<lparr>va_disk := d, va_pair_status := Some ''paired, but pinning failed''\<rparr>)"
| "apply_job (Paired (Inl e)) s = s\<lparr>va_pair_status := Some (''pairing failed: '' @ e)\<rparr>"

text \<open>What a job can answer.  (The identifier of a paired peer is a hexadecimal digest, whose slices do
  not panic.)\<close>

fun job_answers :: "job_request \<Rightarrow> job \<Rightarrow> bool" where
  "job_answers (AskSignIn u p) (SignedIn r) = True"
| "job_answers (AskRegister u p) (Registered r) = True"
| "job_answers AskDevices (DevicesJob r) = True"
| "job_answers AskThisDevice (ThisDevice r) = True"
| "job_answers (AskDelete i) (Deleted r) = (case r of Inr j \<Rightarrow> j = i | Inl e \<Rightarrow> True)"
| "job_answers (AskPair b c) (Paired r) = True"
| "job_answers _ _ = False"

definition poll_job :: "job option \<Rightarrow> viewer_app \<Rightarrow> viewer_app" where
  "poll_job r s =
    (case (va_job s, r) of
       (Some f, Some j) \<Rightarrow> if job_answers f j then apply_job j (s\<lparr>va_job := None, va_busy := None\<rparr>) else s
     | _ \<Rightarrow> s)"

section \<open>Actions\<close>

definition action_sign_in :: "viewer_app \<Rightarrow> viewer_app" where
  "action_sign_in s =
    (let user = trim (va_user s); pass = va_pass s
     in if user = [] \<or> pass = [] then s\<lparr>va_error := Some ''enter a username and password''\<rparr>
        else spawn (''Signing in'' @ ELL) (AskSignIn user pass)
               (s\<lparr>va_account := Some (new_base (trim (va_server s))), va_creds := Some (user, pass)\<rparr>))"

definition action_create_account :: "viewer_app \<Rightarrow> viewer_app" where
  "action_create_account s =
    (let user = trim (va_user s); pass = va_pass s
     in if user = [] \<or> length pass < 8 then s\<lparr>va_error := Some ''username required; password must be at least 8 characters''\<rparr>
        else spawn (''Creating account'' @ ELL) (AskRegister user pass) s)"

definition action_register_this_device :: "viewer_app \<Rightarrow> viewer_app" where
  "action_register_this_device s =
    (if va_account s \<noteq> None \<and> va_creds s \<noteq> None then spawn (''Registering this device'' @ ELL) AskThisDevice s else s)"

definition action_delete_device :: "string \<Rightarrow> viewer_app \<Rightarrow> viewer_app" where
  "action_delete_device i s =
    (if va_account s \<noteq> None \<and> va_creds s \<noteq> None then spawn (''Removing device'' @ ELL) (AskDelete i) s else s)"

definition action_sign_out :: "viewer_app \<Rightarrow> viewer_app" where
  "action_sign_out s = s\<lparr>va_account := None, va_creds := None, va_devices := [], va_token := None, va_pass := [], va_screen := Login\<rparr>"

definition action_begin_connect :: "device_info \<Rightarrow> viewer_app \<Rightarrow> viewer_app" where
  "action_begin_connect host s =
    (case peer_key (di_device_id host) s of
       (k, s1) \<Rightarrow>
         s1\<lparr>va_selected := Some host,
            va_conn := Confirm (case k of None \<Rightarrow> FirstUse | Some k \<Rightarrow> if k = di_public_key host then Trusted else Changed),
            va_screen := Connecting, va_error := None, va_info := None\<rparr>)"

definition action_confirm_connect :: "app_env \<Rightarrow> nat \<Rightarrow> viewer_app \<Rightarrow> viewer_app" where
  "action_confirm_connect ax now s =
    (case (va_selected s, va_account s, va_token s) of
       (Some host, Some account, Some token) \<Rightarrow>
         (case trust_on_first_use (va_peers s) (di_device_id host) (di_public_key host) (va_disk s) of
            (t, d) \<Rightarrow>
              let s1 = s\<lparr>va_disk := d\<rparr>
              in if t = TofuMismatch \<or> t = TofuIo
                 then leave_session (s1\<lparr>va_error := Some ''the identity key changed or could not be stored''\<rparr>)
                 else
                   let sg = VsRendezvous (account_ws_url account) token (di_device_id host)
                   in (case ax_connect ax sg of
                         None \<Rightarrow> start_session ax now sg s1
                       | Some e \<Rightarrow> leave_session (s1\<lparr>va_error := Some (''could not open signaling: '' @ e)\<rparr>)))
     | _ \<Rightarrow> leave_session (s\<lparr>va_error := Some ''register this device to get a token before connecting''\<rparr>))"

definition give :: "session_cmd \<Rightarrow> viewer_app \<Rightarrow> viewer_app" where
  "give c s = s\<lparr>va_session := map_option (\<lambda>x. x\<lparr>vs_cmds := vs_cmds x @ [c]\<rparr>) (va_session s)\<rparr>"

definition action_submit_host_password :: "viewer_app \<Rightarrow> viewer_app" where
  "action_submit_host_password s =
    (if va_host_pw s = [] then s
     else (give (SubmitPassword (va_host_pw s)) s)\<lparr>va_host_pw := [], va_pw_submitted := True, va_conn := Establishing\<rparr>)"

definition open_pairing :: "viewer_app \<Rightarrow> viewer_app" where
  "open_pairing s = s\<lparr>va_pair_code := [], va_pair_generated := False, va_pair_status := None, va_screen := PairScreen\<rparr>"

definition start_pairing :: "viewer_app \<Rightarrow> viewer_app" where
  "start_pairing s =
    (let code = trim (va_pair_code s)
     in if code = [] then s\<lparr>va_pair_status := Some ''enter or generate a code first''\<rparr>
        else spawn ''pairing'' (AskPair (ws_base (va_server s)) code)
               (s\<lparr>va_pair_status := Some (''waiting for the other device'' @ ELL)\<rparr>))"

section \<open>The screens\<close>

text \<open>What the user can do, an edit being a field's new contents.\<close>

datatype click =
    EditLogin string string string | SignInButton | CreateButton | PairDirect
  | SignOut | Refresh | RegisterButton | Connect device_info | Delete string
  | Generate "string + string" | EditCode string | PairButton | PairBack
  | ConfirmButton | CancelButton | EditHostPassword string | SubmitButton
  | SetViewOnly bool | PickDisplay u32 | Fullscreen | DisconnectButton | DismissError | DismissInfo

definition connectable :: "viewer_app \<Rightarrow> device_info \<Rightarrow> bool" where
  "connectable s d \<longleftrightarrow> d \<in> set (va_devices s) \<and> is_connectable d \<and> di_device_id d \<noteq> va_this_id s
     \<and> va_token s \<noteq> None \<and> va_busy s = None"

fun ui_login :: "click \<Rightarrow> viewer_app \<Rightarrow> viewer_app" where
  "ui_login (EditLogin server user pass) s =
     (if va_busy s = None then s\<lparr>va_server := server, va_user := user, va_pass := pass\<rparr> else s)"
| "ui_login SignInButton s = (if va_busy s = None then action_sign_in s else s)"
| "ui_login CreateButton s = (if va_busy s = None then action_create_account s else s)"
| "ui_login PairDirect s = open_pairing s"
| "ui_login DismissError s = s\<lparr>va_error := None\<rparr>"
| "ui_login DismissInfo s = s\<lparr>va_info := None\<rparr>"
| "ui_login _ s = s"

fun ui_devices :: "click \<Rightarrow> viewer_app \<Rightarrow> viewer_app" where
  "ui_devices SignOut s = action_sign_out s"
| "ui_devices Refresh s = (if va_busy s = None then refresh_devices s else s)"
| "ui_devices PairDirect s = open_pairing s"
| "ui_devices RegisterButton s = (if va_token s = None \<and> va_busy s = None then action_register_this_device s else s)"
| "ui_devices (Connect d) s = (if connectable s d then action_begin_connect d s else s)"
| "ui_devices (Delete i) s = (if i \<in> di_device_id ` set (va_devices s) then action_delete_device i s else s)"
| "ui_devices DismissError s = s\<lparr>va_error := None\<rparr>"
| "ui_devices DismissInfo s = s\<lparr>va_info := None\<rparr>"
| "ui_devices _ s = s"

fun ui_connecting :: "app_env \<Rightarrow> nat \<Rightarrow> click \<Rightarrow> viewer_app \<Rightarrow> viewer_app" where
  "ui_connecting ax now ConfirmButton s =
     (if va_conn s = Confirm FirstUse \<or> va_conn s = Confirm Trusted then action_confirm_connect ax now s else s)"
| "ui_connecting ax now CancelButton s = leave_session s"
| "ui_connecting ax now (EditHostPassword p) s =
     (case va_conn s of NeedPassword retry \<Rightarrow> s\<lparr>va_host_pw := p\<rparr> | _ \<Rightarrow> s)"
| "ui_connecting ax now SubmitButton s =
     (case va_conn s of NeedPassword retry \<Rightarrow> action_submit_host_password s | _ \<Rightarrow> s)"
| "ui_connecting ax now DismissError s = s\<lparr>va_error := None\<rparr>"
| "ui_connecting ax now DismissInfo s = s\<lparr>va_info := None\<rparr>"
| "ui_connecting ax now _ s = s"

fun ui_session :: "click \<Rightarrow> viewer_app \<Rightarrow> viewer_app" where
  "ui_session (SetViewOnly b) s = s\<lparr>va_view_only := b\<rparr>"
| "ui_session (PickDisplay i) s =
     (if 1 < length (va_displays s) \<and> i \<in> d_id ` set (va_displays s) \<and> i \<noteq> va_active s
      then give RequestKeyframe (give (SelectDisplay i) (s\<lparr>va_active := i\<rparr>)) else s)"
| "ui_session Fullscreen s = s\<lparr>va_fullscreen := \<not> va_fullscreen s\<rparr>"
| "ui_session DisconnectButton s = leave_session s"
| "ui_session _ s = s"

fun ui_pair :: "click \<Rightarrow> viewer_app \<Rightarrow> viewer_app" where
  "ui_pair (Generate (Inr c)) s = s\<lparr>va_pair_code := c, va_pair_generated := True, va_pair_status := None\<rparr>"
| "ui_pair (Generate (Inl e)) s = s\<lparr>va_pair_status := Some (''could not generate: '' @ e)\<rparr>"
| "ui_pair (EditCode c) s = s\<lparr>va_pair_code := c\<rparr>"
| "ui_pair PairButton s = (if va_busy s = None then start_pairing s else s)"
| "ui_pair PairBack s = s\<lparr>va_screen := home_screen s\<rparr>"
| "ui_pair _ s = s"

definition build_ui :: "app_env \<Rightarrow> nat \<Rightarrow> click \<Rightarrow> viewer_app \<Rightarrow> viewer_app" where
  "build_ui ax now c s =
    (case va_screen s of
       Login \<Rightarrow> ui_login c s
     | Devices \<Rightarrow> ui_devices c s
     | Connecting \<Rightarrow> ui_connecting ax now c s
     | InSession \<Rightarrow> if va_hud s then ui_session c s else s
     | PairScreen \<Rightarrow> ui_pair c s)"

section \<open>Window events\<close>

definition forwarding_input :: "bool \<Rightarrow> viewer_app \<Rightarrow> bool" where
  "forwarding_input consumed s \<longleftrightarrow> va_screen s = InSession \<and> va_session s \<noteq> None \<and> \<not> va_view_only s \<and> \<not> consumed"

text \<open>The quotient of a finite position is exact; the window's size is at least one by one.\<close>

definition normalize_cursor :: "nat \<times> nat \<Rightarrow> f64 \<times> f64 \<Rightarrow> f64 \<times> f64" where
  "normalize_cursor win p =
    (let by = (\<lambda>v n. f_clamp (f_mul v (Fin (1 / of_nat (max n 1)))) (Fin 0) (Fin 1))
     in (by (fst p) (fst win), by (snd p) (snd win)))"

datatype scroll_delta = LineDelta f64 f64 | PixelDelta f64 f64

datatype window_event =
    CursorMoved "f64 \<times> f64"
  | MouseInput winit_button bool
  | MouseWheel scroll_delta
  | ModifiersChanged bool bool bool bool
  | KeyboardInput string bool
  | DroppedFile string
  | OtherEvent

fun on_window_event :: "nat \<times> nat \<Rightarrow> bool \<Rightarrow> window_event \<Rightarrow> viewer_app \<Rightarrow> viewer_app" where
  "on_window_event win consumed (CursorMoved p) s =
     (let (x, y) = normalize_cursor win p; s1 = s\<lparr>va_cursor := (x, y)\<rparr>
      in if forwarding_input consumed s1 then give (SendInput (MouseMove x y)) s1 else s1)"
| "on_window_event win consumed (MouseInput b pressed) s =
     (case map_mouse_button b of
        Some btn \<Rightarrow> if forwarding_input consumed s
                    then give (SendInput (MouseButton btn pressed (fst (va_cursor s)) (snd (va_cursor s)))) s else s
      | None \<Rightarrow> s)"
| "on_window_event win consumed (MouseWheel (LineDelta x y)) s =
     (if forwarding_input consumed s then give (SendInput (MouseScroll (f_mul x (Fin 10)) (f_mul y (Fin 10)))) s else s)"
| "on_window_event win consumed (MouseWheel (PixelDelta x y)) s =
     (if forwarding_input consumed s then give (SendInput (MouseScroll x y)) s else s)"
| "on_window_event win consumed (ModifiersChanged shift ctrl alt super) s = s\<lparr>va_mods := map_modifiers shift ctrl alt super\<rparr>"
| "on_window_event win consumed (KeyboardInput code pressed) s =
     (if va_screen s = InSession \<and> pressed \<and> code = ''F1'' then s\<lparr>va_hud := \<not> va_hud s\<rparr>
      else if forwarding_input consumed s
      then (case winit_keycode_to_hid code of
              Some hid \<Rightarrow> give (SendInput (KeyEvent hid pressed (va_mods s))) s
            | None \<Rightarrow> s)
      else s)"
| "on_window_event win consumed (DroppedFile path) s =
     (if va_session s \<noteq> None
      then give (SendFile path) (s\<lparr>va_file_status := Some (''sending '' @ base_name path @ ELL)\<rparr>) else s)"
| "on_window_event win consumed OtherEvent s = s"

definition PING_INTERVAL :: nat where "PING_INTERVAL = 1000"

definition about_to_wait :: "app_env \<Rightarrow> nat \<Rightarrow> viewer_update list \<Rightarrow> job option \<Rightarrow> viewer_app \<Rightarrow> viewer_app" where
  "about_to_wait ax now us r s =
    (let s1 = poll_job r (drain_updates ax us s)
     in if va_screen s1 = InSession \<and> PING_INTERVAL \<le> now - va_last_ping s1
        then (give SendPing s1)\<lparr>va_last_ping := now\<rparr> else s1)"

section \<open>The application\<close>

datatype app_event =
    Click click
  | Window "nat \<times> nat" bool window_event
  | Wait "viewer_update list" "job option"

fun app_step :: "app_env \<Rightarrow> nat \<Rightarrow> app_event \<Rightarrow> viewer_app \<Rightarrow> viewer_app" where
  "app_step ax now (Click c) s = build_ui ax now c s"
| "app_step ax now (Window win consumed e) s = on_window_event win consumed e s"
| "app_step ax now (Wait us r) s = about_to_wait ax now us r s"

definition quick_connect_signaling :: "app_env \<Rightarrow> (string + viewer_signaling) option" where
  "quick_connect_signaling ax =
    (let via = (\<lambda>sg. Some (case ax_connect ax sg of None \<Rightarrow> Inr sg | Some e \<Rightarrow> Inl e))
     in case (ax_env ax ''RMD_TOKEN'', ax_env ax ''RMD_PEER_DEVICE_ID'') of
          (Some token, Some peer) \<Rightarrow>
            via (VsRendezvous (case ax_env ax ''RMD_RENDEZVOUS_URL'' of Some u \<Rightarrow> u | None \<Rightarrow> ''wss://app.reachmy.dev/ws'') token peer)
        | _ \<Rightarrow> (case ax_env ax ''RMD_SIGNAL_ADDR'' of Some addr \<Rightarrow> via (VsLan addr) | None \<Rightarrow> None))"

definition DEFAULT_SERVER :: string where "DEFAULT_SERVER = ''https://app.reachmy.dev''"

text \<open>\<open>App::new\<close> on the identity that was loaded, or an ephemeral one with the error.\<close>

definition app_fresh :: "app_env \<Rightarrow> string \<Rightarrow> disk \<Rightarrow> identity \<Rightarrow> string option \<Rightarrow> nat \<Rightarrow> viewer_app" where
  "app_fresh ax dir d i err now = \<lparr> va_screen = Login,
     va_server = (case ax_env ax ''RMD_RENDEZVOUS_URL'' of Some u \<Rightarrow> if starts_with ''http'' u then u else DEFAULT_SERVER | None \<Rightarrow> DEFAULT_SERVER),
     va_user = [], va_pass = [], va_account = None, va_creds = None, va_devices = [], va_identity = i,
     va_this_id = device_id (ax_crypto ax) i,
     va_name = (case ax_env ax ''RMD_NAME'' of Some n \<Rightarrow> n | None \<Rightarrow> ''rmd-viewer''),
     va_token = None, va_peers = dir @ ''/known_peers'', va_disk = d,
     va_ice = (case ax_env ax ''RMD_ICE'' of
                 Some s \<Rightarrow> map (\<lambda>u. ice_server_urls [u]) (filter (\<lambda>x. x \<noteq> []) (map trim (split_on CHR '','' s)))
               | None \<Rightarrow> []),
     va_pair_code = [], va_pair_generated = False, va_pair_status = None,
     va_bind = (case ax_env ax ''RMD_BIND'' of Some a \<Rightarrow> a | None \<Rightarrow> ''0.0.0.0:0''),
     va_selected = None, va_conn = Establishing, va_session = None, va_paired = None, va_host_pw = [],
     va_pw_submitted = False, va_verified = None, va_latency = None, va_last_ping = now, va_view_only = False,
     va_hud = True, va_file_status = None, va_displays = [], va_active = 0, va_audio = (ax_env ax ''RMD_AUDIO'' \<noteq> None),
     va_mods = 0, va_cursor = (Fin 0, Fin 0), va_job = None, va_busy = None,
     va_error = map_option (\<lambda>e. ''could not load identity: '' @ e @ '' (using ephemeral)'') err, va_info = None,
     va_fullscreen = False \<rparr>"

definition app_new :: "app_env \<Rightarrow> string \<Rightarrow> disk \<Rightarrow> identity \<Rightarrow> string option \<Rightarrow> nat \<Rightarrow> viewer_app" where
  "app_new ax dir d i err now =
    (let s = app_fresh ax dir d i err now
     in case quick_connect_signaling ax of
          Some (Inr sg) \<Rightarrow> start_session ax now sg (s\<lparr>va_screen := Connecting, va_conn := Establishing\<rparr>)
        | Some (Inl e) \<Rightarrow> s\<lparr>va_error := Some (''quick-connect failed: '' @ e)\<rparr>
        | None \<Rightarrow> s)"

definition app_run :: "app_env \<Rightarrow> (nat \<times> app_event) list \<Rightarrow> viewer_app \<Rightarrow> viewer_app" where
  "app_run ax es s = fold (\<lambda>(now, e). app_step ax now e) es s"

section \<open>Screens and sessions\<close>

definition app_ok :: "viewer_app \<Rightarrow> bool" where
  "app_ok s \<longleftrightarrow> (va_job s = None \<longleftrightarrow> va_busy s = None)
     \<and> (va_screen s \<in> {Connecting, InSession} \<longrightarrow> va_job s = None)
     \<and> (va_session s \<noteq> None \<longrightarrow> va_screen s \<in> {Connecting, InSession})
     \<and> (va_screen s = InSession \<longrightarrow> va_session s \<noteq> None)
     \<and> (va_screen s = Connecting \<and> va_session s = None \<longrightarrow> va_selected s \<noteq> None \<and> (\<exists>t. va_conn s = Confirm t))"

lemma app_ok_leave: "va_job s = None \<longleftrightarrow> va_busy s = None \<Longrightarrow> app_ok (leave_session s)"
  by (simp add: app_ok_def leave_session_def home_screen_def)

lemma app_ok_start: "va_job s = None \<Longrightarrow> va_busy s = None \<Longrightarrow> app_ok (start_session ax now sg s)"
  by (simp add: start_session_def Let_def app_ok_def leave_session_def home_screen_def split: option.split)

lemma leave_simps [simp]: "va_session (leave_session s) = None" "va_verified (leave_session s) = None"
  by (simp_all add: leave_session_def)

lemma app_ok_give [simp]: "app_ok (give c s) = app_ok s"
  by (simp add: app_ok_def give_def)

lemma peer_key_eq:
  "peer_key dev s = (fst (kp_get (va_peers s) dev (va_disk s)), s\<lparr>va_disk := snd (kp_get (va_peers s) dev (va_disk s))\<rparr>)"
  by (simp add: peer_key_def split: prod.split)

text \<open>What a report of the host's identity must be for the session to go on.\<close>

definition host_ok :: "crypto \<Rightarrow> bytes \<Rightarrow> string \<Rightarrow> bool \<Rightarrow> viewer_app \<Rightarrow> bool" where
  "host_ok cx pk dev verified s \<longleftrightarrow> verified \<and> (\<exists>h. va_selected s = Some h \<and> di_device_id h = dev)
     \<and> fst (kp_get (va_peers s) dev (va_disk s)) = Some (cx_hex cx pk)"

lemma check_host_good:
  "host_ok cx pk dev verified s \<Longrightarrow> check_host cx pk dev verified s
     = s\<lparr>va_disk := snd (kp_get (va_peers s) dev (va_disk s)), va_verified := Some True\<rparr>"
  by (auto simp: check_host_def host_ok_def peer_key_eq)

lemma check_host_bad:
  "\<not> host_ok cx pk dev verified s \<Longrightarrow> \<exists>msg. check_host cx pk dev verified s
     = leave_session (s\<lparr>va_disk := snd (kp_get (va_peers s) dev (va_disk s)), va_verified := Some False, va_error := Some msg\<rparr>)"
  unfolding check_host_def peer_key_eq prod.case Let_def host_ok_def by (cases "va_selected s") auto

lemma app_ok_ping [simp]: "app_ok (s\<lparr>va_last_ping := n\<rparr>) = app_ok s"
  by (simp add: app_ok_def)

lemma app_ok_update:
  assumes "app_ok s" "va_session s \<noteq> None"
  shows "app_ok (handle_session_update ax u s)"
proof -
  have j: "va_job s = None" "va_busy s = None" using assms by (auto simp: app_ok_def)
  show ?thesis
  proof (cases u)
    case (VuHostIdentity pk dev verified)
    then show ?thesis using assms j
      using check_host_good [of "ax_crypto ax" pk dev verified s] check_host_bad [of "ax_crypto ax" pk dev verified s]
      by (cases "host_ok (ax_crypto ax) pk dev verified s") (auto simp: app_ok_leave, simp add: app_ok_def)
  qed (use assms j in \<open>auto simp: app_ok_def leave_session_def home_screen_def\<close>)
qed

lemma app_ok_drain: "app_ok s \<Longrightarrow> app_ok (drain_updates ax us s)"
  by (induction us arbitrary: s) (auto simp: app_ok_update)

lemma app_ok_spawn:
  "app_ok s \<Longrightarrow> va_screen s \<notin> {Connecting, InSession} \<Longrightarrow> app_ok (spawn l f s)"
  by (auto simp: app_ok_def spawn_def)

lemma app_ok_poll:
  assumes "app_ok s" shows "app_ok (poll_job r s)"
proof (cases "va_job s = None \<or> r = None")
  case True
  then show ?thesis using assms by (auto simp: poll_job_def split: option.split)
next
  case False
  then obtain f j where fj: "va_job s = Some f" "r = Some j" by auto
  have scr: "va_screen s \<notin> {Connecting, InSession}" "va_session s = None" using assms fj by (auto simp: app_ok_def)
  let ?s = "s\<lparr>va_job := None, va_busy := None\<rparr>"
  have ok: "app_ok ?s" using assms scr by (auto simp: app_ok_def)
  have "app_ok (apply_job j ?s)"
  proof (cases j)
    case (ThisDevice x)
    then show ?thesis using ok scr by (cases x) (auto simp: app_ok_def refresh_devices_def spawn_def)
  next
    case (Paired x)
    then show ?thesis using ok scr by (cases x) (auto simp: app_ok_def split: prod.split)
  next
    case (SignedIn x)
    then show ?thesis using ok scr by (cases x) (auto simp: app_ok_def)
  next
    case (Registered x)
    then show ?thesis using ok scr by (cases x) (auto simp: app_ok_def)
  next
    case (DevicesJob x)
    then show ?thesis using ok scr by (cases x) (auto simp: app_ok_def)
  next
    case (Deleted x)
    then show ?thesis using ok scr by (cases x) (auto simp: app_ok_def)
  qed
  then show ?thesis using assms fj by (simp add: poll_job_def)
qed

lemma app_ok_confirm:
  assumes "app_ok s" "va_screen s = Connecting"
  shows "app_ok (action_confirm_connect ax now s)"
proof -
  have j: "va_job s = None" "va_busy s = None" using assms by (auto simp: app_ok_def)
  then show ?thesis
    by (auto simp: action_confirm_connect_def Let_def app_ok_leave app_ok_start split: option.split prod.split)
qed

lemma app_ok_click:
  assumes "app_ok s" shows "app_ok (build_ui ax now c s)"
proof (cases "va_screen s")
  case Login
  then show ?thesis using assms
    by (cases c) (auto simp: build_ui_def action_sign_in_def action_create_account_def open_pairing_def Let_def
        app_ok_def spawn_def)
next
  case Devices
  then show ?thesis using assms
    by (cases c) (auto simp: build_ui_def action_sign_out_def refresh_devices_def open_pairing_def action_register_this_device_def
        action_begin_connect_def action_delete_device_def connectable_def peer_key_eq app_ok_def spawn_def)
next
  case Connecting
  have j: "va_job s = None" "va_busy s = None" using assms Connecting by (auto simp: app_ok_def)
  show ?thesis
  proof (cases c)
    case ConfirmButton
    then show ?thesis using assms Connecting app_ok_confirm by (simp add: build_ui_def)
  next
    case CancelButton
    then show ?thesis using j Connecting by (simp add: build_ui_def app_ok_leave)
  next
    case SubmitButton
    have "va_conn s = NeedPassword b \<Longrightarrow> va_session s \<noteq> None" for b using assms Connecting by (auto simp: app_ok_def)
    then show ?thesis using SubmitButton assms Connecting
      by (auto simp: build_ui_def action_submit_host_password_def app_ok_def give_def split: connecting.split)
  next
    case (EditHostPassword p)
    then show ?thesis using assms Connecting
      by (auto simp: build_ui_def app_ok_def split: connecting.split)
  qed (use assms Connecting in \<open>auto simp: build_ui_def app_ok_def\<close>)
next
  case InSession
  have j: "va_job s = None" "va_busy s = None" using assms InSession by (auto simp: app_ok_def)
  show ?thesis
  proof (cases c)
    case DisconnectButton
    then show ?thesis using j InSession assms by (simp add: build_ui_def app_ok_leave)
  qed (use assms InSession in \<open>auto simp: build_ui_def app_ok_def give_def\<close>)
next
  case PairScreen
  then show ?thesis
  proof (cases c)
    case (Generate x)
    then show ?thesis using PairScreen assms by (cases x) (auto simp: build_ui_def app_ok_def)
  qed (use assms in \<open>auto simp: build_ui_def app_ok_def start_pairing_def spawn_def home_screen_def Let_def\<close>)
qed

lemma app_ok_window: "app_ok s \<Longrightarrow> app_ok (on_window_event win consumed e s)"
  by (cases "(win, consumed, e, s)" rule: on_window_event.cases)
    (auto simp: app_ok_def give_def Let_def split: option.split prod.split)

lemma app_ok_step: "app_ok s \<Longrightarrow> app_ok (app_step ax now e s)"
proof (cases e)
  case (Wait us r)
  have "app_ok (poll_job r (drain_updates ax us s))" if "app_ok s" using that by (simp add: app_ok_poll app_ok_drain)
  then show "app_ok s \<Longrightarrow> app_ok (app_step ax now e s)"
    by (simp add: Wait about_to_wait_def Let_def)
qed (simp_all add: app_ok_click app_ok_window)

lemma app_ok_new: "app_ok (app_new ax dir d i err now)"
proof -
  have f: "app_ok (app_fresh ax dir d i err now)" "va_job (app_fresh ax dir d i err now) = None"
    "va_busy (app_fresh ax dir d i err now) = None" by (simp_all add: app_ok_def app_fresh_def)
  then show ?thesis
    by (auto simp: app_new_def Let_def app_ok_start split: option.split sum.split) (simp add: app_ok_def)
qed

text \<open>C20: Screens and sessions agree: whatever the user, the window, the network and the jobs do, in
  any order, the session screen is shown exactly over a session, a session has no screen but that or
  the connecting one, a connecting screen without a session asks about a host the user selected, and
  no background job runs meanwhile.\<close>

theorem screens_match_sessions:
  "let s = app_run ax es (app_new ax dir d i err now)
   in (va_screen s = InSession \<longrightarrow> va_session s \<noteq> None)
    \<and> (va_session s \<noteq> None \<longrightarrow> va_screen s = InSession \<or> va_screen s = Connecting)
    \<and> (va_screen s = Connecting \<and> va_session s = None \<longrightarrow> va_selected s \<noteq> None \<and> (\<exists>t. va_conn s = Confirm t))
    \<and> (va_screen s = InSession \<or> va_screen s = Connecting \<longrightarrow> va_job s = None \<and> va_busy s = None)"
proof -
  have run: "app_ok (app_run ax es s)" if "app_ok s" for s
    using that by (induction es arbitrary: s) (auto simp: app_run_def app_ok_step)
  have "app_ok (app_run ax es (app_new ax dir d i err now))" by (rule run [OF app_ok_new])
  then show ?thesis unfolding app_ok_def Let_def by auto
qed

section \<open>Which host a session is with\<close>

text \<open>The DTLS fingerprint a signal brings, and what the transport keeps: data arrives only on a
  connection that an offer with a fingerprint has set up.\<close>

definition offer_fp :: "viewer_env \<Rightarrow> signal_msg \<Rightarrow> string option" where
  "offer_fp ve m = (case m of Offer json \<Rightarrow> fingerprint_from_session_json (ve_sdp ve) json | _ \<Rightarrow> None)"

fun offer_first :: "viewer_env \<Rightarrow> bool \<Rightarrow> pump_turn list \<Rightarrow> bool" where
  "offer_first ve seen [] = True"
| "offer_first ve seen (t # ts) =
     (let seen' = (seen \<or> (\<exists>m\<in>set (pm_signals t). offer_fp ve m \<noteq> None))
      in (case pm_event t of Some (Data bs) \<Rightarrow> seen' | _ \<Rightarrow> True) \<and> offer_first ve seen' ts)"

text \<open>Reports of the viewer's pump: a report of a proven identity comes with a proof over the
  fingerprint of an offer that was fed.\<close>

definition proven_over :: "viewer_env \<Rightarrow> signal_msg list \<Rightarrow> bytes \<Rightarrow> string \<Rightarrow> bool" where
  "proven_over ve fed pk dev \<longleftrightarrow> (\<exists>json fp proof. Offer json \<in> set fed \<and> fingerprint_from_session_json (ve_sdp ve) json = Some fp
     \<and> verify_access_proof (ve_crypto ve) pk proof (str_bytes fp) = Inr dev)"

definition reports_ok :: "viewer_env \<Rightarrow> viewer \<Rightarrow> bool" where
  "reports_ok ve v \<longleftrightarrow> (\<forall>fp. vw_host_fp v = Some fp \<longrightarrow> (\<exists>m\<in>set (vw_fed v). offer_fp ve m = Some fp))
     \<and> (\<forall>pk dev. VuHostIdentity pk dev True \<in> set (vw_updates v) \<longrightarrow> proven_over ve (vw_fed v) pk dev)"

lemma offer_fp_some: "offer_fp ve m = Some fp \<longleftrightarrow> (\<exists>json. m = Offer json \<and> fingerprint_from_session_json (ve_sdp ve) json = Some fp)"
  by (cases m) (auto simp: offer_fp_def)

lemma reports_same:
  assumes "reports_ok ve v" "vw_fed v' = vw_fed v" "vw_host_fp v' = vw_host_fp v"
    "\<And>pk dev. VuHostIdentity pk dev True \<in> set (vw_updates v') \<Longrightarrow> VuHostIdentity pk dev True \<in> set (vw_updates v)"
  shows "reports_ok ve v'"
  using assms by (auto simp: reports_ok_def)

lemma feed_simps:
  "vw_updates (vw_feed ve m v) = vw_updates v" "vw_fed (vw_feed ve m v) = vw_fed v @ [m]"
  "vw_host_fp (vw_feed ve m v) = (case offer_fp ve m of Some fp \<Rightarrow> Some fp | None \<Rightarrow> vw_host_fp v)"
  by (cases m; auto simp: vw_feed_def offer_fp_def Let_def split: option.split)+

lemma proven_more: "proven_over ve fed pk dev \<Longrightarrow> proven_over ve (fed @ ms) pk dev"
  unfolding proven_over_def by (metis UnI1 set_append)

lemma reports_feed: "reports_ok ve v \<Longrightarrow> reports_ok ve (vw_feed ve m v)"
  by (cases "offer_fp ve m") (auto simp: reports_ok_def feed_simps intro: proven_more)

lemma reports_ack:
  assumes "reports_ok ve v" "vw_host_fp v \<noteq> None" shows "reports_ok ve (handle_ack ve ack v)"
proof -
  have f: "vw_fed (handle_ack ve ack v) = vw_fed v" "vw_host_fp (handle_ack ve ack v) = vw_host_fp v"
    by (auto simp: handle_ack_def update_def split: sum.split)
  obtain fp json where fp: "vw_host_fp v = Some fp" "Offer json \<in> set (vw_fed v)" "fingerprint_from_session_json (ve_sdp ve) json = Some fp"
    using assms by (auto simp: reports_ok_def offer_fp_some)
  have "proven_over ve (vw_fed v) pk dev"
    if "VuHostIdentity pk dev True \<in> set (vw_updates (handle_ack ve ack v))" for pk dev
  proof (cases "VuHostIdentity pk dev True \<in> set (vw_updates v)")
    case True
    then show ?thesis using assms by (auto simp: reports_ok_def)
  next
    case False
    then have "verify_access_proof (ve_crypto ve) pk (a_host_proof ack) (str_bytes fp) = Inr dev"
      using handle_ack_verified [OF refl that False] fp(1) by (auto simp: opt_bytes_def)
    then show ?thesis using fp(2,3) by (auto simp: proven_over_def)
  qed
  then show ?thesis using assms f by (simp add: reports_ok_def)
qed

lemma reports_event:
  "reports_ok ve v \<Longrightarrow> (case e of Data bs \<Rightarrow> vw_host_fp v \<noteq> None | _ \<Rightarrow> True)
     \<Longrightarrow> reports_ok ve (vw_event ve vc now e v) \<and> vw_host_fp (vw_event ve vc now e v) = vw_host_fp v"
proof (cases e)
  case (Data bs)
  assume r: "reports_ok ve v" "case e of Data bs \<Rightarrow> vw_host_fp v \<noteq> None | _ \<Rightarrow> True"
  have "vw_host_fp (handle_ack ve ack v) = vw_host_fp v" for ack by (auto simp: handle_ack_def update_def split: sum.split)
  then have "reports_ok ve (vw_dispatch ve now p v) \<and> vw_host_fp (vw_dispatch ve now p v) = vw_host_fp v" for p
    using r(2) by (cases p) (auto simp: Data reports_ack [OF r(1)] intro!: reports_same [OF r(1)] simp: update_def)
  then show ?thesis using r(1) by (simp add: Data split: option.split)
next
  case (LocalSignal m)
  assume r: "reports_ok ve v"
  then show ?thesis
    by (cases m) (auto simp: LocalSignal Let_def intro!: reports_same [OF r] split: option.split)
qed (simp_all add: reports_ok_def say_hello_def vw_send_def update_def)

lemma reports_pump:
  assumes r: "reports_ok ve v"
    and e: "case pm_event t of Some (Data bs) \<Rightarrow> vw_host_fp v \<noteq> None \<or> (\<exists>m\<in>set (pm_signals t). offer_fp ve m \<noteq> None) | _ \<Rightarrow> True"
  shows "reports_ok ve (pump ve vc t v)
    \<and> (vw_host_fp (pump ve vc t v) \<noteq> None \<longleftrightarrow> vw_host_fp v \<noteq> None \<or> (\<exists>m\<in>set (pm_signals t). offer_fp ve m \<noteq> None))"
proof -
  have 1: "reports_ok ve w \<Longrightarrow> reports_ok ve (fold (vw_feed ve) ms w)" for ms w
    by (induction ms arbitrary: w) (simp_all add: reports_feed)
  have h1: "vw_host_fp (fold (vw_feed ve) ms w) \<noteq> None \<longleftrightarrow> vw_host_fp w \<noteq> None \<or> (\<exists>m\<in>set ms. offer_fp ve m \<noteq> None)" for ms w
    by (induction ms arbitrary: w) (auto simp: feed_simps split: option.splits)
  have 2: "reports_ok ve w \<Longrightarrow> reports_ok ve (fold (\<lambda>path v. v\<lparr>vw_files := snd (send_file path (vw_files v))\<rparr>) fs w)" for fs w
    by (induction fs arbitrary: w) (auto simp: reports_ok_def)
  have h2: "vw_host_fp (fold (\<lambda>path v. v\<lparr>vw_files := snd (send_file path (vw_files v))\<rparr>) fs w) = vw_host_fp w" for fs and w :: viewer
    by (induction fs arbitrary: w) auto
  have 3: "reports_ok ve w \<Longrightarrow> reports_ok ve (fold (\<lambda>pw. say_hello ve vc (Some pw)) ps w)" for ps w
    by (induction ps arbitrary: w) (auto simp: say_hello_def vw_send_def reports_ok_def)
  have h3: "vw_host_fp (fold (\<lambda>pw. say_hello ve vc (Some pw)) ps w) = vw_host_fp w" for ps w
    by (induction ps arbitrary: w) (auto simp: say_hello_def vw_send_def)
  have 4: "reports_ok ve w \<Longrightarrow> reports_ok ve (forward_files w)" "vw_host_fp (forward_files w) = vw_host_fp w" for w
    by (rule reports_same) (auto simp: forward_files_def)
  define w where "w = forward_files (fold (\<lambda>pw. say_hello ve vc (Some pw)) (pm_passwords t)
     (fold (\<lambda>path v. v\<lparr>vw_files := snd (send_file path (vw_files v))\<rparr>) (pm_files t) (fold (vw_feed ve) (pm_signals t) v)))"
  have w: "reports_ok ve w" "vw_host_fp w \<noteq> None \<longleftrightarrow> vw_host_fp v \<noteq> None \<or> (\<exists>m\<in>set (pm_signals t). offer_fp ve m \<noteq> None)"
    unfolding w_def using r 1 2 3 4 h1 h2 h3 by auto
  have p: "pump ve vc t v = (case pm_event t of None \<Rightarrow> w | Some ev \<Rightarrow> vw_event ve vc (pm_now t) ev w)"
    by (simp only: pump_def w_def Let_def)
  show ?thesis
  proof (cases "pm_event t")
    case (Some ev)
    then have "case ev of Data bs \<Rightarrow> vw_host_fp w \<noteq> None | _ \<Rightarrow> True" using e w(2) by (cases ev) auto
    from reports_event [OF w(1) this, of vc "pm_now t"] show ?thesis using w(2) Some by (simp add: p)
  qed (use w p in simp)
qed

lemma reports_run:
  assumes "offer_first ve False ts" shows "reports_ok ve (fold (pump ve vc) ts (viewer_start clip files))"
proof -
  have "reports_ok ve (fold (pump ve vc) ts v)" if "reports_ok ve v" "offer_first ve (vw_host_fp v \<noteq> None) ts" for v
    using that
  proof (induction ts arbitrary: v)
    case (Cons t ts)
    let ?seen = "vw_host_fp v \<noteq> None \<or> (\<exists>m\<in>set (pm_signals t). offer_fp ve m \<noteq> None)"
    have o: "case pm_event t of Some (Data bs) \<Rightarrow> ?seen | _ \<Rightarrow> True" "offer_first ve ?seen ts"
      using Cons.prems(2) by (simp_all only: offer_first.simps Let_def)
    note k = reports_pump [OF Cons.prems(1) o(1), of vc]
    have s: "(vw_host_fp (pump ve vc t v) \<noteq> None) = ?seen" using k by blast
    show ?case using Cons.IH [of "pump ve vc t v"] k o(2) unfolding s by simp
  qed simp
  then show ?thesis using assms by (simp add: reports_ok_def viewer_start_def)
qed

text \<open>The pins seen while the updates are drained.\<close>

lemma kp_get_tick:
  "no_faults d \<Longrightarrow> snd (kp_get p dev d) = tick d"
  "no_faults d \<Longrightarrow> fst (kp_get p dev (tick d)) = fst (kp_get p dev d)"
  by (auto simp: kp_get_def d_slurp_view split: option.split)

definition same_pins :: "viewer_app \<Rightarrow> viewer_app \<Rightarrow> bool" where
  "same_pins s s' \<longleftrightarrow> va_selected s' = va_selected s \<and> va_peers s' = va_peers s \<and> no_faults (va_disk s')
     \<and> (\<forall>dev. fst (kp_get (va_peers s) dev (va_disk s')) = fst (kp_get (va_peers s) dev (va_disk s)))"

lemma update_keeps_pins:
  assumes "no_faults (va_disk s)" "va_session (handle_session_update ax u s) \<noteq> None"
  shows "same_pins s (handle_session_update ax u s)
    \<and> (\<forall>pk dev ver. u = VuHostIdentity pk dev ver \<longrightarrow> host_ok (ax_crypto ax) pk dev ver s)"
proof (cases u)
  case (VuHostIdentity pk dev ver)
  have ok: "host_ok (ax_crypto ax) pk dev ver s"
  proof (rule ccontr)
    assume "\<not> host_ok (ax_crypto ax) pk dev ver s"
    then show False using check_host_bad [of "ax_crypto ax" pk dev ver s] assms(2) by (auto simp: VuHostIdentity)
  qed
  then show ?thesis using assms(1) check_host_good [OF ok] VuHostIdentity
    by (simp add: same_pins_def kp_get_tick)
qed (use assms in \<open>auto simp: same_pins_def split: if_splits\<close>)

lemma drain_checks_hosts:
  assumes "no_faults (va_disk s)" "va_session (drain_updates ax us s) \<noteq> None" "VuHostIdentity pk dev ver \<in> set us"
  shows "host_ok (ax_crypto ax) pk dev ver s"
  using assms
proof (induction us arbitrary: s)
  case (Cons u us)
  let ?s = "handle_session_update ax u s"
  have here: "va_session s \<noteq> None" "va_session (drain_updates ax us ?s) \<noteq> None"
    using Cons.prems(2) by (auto split: if_splits)
  have "va_session ?s \<noteq> None" using here(2) by (cases us) (auto split: if_splits)
  note k = update_keeps_pins [OF Cons.prems(1) this]
  show ?case
  proof (cases "u = VuHostIdentity pk dev ver")
    case True
    then show ?thesis using k by blast
  next
    case False
    then have "host_ok (ax_crypto ax) pk dev ver ?s"
      using Cons.IH [of ?s] Cons.prems(3) here(2) k by (auto simp: same_pins_def)
    then show ?thesis using k by (auto simp: host_ok_def same_pins_def)
  qed
qed simp

text \<open>C18: A host that names itself is the pinned one or is left: if the session is still there after
  the application drained what its pump reported, then every identity reported among that is the
  device the user selected, its key is the one pinned for that device, and the host proved that
  key over the DTLS fingerprint of an offer this session was fed (data coming only after such an
  offer, as the transport has it).\<close>

theorem session_host_is_pinned:
  assumes "ve_crypto ve = ax_crypto ax" "no_faults (va_disk s)" "offer_first ve False ts"
    and pumped: "v = fold (pump ve vc) ts (viewer_start clip files)" "set us \<subseteq> set (vw_updates v) \<union> range VuFrame"
    and survives: "va_session (drain_updates ax us s) \<noteq> None"
    and reported: "VuHostIdentity pk dev ver \<in> set us"
  shows "(\<exists>h. va_selected s = Some h \<and> di_device_id h = dev)
    \<and> fst (kp_get (va_peers s) dev (va_disk s)) = Some (cx_hex (ax_crypto ax) pk)
    \<and> (\<exists>json fp proof. Offer json \<in> set (vw_fed v) \<and> fingerprint_from_session_json (ve_sdp ve) json = Some fp
        \<and> verify_access_proof (ax_crypto ax) pk proof (str_bytes fp) = Inr dev)"
proof -
  have ok: "host_ok (ax_crypto ax) pk dev ver s" by (rule drain_checks_hosts [OF assms(2) survives reported])
  then have "VuHostIdentity pk dev True \<in> set (vw_updates v)" using reported pumped(2) by (auto simp: host_ok_def)
  then have "proven_over ve (vw_fed v) pk dev"
    using reports_run [OF assms(3), of vc clip files] unfolding pumped(1) [symmetric] reports_ok_def by blast
  then show ?thesis using ok assms(1) by (simp add: host_ok_def proven_over_def)
qed

lemma poll_no_session: "va_session (poll_job r s) = va_session s"
proof -
  have "va_session (apply_job j s) = va_session s" for j s
    by (cases "(j, s)" rule: apply_job.cases) (auto simp: refresh_devices_def spawn_def split: prod.split)
  then show ?thesis by (auto simp: poll_job_def split: option.split)
qed

lemma window_no_session: "va_session s = None \<Longrightarrow> va_session (on_window_event win consumed e s) = None"
  by (cases "(win, consumed, e, s)" rule: on_window_event.cases)
    (auto simp: forwarding_input_def give_def Let_def split: option.split prod.split)

lemma click_no_session:
  assumes "va_session s = None" "va_session (build_ui ax now c s) \<noteq> None"
  shows "va_screen s = Connecting \<and> c = ConfirmButton \<and> build_ui ax now c s = action_confirm_connect ax now s"
proof (cases "va_screen s")
  case Login
  then show ?thesis using assms
    by (cases c) (auto simp: build_ui_def action_sign_in_def action_create_account_def open_pairing_def spawn_def Let_def split: if_splits)
next
  case Devices
  then show ?thesis using assms
    by (cases c) (auto simp: build_ui_def action_sign_out_def refresh_devices_def open_pairing_def action_register_this_device_def
        action_begin_connect_def action_delete_device_def peer_key_eq spawn_def split: if_splits)
next
  case Connecting
  then show ?thesis using assms
    by (cases c) (auto simp: build_ui_def action_submit_host_password_def give_def split: if_splits connecting.splits)
next
  case InSession
  then show ?thesis using assms by (cases c) (auto simp: build_ui_def give_def split: if_splits)
next
  case PairScreen
  then show ?thesis using assms
  proof (cases c)
    case (Generate x)
    then show ?thesis using PairScreen assms by (cases x) (auto simp: build_ui_def)
  qed (auto simp: build_ui_def start_pairing_def spawn_def Let_def split: if_splits)
qed

lemma quick_connect_session:
  "\<forall>y. va_session (app_new ax dir d i err start) = Some y \<longrightarrow> quick_connect_signaling ax = Some (Inr (vs_signaling y))"
  by (auto simp: app_new_def Let_def start_session_def app_fresh_def split: option.splits sum.splits)

text \<open>C19: Only a host whose key is pinned, or that is new, is dialed: once the application has started,
  a step that brings a session about is a click of the confirm button on a question that shows no
  key mismatch, its signaling names the selected host under the account and token at hand, and the
  key the server gave for it is the one pinned, if one is. The only other session is the one the
  start itself opens, with the very peer the quick-connect environment names.\<close>

theorem only_pinned_hosts_dialed:
  assumes "va_session s = None" "va_session (app_step ax now e s) = Some x"
  shows "(e = Click ConfirmButton \<and> va_screen s = Connecting \<and> va_conn s \<in> {Confirm FirstUse, Confirm Trusted}
    \<and> (\<exists>h account token. va_selected s = Some h \<and> va_account s = Some account \<and> va_token s = Some token
    \<and> vs_signaling x = VsRendezvous (account_ws_url account) token (di_device_id h)
    \<and> (fst (kp_get (va_peers s) (di_device_id h) (va_disk s)) = None
       \<or> fst (kp_get (va_peers s) (di_device_id h) (va_disk s)) = Some (di_public_key h))))
    \<and> (\<forall>y. va_session (app_new ax dir d i err start) = Some y \<longrightarrow> quick_connect_signaling ax = Some (Inr (vs_signaling y)))"
  (is "?clicked \<and> ?quick")
proof
  show ?quick by (rule quick_connect_session)
  show ?clicked
proof (cases e)
  case (Click c)
  then have b: "va_session (build_ui ax now c s) = Some x" using assms(2) by simp
  then have scr: "va_screen s = Connecting" "c = ConfirmButton" and c: "va_session (action_confirm_connect ax now s) = Some x"
    using click_no_session [OF assms(1), of ax now c] by auto
  have q: "va_conn s \<in> {Confirm FirstUse, Confirm Trusted}"
    using b assms(1) scr by (auto simp: build_ui_def split: if_splits)
  obtain h account token where h: "va_selected s = Some h" "va_account s = Some account" "va_token s = Some token"
    using c by (auto simp: action_confirm_connect_def split: option.splits)
  obtain t d where t: "trust_on_first_use (va_peers s) (di_device_id h) (di_public_key h) (va_disk s) = (t, d)" by fastforce
  have ok: "t \<noteq> TofuMismatch" and sg: "vs_signaling x = VsRendezvous (account_ws_url account) token (di_device_id h)"
    using c by (auto simp: action_confirm_connect_def h t Let_def start_session_def split: if_splits option.splits)
  have "fst (kp_get (va_peers s) (di_device_id h) (va_disk s)) = None
       \<or> fst (kp_get (va_peers s) (di_device_id h) (va_disk s)) = Some (di_public_key h)"
    using t ok by (auto simp: trust_on_first_use_def split: prod.splits option.splits bool.splits if_splits)
  then show ?thesis using h sg scr q Click by blast
next
  case (Window win consumed w)
  then show ?thesis using assms window_no_session [OF assms(1), of win consumed w] by simp
next
  case (Wait us r)
  have "drain_updates ax us s = s" using assms(1) by (cases us) auto
  then show ?thesis using assms Wait by (auto simp: about_to_wait_def Let_def poll_no_session give_def split: if_splits)
qed
qed

section \<open>Examples\<close>

definition demo_seen :: identity where "demo_seen = \<lparr> id_seed = replicate 32 7 \<rparr>"

definition demo_ax :: app_env where
  "demo_ax = \<lparr> ax_crypto = demo_crypto, ax_ice = (\<lambda>_ _. Inr []), ax_connect = (\<lambda>_. None), ax_start = (\<lambda>_. None),
     ax_env = (\<lambda>k. if k = ''RMD_SIGNAL_ADDR'' then Some ''10.0.0.2:7000'' else None) \<rparr>"

lemma screens_match_sessions_witness:
  "(let s = app_run demo_ax [(5, Wait [VuConnected] None)] (app_new demo_ax ''/c'' empty_disk demo_seen None 0)
    in va_screen s = InSession) \<and>
   va_session (app_run demo_ax [(5, Wait [VuConnected] None)] (app_new demo_ax ''/c'' empty_disk demo_seen None 0)) \<noteq> None"
proof -
  have "va_screen (app_run demo_ax [(5, Wait [VuConnected] None)] (app_new demo_ax ''/c'' empty_disk demo_seen None 0)) = InSession"
    by (simp add: app_run_def app_new_def demo_ax_def quick_connect_signaling_def start_session_def Let_def app_fresh_def
       about_to_wait_def poll_job_def PING_INTERVAL_def)
  then show ?thesis using screens_match_sessions [of demo_ax "[(5, Wait [VuConnected] None)]" "''/c''" empty_disk demo_seen None 0]
    unfolding Let_def by blast
qed

definition demo_host_info :: device_info where
  "demo_host_info = \<lparr> di_device_id = device_id demo_crypto demo_seen, di_name = ''desk'', di_public_key = cx_hex demo_crypto (replicate 32 7),
     di_role = ''host'', di_created_at = 0, di_last_seen = None \<rparr>"

lemma demo_hex_token:
  assumes "bs \<noteq> []" "0 < n"
  shows "token_ok (take n (demo_hex bs))"
proof -
  have "graph_char c" if "c \<in> set (take n (demo_hex bs))" for c
    using demo_hex_chars [OF in_set_takeD [OF that]] by (auto simp: hex_char_def is_digit_def graph_char_def)
  moreover have "demo_hex bs \<noteq> []" using length_demo_hex [of bs] assms(1) by auto
  ultimately show ?thesis using assms(2) by (simp add: token_ok_def)
qed

text \<open>A store that holds one pin.\<close>

definition pins_of :: "string \<Rightarrow> string \<Rightarrow> string \<Rightarrow> disk" where
  "pins_of path dev k = empty_disk\<lparr>dk_names := [path \<mapsto> 0], dk_data := (\<lambda>_. str_bytes (dev @ '' '' @ k @ [char_of (10 :: nat)]))\<rparr>"

lemma pins_of_get:
  assumes "token_ok dev" "token_ok k"
  shows "fst (kp_get path dev (pins_of path dev k)) = Some k" "no_faults (pins_of path dev k)"
proof -
  let ?d = "pins_of path dev k"
  show nf: "no_faults ?d" using empty_disk_ok(2) by (simp add: pins_of_def)
  have v: "dview ?d path = Some (str_bytes (dev @ '' '' @ k @ [char_of (10 :: nat)]))" by (simp add: pins_of_def dview_def)
  have t: "kp_text path ?d = dev @ '' '' @ k @ [char_of (10 :: nat)]" unfolding kp_text_def v option.case by (rule bytes_str_str_bytes)
  have "kp_wf path ?d" unfolding kp_wf_def v option.case bytes_str_str_bytes using token_line(3) [OF assms] by simp
  moreover have "lines (kp_text path ?d) = [strip_cr (dev @ '' '' @ k)]"
    using lines_append_line [of "[]", OF _ token_line(2) [OF assms]] by (simp add: t lines_def)
  ultimately show "fst (kp_get path dev ?d) = Some k"
    using kp_get_text [OF nf] token_line(1) [OF assms] by simp
qed

definition demo_pins :: disk where
  "demo_pins = pins_of ''/c/known_peers'' (di_device_id demo_host_info) (di_public_key demo_host_info)"

lemma demo_pinned:
  "fst (kp_get ''/c/known_peers'' (di_device_id demo_host_info) demo_pins) = Some (di_public_key demo_host_info)" "no_faults demo_pins"
proof -
  have "token_ok (di_device_id demo_host_info)" using demo_hex_token [of "fit 32 (replicate 32 7)" 32]
    by (simp add: demo_host_info_def device_id_def fingerprint_def demo_crypto_def demo_seen_def public_key_bytes_def fit_def)
  moreover have "token_ok (di_public_key demo_host_info)" using demo_hex_token [of "replicate 32 7" 64]
    by (simp add: demo_host_info_def demo_crypto_def length_demo_hex)
  ultimately show "fst (kp_get ''/c/known_peers'' (di_device_id demo_host_info) demo_pins) = Some (di_public_key demo_host_info)"
    "no_faults demo_pins" unfolding demo_pins_def by (simp_all add: pins_of_get)
qed

definition demo_viewer_app :: viewer_app where
  "demo_viewer_app = (app_new (demo_ax\<lparr>ax_env := (\<lambda>_. None)\<rparr>) ''/c'' demo_pins demo_seen None 0)
     \<lparr>va_account := Some ''https://h'', va_token := Some ''t'', va_selected := Some demo_host_info, va_conn := Confirm Trusted,
      va_screen := Connecting\<rparr>"

lemma demo_simps:
  "va_peers demo_viewer_app = ''/c/known_peers''" "va_disk demo_viewer_app = demo_pins" "va_session demo_viewer_app = None"
  "va_selected demo_viewer_app = Some demo_host_info" "va_account demo_viewer_app = Some ''https://h''"
  "va_token demo_viewer_app = Some ''t''" "va_conn demo_viewer_app = Confirm Trusted" "va_screen demo_viewer_app = Connecting"
  by (simp_all add: demo_viewer_app_def app_new_def app_fresh_def quick_connect_signaling_def demo_ax_def)

lemma demo_dials: "va_session (app_step demo_ax 7 (Click ConfirmButton) demo_viewer_app) \<noteq> None"
proof -
  obtain d where "kp_get ''/c/known_peers'' (di_device_id demo_host_info) demo_pins = (Some (di_public_key demo_host_info), d)"
    using demo_pinned by (metis prod.collapse)
  then have t: "trust_on_first_use ''/c/known_peers'' (di_device_id demo_host_info) (di_public_key demo_host_info) demo_pins = (TofuKnown, d)"
    by (simp add: trust_on_first_use_def)
  show ?thesis
    by (simp add: build_ui_def action_confirm_connect_def demo_simps t demo_ax_def start_session_def Let_def)
qed

lemma only_pinned_hosts_dialed_witness:
  "\<exists>x. va_session (app_step demo_ax 7 (Click ConfirmButton) demo_viewer_app) = Some x
    \<and> vs_signaling x = VsRendezvous (account_ws_url ''https://h'') ''t'' (di_device_id demo_host_info)
    \<and> fst (kp_get ''/c/known_peers'' (di_device_id demo_host_info) demo_pins) = Some (di_public_key demo_host_info)"
proof -
  obtain x where x: "va_session (app_step demo_ax 7 (Click ConfirmButton) demo_viewer_app) = Some x" using demo_dials by auto
  from only_pinned_hosts_dialed [OF demo_simps(3) x] show ?thesis using x demo_pinned(1) by (auto simp: demo_simps)
qed

text \<open>A viewer fed an offer, whose wire then carries the host's signed answer.\<close>

definition demo_ack :: hello_ack_msg where
  "demo_ack = \<lparr> a_accepted = True, a_reason = [], a_device_name = [], a_features = 0,
     a_host_public_key = public_key_bytes demo_crypto demo_seen, a_host_proof = access_proof demo_crypto demo_seen (str_bytes ''AB''),
     a_video_codec = 1, a_password_required = False \<rparr>"

definition demo_ve :: viewer_env where
  "demo_ve = \<lparr> ve_crypto = demo_crypto, ve_decode = (\<lambda>_. Some (envelope (P_HelloAck demo_ack))),
     ve_sdp = (\<lambda>_. Some ''a=fingerprint:AB''), ve_h264 = (\<lambda>_. None) \<rparr>"

definition demo_turn :: pump_turn where
  "demo_turn = \<lparr> pm_signals = [Offer ''{}''], pm_files = [], pm_passwords = [], pm_event = Some (Data []), pm_now = 0 \<rparr>"

lemma demo_offer: "fingerprint_from_session_json (ve_sdp demo_ve) json = Some ''AB''"
proof -
  have "dtls_fingerprint_from_sdp ''a=fingerprint:AB'' = Some ''AB''" by code_simp
  then show ?thesis by (simp add: demo_ve_def fingerprint_from_session_json_def)
qed

lemma demo_reports:
  "vw_updates (fold (pump demo_ve viewer_config_default) [demo_turn] (viewer_start (clip_spawn True None (\<lambda>_. True)) (ft_new ''/dl'' empty_disk)))
     = [VuHostIdentity (replicate 32 7) (device_id demo_crypto demo_seen) True, VuPaired True]"
proof -
  have pk: "public_key_bytes demo_crypto demo_seen = replicate 32 7" by (simp add: public_key_bytes_def demo_crypto_def demo_seen_def)
  have v: "verify_access_proof demo_crypto (replicate 32 7) (access_proof demo_crypto demo_seen (str_bytes ''AB'')) (str_bytes ''AB'')
      = Inr (device_id demo_crypto demo_seen)"
    using verify_own_proof [OF demo_crypto_ok, of demo_seen "str_bytes ''AB''"] pk by (simp add: demo_seen_def)
  then have ne: "access_proof demo_crypto demo_seen (str_bytes ''AB'') \<noteq> []" by (auto simp: verify_access_proof_def split: if_splits)
  have c: "ve_crypto demo_ve = demo_crypto" "ve_decode demo_ve bs = Some (envelope (P_HelloAck demo_ack))" for bs by (simp_all add: demo_ve_def)
  show ?thesis using v ne
    by (simp add: pump_def demo_turn_def c Let_def envelope_def handle_ack_def demo_ack_def pk viewer_start_def forward_files_def
       ft_new_def opt_bytes_def vw_feed_def demo_offer)
qed

lemma session_host_is_pinned_witness:
  "fst (kp_get ''/c/known_peers'' (device_id demo_crypto demo_seen) demo_pins) = Some (demo_hex (replicate 32 7))
   \<and> (\<exists>proof. verify_access_proof demo_crypto (replicate 32 7) proof (str_bytes ''AB'') = Inr (device_id demo_crypto demo_seen))"
proof -
  let ?s = "demo_viewer_app\<lparr>va_session := Some \<lparr> vs_cfg = viewer_config_default, vs_signaling = VsLan [], vs_cmds = [] \<rparr>\<rparr>"
  let ?us = "[VuHostIdentity (replicate 32 7) (device_id demo_crypto demo_seen) True, VuPaired True]"
  let ?v = "fold (pump demo_ve viewer_config_default) [demo_turn] (viewer_start (clip_spawn True None (\<lambda>_. True)) (ft_new ''/dl'' empty_disk))"
  have i: "di_device_id demo_host_info = device_id demo_crypto demo_seen" "di_public_key demo_host_info = cx_hex demo_crypto (replicate 32 7)"
    by (simp_all add: demo_host_info_def)
  have "host_ok demo_crypto (replicate 32 7) (device_id demo_crypto demo_seen) True ?s"
    using demo_pinned(1) by (simp add: host_ok_def demo_simps i)
  then have s: "va_session (drain_updates demo_ax ?us ?s) \<noteq> None" by (simp add: check_host_good demo_ax_def)
  have u: "set ?us \<subseteq> set (vw_updates ?v) \<union> range VuFrame" unfolding demo_reports by simp
  have o: "offer_first demo_ve False [demo_turn]" by (simp add: demo_turn_def offer_fp_def demo_offer)
  have "fst (kp_get ''/c/known_peers'' (device_id demo_crypto demo_seen) demo_pins) = Some (cx_hex demo_crypto (replicate 32 7))
    \<and> (\<exists>json fp proof. Offer json \<in> set (vw_fed ?v) \<and> fingerprint_from_session_json (ve_sdp demo_ve) json = Some fp
        \<and> verify_access_proof demo_crypto (replicate 32 7) proof (str_bytes fp) = Inr (device_id demo_crypto demo_seen))"
    using session_host_is_pinned [of demo_ve demo_ax ?s "[demo_turn]" ?v _ _ _ ?us "replicate 32 7" "device_id demo_crypto demo_seen" True,
        OF _ _ o refl u s] demo_pinned(2) by (simp add: demo_simps demo_ve_def demo_ax_def)
  then show ?thesis by (auto simp: demo_offer demo_crypto_def)
qed

end
