(* ===== verification/WebKeyboard.thy ===== *)
theory WebKeyboard
  imports WebInput Swipe
begin

text \<open>
  The browser viewer's keyboards (\<open>apps/web-viewer/src/lib.rs\<close>): the physical one, the on-screen
  one with sticky modifiers, caps lock, double-space and auto-repeat (\<open>attach_keyboard\<close>), word
  gestures with suggestions (\<open>attach_swipe\<close>) and dictation.  Key events sent are listed in
  \<open>kb_out\<close>; times are milliseconds.  Highlighting of buttons is left out, but for the letter case.
\<close>

section \<open>Sending\<close>

definition kb_send :: "u32 \<Rightarrow> u32 \<Rightarrow> input_event list" where
  "kb_send hid m = [key hid True m, key hid False m]"

definition kb_send_word :: "string \<Rightarrow> bool \<Rightarrow> input_event list" where
  "kb_send_word word caps =
    concat (map (\<lambda>c. case char_to_hid c of
                       Some (hid, shift) \<Rightarrow> kb_send hid (if shift \<or> caps then mod_bit ''shift'' else 0)
                     | None \<Rightarrow> []) word)
    @ kb_send 0x2C 0"

definition dictate :: "string \<Rightarrow> input_event list" where
  "dictate phrase =
    concat (map (\<lambda>c. case char_to_hid c of
                       Some (hid, shift) \<Rightarrow> kb_send hid (if shift then mod_bit ''shift'' else 0)
                     | None \<Rightarrow> []) phrase)"

section \<open>State\<close>

definition DOUBLE_SPACE_MS :: rat where "DOUBLE_SPACE_MS = 350"
definition REPEAT_DELAY_TICKS :: nat where "REPEAT_DELAY_TICKS = 7"

text \<open>\<open>kb_repeat\<close>: the key that auto-repeats, its modifiers and the ticks so far.\<close>

record kb =
  kb_mods :: u32
  kb_caps :: bool
  kb_last_space :: rat
  kb_repeat :: "(u32 \<times> u32 \<times> nat) option"
  kb_upper :: bool
  kb_suggest :: "string list"
  kb_last_word :: nat
  kb_tap :: "char option"
  kb_path :: "point list"
  kb_out :: "input_event list"

definition kb_init :: kb where
  "kb_init = \<lparr> kb_mods = 0, kb_caps = False, kb_last_space = 0, kb_repeat = None, kb_upper = False, kb_suggest = [],
     kb_last_word = 0, kb_tap = None, kb_path = [], kb_out = [] \<rparr>"

definition emit :: "input_event list \<Rightarrow> kb \<Rightarrow> kb" where
  "emit es s = s\<lparr>kb_out := kb_out s @ es\<rparr>"

definition clear_mods :: "kb \<Rightarrow> kb" where
  "clear_mods s = s\<lparr>kb_mods := 0, kb_upper := kb_caps s\<rparr>"

definition clear_suggestions :: "kb \<Rightarrow> kb" where
  "clear_suggestions s = s\<lparr>kb_suggest := []\<rparr>"

definition stop_repeat :: "kb \<Rightarrow> kb" where
  "stop_repeat s = s\<lparr>kb_repeat := None\<rparr>"

definition start_repeat :: "u32 \<Rightarrow> u32 \<Rightarrow> kb \<Rightarrow> kb" where
  "start_repeat hid m s = (stop_repeat s)\<lparr>kb_repeat := Some (hid, m, 0)\<rparr>"

definition repeat_tick :: "kb \<Rightarrow> kb" where
  "repeat_tick s =
    (case kb_repeat s of
       None \<Rightarrow> s
     | Some (hid, m, ticks) \<Rightarrow>
         let n = ticks + 1; s = s\<lparr>kb_repeat := Some (hid, m, n)\<rparr>
         in if n \<ge> REPEAT_DELAY_TICKS then emit (kb_send hid m) s else s)"

section \<open>Buttons\<close>

text \<open>The attributes of a \<open>.k\<close> button.\<close>

record button =
  b_layer :: "string option"
  b_page :: "string option"
  b_mic :: "string option"
  b_klet :: bool
  b_caps :: "string option"
  b_mod :: "string option"
  b_char :: "string option"
  b_combo :: "string option"
  b_code :: "string option"

definition button_wired :: "button \<Rightarrow> bool" where
  "button_wired b \<longleftrightarrow> \<not> (b_layer b \<noteq> None \<or> b_page b \<noteq> None \<or> b_mic b \<noteq> None) \<and> \<not> (b_char b \<noteq> None \<and> b_klet b)"

definition press_caps :: "kb \<Rightarrow> kb" where
  "press_caps s =
    (let on = (\<not> kb_caps s) in s\<lparr>kb_caps := on, kb_upper := (on \<or> (kb_mods s AND mod_bit ''shift'') \<noteq> 0)\<rparr>)"

definition press_mod :: "string \<Rightarrow> kb \<Rightarrow> kb" where
  "press_mod name s =
    (let bit = mod_bit name; cur = kb_mods s;
         m = (if cur AND bit \<noteq> 0 then cur AND NOT bit else cur OR bit);
         s = s\<lparr>kb_mods := m\<rparr>
     in if name = ''shift'' then s\<lparr>kb_upper := ((m AND bit) \<noteq> 0 \<or> kb_caps s)\<rparr> else s)"

definition press_char :: "string \<Rightarrow> kb \<Rightarrow> kb" where
  "press_char ch s =
    (let s = (case (case ch of [] \<Rightarrow> None | c # _ \<Rightarrow> char_to_hid c) of
                None \<Rightarrow> s
              | Some (hid, shift) \<Rightarrow>
                  let m = (if shift then kb_mods s OR mod_bit ''shift'' else kb_mods s)
                  in start_repeat hid m (emit (kb_send hid m) s))
     in clear_suggestions (clear_mods s))"

definition press_combo :: "string \<Rightarrow> kb \<Rightarrow> kb" where
  "press_combo combo s =
    (let s = (if combo = ''ctrl-alt-del'' then emit (kb_send 0x4C (mod_bit ''ctrl'' OR mod_bit ''alt'')) s else s)
     in clear_suggestions (clear_mods s))"

definition double_space :: "input_event list" where
  "double_space =
    kb_send 0x2A 0
    @ (case char_to_hid CHR ''.'' of Some (ph, psh) \<Rightarrow> kb_send ph (if psh then mod_bit ''shift'' else 0) | None \<Rightarrow> [])
    @ kb_send 0x2C 0"

definition press_code_button :: "rat \<Rightarrow> string \<Rightarrow> kb \<Rightarrow> kb" where
  "press_code_button now code s =
    (let s = (case code_to_hid code of
                None \<Rightarrow> s
              | Some hid \<Rightarrow>
                  let m = kb_mods s in
                  if code = ''Space'' \<and> kb_last_space s > 0 \<and> now - kb_last_space s < DOUBLE_SPACE_MS
                  then (emit double_space s)\<lparr>kb_last_space := 0\<rparr>
                  else
                    let s = start_repeat hid m (emit (kb_send hid m) s)
                    in if code = ''Space'' then s\<lparr>kb_last_space := now\<rparr> else s)
     in clear_suggestions (clear_mods s))"

definition kb_press :: "rat \<Rightarrow> button \<Rightarrow> kb \<Rightarrow> kb" where
  "kb_press now b s =
    (let s = stop_repeat s in
     if b_caps b \<noteq> None then press_caps s
     else case b_mod b of
            Some name \<Rightarrow> press_mod name s
          | None \<Rightarrow>
              (case b_char b of
                 Some ch \<Rightarrow> press_char ch s
               | None \<Rightarrow>
                   (case b_combo b of
                      Some combo \<Rightarrow> press_combo combo s
                    | None \<Rightarrow> (case b_code b of Some code \<Rightarrow> press_code_button now code s | None \<Rightarrow> s))))"

section \<open>Word gestures\<close>

text \<open>The letter keys on the page: the attribute and the rectangle (left, top, width, height).\<close>

definition read_letter_centers :: "(string option \<times> rat \<times> rat \<times> rat \<times> rat) list \<Rightarrow> point list option" where
  "read_letter_centers els =
    (let found = List.map_filter
           (\<lambda>(attr, l, t, w, h). case attr of
              Some (b # _) \<Rightarrow> if is_lower b then Some (letter b, (l + w / 2, t + h / 2)) else None
            | _ \<Rightarrow> None) els
     in if length found < 20 then None
        else Some (map (\<lambda>i. case map_of (rev found) i of Some c \<Rightarrow> c | None \<Rightarrow> (0, 0)) [0..<26]))"

definition swipe_start :: "char option \<Rightarrow> point list \<Rightarrow> kb \<Rightarrow> kb" where
  "swipe_start ch touches s =
    (case ch of
       Some c \<Rightarrow> s\<lparr>kb_tap := Some c, kb_path := take 1 touches\<rparr>
     | None \<Rightarrow> s\<lparr>kb_tap := None\<rparr>)"

definition swipe_move :: "point list \<Rightarrow> kb \<Rightarrow> kb" where
  "swipe_move touches s = (if kb_tap s = None then s else s\<lparr>kb_path := kb_path s @ take 1 touches\<rparr>)"

text \<open>How many times the nearest key changes along a path.\<close>

fun key_changes :: "point list \<Rightarrow> nat option \<Rightarrow> point list \<Rightarrow> nat" where
  "key_changes centers prev [] = 0"
| "key_changes centers prev (p # ps) =
    (let k = nearest_letter p centers in
     if Some k \<noteq> prev then Suc (key_changes centers (Some k) ps) else key_changes centers prev ps)"

definition is_swipe :: "hyp \<Rightarrow> point list \<Rightarrow> point list \<Rightarrow> bool" where
  "is_swipe hyp centers pts =
    (let key_w = max (dist hyp (centers ! 16) (centers ! 22)) 20
     in key_changes centers None pts \<ge> 2 \<and> path_length hyp pts > key_w * (12 / 10))"

definition tap_letter :: "char \<Rightarrow> kb \<Rightarrow> kb" where
  "tap_letter c s =
    (let s = (case char_to_hid c of
                None \<Rightarrow> s
              | Some (hid, shift) \<Rightarrow>
                  emit (kb_send hid (if shift \<or> kb_caps s then kb_mods s OR mod_bit ''shift'' else kb_mods s)) s)
     in clear_suggestions (clear_mods s))"

definition type_best :: "string list \<Rightarrow> kb \<Rightarrow> kb" where
  "type_best ws s =
    clear_mods
      (case ws of
         [] \<Rightarrow> s
       | w # _ \<Rightarrow> (emit (kb_send_word w (kb_caps s)) s)\<lparr>kb_last_word := length w + 1, kb_suggest := ws\<rparr>)"

definition swipe_end ::
  "hyp \<Rightarrow> decoder \<Rightarrow> (string option \<times> rat \<times> rat \<times> rat \<times> rat) list \<Rightarrow> kb \<Rightarrow> kb" where
  "swipe_end hyp decoder els s =
    (case kb_tap s of
       None \<Rightarrow> s
     | Some start_char \<Rightarrow>
         let pts = kb_path s; s = s\<lparr>kb_tap := None, kb_path := []\<rparr>
         in case read_letter_centers els of
              None \<Rightarrow> s
            | Some centers \<Rightarrow>
                if is_swipe hyp centers pts
                then type_best (case decode_swipe hyp decoder pts centers 5 of Some ws \<Rightarrow> ws | None \<Rightarrow> []) s
                else tap_letter start_char s)"

definition tap_suggestion :: "string \<Rightarrow> kb \<Rightarrow> kb" where
  "tap_suggestion word s =
    (emit (concat (replicate (kb_last_word s) (kb_send 0x2A 0)) @ kb_send_word word (kb_caps s)) s)
      \<lparr>kb_last_word := length word + 1\<rparr>"

section \<open>The physical keyboard\<close>

definition on_key :: "bool \<Rightarrow> bool \<Rightarrow> string \<Rightarrow> u32 \<Rightarrow> kb \<Rightarrow> kb" where
  "on_key modal_open pressed code mods s =
    (if modal_open then s
     else (case code_to_hid code of None \<Rightarrow> s | Some hid \<Rightarrow> emit [key hid pressed mods] s))"

section \<open>What the host reads\<close>

text \<open>A host with the US layout that takes Shift from the event's mask, as the macOS one does: the
  character of a usage, and the text in a field as key presses arrive, backspace included.\<close>

definition us_layout :: "((nat \<times> bool) \<times> nat) list" where
  "us_layout = [
    ((40, False), 10), ((43, False), 9), ((30, False), 49), ((31, False), 50),
    ((32, False), 51), ((33, False), 52), ((34, False), 53), ((35, False), 54),
    ((36, False), 55), ((37, False), 56), ((38, False), 57), ((39, False), 48),
    ((30, True), 33), ((31, True), 64), ((32, True), 35), ((33, True), 36),
    ((34, True), 37), ((35, True), 94), ((36, True), 38), ((37, True), 42),
    ((38, True), 40), ((39, True), 41), ((44, False), 32), ((45, False), 45),
    ((45, True), 95), ((46, False), 61), ((46, True), 43), ((47, False), 91),
    ((47, True), 123), ((48, False), 93), ((48, True), 125), ((49, False), 92),
    ((49, True), 124), ((51, False), 59), ((51, True), 58), ((52, False), 39),
    ((52, True), 34), ((53, False), 96), ((53, True), 126), ((54, False), 44),
    ((54, True), 60), ((55, False), 46), ((55, True), 62), ((56, False), 47),
    ((56, True), 63)]"

definition host_char :: "u32 \<Rightarrow> bool \<Rightarrow> char option" where
  "host_char h shift =
    (let n = unat h in
     if 4 \<le> n \<and> n \<le> 29 then Some (char_of (if shift then n - 4 + 65 else n - 4 + 97))
     else map_option char_of (map_of us_layout (n, shift)))"

definition read_key :: "input_event \<Rightarrow> string \<Rightarrow> string" where
  "read_key e phrase =
    (case e of
       KeyEvent h True m \<Rightarrow>
         if h = 0x2A then butlast phrase
         else if m = 0 \<or> m = mod_SHIFT
         then (case host_char h (m = mod_SHIFT) of Some c \<Rightarrow> phrase @ [c] | None \<Rightarrow> phrase)
         else phrase
     | _ \<Rightarrow> phrase)"

definition read_keys :: "input_event list \<Rightarrow> string \<Rightarrow> string" where
  "read_keys es phrase = fold read_key es phrase"

lemma read_keys_append [simp]: "read_keys (a @ b) phrase = read_keys b (read_keys a phrase)"
  by (simp add: read_keys_def)

lemma read_send [simp]: "read_keys (kb_send h m) phrase = read_key (KeyEvent h True m) phrase"
  by (simp add: read_keys_def kb_send_def key_def read_key_def)

text \<open>Carriage return is typed as Enter.\<close>

definition as_typed :: "char \<Rightarrow> char" where "as_typed c = (if c = CHR 0x0D then CHR 0x0A else c)"

definition typable :: "char \<Rightarrow> bool" where "typable c \<longleftrightarrow> char_to_hid c \<noteq> None"

definition upper :: "char \<Rightarrow> char" where "upper c = (if is_lower c then char_of (of_char c - 32 :: nat) else c)"

lemma layout_inverse_table:
  "list_all (\<lambda>(c, u, s). u < 256 \<and> u \<noteq> 42 \<and> \<not> (4 \<le> u \<and> u \<le> 29) \<and> \<not> is_lower c
      \<and> map_option char_of (map_of us_layout (u, s)) = Some (as_typed c)) char_table"
  by code_simp

lemma unat_letter: "i < 26 \<Longrightarrow> unat (4 + of_nat i :: u32) = 4 + i"
  by (simp add: unat_word_ariths unat_of_nat take_bit_nat_eq_self)

lemma letter_key:
  assumes "i < 26"
  shows "(4 + of_nat i :: u32) \<noteq> 0x2A" "host_char (4 + of_nat i) s = Some (char_of (if s then i + 65 else i + 97))"
proof -
  have "unat (4 + of_nat i :: u32) \<noteq> unat (0x2A :: u32)" using assms by (simp add: unat_letter)
  then show "(4 + of_nat i :: u32) \<noteq> 0x2A" by metis
  show "host_char (4 + of_nat i) s = Some (char_of (if s then i + 65 else i + 97))"
    using assms by (simp add: host_char_def unat_letter Let_def)
qed

lemma layout_inverse:
  assumes "char_to_hid c = Some (h, s)"
  shows "h \<noteq> 0x2A \<and> host_char h s = Some (as_typed c) \<and> (is_lower c \<longrightarrow> \<not> s \<and> host_char h True = Some (upper c))"
proof -
  let ?n = "of_char c :: nat"
  have c: "char_of ?n = c" by simp
  consider (lower) "97 \<le> ?n" "?n \<le> 122" | (upper) "65 \<le> ?n" "?n \<le> 90" | (other) "\<not> (97 \<le> ?n \<and> ?n \<le> 122)" "\<not> (65 \<le> ?n \<and> ?n \<le> 90)"
    by linarith
  then show ?thesis
  proof cases
    case lower
    define i where "i = ?n - 97"
    have i: "?n = i + 97" "i < 26" using lower by (auto simp: i_def)
    have c_eq: "c = char_of (i + 97)" using c i(1) by metis
    have "h = 4 + of_nat i" "s = False" using assms lower i(1) by (auto simp: char_to_hid_def)
    moreover have "as_typed c = c" "is_lower c" "upper c = char_of (i + 65)"
      using lower i(1) by (auto simp: as_typed_def is_lower_def upper_def)
    ultimately show ?thesis using letter_key [OF i(2)] c_eq by simp
  next
    case upper
    define i where "i = ?n - 65"
    have i: "?n = i + 65" "i < 26" using upper by (auto simp: i_def)
    have c_eq: "c = char_of (i + 65)" using c i(1) by metis
    have "h = 4 + of_nat i" "s = True" using assms upper i(1) by (auto simp: char_to_hid_def)
    moreover have "as_typed c = c" "\<not> is_lower c" using upper i(1) by (auto simp: as_typed_def is_lower_def)
    ultimately show ?thesis using letter_key [OF i(2)] c_eq by simp
  next
    case other
    obtain u where u: "map_of char_table c = Some (u, s)" "h = of_nat u"
      using assms other by (auto simp: char_to_hid_def Let_def split: if_splits)
    have t: "u < 256" "u \<noteq> 42" "\<not> (4 \<le> u \<and> u \<le> 29)" "\<not> is_lower c"
        "map_option char_of (map_of us_layout (u, s)) = Some (as_typed c)"
      using map_of_SomeD [OF u(1)] layout_inverse_table unfolding list_all_iff by blast+
    have uh: "unat h = u" using u(2) t(1) by (simp add: unat_of_nat take_bit_nat_eq_self)
    then have "h \<noteq> 0x2A" using t(2) by auto
    then show ?thesis using t uh by (auto simp: host_char_def Let_def)
  qed
qed

lemma mod_shift: "mod_bit ''shift'' = mod_SHIFT"
  by (simp add: mod_bit_def)

lemma mod_SHIFT_neq [simp]: "mod_SHIFT \<noteq> 0" "0 \<noteq> mod_SHIFT"
  by (simp_all add: mod_SHIFT_def)

lemma read_typed_char:
  assumes "char_to_hid c = Some (h, s)"
  shows "read_key (KeyEvent h True (if s then mod_SHIFT else 0)) phrase = phrase @ [as_typed c]"
  using layout_inverse [OF assms] by (cases s) (auto simp: read_key_def)

lemma read_capital:
  assumes "char_to_hid c = Some (h, s)" "is_lower c"
  shows "read_key (KeyEvent h True mod_SHIFT) phrase = phrase @ [upper c]"
  using layout_inverse [OF assms(1)] assms(2) by (auto simp: read_key_def)

lemma read_space: "read_keys (kb_send 0x2C 0) phrase = phrase @ '' ''"
proof -
  have "char_to_hid CHR '' '' = Some (0x2C, False)" by (simp add: char_to_hid_def char_table_def Let_def)
  from read_typed_char [OF this, of phrase] show ?thesis by (simp add: as_typed_def)
qed

text \<open>Dictated text is what the host reads: typed into a field of a host with the US layout, the
  key events sent for a text add to it exactly the characters of the text that the layout has, in
  order, with Enter for both line ends.\<close>

theorem dictation_types_text:
  "read_keys (dictate phrase) field = field @ map as_typed (filter typable phrase)"
proof (induction phrase arbitrary: field)
  case Nil
  then show ?case by (simp add: dictate_def read_keys_def)
next
  case (Cons c phrase)
  have d: "dictate (c # phrase) = (case char_to_hid c of Some (hid, shift) \<Rightarrow> kb_send hid (if shift then mod_bit ''shift'' else 0)
      | None \<Rightarrow> []) @ dictate phrase"
    by (simp add: dictate_def)
  show ?case
  proof (cases "char_to_hid c")
    case None
    then show ?thesis using Cons by (simp add: d typable_def)
  next
    case (Some hs)
    then obtain h s where hs: "char_to_hid c = Some (h, s)" by (cases hs) simp
    have "read_keys (kb_send h (if s then mod_SHIFT else 0)) field = field @ [as_typed c]"
      using read_typed_char [OF hs] by simp
    moreover have "dictate (c # phrase) = kb_send h (if s then mod_SHIFT else 0) @ dictate phrase"
      unfolding d hs mod_shift by simp
    ultimately show ?thesis using Cons.IH hs by (simp add: typable_def del: read_send)
  qed
qed

definition cased :: "bool \<Rightarrow> string \<Rightarrow> string" where
  "cased caps w = (if caps then map upper w else w)"

lemma lower_typable: "is_lower c \<Longrightarrow> \<exists>h. char_to_hid c = Some (h, False) \<and> as_typed c = c"
  by (auto simp: is_lower_def char_to_hid_def as_typed_def)

lemma read_word:
  assumes "list_all is_lower w"
  shows "read_keys (kb_send_word w caps) field = field @ cased caps w @ '' ''"
proof -
  let ?k = "\<lambda>c. case char_to_hid c of Some (hid, shift) \<Rightarrow> kb_send hid (if shift \<or> caps then mod_bit ''shift'' else 0)
      | None \<Rightarrow> []"
  have "read_keys (concat (map ?k w)) field = field @ cased caps w"
    using assms
  proof (induction w arbitrary: field)
    case Nil
    then show ?case by (simp add: read_keys_def cased_def)
  next
    case (Cons c w)
    then obtain h where h: "char_to_hid c = Some (h, False)" "as_typed c = c" using lower_typable by auto
    have "read_keys (?k c) field = field @ (if caps then [upper c] else [c])"
      using h read_capital [OF h(1)] read_typed_char [OF h(1)] Cons.prems by (simp add: mod_shift)
    then show ?case using Cons by (simp add: cased_def)
  qed
  then show ?thesis using read_space by (simp add: kb_send_word_def)
qed

lemma read_backspaces: "read_keys (concat (replicate n (kb_send 0x2A 0))) (field @ w) = field" if "length w = n"
  using that
proof (induction n arbitrary: w)
  case 0
  then show ?case by (simp add: read_keys_def)
next
  case (Suc n)
  then obtain v c where w: "w = v @ [c]" "length v = n" by (cases w rule: rev_cases) auto
  have "read_key (KeyEvent 0x2A True 0) (field @ w) = field @ v" by (simp add: read_key_def w butlast_append)
  then show ?case using Suc.IH [OF w(2)] by simp
qed

lemma suggestion_state:
  assumes "list_all is_lower v" "read_keys (kb_out s) [] = field @ old" "kb_last_word s = length old"
  shows "read_keys (kb_out (tap_suggestion v s)) [] = field @ cased (kb_caps s) v @ '' ''
    \<and> kb_last_word (tap_suggestion v s) = length (cased (kb_caps s) v @ '' '') \<and> kb_caps (tap_suggestion v s) = kb_caps s"
  using read_word [OF assms(1)] read_backspaces [of old "kb_last_word s" field] assms(2,3)
  by (simp add: tap_suggestion_def emit_def cased_def)

text \<open>C37: Suggestions correct the word: when a swipe has typed its best guess, tapping suggestions, one
  after another, leaves in the host's field what was there before the swipe, the last word tapped
  and one space - in capitals while caps lock is on.\<close>

theorem suggestions_replace_word:
  assumes "list_all is_lower w" "\<forall>v\<in>set vs. list_all is_lower v"
  shows "read_keys (kb_out (fold tap_suggestion vs (type_best (w # ws) s))) []
    = read_keys (kb_out s) [] @ cased (kb_caps s) (last (w # vs)) @ '' ''"
proof -
  define field where "field = read_keys (kb_out s) []"
  define t where "t = type_best (w # ws) s"
  have t: "read_keys (kb_out t) [] = field @ cased (kb_caps t) w @ '' ''"
      "kb_last_word t = length (cased (kb_caps t) w @ '' '')" "kb_caps t = kb_caps s"
    using read_word [OF assms(1)] by (simp_all add: t_def field_def type_best_def emit_def clear_mods_def cased_def)
  have "read_keys (kb_out (fold tap_suggestion vs t)) [] = field @ cased (kb_caps t) (last (w # vs)) @ '' ''"
    using assms(2) t(1,2)
  proof (induction vs arbitrary: w t)
    case (Cons v vs)
    have "list_all is_lower v" using Cons.prems(1) by simp
    from suggestion_state [OF this Cons.prems(2,3)]
    have "read_keys (kb_out (tap_suggestion v t)) [] = field @ cased (kb_caps (tap_suggestion v t)) v @ '' ''"
      "kb_last_word (tap_suggestion v t) = length (cased (kb_caps (tap_suggestion v t)) v @ '' '')"
      "kb_caps (tap_suggestion v t) = kb_caps t" by simp_all
    with Cons.IH [of "tap_suggestion v t" v] Cons.prems(1) show ?case by simp
  qed simp
  then show ?thesis using t(3) by (simp add: t_def field_def)
qed

lemma suggestions_replace_word_witness:
  "read_keys (kb_out (fold tap_suggestion [''two'', ''too''] (type_best [''to''] kb_init))) [] = ''too ''"
proof -
  have "list_all is_lower ''to''" "\<forall>v\<in>set [''two'', ''too'']. list_all is_lower v" by (simp_all add: is_lower_def)
  from suggestions_replace_word [OF this, of "[]" kb_init] show ?thesis
    by (simp add: kb_init_def cased_def read_keys_def)
qed

text \<open>Only Space itself resets the double-space timer: a letter tapped between two quick spaces is
  erased by the second one.\<close>

lemma double_space_eats_letter:
  "read_keys (kb_out (press_code_button 300 ''Space'' (tap_letter CHR ''x'' (press_code_button 100 ''Space'' kb_init)))) []
    = '' . ''"
  by code_simp

end
