(* ===== verification/ViewerWindow.thy ===== *)
theory ViewerWindow
  imports ViewerApp WebKeyboard
begin

text \<open>
  What the desktop viewer's window makes of the user: the key table against the browser viewer's,
  the letterbox of the video, what reaches the host while the viewer only watches, and the
  corners where the window, the host check and the jobs do something else than meant.
\<close>

section \<open>Keys\<close>

text \<open>The browser's name of a winit key: the Super keys are its Meta keys.\<close>

definition browser_name :: "string \<Rightarrow> string" where
  "browser_name c =
    (if c = ''SuperLeft'' then ''MetaLeft'' else if c = ''SuperRight'' then ''MetaRight''
     else if c = ''MetaLeft'' then ''SuperLeft'' else if c = ''MetaRight'' then ''SuperRight'' else c)"

definition browser_only :: "string list" where
  "browser_only = [''PrintScreen'', ''ScrollLock'', ''Pause'', ''Insert'']"

lemma tables_match:
  "map (\<lambda>(c, h). (browser_name c, h)) winit_table = filter (\<lambda>(c, h). c \<notin> set browser_only) code_table"
  by (simp add: winit_table_def code_table_def browser_name_def browser_only_def)

lemma browser_name_twice: "browser_name (browser_name c) = c"
  by (simp add: browser_name_def)

lemma browser_name_only: "browser_name c \<in> set browser_only \<longleftrightarrow> c \<in> set browser_only"
  by (auto simp: browser_name_def browser_only_def)

lemma map_of_renamed: "map_of (map (\<lambda>(c, h). (browser_name c, h)) xs) c = map_of xs (browser_name c)"
  by (induction xs) (auto simp: browser_name_twice)

lemma map_of_kept: "map_of (filter (\<lambda>(c, h). P c) xs) c = (if P c then map_of xs c else None)"
  by (induction xs) auto

lemma winit_of_browser:
  "winit_keycode_to_hid c = (if c \<in> {''PrintScreen'', ''ScrollLock'', ''Pause'', ''Insert''} then None else code_to_hid (browser_name c))"
proof -
  have "map_of winit_table c = map_of (map (\<lambda>(c, h). (browser_name c, h)) winit_table) (browser_name c)"
    by (simp add: map_of_renamed browser_name_twice)
  also have "\<dots> = (if c \<in> set browser_only then None else map_of code_table (browser_name c))"
    unfolding tables_match map_of_kept by (simp add: browser_name_only)
  finally show ?thesis by (simp add: winit_keycode_to_hid_def code_to_hid_def browser_only_def)
qed

section \<open>The letterbox\<close>

text \<open>The video keeps its shape: over a window and a frame with an area, the scaled quad has the
  frame's aspect ratio, lies within the window, and fills it in one direction.\<close>

theorem letterbox_keeps_shape:
  assumes "0 < ww" "0 < wh" "0 < iw" "0 < ih" "letterbox_scale ww wh iw ih = (sx, sy)"
  shows "sx * of_nat ww * of_nat ih = sy * of_nat wh * of_nat iw
    \<and> 0 < sx \<and> sx \<le> 1 \<and> 0 < sy \<and> sy \<le> 1 \<and> (sx = 1 \<or> sy = 1)"
proof -
  define w where "w = (of_nat ww / of_nat wh :: rat)"
  define i where "i = (of_nat iw / of_nat ih :: rat)"
  have m: "max wh (Suc 0) = wh" "max ih (Suc 0) = ih" using assms by auto
  have p: "0 < w" "0 < i" using assms by (simp_all add: w_def i_def)
  have s: "(sx, sy) = (if w > i then (i / w, 1) else (1, w / i))"
    using assms(5) by (simp add: letterbox_scale_def m w_def i_def Let_def split: if_splits)
  have wi: "(of_nat ww :: rat) = w * of_nat wh" "(of_nat iw :: rat) = i * of_nat ih"
    using assms by (simp_all add: w_def i_def)
  show ?thesis
  proof (cases "w > i")
    case True
    then have "sx = i / w" "sy = 1" using s by simp_all
    then show ?thesis using True p by (simp add: wi)
  next
    case False
    then have "sx = 1" "sy = w / i" using s by simp_all
    then show ?thesis using False p by (simp add: wi)
  qed
qed

lemma letterbox_keeps_shape_witness: "letterbox_scale 2000 1000 1000 1000 = (1/2, 1) \<and> (1/2 :: rat) * 2000 * 1000 = 1 * 1000 * 1000"
proof -
  have e: "letterbox_scale 2000 1000 1000 1000 = (1/2, 1)" by (simp add: letterbox_scale_def)
  from letterbox_keeps_shape [OF _ _ _ _ e] show ?thesis using e by simp
qed

section \<open>What reaches the host\<close>

definition inputs_of :: "viewer_app \<Rightarrow> input_event list" where
  "inputs_of s = (case va_session s of
     None \<Rightarrow> []
   | Some x \<Rightarrow> concat (map (\<lambda>c. case c of SendInput e \<Rightarrow> [e] | _ \<Rightarrow> []) (vs_cmds x)))"

lemma inputs_none: "va_session s = None \<Longrightarrow> inputs_of s = []"
  by (simp add: inputs_of_def)

lemma inputs_give:
  "inputs_of (give c s) = (if va_session s = None then [] else inputs_of s @ (case c of SendInput e \<Rightarrow> [e] | _ \<Rightarrow> []))"
  by (auto simp: inputs_of_def give_def split: option.split)

lemma inputs_same [simp]:
  "inputs_of (s\<lparr>va_screen := a\<rparr>) = inputs_of s" "inputs_of (s\<lparr>va_cursor := c\<rparr>) = inputs_of s" "inputs_of (s\<lparr>va_mods := m\<rparr>) = inputs_of s"
  "inputs_of (s\<lparr>va_hud := h\<rparr>) = inputs_of s" "inputs_of (s\<lparr>va_file_status := f\<rparr>) = inputs_of s"
  "inputs_of (s\<lparr>va_last_ping := n\<rparr>) = inputs_of s" "inputs_of (s\<lparr>va_active := i\<rparr>) = inputs_of s"
  by (simp_all add: inputs_of_def)

lemma inputs_session: "va_session s' = va_session s \<Longrightarrow> inputs_of s' = inputs_of s"
  by (simp add: inputs_of_def)

text \<open>An operation that leaves the session, replaces it with a fresh one or gives it no input.\<close>

definition calm :: "viewer_app \<Rightarrow> viewer_app \<Rightarrow> bool" where
  "calm s s' \<longleftrightarrow> inputs_of s' = [] \<or> inputs_of s' = inputs_of s"

lemma calm_trans: "calm s t \<Longrightarrow> calm t u \<Longrightarrow> calm s u"
  by (auto simp: calm_def)

lemma calm_same: "va_session s' = va_session s \<Longrightarrow> calm s s'"
  using inputs_session unfolding calm_def by blast

lemma calm_leave: "calm s (leave_session t)"
  by (simp add: calm_def inputs_none)

lemma calm_start: "calm s (start_session ax now sg t)"
  by (auto simp: calm_def start_session_def Let_def inputs_of_def split: option.split)

lemma calm_confirm: "calm s (action_confirm_connect ax now s)"
  by (auto simp: action_confirm_connect_def Let_def calm_leave calm_start split: option.split prod.split)

lemma calm_update: "calm s (handle_session_update ax u s)"
proof (cases u)
  case (VuHostIdentity pk dev ver)
  then show ?thesis
    using check_host_good [of "ax_crypto ax" pk dev ver s] check_host_bad [of "ax_crypto ax" pk dev ver s]
    by (cases "host_ok (ax_crypto ax) pk dev ver s") (auto simp: calm_leave calm_same)
qed (auto simp: calm_leave calm_same)

lemma calm_drain: "calm s (drain_updates ax us s)"
proof (induction us arbitrary: s)
  case (Cons u us)
  then show ?case using calm_trans [OF calm_update Cons.IH] by (simp add: calm_same)
qed (simp add: calm_same)

lemma calm_click: "calm s (build_ui ax now c s)"
proof -
  have l: "calm s (ui_login c s)"
    by (cases c) (auto intro!: calm_same simp: action_sign_in_def action_create_account_def open_pairing_def spawn_def Let_def)
  have d: "calm s (ui_devices c s)"
    by (cases c) (auto intro!: calm_same simp: action_sign_out_def refresh_devices_def open_pairing_def action_register_this_device_def
      action_begin_connect_def action_delete_device_def peer_key_eq spawn_def)
  have w: "calm s (action_submit_host_password s)"
    using inputs_give [of "SubmitPassword (va_host_pw s)" s]
    by (auto simp: calm_def action_submit_host_password_def inputs_of_def split: option.split)
  have c: "calm s (ui_connecting ax now c s)"
    by (cases c) (auto simp: calm_confirm calm_leave w calm_same split: connecting.split)
  have i: "calm s (ui_session c s)"
    by (cases c) (auto simp: calm_leave calm_same, auto simp: calm_def inputs_give inputs_none)
  have p: "calm s (ui_pair c s)"
  proof (cases c)
    case (Generate x)
    then show ?thesis by (cases x) (auto intro: calm_same)
  qed (auto intro!: calm_same simp: start_pairing_def spawn_def Let_def)
  show ?thesis using l d c i p by (auto simp: build_ui_def calm_same split: screen.split)
qed

lemma poll_keeps_session: "va_session (poll_job r s) = va_session s"
  by (rule poll_no_session)

text \<open>C21: The host only gets input the user meant for it: a step that gives the session an input event is a
  window event that the overlay did not consume, on the session screen, with view-only off, and it
  gives exactly one.\<close>

theorem input_is_forwarded:
  assumes given: "inputs_of (app_step ax now e s) \<noteq> inputs_of s" "inputs_of (app_step ax now e s) \<noteq> []"
  shows "(\<exists>win w. e = Window win False w) \<and> va_screen s = InSession \<and> \<not> va_view_only s
    \<and> (\<exists>i. inputs_of (app_step ax now e s) = inputs_of s @ [i])"
proof (cases e)
  case (Click c)
  then show ?thesis using given calm_click [of s ax now c] by (auto simp: calm_def)
next
  case (Wait us r)
  have "calm s (poll_job r (drain_updates ax us s))"
    using calm_trans [OF calm_drain calm_same [OF poll_keeps_session]] by blast
  then show ?thesis using given Wait by (auto simp: about_to_wait_def Let_def calm_def inputs_give split: if_splits)
next
  case (Window win consumed w)
  then show ?thesis using given
    by (cases "(win, consumed, w, s)" rule: on_window_event.cases)
      (auto simp: Let_def inputs_give forwarding_input_def split: option.splits prod.splits if_splits)
qed

text \<open>C40: The two viewers agree on the keyboard: for a physical key that goes down or up while the desktop
  viewer forwards input, it sends what the browser viewer sends for that key under the same modifier
  mask (the Super keys being the browser's Meta keys), except that the desktop viewer sends nothing for
  Print Screen, Scroll Lock, Pause and Insert, and nothing for the press of F1, which toggles its overlay.\<close>

theorem viewers_agree_on_keys:
  assumes "forwarding_input consumed s"
  shows "\<exists>sent. kb_out (on_key False pressed (browser_name c) (va_mods s) k) = kb_out k @ sent
    \<and> sent = (case code_to_hid (browser_name c) of Some h \<Rightarrow> [KeyEvent h pressed (va_mods s)] | None \<Rightarrow> [])
    \<and> inputs_of (on_window_event win consumed (KeyboardInput c pressed) s) = inputs_of s
        @ (if c \<in> {''PrintScreen'', ''ScrollLock'', ''Pause'', ''Insert''} \<or> c = ''F1'' \<and> pressed then [] else sent)"
proof -
  let ?sent = "case code_to_hid (browser_name c) of Some h \<Rightarrow> [KeyEvent h pressed (va_mods s)] | None \<Rightarrow> []"
  have "kb_out (on_key False pressed (browser_name c) (va_mods s) k) = kb_out k @ ?sent"
    by (simp add: on_key_def emit_def key_def split: option.split)
  moreover have "inputs_of (on_window_event win consumed (KeyboardInput c pressed) s) = inputs_of s
      @ (if c \<in> {''PrintScreen'', ''ScrollLock'', ''Pause'', ''Insert''} \<or> c = ''F1'' \<and> pressed then [] else ?sent)"
  proof (cases "c = ''F1'' \<and> pressed")
    case True
    then show ?thesis using assms by (simp add: forwarding_input_def)
  next
    case False
    then show ?thesis using assms unfolding on_window_event.simps winit_of_browser
      by (auto simp: forwarding_input_def inputs_give split: option.split)
  qed
  ultimately show ?thesis by blast
qed

section \<open>Examples\<close>

definition demo_watched :: viewer_app where
  "demo_watched = demo_viewer_app\<lparr>va_screen := InSession, va_conn := Establishing,
     va_session := Some \<lparr> vs_cfg = viewer_config_default, vs_signaling = VsLan [], vs_cmds = [] \<rparr>\<rparr>"

lemma demo_watched_simps:
  "va_screen demo_watched = InSession" "va_view_only demo_watched = False" "va_verified demo_watched = None" "va_mods demo_watched = 0"
  "va_session demo_watched = Some \<lparr> vs_cfg = viewer_config_default, vs_signaling = VsLan [], vs_cmds = [] \<rparr>"
  "va_selected demo_watched = Some demo_host_info" "inputs_of demo_watched = []" "va_hud demo_watched"
  by (simp_all add: demo_watched_def demo_viewer_app_def app_new_def app_fresh_def quick_connect_signaling_def demo_ax_def inputs_of_def)

lemma demo_key:
  "winit_keycode_to_hid ''KeyA'' = Some 4" "winit_keycode_to_hid ''F1'' = Some 58"
  by (simp_all add: winit_keycode_to_hid_def winit_table_def)

lemma input_is_forwarded_witness:
  "\<exists>i. inputs_of (app_step demo_ax 0 (Window (100, 100) False (KeyboardInput ''KeyA'' True)) demo_watched) = [i]"
proof -
  let ?s = "app_step demo_ax 0 (Window (100, 100) False (KeyboardInput ''KeyA'' True)) demo_watched"
  have "inputs_of ?s = [KeyEvent 4 True 0]"
    by (simp add: forwarding_input_def demo_watched_simps demo_key inputs_give)
  then have "inputs_of ?s \<noteq> inputs_of demo_watched" "inputs_of ?s \<noteq> []" by (simp_all add: demo_watched_simps)
  from input_is_forwarded [OF this] show ?thesis by (simp add: demo_watched_simps)
qed

lemma viewers_agree_on_keys_witness:
  "inputs_of (on_window_event (100, 100) False (KeyboardInput ''SuperLeft'' True) demo_watched)
    = kb_out (on_key False True ''MetaLeft'' 0 kb_init)
   \<and> kb_out (on_key False True ''MetaLeft'' 0 kb_init) \<noteq> []"
proof -
  have f: "forwarding_input False demo_watched" by (simp add: forwarding_input_def demo_watched_simps)
  have b: "browser_name ''SuperLeft'' = ''MetaLeft''" "code_to_hid ''MetaLeft'' = Some 227" "kb_out kb_init = []"
    by (simp_all add: browser_name_def code_to_hid_def code_table_def kb_init_def)
  from viewers_agree_on_keys [OF f, of True "''SuperLeft''" kb_init "(100, 100)"] show ?thesis
    by (simp add: b demo_watched_simps)
qed

section \<open>Corners\<close>

text \<open>A host that answers without a proof keeps its session, whatever key is pinned for it; and input goes out
  as soon as the data channel is up, before any identity was reported.\<close>

lemma pin_needs_a_proof:
  "va_session (drain_updates demo_ax [VuConnected, VuPaired True] demo_watched) = va_session demo_watched
   \<and> va_screen (drain_updates demo_ax [VuConnected, VuPaired True] demo_watched) = InSession
   \<and> va_verified (drain_updates demo_ax [VuConnected, VuPaired True] demo_watched) = None"
  by (simp add: demo_watched_simps)

lemma input_before_proof:
  assumes "va_session s \<noteq> None" "\<not> va_view_only s" "winit_keycode_to_hid k = Some h" "k \<noteq> ''F1''"
  shows "inputs_of (on_window_event win False (KeyboardInput k p) (handle_session_update ax VuConnected s))
    = inputs_of s @ [KeyEvent h p (va_mods s)]"
  using assms by (auto simp: forwarding_input_def inputs_give)

text \<open>Quick-connect selects no host, so a host that proves its identity is always left.\<close>

lemma quick_connect_refuses_proof:
  "va_selected s = None \<Longrightarrow> va_session (handle_session_update ax (VuHostIdentity pk dev ver) s) = None"
  using check_host_bad [of "ax_crypto ax" pk dev ver s] by (auto simp: host_ok_def)

lemma quick_connect_selects_none: "va_selected (app_new ax dir d i err now) = None"
  by (auto simp: app_new_def Let_def start_session_def leave_session_def app_fresh_def split: option.split sum.split)

text \<open>The press of F1 is not forwarded, but its release is.\<close>

lemma f1_release_forwarded:
  "inputs_of (on_window_event win False (KeyboardInput ''F1'' False) (on_window_event win False (KeyboardInput ''F1'' True) demo_watched))
    = [KeyEvent 58 False 0]"
  by (simp add: demo_watched_simps forwarding_input_def inputs_give demo_key)

text \<open>View-only switched on while a key is down keeps the release back: the host holds the key.\<close>

lemma view_only_keeps_key_down:
  "inputs_of (fold (\<lambda>e s. app_step demo_ax 0 e s)
      [Window win False (KeyboardInput ''KeyA'' True), Click (SetViewOnly True), Window win False (KeyboardInput ''KeyA'' False)] demo_watched)
    = [KeyEvent 4 True 0]"
proof -
  let ?s = "give (SendInput (KeyEvent 4 True 0)) demo_watched"
  have "va_hud ?s" "va_screen ?s = InSession" by (simp_all add: give_def demo_watched_simps)
  moreover have "inputs_of (?s\<lparr>va_view_only := True\<rparr>) = inputs_of ?s" by (rule inputs_session) simp
  ultimately show ?thesis
    by (simp add: demo_watched_simps forwarding_input_def demo_key build_ui_def inputs_give)
qed

text \<open>A job answered after signing out still acts: the token of the account left is back.\<close>

lemma sign_out_token_returns:
  assumes "va_screen s = Devices" "va_job s = Some AskThisDevice"
  shows "va_token (poll_job (Some (ThisDevice (Inr t))) (build_ui ax now SignOut s)) = Some t"
  using assms by (simp add: build_ui_def action_sign_out_def poll_job_def refresh_devices_def)

text \<open>The news that this device is registered is erased at once by the reload of the devices.\<close>

lemma registered_news_erased:
  assumes "va_account s \<noteq> None" "va_creds s \<noteq> None" "va_busy s = None"
  shows "va_info (apply_job (ThisDevice (Inr t)) s) = None"
  using assms by (simp add: refresh_devices_def spawn_def)

text \<open>The pointer is measured over the window, the video may fill half of it: over a square frame in a window twice
  as wide, the frame's left edge (x = 500 of 2000) is sent as a quarter of the screen.\<close>

lemma pointer_ignores_letterbox:
  "letterbox_scale 2000 1000 1000 1000 = (1/2, 1)" "normalize_cursor (2000, 1000) (Fin 500, Fin 0) = (Fin (1/4), Fin 0)"
  by (simp_all add: letterbox_scale_def normalize_cursor_def f_clamp_def)

text \<open>A key the server sends with a wide character at the cut makes the list of devices panic.\<close>

lemma short_panics: "short (replicate 11 CHR ''a'' @ map char_of [0xC3 :: nat, 0xA9] @ replicate 20 CHR ''a'') = None"
  by code_simp

end
