(* ===== verification/WebSession.thy ===== *)
theory WebSession
  imports HostSession
begin

text \<open>
  The browser viewer's session (\<open>apps/web-viewer/src/lib.rs\<close>, \<open>signaling.rs\<close>): its
  configuration, what it keeps in the browser's storage, the connect and reconnect logic around
  the asynchronous \<open>connect\<close>, the Hello on each control channel with the password modal, the
  answer to an offer, and the adaptive jitter buffer.  An asynchronous function is cut at its
  awaits; the timers, tasks and attempts under way are counted.  The page's other elements, HTTP,
  JSON and the browser's WebRTC are arguments or left out.
\<close>

section \<open>Addresses and configuration\<close>

text \<open>\<open>str::replacen(p, r, 1)\<close>.\<close>

fun replace_first :: "string \<Rightarrow> string \<Rightarrow> string \<Rightarrow> string" where
  "replace_first p r s =
    (if starts_with p s then r @ drop (length p) s
     else (case s of [] \<Rightarrow> [] | c # cs \<Rightarrow> c # replace_first p r cs))"

definition trim_slashes :: "string \<Rightarrow> string" where
  "trim_slashes s = rev (dropWhile (\<lambda>c. c = CHR ''/'') (rev s))"

definition http_base :: "string \<Rightarrow> string" where
  "http_base ws_base = replace_first ''ws://'' ''http://'' (replace_first ''wss://'' ''https://'' ws_base)"

definition ice_url :: "string \<Rightarrow> string" where
  "ice_url ws_base = trim_slashes (http_base ws_base) @ ''/api/ice''"

definition ticket_url :: "string \<Rightarrow> string" where
  "ticket_url server = trim_slashes (http_base server) @ ''/api/ws-ticket''"

definition socket_url :: "string \<Rightarrow> string \<Rightarrow> string" where
  "socket_url server ticket = trim_slashes server @ ''/ws?ticket='' @ ticket"

definition default_ws_base :: "string \<Rightarrow> string \<Rightarrow> string" where
  "default_ws_base proto host = (if proto = ''https:'' then ''wss'' else ''ws'') @ ''://'' @ host"

record web_config =
  wc_server :: string
  wc_token :: string
  wc_host_id :: string

type_synonym storage = "string \<rightharpoonup> string"

definition session_token :: "storage \<Rightarrow> string option" where
  "session_token ss = (case ss ''rmd_vs_tok'' of Some t \<Rightarrow> if t \<noteq> [] then Some t else None | None \<Rightarrow> None)"

definition from_url :: "(string \<rightharpoonup> string) \<Rightarrow> string option \<Rightarrow> storage \<Rightarrow> string + web_config" where
  "from_url params base ss =
    (case (case params ''server'' of
             Some s \<Rightarrow> if s \<noteq> [] then Some s else base
           | None \<Rightarrow> base) of
       None \<Rightarrow> Inl ''missing ?server=''
     | Some server \<Rightarrow>
         let token = (case session_token ss of Some t \<Rightarrow> t | None \<Rightarrow> []);
             host = (case params ''host'' of Some h \<Rightarrow> h | None \<Rightarrow> [])
         in if token = [] then Inl ''missing session token (open a device from the console to connect)''
            else if host = [] then Inl ''missing ?host= (the host device id)''
            else Inr \<lparr> wc_server = server, wc_token = token, wc_host_id = host \<rparr>)"

definition has_session_params :: "(string \<rightharpoonup> string) \<Rightarrow> storage \<Rightarrow> bool" where
  "has_session_params params ss \<longleftrightarrow> (\<exists>h. params ''host'' = Some h \<and> h \<noteq> []) \<and> session_token ss \<noteq> None"

definition take_pending_password :: "storage \<Rightarrow> string option \<times> storage" where
  "take_pending_password ss =
    (case ss ''rmd_pw_pending'' of
       None \<Rightarrow> (None, ss)
     | Some pw \<Rightarrow> ((if pw \<noteq> [] then Some pw else None), ss(''rmd_pw_pending'' := None)))"

definition store_host_password :: "string \<Rightarrow> string \<Rightarrow> storage \<Rightarrow> storage" where
  "store_host_password host pw ss = ss(''rmd_pwsess_'' @ host \<mapsto> pw)"

definition load_host_password :: "string \<Rightarrow> storage \<Rightarrow> string option" where
  "load_host_password host ss =
    (case ss (''rmd_pwsess_'' @ host) of Some pw \<Rightarrow> if pw \<noteq> [] then Some pw else None | None \<Rightarrow> None)"

definition remember_password_required :: "string \<Rightarrow> bool \<Rightarrow> storage \<Rightarrow> storage" where
  "remember_password_required host required ls = ls(''rmd_pwreq_'' @ host := (if required then Some ''1'' else None))"

section \<open>State\<close>

datatype pc_state = PcNew | PcConnecting | PcConnected | PcDisconnected | PcFailed | PcClosed

text \<open>A session: \<open>ws_inputs\<close> lists the channels that input is attached to, \<open>ws_remote\<close> the offers
  applied and \<open>ws_candidates\<close> the host's candidates.\<close>

record web_session =
  ws_id :: nat
  ws_pc :: pc_state
  ws_control :: "nat option"
  ws_hello_sent :: bool
  ws_inputs :: "nat list"
  ws_remote :: "string list"
  ws_candidates :: "string list"

text \<open>\<open>wa_alive\<close>: the sessions whose callbacks and transports are up.  \<open>wa_timers\<close>: backoff timers
  set; \<open>wa_tasks\<close>: calls of \<open>connect\<close> spawned; \<open>wa_inflight\<close>: those past the guard.  \<open>wa_hellos\<close>:
  the Hellos sent, by channel.\<close>

record web_app =
  wa_cfg :: web_config
  wa_connecting :: bool
  wa_timers :: nat
  wa_tasks :: nat
  wa_inflight :: nat
  wa_current :: "web_session option"
  wa_alive :: "nat list"
  wa_next :: nat
  wa_hidden :: bool
  wa_password :: "string option"
  wa_pending :: "nat option"
  wa_modal :: bool
  wa_ss :: storage
  wa_ls :: storage
  wa_hellos :: "(nat \<times> envelope_msg) list"
  wa_signals :: "signal_msg list"
  wa_presence :: nat

definition seed_password :: "storage \<Rightarrow> string \<Rightarrow> string option \<times> storage" where
  "seed_password ss host =
    (case take_pending_password ss of
       (Some pw, ss1) \<Rightarrow> (Some pw, store_host_password host pw ss1)
     | (None, ss1) \<Rightarrow> (load_host_password host ss1, ss1))"

definition web_run :: "web_config \<Rightarrow> storage \<Rightarrow> storage \<Rightarrow> web_app" where
  "web_run cfg ss ls =
    (let (pw, ss1) = seed_password ss (wc_host_id cfg)
     in \<lparr> wa_cfg = cfg, wa_connecting = False, wa_timers = 0, wa_tasks = 1, wa_inflight = 0, wa_current = None,
          wa_alive = [], wa_next = 0, wa_hidden = False, wa_password = pw, wa_pending = None, wa_modal = False,
          wa_ss = ss1, wa_ls = ls, wa_hellos = [], wa_signals = [], wa_presence = 0 \<rparr>)"

section \<open>Connecting\<close>

definition schedule_reconnect :: "web_app \<Rightarrow> web_app" where
  "schedule_reconnect s =
    (if wa_connecting s then s else s\<lparr>wa_connecting := True, wa_timers := wa_timers s + 1\<rparr>)"

definition backoff_over :: "web_app \<Rightarrow> web_app" where
  "backoff_over s = s\<lparr>wa_timers := wa_timers s - 1, wa_connecting := False, wa_tasks := wa_tasks s + 1\<rparr>"

definition teardown :: "web_session \<Rightarrow> web_app \<Rightarrow> web_app" where
  "teardown ws s = s\<lparr>wa_alive := removeAll (ws_id ws) (wa_alive s)\<rparr>"

definition connect_begin :: "web_app \<Rightarrow> web_app" where
  "connect_begin s =
    (let s = s\<lparr>wa_tasks := wa_tasks s - 1\<rparr> in
     if wa_connecting s then s
     else
       let s = s\<lparr>wa_connecting := True, wa_inflight := wa_inflight s + 1\<rparr>
       in case wa_current s of
            Some old \<Rightarrow> teardown old (s\<lparr>wa_current := None\<rparr>)
          | None \<Rightarrow> s)"

text \<open>No peer connection, or no relay socket.\<close>

definition connect_fails :: "web_app \<Rightarrow> web_app" where
  "connect_fails s = schedule_reconnect (s\<lparr>wa_inflight := wa_inflight s - 1, wa_connecting := False\<rparr>)"

definition connect_done :: "web_app \<Rightarrow> web_app" where
  "connect_done s =
    s\<lparr>wa_inflight := wa_inflight s - 1,
      wa_current := Some \<lparr> ws_id = wa_next s, ws_pc = PcNew, ws_control = None, ws_hello_sent = False, ws_inputs = [],
        ws_remote = [], ws_candidates = [] \<rparr>,
      wa_alive := wa_next s # wa_alive s, wa_next := wa_next s + 1,
      wa_connecting := False, wa_presence := wa_presence s + 1\<rparr>"

definition on_session :: "(web_session \<Rightarrow> web_session) \<Rightarrow> web_app \<Rightarrow> web_app" where
  "on_session f s = s\<lparr>wa_current := map_option f (wa_current s)\<rparr>"

definition pc_changed :: "pc_state \<Rightarrow> web_app \<Rightarrow> web_app" where
  "pc_changed st s =
    (let s = on_session (\<lambda>w. w\<lparr>ws_pc := st\<rparr>) s
     in if st = PcFailed \<and> \<not> wa_hidden s then schedule_reconnect s else s)"

definition session_healthy :: "web_app \<Rightarrow> bool" where
  "session_healthy s \<longleftrightarrow>
     (case wa_current s of Some w \<Rightarrow> ws_pc w \<in> {PcConnected, PcConnecting, PcNew} | None \<Rightarrow> False)"

definition visibility :: "bool \<Rightarrow> web_app \<Rightarrow> web_app" where
  "visibility hidden s =
    (let s = s\<lparr>wa_hidden := hidden\<rparr>
     in if hidden then s else if \<not> session_healthy s then schedule_reconnect s else s)"

section \<open>Control channel\<close>

definition web_hello :: "string option \<Rightarrow> envelope_msg" where
  "web_hello pw =
    (let h = hello ''web-viewer'' RoleViewer FEATURE_CLIENT_CURSOR
     in case pw of Some p \<Rightarrow> with_password h p | None \<Rightarrow> h)"

definition on_datachannel :: "nat \<Rightarrow> web_app \<Rightarrow> web_app" where
  "on_datachannel ch = on_session (\<lambda>w. w\<lparr>ws_hello_sent := False, ws_control := Some ch\<rparr>)"

definition channel_open :: "nat \<Rightarrow> web_app \<Rightarrow> web_app" where
  "channel_open ch s =
    (case wa_current s of
       None \<Rightarrow> s
     | Some w \<Rightarrow>
         if ws_hello_sent w then s
         else (on_session (\<lambda>w. w\<lparr>ws_hello_sent := True, ws_inputs := ws_inputs w @ [ch]\<rparr>) s)
                \<lparr>wa_hellos := wa_hellos s @ [(ch, web_hello (wa_password s))]\<rparr>)"

definition on_hello_ack :: "nat \<Rightarrow> hello_ack_msg \<Rightarrow> web_app \<Rightarrow> web_app" where
  "on_hello_ack ch ack s =
    (let host = wc_host_id (wa_cfg s) in
     if a_password_required ack then
       s\<lparr>wa_ls := remember_password_required host True (wa_ls s), wa_pending := Some ch, wa_modal := True\<rparr>
     else if \<not> a_accepted ack then s
     else s\<lparr>wa_ls := remember_password_required host (wa_password s \<noteq> None) (wa_ls s)\<rparr>)"

definition modal_submit :: "string \<Rightarrow> web_app \<Rightarrow> web_app" where
  "modal_submit pw s =
    (if pw = [] then s
     else
       (case wa_pending s of
          None \<Rightarrow> s
        | Some ch \<Rightarrow>
            s\<lparr>wa_pending := None, wa_password := Some pw,
              wa_ss := store_host_password (wc_host_id (wa_cfg s)) pw (wa_ss s),
              wa_hellos := wa_hellos s @ [(ch, web_hello (Some pw))]\<rparr>)\<lparr>wa_modal := False\<rparr>)"

definition modal_cancel :: "web_app \<Rightarrow> web_app" where
  "modal_cancel s = s\<lparr>wa_modal := False\<rparr>"

section \<open>Signaling\<close>

definition sdp_from_wire :: "(string \<Rightarrow> string option) \<Rightarrow> string \<Rightarrow> string" where
  "sdp_from_wire json_sdp wire = (case json_sdp wire of Some sdp \<Rightarrow> sdp | None \<Rightarrow> wire)"

text \<open>\<open>rtc\<close>: the browser's answer to a remote description, if it makes one; \<open>wrap\<close>: the JSON form of
  a description.\<close>

definition web_signal ::
  "(string \<Rightarrow> string option) \<Rightarrow> (string \<Rightarrow> string option) \<Rightarrow> (string \<Rightarrow> string) \<Rightarrow> signal_msg \<Rightarrow> web_app \<Rightarrow> web_app" where
  "web_signal json_sdp rtc wrap m s =
    (case wa_current s of
       None \<Rightarrow> s
     | Some w \<Rightarrow>
         (case m of
            Offer wire \<Rightarrow>
              if ws_pc w = PcConnected then s
              else
                let sdp = sdp_from_wire json_sdp wire;
                    s = on_session (\<lambda>w. w\<lparr>ws_remote := ws_remote w @ [sdp]\<rparr>) s
                in (case rtc sdp of
                      None \<Rightarrow> s
                    | Some answer \<Rightarrow> s\<lparr>wa_signals := wa_signals s @ [Answer (wrap answer)]\<rparr>)
          | Answer _ \<Rightarrow> s
          | Candidate c \<Rightarrow> on_session (\<lambda>w. w\<lparr>ws_candidates := ws_candidates w @ [c]\<rparr>) s))"

definition local_candidate :: "string \<Rightarrow> web_app \<Rightarrow> web_app" where
  "local_candidate c s = s\<lparr>wa_signals := wa_signals s @ [Candidate c]\<rparr>"

section \<open>Latency\<close>

record latency =
  lt_buf_ms :: rat
  lt_prev :: "rat \<times> rat"
  lt_rate :: rat

definition LT_FLOOR :: rat where "LT_FLOOR = 50"
definition LT_CEIL :: rat where "LT_CEIL = 1000"

definition latency_start :: latency where
  "latency_start = \<lparr> lt_buf_ms = 80, lt_prev = (0, 0), lt_rate = 1 \<rparr>"

text \<open>A tick with the totals of the statistics, if there are any.\<close>

definition latency_tick :: "(rat \<times> rat) option \<Rightarrow> latency \<Rightarrow> latency" where
  "latency_tick stats l =
    (case stats of
       None \<Rightarrow> l
     | Some (jbd, jbe) \<Rightarrow>
         let (pjbd, pjbe) = lt_prev l;
             l = l\<lparr>lt_prev := (jbd, jbe)\<rparr>;
             emitted = jbe - pjbe
         in if emitted \<le> 0 then l\<lparr>lt_buf_ms := min (lt_buf_ms l + 250) LT_CEIL, lt_rate := 1\<rparr>
            else
              let target_s = lt_buf_ms l / 1000;
                  excess = (jbd - pjbd) / emitted - target_s;
                  rate = (if excess > 6 / 10 then 135 / 100 else if excess > 30 / 100 then 122 / 100
                          else if excess > 12 / 100 then 110 / 100 else 1)
              in l\<lparr>lt_rate := (if \<bar>lt_rate l - rate\<bar> > 1 / 100 then rate else lt_rate l),
                   lt_buf_ms := max (LT_FLOOR + (lt_buf_ms l - LT_FLOOR) * (55 / 100)) LT_FLOOR\<rparr>)"

section \<open>Events\<close>

datatype web_event =
    Begin | Fails | Done | BackoffOver
  | PcChanged pc_state | Visibility bool
  | DataChannel nat | ChannelOpen nat | Ack nat hello_ack_msg | Submit string | Cancel
  | Signal signal_msg | LocalCandidate string

text \<open>An event that cannot happen in a state changes nothing.\<close>

fun web_step ::
  "(string \<Rightarrow> string option) \<Rightarrow> (string \<Rightarrow> string option) \<Rightarrow> (string \<Rightarrow> string) \<Rightarrow> web_event \<Rightarrow> web_app \<Rightarrow> web_app" where
  "web_step j r w Begin s = (if wa_tasks s > 0 then connect_begin s else s)"
| "web_step j r w Fails s = (if wa_inflight s > 0 then connect_fails s else s)"
| "web_step j r w Done s = (if wa_inflight s > 0 then connect_done s else s)"
| "web_step j r w BackoffOver s = (if wa_timers s > 0 then backoff_over s else s)"
| "web_step j r w (PcChanged st) s = (if wa_current s \<noteq> None then pc_changed st s else s)"
| "web_step j r w (Visibility h) s = visibility h s"
| "web_step j r w (DataChannel ch) s = on_datachannel ch s"
| "web_step j r w (ChannelOpen ch) s = channel_open ch s"
| "web_step j r w (Ack ch a) s = on_hello_ack ch a s"
| "web_step j r w (Submit pw) s = modal_submit pw s"
| "web_step j r w Cancel s = modal_cancel s"
| "web_step j r w (Signal m) s = web_signal j r w m s"
| "web_step j r w (LocalCandidate c) s = local_candidate c s"

definition pending_attempts :: "web_app \<Rightarrow> nat" where
  "pending_attempts s = wa_timers s + wa_tasks s + wa_inflight s"

text \<open>There is no session, or one that failed in the foreground.\<close>

definition web_down :: "web_app \<Rightarrow> bool" where
  "web_down s \<longleftrightarrow> (case wa_current s of None \<Rightarrow> True | Some w \<Rightarrow> ws_pc w = PcFailed \<and> \<not> wa_hidden s)"

definition web_inv :: "web_app \<Rightarrow> bool" where
  "web_inv s \<longleftrightarrow> wa_timers s + wa_inflight s = (if wa_connecting s then 1 else 0)
     \<and> (wa_inflight s > 0 \<longrightarrow> wa_current s = None)
     \<and> wa_alive s = (case wa_current s of Some w \<Rightarrow> [ws_id w] | None \<Rightarrow> [])
     \<and> (web_down s \<longrightarrow> 0 < pending_attempts s)"

lemma web_inv_same:
  assumes "web_inv s" "wa_timers t = wa_timers s" "wa_inflight t = wa_inflight s" "wa_tasks t = wa_tasks s"
    "wa_connecting t = wa_connecting s" "wa_alive t = wa_alive s" "wa_hidden t = wa_hidden s"
    "map_option ws_id (wa_current t) = map_option ws_id (wa_current s)" "map_option ws_pc (wa_current t) = map_option ws_pc (wa_current s)"
  shows "web_inv t"
proof -
  have c: "wa_current t = None \<longleftrightarrow> wa_current s = None" using assms(8) by (cases "wa_current t"; cases "wa_current s") auto
  have a: "(case wa_current t of Some w \<Rightarrow> [ws_id w] | None \<Rightarrow> []) = (case wa_current s of Some w \<Rightarrow> [ws_id w] | None \<Rightarrow> [])"
    using assms(8) by (cases "wa_current t"; cases "wa_current s") auto
  have d: "web_down t = web_down s"
    using assms(7,9) by (cases "wa_current t"; cases "wa_current s") (auto simp: web_down_def)
  show ?thesis using assms c a d by (simp add: web_inv_def pending_attempts_def)
qed

lemma schedule_inv:
  assumes "wa_timers s + wa_inflight s = (if wa_connecting s then 1 else 0)" "wa_inflight s > 0 \<longrightarrow> wa_current s = None"
    "wa_alive s = (case wa_current s of Some w \<Rightarrow> [ws_id w] | None \<Rightarrow> [])"
  shows "web_inv (schedule_reconnect s)"
  using assms by (auto simp: web_inv_def schedule_reconnect_def pending_attempts_def split: if_splits)

lemma on_session_fields [simp]:
  "wa_timers (on_session f s) = wa_timers s" "wa_inflight (on_session f s) = wa_inflight s" "wa_tasks (on_session f s) = wa_tasks s"
  "wa_connecting (on_session f s) = wa_connecting s" "wa_alive (on_session f s) = wa_alive s" "wa_hidden (on_session f s) = wa_hidden s"
  "wa_current (on_session f s) = map_option f (wa_current s)" "wa_password (on_session f s) = wa_password s"
  "wa_hellos (on_session f s) = wa_hellos s"
  by (simp_all add: on_session_def)

lemma on_session_inv:
  assumes "web_inv s" "\<And>w. ws_id (f w) = ws_id w" "\<And>w. ws_pc (f w) = ws_pc w"
  shows "web_inv (on_session f s)"
  using assms(1) by (rule web_inv_same) (simp_all add: assms(2,3) option.map_comp comp_def)

lemma web_step_inv:
  assumes "web_inv s"
  shows "web_inv (web_step j r w e s)"
proof (cases e)
  case Begin
  then show ?thesis
    using assms by (auto simp: connect_begin_def Let_def web_inv_def teardown_def web_down_def pending_attempts_def split: option.splits if_splits)
next
  case Fails
  have "web_inv (connect_fails s)" if "wa_inflight s > 0"
    unfolding connect_fails_def using assms that by (intro schedule_inv) (auto simp: web_inv_def split: if_splits)
  then show ?thesis using Fails assms by simp
next
  case Done
  then show ?thesis
    using assms by (auto simp: connect_done_def web_inv_def web_down_def pending_attempts_def split: if_splits)
next
  case BackoffOver
  then show ?thesis
    using assms by (auto simp: backoff_over_def web_inv_def web_down_def pending_attempts_def split: if_splits)
next
  case (PcChanged st)
  have a: "(case map_option (\<lambda>w. w\<lparr>ws_pc := st\<rparr>) (wa_current s) of Some w \<Rightarrow> [ws_id w] | None \<Rightarrow> [])
      = (case wa_current s of Some w \<Rightarrow> [ws_id w] | None \<Rightarrow> [])"
    by (cases "wa_current s") simp_all
  show ?thesis
  proof (cases "st = PcFailed \<and> \<not> wa_hidden s")
    case True
    have "web_inv (schedule_reconnect (on_session (\<lambda>w. w\<lparr>ws_pc := st\<rparr>) s))"
      using assms a by (intro schedule_inv) (simp_all add: web_inv_def)
    then show ?thesis using PcChanged True assms by (simp add: pc_changed_def)
  next
    case False
    have "web_inv (on_session (\<lambda>w. w\<lparr>ws_pc := st\<rparr>) s)" if "wa_current s \<noteq> None"
      using assms a False that by (auto simp: web_inv_def web_down_def)
    moreover have "pc_changed st s = on_session (\<lambda>w. w\<lparr>ws_pc := st\<rparr>) s"
      using False by (auto simp: pc_changed_def)
    ultimately show ?thesis using PcChanged assms by simp
  qed
next
  case (Visibility h)
  show ?thesis
  proof (cases "\<not> h \<and> \<not> session_healthy s")
    case True
    have "web_inv (schedule_reconnect (s\<lparr>wa_hidden := h\<rparr>))"
      using assms by (intro schedule_inv) (simp_all add: web_inv_def)
    moreover have "session_healthy (s\<lparr>wa_hidden := h\<rparr>) = session_healthy s" by (simp add: session_healthy_def)
    ultimately show ?thesis using Visibility True by (simp add: visibility_def)
  next
    case False
    have "web_inv (s\<lparr>wa_hidden := h\<rparr>)"
      using assms False by (auto simp: web_inv_def web_down_def session_healthy_def pending_attempts_def split: option.splits)
    moreover have "session_healthy (s\<lparr>wa_hidden := h\<rparr>) = session_healthy s" by (simp add: session_healthy_def)
    ultimately show ?thesis using Visibility False by (auto simp: visibility_def Let_def)
  qed
next
  case (DataChannel ch)
  then show ?thesis using assms by (auto simp: on_datachannel_def intro: on_session_inv)
next
  case (ChannelOpen ch)
  have "web_inv ((on_session (\<lambda>w. w\<lparr>ws_hello_sent := True, ws_inputs := ws_inputs w @ [ch]\<rparr>) s)\<lparr>wa_hellos := hs\<rparr>)" for hs
    using on_session_inv [OF assms, of "\<lambda>w. w\<lparr>ws_hello_sent := True, ws_inputs := ws_inputs w @ [ch]\<rparr>"]
    by (rule web_inv_same) simp_all
  then show ?thesis using ChannelOpen assms by (simp add: channel_open_def split: option.split)
next
  case (Signal m)
  have o: "web_inv (on_session (\<lambda>w. w\<lparr>ws_remote := ws_remote w @ [x]\<rparr>) s)"
      "web_inv (on_session (\<lambda>w. w\<lparr>ws_candidates := ws_candidates w @ [x]\<rparr>) s)" for x
    using assms by (simp_all add: on_session_inv)
  have a: "web_inv (t\<lparr>wa_signals := x\<rparr>)" if "web_inv t" for t x
    using that by (rule web_inv_same) simp_all
  show ?thesis using Signal assms by (auto simp: web_signal_def Let_def o intro!: a split: option.split signal_msg.split)
next
  case (Ack ch a)
  show ?thesis unfolding Ack web_step.simps on_hello_ack_def Let_def
    using assms by (auto intro: web_inv_same [OF assms])
next
  case (Submit pw)
  show ?thesis unfolding Submit web_step.simps modal_submit_def
    using assms by (auto intro: web_inv_same [OF assms] split: option.split)
next
  case Cancel
  show ?thesis unfolding Cancel web_step.simps modal_cancel_def by (rule web_inv_same [OF assms]) simp_all
next
  case (LocalCandidate c)
  show ?thesis unfolding LocalCandidate web_step.simps local_candidate_def by (rule web_inv_same [OF assms]) simp_all
qed

definition web_go ::
  "(string \<Rightarrow> string option) \<Rightarrow> (string \<Rightarrow> string option) \<Rightarrow> (string \<Rightarrow> string) \<Rightarrow> web_event list \<Rightarrow> web_app \<Rightarrow> web_app" where
  "web_go j r w es s = fold (web_step j r w) es s"

lemma web_go_inv: "web_inv s \<Longrightarrow> web_inv (web_go j r w es s)"
  by (induction es arbitrary: s) (simp_all add: web_go_def web_step_inv)

lemma web_run_inv: "web_inv (web_run cfg ss ls)"
  by (auto simp: web_run_def web_inv_def pending_attempts_def split: prod.split)

text \<open>C36: The browser viewer always has one session or is on its way to one: in any run, at most one
  session's callbacks and transports are up and that one is the current one, at most one attempt to
  connect or backoff timer is under way, and while there is no session, or the session has failed
  with the page in the foreground, another attempt is pending.\<close>

theorem web_viewer_recovers:
  "wa_alive (web_go j r w es (web_run cfg ss ls)) =
      (case wa_current (web_go j r w es (web_run cfg ss ls)) of Some x \<Rightarrow> [ws_id x] | None \<Rightarrow> [])
   \<and> wa_timers (web_go j r w es (web_run cfg ss ls)) + wa_inflight (web_go j r w es (web_run cfg ss ls)) \<le> 1
   \<and> (web_down (web_go j r w es (web_run cfg ss ls)) \<longrightarrow> 0 < pending_attempts (web_go j r w es (web_run cfg ss ls)))"
  using web_go_inv [OF web_run_inv, of j r w es cfg ss ls] by (simp add: web_inv_def split: if_splits)

lemma web_viewer_recovers_witness:
  "0 < pending_attempts (web_go (\<lambda>x. None) (\<lambda>x. None) id [Begin, Fails]
     (web_run \<lparr> wc_server = ''wss://h'', wc_token = ''t'', wc_host_id = ''host'' \<rparr> Map.empty Map.empty))"
proof -
  let ?cfg = "\<lparr> wc_server = ''wss://h'', wc_token = ''t'', wc_host_id = ''host'' \<rparr>"
  have "web_down (web_go (\<lambda>x. None) (\<lambda>x. None) id [Begin, Fails] (web_run ?cfg Map.empty Map.empty))"
    by (simp add: web_go_def web_down_def web_run_def seed_password_def take_pending_password_def load_host_password_def
        connect_begin_def connect_fails_def schedule_reconnect_def teardown_def Let_def)
  then show ?thesis
    using web_viewer_recovers [of "\<lambda>x. None" "\<lambda>x. None" id "[Begin, Fails]" ?cfg Map.empty Map.empty] by blast
qed

text \<open>The Hellos sent up to the next password carry the one remembered.\<close>

lemma step_hellos:
  assumes "\<forall>p. e \<noteq> Submit p"
  shows "wa_password (web_step j r w e s) = wa_password s
    \<and> (\<exists>hs. wa_hellos (web_step j r w e s) = wa_hellos s @ hs \<and> (\<forall>x\<in>set hs. snd x = web_hello (wa_password s)))"
  using assms
  by (cases e) (auto simp: connect_begin_def Let_def teardown_def connect_fails_def schedule_reconnect_def connect_done_def
      backoff_over_def pc_changed_def visibility_def on_datachannel_def channel_open_def on_hello_ack_def modal_cancel_def
      web_signal_def local_candidate_def split: option.split signal_msg.split)

lemma run_hellos:
  assumes "\<forall>e\<in>set es. \<forall>p. e \<noteq> Submit p"
  shows "wa_password (web_go j r w es s) = wa_password s
    \<and> (\<exists>hs. wa_hellos (web_go j r w es s) = wa_hellos s @ hs \<and> (\<forall>x\<in>set hs. snd x = web_hello (wa_password s)))"
  using assms
proof (induction es arbitrary: s)
  case (Cons e es)
  from step_hellos [of e j r w s] Cons.prems obtain hs where 1: "wa_password (web_step j r w e s) = wa_password s"
      "wa_hellos (web_step j r w e s) = wa_hellos s @ hs" "\<forall>x\<in>set hs. snd x = web_hello (wa_password s)" by auto
  from Cons.IH [of "web_step j r w e s"] Cons.prems 1(1) obtain hs' where 2:
      "wa_password (web_go j r w es (web_step j r w e s)) = wa_password s"
      "wa_hellos (web_go j r w es (web_step j r w e s)) = wa_hellos (web_step j r w e s) @ hs'"
      "\<forall>x\<in>set hs'. snd x = web_hello (wa_password s)" by auto
  then show ?case using 1 by (auto simp: web_go_def)
qed (simp add: web_go_def)

lemma web_hello_payload:
  "e_payload (web_hello pw) = Some (P_Hello \<lparr> h_device_name = ''web-viewer'', h_role = role_i32 RoleViewer,
      h_features = FEATURE_CLIENT_CURSOR, h_public_key = [], h_signature = [],
      h_supported_video_codecs = native_supported_codecs, h_password = (case pw of Some p \<Rightarrow> p | None \<Rightarrow> '''') \<rparr>)"
  by (simp add: web_hello_def hello_def with_password_def envelope_def Let_def split: option.split)

lemma web_hello_decides:
  assumes "hc_video_codec hc = H264" "e_payload (web_hello pw) = Some (P_Hello h)"
  shows "hs_authorized (handle_hello he hc vp now PROTOCOL_MAJOR h t)
    \<longleftrightarrow> \<not> hc_require_authorization hc \<and> \<not> pt_locked now (hs_pw t)
        \<and> verify_connect_password (hc_connect_password hc) (case pw of Some p \<Rightarrow> p | None \<Rightarrow> '''')"
proof -
  have h: "h = \<lparr> h_device_name = ''web-viewer'', h_role = role_i32 RoleViewer,
      h_features = FEATURE_CLIENT_CURSOR, h_public_key = [], h_signature = [],
      h_supported_video_codecs = native_supported_codecs, h_password = (case pw of Some p \<Rightarrow> p | None \<Rightarrow> '''') \<rparr>"
    using assms(2) by (simp add: web_hello_payload)
  have "hello_decision he hc b PROTOCOL_MAJOR h = (if hc_require_authorization hc then Inl NoProof else Inr ())" for b
    using assms(1) by (simp add: h hello_decision_def check_compatibility_def check_codec_compatible_def native_supported_codecs_def
        authorize_def)
  then show ?thesis by (simp add: handle_hello_def h send_def accept_hello_def Let_def)
qed

text \<open>The browser viewer logs in again by itself: once it remembers the connection password, every
  Hello it sends on any control channel - across reconnects, rebuilt sessions and channels that the
  host opens anew - is one that a host with this password and no key requirement authorizes, unless
  it is locked out; the user is not asked again.\<close>

theorem web_viewer_logs_in_again:
  assumes "wa_password s = Some pw" "\<forall>e\<in>set es. \<forall>p. e \<noteq> Submit p"
    and host: "hc_video_codec hc = H264" "\<not> hc_require_authorization hc" "hc_connect_password hc = Some pw"
  shows "\<exists>hs. wa_hellos (web_go j r w es s) = wa_hellos s @ hs
    \<and> (\<forall>x\<in>set hs. \<exists>h. e_payload (snd x) = Some (P_Hello h)
        \<and> (\<forall>now t. \<not> pt_locked now (hs_pw t) \<longrightarrow> hs_authorized (handle_hello he hc vp now PROTOCOL_MAJOR h t)))"
proof -
  obtain hs where hs: "wa_hellos (web_go j r w es s) = wa_hellos s @ hs" "\<forall>x\<in>set hs. snd x = web_hello (Some pw)"
    using run_hellos [OF assms(2), of j r w s] assms(1) by auto
  have "verify_connect_password (hc_connect_password hc) pw"
    by (simp add: host(3) verify_connect_password_def)
  then have "\<exists>h. e_payload (snd x) = Some (P_Hello h)
        \<and> (\<forall>now t. \<not> pt_locked now (hs_pw t) \<longrightarrow> hs_authorized (handle_hello he hc vp now PROTOCOL_MAJOR h t))"
    if x: "x \<in> set hs" for x
  proof -
    have e: "snd x = web_hello (Some pw)" using hs(2) x by blast
    obtain h where h: "e_payload (web_hello (Some pw)) = Some (P_Hello h)" using web_hello_payload by blast
    show ?thesis
      using web_hello_decides [OF host(1) h] host(2) \<open>verify_connect_password (hc_connect_password hc) pw\<close> h e by auto
  qed
  then show ?thesis using hs(1) by blast
qed

lemma web_viewer_logs_in_again_witness:
  "\<exists>hs. wa_hellos (web_go (\<lambda>x. None) (\<lambda>x. None) id [Begin, Done, DataChannel 3, ChannelOpen 3]
      (web_run \<lparr> wc_server = ''wss://h'', wc_token = ''t'', wc_host_id = ''host'' \<rparr> [''rmd_pw_pending'' \<mapsto> ''secret''] Map.empty)) = hs
    \<and> length hs = 1 \<and> (\<forall>x\<in>set hs. \<exists>h. e_payload (snd x) = Some (P_Hello h))"
proof -
  let ?s = "web_run \<lparr> wc_server = ''wss://h'', wc_token = ''t'', wc_host_id = ''host'' \<rparr> [''rmd_pw_pending'' \<mapsto> ''secret''] Map.empty"
  let ?es = "[Begin, Done, DataChannel 3, ChannelOpen 3]"
  have 1: "wa_password ?s = Some ''secret''" "wa_hellos ?s = []"
    by (simp_all add: web_run_def seed_password_def take_pending_password_def)
  have 2: "\<forall>e\<in>set ?es. \<forall>p. e \<noteq> Submit p" by simp
  have 3: "length (wa_hellos (web_go (\<lambda>x. None) (\<lambda>x. None) id ?es ?s)) = 1"
    by (simp add: web_go_def web_run_def seed_password_def take_pending_password_def connect_begin_def Let_def connect_done_def
        on_datachannel_def on_session_def channel_open_def)
  let ?hc = "host_config_default\<lparr>hc_require_authorization := False, hc_connect_password := Some ''secret''\<rparr>"
  have 4: "hc_video_codec ?hc = H264" "\<not> hc_require_authorization ?hc" "hc_connect_password ?hc = Some ''secret''"
    by (simp_all add: host_config_default_def)
  fix he :: host_env and vp :: "unit vplane"
  from web_viewer_logs_in_again [OF 1(1) 2 4, of "\<lambda>x. None" "\<lambda>x. None" id he vp] obtain hs where
    hs: "wa_hellos (web_go (\<lambda>x. None) (\<lambda>x. None) id ?es ?s) = wa_hellos ?s @ hs"
      "\<forall>x\<in>set hs. \<exists>h. e_payload (snd x) = Some (P_Hello h)" by blast
  have "length hs = 1" using hs(1) 1(2) 3 by simp
  then show ?thesis using hs 1(2) by (intro exI [of _ hs]) simp
qed

text \<open>A host that requires a device key, as the default configuration does, never lets it in.\<close>

lemma browser_never_proves_key:
  assumes "hc_video_codec hc = H264" "hc_require_authorization hc" "e_payload (web_hello pw) = Some (P_Hello h)"
  shows "\<not> hs_authorized (handle_hello he hc vp now PROTOCOL_MAJOR h t)"
  using web_hello_decides [OF assms(1,3)] assms(2) by blast

text \<open>A password entered in the modal is there after a reload of the tab.\<close>

lemma reload_keeps_password:
  assumes "wa_pending s \<noteq> None" "pw \<noteq> []" "wa_ss s ''rmd_pw_pending'' = None"
  shows "wa_password (web_run (wa_cfg s) (wa_ss (modal_submit pw s)) ls) = Some pw"
  using assms by (auto simp: modal_submit_def web_run_def seed_password_def take_pending_password_def store_host_password_def
      load_host_password_def)

text \<open>The jitter buffer stays within its bounds: whatever statistics the browser reports, the target
  is between 50 and 1000 milliseconds and playback runs at one of four rates, at most 35 percent
  fast; a second without a frame never shrinks the target.\<close>

theorem latency_bounded:
  "50 \<le> lt_buf_ms (fold latency_tick stats latency_start) \<and> lt_buf_ms (fold latency_tick stats latency_start) \<le> 1000
   \<and> lt_rate (fold latency_tick stats latency_start) \<in> {1, 110 / 100, 122 / 100, 135 / 100}
   \<and> lt_buf_ms (fold latency_tick stats latency_start)
       \<le> lt_buf_ms (latency_tick (Some (jbd, snd (lt_prev (fold latency_tick stats latency_start))))
            (fold latency_tick stats latency_start))"
proof -
  have i: "50 \<le> lt_buf_ms l \<and> lt_buf_ms l \<le> 1000 \<and> lt_rate l \<in> {1, 110 / 100, 122 / 100, 135 / 100}
      \<Longrightarrow> 50 \<le> lt_buf_ms (latency_tick st l) \<and> lt_buf_ms (latency_tick st l) \<le> 1000
        \<and> lt_rate (latency_tick st l) \<in> {1, 110 / 100, 122 / 100, 135 / 100}" for st l
    by (cases "lt_prev l") (auto simp: latency_tick_def LT_FLOOR_def LT_CEIL_def Let_def split: option.split)
  have "50 \<le> lt_buf_ms (fold latency_tick stats l) \<and> lt_buf_ms (fold latency_tick stats l) \<le> 1000
      \<and> lt_rate (fold latency_tick stats l) \<in> {1, 110 / 100, 122 / 100, 135 / 100}"
    if "50 \<le> lt_buf_ms l \<and> lt_buf_ms l \<le> 1000 \<and> lt_rate l \<in> {1, 110 / 100, 122 / 100, 135 / 100}" for l
    using that
  proof (induction stats arbitrary: l)
    case (Cons st stats)
    show ?case using Cons.IH [OF i [OF Cons.prems]] by simp
  qed simp
  moreover have "lt_buf_ms l \<le> lt_buf_ms (latency_tick (Some (jbd, snd (lt_prev l))) l)" if "lt_buf_ms l \<le> 1000" for l
    using that by (cases "lt_prev l") (simp add: latency_tick_def LT_CEIL_def Let_def)
  moreover have "50 \<le> lt_buf_ms latency_start \<and> lt_buf_ms latency_start \<le> 1000
      \<and> lt_rate latency_start \<in> {1, 110 / 100, 122 / 100, 135 / 100}" by (simp add: latency_start_def)
  ultimately show ?thesis by blast
qed

end
