(* ===== verification/WebTouch.thy ===== *)
theory WebTouch
  imports WebInput
begin

text \<open>
  The browser viewer's pointer and touch handling (\<open>apps/web-viewer/src/lib.rs\<close>,
  \<open>attach_input\<close>): the touch screen as a trackpad with a virtual cursor, drag-select, local zoom
  and scrolling, and the mouse with its guard against ghost events.  A handler is a function of
  the event and of what it reads off the page, the record \<open>view\<close>.  Client coordinates, which the
  browser gives as finite numbers, are rationals; \<open>hypot\<close> is an argument, as its values are not.
  What is sent over the control channel is listed in \<open>tc_out\<close>.
\<close>

section \<open>The page\<close>

type_synonym pt = "rat \<times> rat"

record view =
  vw_left :: rat
  vw_top :: rat
  vw_width :: rat
  vw_height :: rat
  vw_rot :: "string option"
  vw_stage :: pt
  vw_dragmode :: "string option"

definition norm_pt :: "view \<Rightarrow> pt \<Rightarrow> pt" where
  "norm_pt v p =
    (let w = max (vw_width v) 1; h = max (vw_height v) 1;
         bx = (fst p - vw_left v) / w; by' = (snd p - vw_top v) / h
     in if vw_rot v = Some ''1'' then (by', 1 - bx)
        else if vw_rot v = Some ''2'' then (1 - bx, 1 - by')
        else if vw_rot v = Some ''3'' then (1 - by', bx)
        else (bx, by'))"

definition rot_delta :: "view \<Rightarrow> pt \<Rightarrow> pt" where
  "rot_delta v d =
    (if vw_rot v = Some ''1'' then (snd d, - fst d)
     else if vw_rot v = Some ''2'' then (- fst d, - snd d)
     else if vw_rot v = Some ''3'' then (- snd d, fst d)
     else d)"

text \<open>Where the local cursor is drawn, and turned by how much.\<close>

definition cursor_place :: "view \<Rightarrow> pt \<Rightarrow> rat \<times> rat \<times> nat" where
  "cursor_place v c =
    (let w = max (vw_width v) 1; h = max (vw_height v) 1;
         (bx, by', deg) =
           (if vw_rot v = Some ''1'' then (1 - snd c, fst c, 90)
            else if vw_rot v = Some ''2'' then (1 - fst c, 1 - snd c, 180)
            else if vw_rot v = Some ''3'' then (snd c, 1 - fst c, 270)
            else (fst c, snd c, 0))
     in (vw_left v + bx * w - 15 / 10, vw_top v + by' * h - 8 / 10, deg))"

section \<open>State\<close>

definition TAP_MS :: rat where "TAP_MS = 300"
definition DOUBLE_TAP_MS :: rat where "DOUBLE_TAP_MS = 300"
definition MAX_ZOOM :: rat where "MAX_ZOOM = 8"
definition SCROLL_SENS :: rat where "SCROLL_SENS = 3"
definition SENS :: rat where "SENS = 1"

text \<open>\<open>tc_lp\<close>: a long-press timeout is pending.  \<open>tc_drawn\<close>: the cursor as last placed, None
  while it is hidden.\<close>

record trackpad =
  tc_moved :: bool
  tc_start :: pt
  tc_start_ms :: rat
  tc_prev :: pt
  tc_cursor :: pt
  tc_has_pos :: bool
  tc_max_fingers :: nat
  tc_finger_down :: bool
  tc_dragging :: bool
  tc_last_tap_ms :: rat
  tc_lp :: bool
  tc_scale :: rat
  tc_pan :: pt
  tc_pinch_dist :: rat
  tc_pinch_cen :: pt
  tc_last_touch :: rat
  tc_drawn :: "(rat \<times> rat \<times> nat) option"
  tc_out :: "input_event list"

definition touch_init :: trackpad where
  "touch_init = \<lparr> tc_moved = False, tc_start = (0, 0), tc_start_ms = 0, tc_prev = (0, 0), tc_cursor = (1 / 2, 1 / 2),
     tc_has_pos = False, tc_max_fingers = 0, tc_finger_down = False, tc_dragging = False, tc_last_tap_ms = 0, tc_lp = False,
     tc_scale = 1, tc_pan = (0, 0), tc_pinch_dist = 0, tc_pinch_cen = (0, 0), tc_last_touch = 0, tc_drawn = None, tc_out = [] \<rparr>"

definition send_all :: "input_event list \<Rightarrow> trackpad \<Rightarrow> trackpad" where
  "send_all es s = s\<lparr>tc_out := tc_out s @ es\<rparr>"

definition button_at :: "int \<Rightarrow> bool \<Rightarrow> pt \<Rightarrow> input_event" where
  "button_at b pressed p = mouse_button b pressed (Fin (fst p)) (Fin (snd p))"

definition place_cursor :: "view \<Rightarrow> trackpad \<Rightarrow> trackpad" where
  "place_cursor v s = s\<lparr>tc_drawn := (if tc_has_pos s then Some (cursor_place v (tc_cursor s)) else None)\<rparr>"

section \<open>Touch handlers\<close>

text \<open>The drag-select's press and release.\<close>

definition drag_press :: "trackpad \<Rightarrow> trackpad" where
  "drag_press s = (send_all [button_at 0 True (tc_cursor s)] s)\<lparr>tc_dragging := True\<rparr>"

definition drag_release :: "trackpad \<Rightarrow> trackpad" where
  "drag_release s = (send_all [button_at 0 False (tc_cursor s)] s)\<lparr>tc_dragging := False\<rparr>"

definition long_press :: "view \<Rightarrow> trackpad \<Rightarrow> trackpad" where
  "long_press v s =
    (if \<not> tc_lp s then s
     else
       let s = s\<lparr>tc_lp := False\<rparr> in
       if \<not> (tc_finger_down s \<and> \<not> tc_moved s \<and> tc_max_fingers s = 1 \<and> \<not> tc_dragging s) then s
       else
         let s = (if tc_has_pos s then s else s\<lparr>tc_cursor := norm_pt v (tc_start s), tc_has_pos := True\<rparr>)
         in drag_press s)"

text \<open>A second finger ends a drag and takes the pinch's base line.\<close>

definition second_finger :: "(rat \<Rightarrow> rat \<Rightarrow> rat) \<Rightarrow> pt \<Rightarrow> pt \<Rightarrow> trackpad \<Rightarrow> trackpad" where
  "second_finger hyp a b s =
    (let s = s\<lparr>tc_lp := False\<rparr>;
         s = (if tc_dragging s then drag_release s else s)
     in s\<lparr>tc_pinch_dist := max (hyp (fst a - fst b) (snd a - snd b)) 1,
          tc_pinch_cen := ((fst a + fst b) / 2, (snd a + snd b) / 2)\<rparr>)"

definition first_finger :: "view \<Rightarrow> rat \<Rightarrow> pt \<Rightarrow> trackpad \<Rightarrow> trackpad" where
  "first_finger v now p s =
    (let s = s\<lparr>tc_start := p, tc_start_ms := now, tc_moved := False\<rparr> in
     if vw_dragmode v = Some ''doubletap'' then
       (if now - tc_last_tap_ms s < DOUBLE_TAP_MS \<and> tc_has_pos s \<and> \<not> tc_dragging s then drag_press s else s)
     else s\<lparr>tc_lp := True\<rparr>)"

definition touch_start :: "(rat \<Rightarrow> rat \<Rightarrow> rat) \<Rightarrow> view \<Rightarrow> rat \<Rightarrow> pt list \<Rightarrow> trackpad \<Rightarrow> trackpad" where
  "touch_start hyp v now pts s =
    (let n = length pts;
         s = s\<lparr>tc_last_touch := now, tc_moved := (if tc_finger_down s then tc_moved s else False),
               tc_max_fingers := max n (tc_max_fingers s), tc_finger_down := True\<rparr>;
         s = (case pts of a # b # _ \<Rightarrow> second_finger hyp a b s | _ \<Rightarrow> s)
     in case pts of
          [] \<Rightarrow> s
        | p # _ \<Rightarrow> let s = s\<lparr>tc_prev := p\<rparr> in if n = 1 then first_finger v now p s else s)"

definition pinch :: "(rat \<Rightarrow> rat \<Rightarrow> rat) \<Rightarrow> view \<Rightarrow> pt \<Rightarrow> pt \<Rightarrow> trackpad \<Rightarrow> trackpad" where
  "pinch hyp v a b s =
    (let dist = max (hyp (fst a - fst b) (snd a - snd b)) 1;
         (ox, oy) = vw_stage v;
         cen = ((fst a + fst b) / 2, (snd a + snd b) / 2);
         pd = tc_pinch_dist s
     in if pd \<le> 0 then s\<lparr>tc_pinch_dist := dist, tc_pinch_cen := cen\<rparr>
        else
          let s0 = tc_scale s;
              sc = max 1 (min (s0 * (dist / pd)) MAX_ZOOM);
              (tx0, ty0) = tc_pan s;
              (cx, cy) = (fst cen - ox, snd cen - oy);
              (pcx, pcy) = (fst (tc_pinch_cen s) - ox, snd (tc_pinch_cen s) - oy);
              qx = (pcx - tx0) / s0;
              qy = (pcy - ty0) / s0
          in place_cursor v (s\<lparr>tc_moved := True, tc_scale := sc, tc_pan := (cx - sc * qx, cy - sc * qy),
               tc_pinch_dist := dist, tc_pinch_cen := cen\<rparr>))"

definition clamp01 :: "rat \<Rightarrow> rat" where "clamp01 x = max 0 (min x 1)"

definition touch_move :: "(rat \<Rightarrow> rat \<Rightarrow> rat) \<Rightarrow> view \<Rightarrow> rat \<Rightarrow> pt list \<Rightarrow> trackpad \<Rightarrow> trackpad" where
  "touch_move hyp v now pts s =
    (let s = s\<lparr>tc_last_touch := now\<rparr>; n = length pts in
     if n = 2 \<and> tc_max_fingers s \<ge> 3 then s\<lparr>tc_pinch_dist := 0\<rparr>
     else
       case pts of
         [] \<Rightarrow> s
       | [a, b] \<Rightarrow> pinch hyp v a b s
       | c # _ \<Rightarrow>
           let p = tc_prev s;
               s = s\<lparr>tc_prev := c\<rparr>;
               s = (if hyp (fst c - fst (tc_start s)) (snd c - snd (tc_start s)) > 8 \<and> \<not> tc_moved s
                    then s\<lparr>tc_moved := True, tc_lp := False\<rparr> else s)
           in if n \<ge> 3 then
                let (dx, dy) = rot_delta v ((fst c - fst p) * SCROLL_SENS, (snd c - snd p) * SCROLL_SENS)
                in if dx \<noteq> 0 \<or> dy \<noteq> 0 then send_all [mouse_scroll (Fin dx) (Fin dy)] s else s
              else
                let nc = norm_pt v c; np = norm_pt v p;
                    u = (clamp01 (fst (tc_cursor s) + (fst nc - fst np) * SENS),
                         clamp01 (snd (tc_cursor s) + (snd nc - snd np) * SENS))
                in place_cursor v
                     (send_all [mouse_move (Fin (fst u)) (Fin (snd u))] (s\<lparr>tc_cursor := u, tc_has_pos := True\<rparr>)))"

text \<open>A tap: the click at the cursor, or at the point of the tap while there is no cursor yet.\<close>

definition tap :: "view \<Rightarrow> rat \<Rightarrow> pt list \<Rightarrow> nat \<Rightarrow> bool \<Rightarrow> trackpad \<Rightarrow> trackpad" where
  "tap v now changed fingers quick s =
    (case (if fingers = 1 then Some (dom_button_to_proto 0)
           else if fingers = 2 \<and> quick then Some (dom_button_to_proto 2)
           else None) of
       None \<Rightarrow> s
     | Some btn \<Rightarrow>
         (case (if tc_has_pos s then Some s
                else (case changed of
                        [] \<Rightarrow> None
                      | t # _ \<Rightarrow> Some (s\<lparr>tc_cursor := norm_pt v t, tc_has_pos := True\<rparr>))) of
            None \<Rightarrow> s
          | Some s \<Rightarrow>
              let s = place_cursor v s;
                  s = (if fingers = 1 then s\<lparr>tc_last_tap_ms := now\<rparr> else s)
              in send_all [button_at btn True (tc_cursor s), button_at btn False (tc_cursor s)] s))"

definition touch_end :: "view \<Rightarrow> rat \<Rightarrow> pt list \<Rightarrow> pt list \<Rightarrow> trackpad \<Rightarrow> trackpad" where
  "touch_end v now pts changed s =
    (let s = s\<lparr>tc_last_touch := now\<rparr> in
     case pts of
       p # _ \<Rightarrow> s\<lparr>tc_prev := p, tc_pinch_dist := 0\<rparr>
     | [] \<Rightarrow>
         let fingers = tc_max_fingers s;
             dragged = tc_moved s;
             quick = (now - tc_start_ms s < TAP_MS);
             s = s\<lparr>tc_finger_down := False, tc_lp := False, tc_max_fingers := 0, tc_pinch_dist := 0\<rparr>;
             s = (if tc_scale s \<le> 10001 / 10000 then place_cursor v (s\<lparr>tc_scale := 1, tc_pan := (0, 0)\<rparr>) else s)
         in if tc_dragging s then drag_release s
            else if dragged then s
            else tap v now changed fingers quick s)"

datatype gesture =
    TouchStart view rat "pt list"
  | TouchMove view rat "pt list"
  | TouchEnd view rat "pt list" "pt list"
  | LongPress view

fun gesture_step :: "(rat \<Rightarrow> rat \<Rightarrow> rat) \<Rightarrow> gesture \<Rightarrow> trackpad \<Rightarrow> trackpad" where
  "gesture_step hyp (TouchStart v now pts) s = touch_start hyp v now pts s"
| "gesture_step hyp (TouchMove v now pts) s = touch_move hyp v now pts s"
| "gesture_step hyp (TouchEnd v now pts changed) s = touch_end v now pts changed s"
| "gesture_step hyp (LongPress v) s = long_press v s"

section \<open>Mouse and wheel\<close>

definition is_ghost_mouse :: "rat \<Rightarrow> rat \<Rightarrow> bool" where
  "is_ghost_mouse now last_touch \<longleftrightarrow> now - last_touch < 700"

definition on_mouse_move :: "view \<Rightarrow> rat \<Rightarrow> pt \<Rightarrow> trackpad \<Rightarrow> trackpad" where
  "on_mouse_move v now p s =
    (if is_ghost_mouse now (tc_last_touch s) then s
     else let (x, y) = norm_pt v p in send_all [mouse_move (Fin x) (Fin y)] s)"

definition on_mouse_button :: "view \<Rightarrow> rat \<Rightarrow> bool \<Rightarrow> int \<Rightarrow> pt \<Rightarrow> trackpad \<Rightarrow> trackpad" where
  "on_mouse_button v now pressed button p s =
    (if is_ghost_mouse now (tc_last_touch s) then s
     else let (x, y) = norm_pt v p in send_all [mouse_button (dom_button_to_proto button) pressed (Fin x) (Fin y)] s)"

definition on_wheel :: "view \<Rightarrow> rat \<Rightarrow> rat \<Rightarrow> trackpad \<Rightarrow> trackpad" where
  "on_wheel v dx dy s = (let (x, y) = rot_delta v (- dx, - dy) in send_all [mouse_scroll (Fin x) (Fin y)] s)"

section \<open>Nothing is left held\<close>

text \<open>What the uinput injector holds of the buttons after a list of events.\<close>

definition buttons_held :: "input_event list \<Rightarrow> nat list" where
  "buttons_held es = fold (\<lambda>e h. case e of MouseButton b p x y \<Rightarrow> press_code (uinput_button b) p h | _ \<Rightarrow> h) es []"

lemma buttons_held_append [simp]:
  "buttons_held (es @ [MouseMove x y]) = buttons_held es"
  "buttons_held (es @ [MouseScroll x y]) = buttons_held es"
  "buttons_held (es @ [MouseButton b p x y]) = press_code (uinput_button b) p (buttons_held es)"
  by (simp_all add: buttons_held_def)

definition touch_ok :: "trackpad \<Rightarrow> bool" where
  "touch_ok s \<longleftrightarrow> buttons_held (tc_out s) = (if tc_dragging s then [BTN_LEFT] else [])
     \<and> (tc_dragging s \<or> tc_lp s \<longrightarrow> tc_finger_down s)
     \<and> 1 \<le> tc_scale s \<and> tc_scale s \<le> MAX_ZOOM"

lemma touch_ok_init: "touch_ok touch_init"
  by (simp add: touch_ok_def touch_init_def buttons_held_def MAX_ZOOM_def)

lemma place_cursor_ok [simp]: "touch_ok (place_cursor v s) = touch_ok s"
  by (simp add: touch_ok_def place_cursor_def)

lemma drag_press_ok: "touch_ok s \<Longrightarrow> tc_finger_down s \<Longrightarrow> \<not> tc_dragging s \<Longrightarrow> touch_ok (drag_press s)"
  by (simp add: touch_ok_def drag_press_def send_all_def button_at_def mouse_button_def uinput_button_def press_code_def)

lemma drag_release_ok: "touch_ok s \<Longrightarrow> tc_dragging s \<Longrightarrow> touch_ok (drag_release s)"
  by (simp add: touch_ok_def drag_release_def send_all_def button_at_def mouse_button_def uinput_button_def press_code_def)

lemma drag_fields [simp]:
  "tc_dragging (drag_release s) = False" "tc_finger_down (drag_release s) = tc_finger_down s"
  "tc_dragging (drag_press s) = True" "tc_finger_down (drag_press s) = tc_finger_down s"
  by (simp_all add: drag_release_def drag_press_def send_all_def)

lemma send_move_ok: "touch_ok (send_all [mouse_move x y] s) = touch_ok s" "touch_ok (send_all [mouse_scroll x y] s) = touch_ok s"
  by (simp_all add: touch_ok_def send_all_def mouse_move_def mouse_scroll_def)

lemma click_ok:
  assumes "touch_ok s" "\<not> tc_dragging s"
  shows "touch_ok (send_all [button_at b True p, button_at b False q] s)"
proof -
  have "buttons_held (tc_out s @ [MouseButton b True x y, MouseButton b False x' y']) = []" for x y x' y'
  proof -
    have "buttons_held ((tc_out s @ [MouseButton b True x y]) @ [MouseButton b False x' y'])
        = press_code (uinput_button b) False (press_code (uinput_button b) True [])"
      using assms by (simp del: append_assoc add: touch_ok_def)
    then show ?thesis by (simp add: press_code_def)
  qed
  then show ?thesis using assms by (simp add: touch_ok_def send_all_def button_at_def mouse_button_def)
qed

lemma pinch_ok:
  assumes "touch_ok s"
  shows "touch_ok (pinch hyp v a b s)"
  using assms by (auto simp: pinch_def Let_def touch_ok_def place_cursor_def MAX_ZOOM_def split: prod.split)

lemma long_press_ok:
  assumes "touch_ok s"
  shows "touch_ok (long_press v s)"
proof -
  have "touch_ok (drag_press t)" if "touch_ok t" "tc_finger_down t" "\<not> tc_dragging t" for t
    using that by (rule drag_press_ok)
  moreover have "touch_ok (s\<lparr>tc_lp := False\<rparr>)" "touch_ok (s\<lparr>tc_lp := False, tc_cursor := c, tc_has_pos := True\<rparr>)" for c
    using assms by (simp_all add: touch_ok_def)
  ultimately show ?thesis using assms by (auto simp: long_press_def Let_def)
qed

lemma second_finger_ok:
  assumes "touch_ok s"
  shows "touch_ok (second_finger hyp a b s)"
proof -
  have 1: "touch_ok (s\<lparr>tc_lp := False\<rparr>)" using assms by (simp add: touch_ok_def)
  have 2: "touch_ok (t\<lparr>tc_pinch_dist := d, tc_pinch_cen := c\<rparr>)" if "touch_ok t" for t d c
    using that by (simp add: touch_ok_def)
  show ?thesis using 1 drag_release_ok [OF 1] by (auto simp: second_finger_def Let_def intro!: 2)
qed

lemma first_finger_ok:
  assumes "touch_ok s" "tc_finger_down s"
  shows "touch_ok (first_finger v now p s)"
proof -
  have 1: "touch_ok (s\<lparr>tc_start := p, tc_start_ms := now, tc_moved := False\<rparr>)"
    "touch_ok (s\<lparr>tc_start := p, tc_start_ms := now, tc_moved := False, tc_lp := True\<rparr>)"
    using assms by (simp_all add: touch_ok_def)
  show ?thesis using 1 assms(2) drag_press_ok [OF 1(1)] by (simp add: first_finger_def Let_def)
qed

lemma second_finger_down [simp]: "tc_finger_down (second_finger hyp a b s) = tc_finger_down s"
  by (simp add: second_finger_def Let_def)

lemma touch_start_ok:
  assumes "touch_ok s"
  shows "touch_ok (touch_start hyp v now pts s)"
proof -
  define t where "t = s\<lparr>tc_last_touch := now, tc_moved := (if tc_finger_down s then tc_moved s else False),
               tc_max_fingers := max (length pts) (tc_max_fingers s), tc_finger_down := True\<rparr>"
  have t: "touch_ok t" "tc_finger_down t" using assms by (simp_all add: t_def touch_ok_def)
  have anchor: "touch_ok (r\<lparr>tc_prev := p\<rparr>)" if "touch_ok r" for r p using that by (simp add: touch_ok_def)
  consider "pts = []" | p where "pts = [p]" | a b ps where "pts = a # b # ps" by (metis neq_Nil_conv)
  then show ?thesis
  proof cases
    case 1
    then show ?thesis using t(1) unfolding touch_start_def t_def [symmetric] Let_def by simp
  next
    case (2 p)
    have "touch_ok (first_finger v now p (t\<lparr>tc_prev := p\<rparr>))"
      using anchor [OF t(1)] t(2) by (intro first_finger_ok) simp_all
    then show ?thesis using 2 unfolding touch_start_def t_def [symmetric] Let_def by simp
  next
    case (3 a b ps)
    have "touch_ok ((second_finger hyp a b t)\<lparr>tc_prev := a\<rparr>)"
      using second_finger_ok [OF t(1)] by (rule anchor)
    then show ?thesis using 3 unfolding touch_start_def t_def [symmetric] Let_def by simp
  qed
qed

lemma touch_move_ok:
  assumes "touch_ok s"
  shows "touch_ok (touch_move hyp v now pts s)"
proof -
  have 1: "touch_ok (s\<lparr>tc_last_touch := now\<rparr>)" "touch_ok (s\<lparr>tc_last_touch := now, tc_pinch_dist := 0\<rparr>)"
    using assms by (simp_all add: touch_ok_def)
  have 2: "touch_ok (s\<lparr>tc_last_touch := now, tc_prev := c\<rparr>)"
      "touch_ok (s\<lparr>tc_last_touch := now, tc_prev := c, tc_moved := True, tc_lp := False\<rparr>)" for c
    using assms by (simp_all add: touch_ok_def)
  have 3: "touch_ok (t\<lparr>tc_cursor := u, tc_has_pos := True\<rparr>)" if "touch_ok t" for t u
    using that by (simp add: touch_ok_def)
  show ?thesis
    using 1 2 pinch_ok [OF 1(1)]
    unfolding touch_move_def Let_def
    by (auto simp: send_move_ok 3 split: list.split prod.split)
qed

lemma tap_ok:
  assumes "touch_ok s" "\<not> tc_dragging s"
  shows "touch_ok (tap v now changed fingers quick s)"
proof -
  have 1: "touch_ok (send_all [button_at b True p, button_at b False q] r)"
    if "touch_ok r" "\<not> tc_dragging r" for b p q r
    using that by (rule click_ok)
  have 2: "touch_ok (s\<lparr>tc_cursor := c, tc_has_pos := True\<rparr>)" for c using assms by (simp add: touch_ok_def)
  have 3: "touch_ok (r\<lparr>tc_last_tap_ms := n\<rparr>) = touch_ok r" for r n by (simp add: touch_ok_def)
  have 4: "tc_dragging (place_cursor v r) = tc_dragging r" for r by (simp add: place_cursor_def)
  show ?thesis
    unfolding tap_def Let_def
    by (auto simp: 1 2 3 4 assms split: option.splits list.splits intro!: 1)
qed

lemma touch_end_ok:
  assumes "touch_ok s"
  shows "touch_ok (touch_end v now pts changed s) \<and> (pts = [] \<longrightarrow> \<not> tc_dragging (touch_end v now pts changed s))"
proof (cases pts)
  case (Cons p ps)
  then show ?thesis using assms by (simp add: touch_end_def touch_ok_def)
next
  case Nil
  define t where "t = s\<lparr>tc_last_touch := now, tc_finger_down := False, tc_lp := False, tc_max_fingers := 0, tc_pinch_dist := 0\<rparr>"
  define u where "u = (if tc_scale t \<le> 10001 / 10000 then place_cursor v (t\<lparr>tc_scale := 1, tc_pan := (0, 0)\<rparr>) else t)"
  have e: "touch_end v now pts changed s = (if tc_dragging u then drag_release u else if tc_moved s then u
      else tap v now changed (tc_max_fingers s) (now - tc_start_ms s < TAP_MS) u)"
    by (simp add: touch_end_def Nil Let_def t_def u_def)
  have d: "tc_dragging u = tc_dragging s" by (simp add: u_def t_def place_cursor_def)
  have held: "buttons_held (tc_out u) = (if tc_dragging u then [BTN_LEFT] else [])" "1 \<le> tc_scale u" "tc_scale u \<le> MAX_ZOOM"
    using assms by (auto simp: u_def t_def place_cursor_def touch_ok_def MAX_ZOOM_def)
  show ?thesis
  proof (cases "tc_dragging u")
    case True
    then have "touch_ok (drag_release u)"
      using held by (simp add: touch_ok_def drag_release_def send_all_def button_at_def mouse_button_def uinput_button_def
          press_code_def u_def t_def place_cursor_def)
    then show ?thesis using e True Nil by simp
  next
    case False
    then have u: "touch_ok u" using held by (simp add: touch_ok_def u_def t_def place_cursor_def)
    have "tc_dragging (tap v n c f q u) = tc_dragging u" for n c f q
      by (simp add: tap_def Let_def send_all_def place_cursor_def split: option.split list.split)
    then show ?thesis using e False u tap_ok [OF u False] Nil by simp
  qed
qed

lemma gesture_ok: "touch_ok s \<Longrightarrow> touch_ok (gesture_step hyp g s)"
  by (cases g) (simp_all add: touch_start_ok touch_move_ok touch_end_ok long_press_ok)

lemma gestures_ok: "touch_ok (fold (gesture_step hyp) gs touch_init)"
proof -
  have "touch_ok (fold (gesture_step hyp) gs s)" if "touch_ok s" for s
    using that by (induction gs arbitrary: s) (simp_all add: gesture_ok)
  then show ?thesis using touch_ok_init by blast
qed

text \<open>Touch leaves nothing held: after any sequence of touches, moves, timeouts and lifts, what
  the host's injector holds of the buttons is the left one while a drag-select is on and nothing
  otherwise, and a drag-select is on only while a finger is down - so when the last finger lifts,
  every button that was pressed has been released.\<close>

theorem touch_leaves_nothing_held:
  "buttons_held (tc_out (fold (gesture_step hyp) gs touch_init))
     = (if tc_dragging (fold (gesture_step hyp) gs touch_init) then [BTN_LEFT] else [])
   \<and> buttons_held (tc_out (touch_end v now [] changed (fold (gesture_step hyp) gs touch_init))) = []"
proof -
  let ?s = "fold (gesture_step hyp) gs touch_init"
  have "touch_ok ?s" by (rule gestures_ok)
  moreover from this have "touch_ok (touch_end v now [] changed ?s) \<and> \<not> tc_dragging (touch_end v now [] changed ?s)"
    using touch_end_ok by blast
  ultimately show ?thesis unfolding touch_ok_def by (metis (full_types))
qed

text \<open>Nothing on the page listens for a cancelled touch: a drag-select that the system takes over
  stays pressed until a later gesture ends.\<close>

lemma cancelled_touch_holds:
  fixes v :: view
  defines "s \<equiv> gesture_step (\<lambda>x y. 0) (LongPress v) (gesture_step (\<lambda>x y. 0) (TouchStart v 0 [(0, 0)]) touch_init)"
  assumes "vw_dragmode v = None"
  shows "buttons_held (tc_out s) = [BTN_LEFT]"
  using assms by (simp add: touch_start_def first_finger_def long_press_def drag_press_def touch_init_def send_all_def
      buttons_held_def button_at_def mouse_button_def press_code_def uinput_button_def Let_def)

section \<open>Geometry\<close>

text \<open>The cursor is drawn where the host will click: reading the drawn cursor's tip back as a
  pointer position, in any of the four orientations and wherever zoom and layout have moved the
  video, gives the position that is sent - and turning a displacement commutes with it.\<close>

theorem cursor_drawn_where_it_points:
  "norm_pt v (fst (cursor_place v c) + 15 / 10, fst (snd (cursor_place v c)) + 8 / 10) = c
   \<and> fst (norm_pt v (fst p + fst d, snd p + snd d)) - fst (norm_pt v p) =
       fst (rot_delta v (fst d / max (vw_width v) 1, snd d / max (vw_height v) 1))
   \<and> snd (norm_pt v (fst p + fst d, snd p + snd d)) - snd (norm_pt v p) =
       snd (rot_delta v (fst d / max (vw_width v) 1, snd d / max (vw_height v) 1))"
proof -
  have w: "max (vw_width v) 1 \<noteq> 0" "max (vw_height v) 1 \<noteq> 0" by (simp_all add: max_def)
  show ?thesis
    by (cases c, cases p, cases d)
       (simp add: norm_pt_def cursor_place_def rot_delta_def Let_def w diff_divide_distrib add_divide_distrib)
qed

text \<open>Pinching zooms about the fingers: the point of the picture that was under the midpoint of
  the two fingers is under their midpoint afterwards, at a zoom that has followed their distance
  within 1 and 8.\<close>

theorem pinch_keeps_point:
  fixes v :: view and a b :: pt and hyp :: "rat \<Rightarrow> rat \<Rightarrow> rat" and gs :: "gesture list"
  assumes "0 < tc_pinch_dist (fold (gesture_step hyp) gs touch_init)"
  defines "s \<equiv> fold (gesture_step hyp) gs touch_init"
  defines "t \<equiv> pinch hyp v a b s"
  defines "q \<equiv> ((fst (tc_pinch_cen s) - fst (vw_stage v) - fst (tc_pan s)) / tc_scale s,
                 (snd (tc_pinch_cen s) - snd (vw_stage v) - snd (tc_pan s)) / tc_scale s)"
  shows "fst (vw_stage v) + fst (tc_pan t) + tc_scale t * fst q = (fst a + fst b) / 2
   \<and> snd (vw_stage v) + snd (tc_pan t) + tc_scale t * snd q = (snd a + snd b) / 2
   \<and> tc_scale t = max 1 (min (tc_scale s * (max (hyp (fst a - fst b) (snd a - snd b)) 1 / tc_pinch_dist s)) MAX_ZOOM)"
proof -
  have "\<not> tc_pinch_dist s \<le> 0" using assms by simp
  then show ?thesis
    by (cases "vw_stage v", cases "tc_pan s", cases "tc_pinch_cen s")
       (simp add: t_def q_def pinch_def place_cursor_def Let_def)
qed

lemma pinch_keeps_point_witness:
  "\<exists>t :: trackpad. fst (tc_pan t) + tc_scale t * 100 = 100 \<and> tc_scale t = 2"
proof -
  let ?v = "\<lparr> vw_left = 0, vw_top = 0, vw_width = 400, vw_height = 300, vw_rot = None, vw_stage = (0, 0), vw_dragmode = None \<rparr>"
  let ?h = "\<lambda>x y :: rat. \<bar>x\<bar> + \<bar>y\<bar>"
  let ?gs = "[TouchStart ?v 0 [(50, 0), (150, 0)]]"
  have s: "tc_pinch_dist (fold (gesture_step ?h) ?gs touch_init) = 100"
      "tc_pinch_cen (fold (gesture_step ?h) ?gs touch_init) = (100, 0)"
      "tc_pan (fold (gesture_step ?h) ?gs touch_init) = (0, 0)"
      "tc_scale (fold (gesture_step ?h) ?gs touch_init) = 1"
    by (simp_all add: touch_start_def second_finger_def touch_init_def Let_def)
  have "0 < tc_pinch_dist (fold (gesture_step ?h) ?gs touch_init)" using s(1) by simp
  note p = pinch_keeps_point [OF this, of ?v "(0, 0)" "(200, 0)"]
  define t where "t = pinch ?h ?v (0, 0) (200, 0) (fold (gesture_step ?h) ?gs touch_init)"
  have "fst (tc_pan t) + tc_scale t * 100 = 100 \<and> tc_scale t = 2"
    using p [unfolded s, folded t_def] by (simp add: MAX_ZOOM_def)
  then show ?thesis by blast
qed

end
