(* ===== verification/Spec2Isabelle.thy ===== *)
theory Spec2Isabelle
  imports Account Agent Broker Clipboard Codec Crypto Disk FileStream
    FileTransfer Handshake HostMain HostSafety HostSession Identity InputModel Ipc
    Keymap Pairing Protocol RelayApi RelayAuth RelayRegistry RelayRules Rmd_Prelude
    RzClient Settings Signaling Swipe Transport VideoPlane Viewer ViewerApp
    ViewerWindow WebInput WebKeyboard WebSession WebTouch
begin

text \<open>
A verification library for ReachMyDevice, a remote-desktop system in Rust: a host shares its
  screen, a viewer controls it, a rendezvous server introduces the two, and a session between
  them runs over WebRTC.

  Parts and how they interact.  A viewer (\<open>crates/session/src/viewer.rs\<close>) and a host
  (\<open>host.rs\<close>) find each other through the rendezvous server (\<open>apps/rendezvous\<close>): each
  holds a device token of an account, opens a WebSocket with a one-time ticket and relays offers,
  answers and candidates through the hub.  The transport driver (\<open>crates/transport\<close>) turns
  those into a peer connection with data channels and a video track.  Over the control channel
  the viewer sends a Hello with a proof of its key over the DTLS fingerprint it saw, the host
  decides (key allow-list, access password, view-only), and from then on carries out input, zoom,
  clipboard and file messages, and sends encoded video.  In system mode the host splits in two:
  a broker keeps the session and hands frames and input to and from a capture agent per login
  session over a local socket (\<open>crates/ipc\<close>).

  Theories, by component.  The state of each component is a record, its data are datatypes with the
  source's constructors, and each function, handler or thread turn is one definition.

  Rmd_Prelude has the machine types, strings as lists of bytes (a Rust \<open>str\<close> is its UTF-8
  encoding) with the standard library's functions on them, saturating arithmetic, and a model of
  \<open>f64\<close> by exact rationals with infinities and NaN.  Disk is the part of \<open>std::fs\<close> the
  sources call, with an oracle for failing calls.  Crypto holds the cryptographic crates as a
  record of functions, their documented behaviour \<open>crypto_ok\<close>, an instance that has it, and
  the locale of constant-time equality that each comparison of the sources interprets.

  Protocol (\<open>crates/protocol\<close>): the messages of the control channel, versions and the hash
  of clipboard texts.  FileTransfer and FileStream (\<open>filexfer.rs\<close>): the transfer manager with
  its receive handlers and send threads; then two managers over a reliable channel, where an
  accepted file arrives complete and verified, and nothing a peer sends leaves the download
  directory.  Clipboard (\<open>clipboard.rs\<close>): the sync thread, which does not echo.

  Identity (\<open>identity.rs\<close>): access proofs, the wrapped key file, passphrase sources, the
  atomic write and the store of known peers; what is saved is loaded again and an interrupted
  write leaves the old file.  Settings (\<open>settings.rs\<close>): parsing, precedence and round trip.
  Pairing (\<open>pairing.rs\<close>, \<open>pairing_client.rs\<close>): tickets, sealed bundles, codes and the
  client's frames.

  Keymap and InputModel (\<open>crates/input\<close>): the key tables and the three injectors, with what
  they leave held.  Codec (\<open>crates/codec\<close>): the zoom crop, the keyframe scan and the choice
  of codec.  Ipc (\<open>crates/ipc\<close>): messages and framing between broker and agent.

  Transport (\<open>crates/transport\<close>): the driver's events, candidate buffer, data channels,
  video clock and TURN requests.  VideoPlane (\<open>host.rs\<close>, \<open>crates/capture\<close>): capture
  control, encode size and bitrate.  HostSession and HostSafety (\<open>host.rs\<close>): the session core
  and what an unauthorized peer, a view-only session and a departed viewer can no longer do.
  Viewer (\<open>viewer.rs\<close>) and Handshake: the viewer's session, and the two ends together.
  Broker (\<open>broker.rs\<close>) and Agent (\<open>agent.rs\<close>): system mode.

  RelayAuth (\<open>auth.rs\<close>, \<open>throttle.rs\<close>): tokens, one-time tickets, login throttle.
  Signaling (\<open>signaling.rs\<close>): the hub, pairing rooms and rate limits.  RzClient
  (\<open>rendezvous.rs\<close> of the session crate): the client of that hub.  RelayApi and RelayRules
  (\<open>api.rs\<close>, \<open>db.rs\<close>, \<open>config.rs\<close>): the HTTP API over the tables, their constraints,
  ownership of devices, accounts by policy, and tokens.  RelayRegistry is the abstract registry of
  device ids the API refines.  Account (\<open>account.rs\<close>): the
  client of that API, and that the two agree.

  HostMain (\<open>apps/host/src/main.rs\<close>) is the daemon's start: its command line, settings
  commands and tunables, the ICE fetch, the device token and its refresh, the configuration and the
  refusal of an open relay, and the thread that restarts it for a fresh relay credential.

  ViewerApp (\<open>apps/viewer/src/main.rs\<close>) is the desktop viewer: its screens and their buttons,
  the background jobs, sessions and what their updates do, quick-connect, and window events; with
  it, that screens and sessions agree in every run, and which host a session can be with.
  ViewerWindow compares its key table with the browser's, shows the letterbox right and which
  events reach the host, and collects the corners where it does something else than meant.

  The browser viewer (\<open>apps/web-viewer\<close>): WebInput holds its key and modifier tables
  and what the three injectors make of the keys it sends.  Swipe is the swipe-typing decoder:
  resampling of the path, the shape distance and the ranking of the dictionary.  WebTouch is the
  touch machine (taps, drags, double-tap drag, pinch zoom, pan) and the cursor it draws.
  WebKeyboard is the on-screen keyboard and the hidden text field, read back by the host as a US
  layout.  WebSession is the browser's session: connecting, the answers of the host, statistics,
  and recovery of a lost connection.  Coordinates are rationals; square roots
  (the length of a vector) are an argument of the definitions, of which the proofs use the laws of
  a norm.  An \<open>async\<close> function is cut at its awaits, each piece one definition.

  What the lemmas show.  Safety of authorization is stated over arbitrary control messages and
  events; invariants are preserved by each operation and then over any run; the file transfer,
  the handshake, the pairing exchange and token refresh are also shown to succeed between honest
  ends.  Round trips cover the wire and file formats, bounds the rates, sizes and pointers.

  Bounds and fuel.  Integers that the sources keep at a width and compute on are words; counters
  that only grow, times and sizes far from their limits are naturals.  The exchange of file
  messages runs on fuel, and completion is proved for an explicit number of rounds.  Loops over
  strings and frames recurse on the length.  The resampling loop of Swipe
  re-examines a segment after cutting it, so it runs on fuel, length of the path plus the number
  of samples, which is shown to reach its end.

  Parameters.  Cryptography, base64, HMAC, argon2, JSON, protobuf decoding, the operating system's
  answers, clocks and random bytes are arguments or oracles of the definitions that use them.

  Not modelled.  Platform capture backends, the codecs themselves, audio capture and playback,
  the WebRTC crate, SQLite beyond its constraints, passkeys (the \<open>webauthn-rs\<close> crate decides
  them), the drawing of the apps' windows, the host's service installers and tray, logging, thread scheduling and timing below the
  order of steps.

  Where the model is coarser than the code.  An \<open>fsync\<close> leaves the contents as they are: the
  disk has no volatile cache, so a crash is the death of the process between two calls, not a loss
  of power.  A handler of the HTTP API, its SQL statements included, is one step, so two requests
  do not interleave inside it.  The relay's token bucket counts in exact rationals and
  milliseconds where the code has \<open>f64\<close> seconds.  File names are UTF-8, so
  \<open>to_string_lossy\<close> changes nothing.  When the screen's geometry changes, the session opens a
  new injector, and what the old one held leaves the state with it: statements on held keys are
  about the injector in use.  A file read twice in a row is read once.  Checked integer arithmetic
  is that of a release build, which wraps.
\<close>

end
